(* ===== verification/Prelude.thy ===== *)
theory Prelude
  imports Main "HOL-Library.Word"
begin

unbundle bit_operations_syntax

text \<open>
  What every component shares: the result type of fallible code, the byte-buffer operations
  of \<^verbatim>\<open>bytes::Buf\<close> and \<^verbatim>\<open>BufMut\<close> that the codecs call, and the string operations of the
  Rust standard library that the masking code calls.

  Representation. A byte is an \<^typ>\<open>8 word\<close> and a buffer (\<^verbatim>\<open>Bytes\<close>, \<^verbatim>\<open>BytesMut\<close>, \<^verbatim>\<open>&[u8]\<close>,
  \<^verbatim>\<open>Vec<u8>\<close>) a list of bytes. A Rust \<^verbatim>\<open>str\<close> or \<^verbatim>\<open>String\<close> is the \<^typ>\<open>string\<close> of its UTF-8
  bytes, so \<open>length\<close> is Rust's \<^verbatim>\<open>len\<close> and an index is a byte index. Lengths and counters of
  type \<^verbatim>\<open>usize\<close> are natural numbers; wire integers keep their width.
\<close>

named_theorems no_panic \<open>operations that never panic\<close>
named_theorems buf_simps \<open>reads from a buffer that is long enough\<close>

section \<open>Results\<close>

text \<open>
  \<open>Bail msg args\<close> is an \<^verbatim>\<open>anyhow\<close> error: its format string and the numbers it prints.
  \<open>Panic\<close> is a Rust panic (a read past the end of a buffer): a separate outcome, so that its
  absence is a theorem and not a modelling assumption.
\<close>

datatype error = Bail string "nat list"

datatype 'a result = Ok 'a | Err error | Panic

fun rbind :: "'a result \<Rightarrow> ('a \<Rightarrow> 'b result) \<Rightarrow> 'b result" where
  "rbind (Ok x) f = f x"
| "rbind (Err e) f = Err e"
| "rbind Panic f = Panic"

abbreviation bail :: "string \<Rightarrow> 'a result" where
  "bail m \<equiv> Err (Bail m [])"

text \<open>\<^verbatim>\<open>Result::ok().unwrap_or_default()\<close> and kin: a parse error is replaced, a panic is not.\<close>

fun or_default :: "'a \<Rightarrow> 'a result \<Rightarrow> 'a result" where
  "or_default d (Ok x) = Ok x"
| "or_default d (Err e) = Ok d"
| "or_default d Panic = Panic"

lemma rbind_cong [fundef_cong]:
  "m = m' \<Longrightarrow> (\<And>x. m' = Ok x \<Longrightarrow> f x = g x) \<Longrightarrow> rbind m f = rbind m' g"
  by (cases m') auto

lemma rbind_eq_Ok_iff: "rbind m f = Ok y \<longleftrightarrow> (\<exists>x. m = Ok x \<and> f x = Ok y)"
  by (cases m) auto

lemma rbind_eq_Err_iff: "rbind m f = Err e \<longleftrightarrow> m = Err e \<or> (\<exists>x. m = Ok x \<and> f x = Err e)"
  by (cases m) auto

lemma rbind_eq_Panic_iff: "rbind m f = Panic \<longleftrightarrow> m = Panic \<or> (\<exists>x. m = Ok x \<and> f x = Panic)"
  by (cases m) auto

lemma rbind_assoc [simp]: "rbind (rbind m f) g = rbind m (\<lambda>x. rbind (f x) g)"
  by (cases m) auto

lemma rbind_no_panic [no_panic, intro]:
  "m \<noteq> Panic \<Longrightarrow> (\<And>x. m = Ok x \<Longrightarrow> f x \<noteq> Panic) \<Longrightarrow> rbind m f \<noteq> Panic"
  by (cases m) auto

lemma or_default_no_panic [no_panic, intro]: "m \<noteq> Panic \<Longrightarrow> or_default d m \<noteq> Panic"
  by (cases m) auto

lemma or_default_eq_Panic_iff [simp]: "or_default d m = Panic \<longleftrightarrow> m = Panic"
  by (cases m) auto

text \<open>A loop over a list whose body may fail: the first failure ends it.\<close>

fun rmap :: "('a \<Rightarrow> 'b result) \<Rightarrow> 'a list \<Rightarrow> 'b list result" where
  "rmap f [] = Ok []"
| "rmap f (x # xs) = rbind (f x) (\<lambda>y. rbind (rmap f xs) (\<lambda>ys. Ok (y # ys)))"

lemma rmap_Ok: "(\<And>x. x \<in> set xs \<Longrightarrow> f x = Ok (g x)) \<Longrightarrow> rmap f xs = Ok (map g xs)"
  by (induction xs) auto

section \<open>Bytes and wire integers\<close>

type_synonym byte = "8 word"
type_synonym u16 = "16 word"
type_synonym u32 = "32 word"
type_synonym u64 = "64 word"

fun le_nat :: "byte list \<Rightarrow> nat" where
  "le_nat [] = 0"
| "le_nat (b # bs) = unat b + 256 * le_nat bs"

fun le_bytes :: "nat \<Rightarrow> nat \<Rightarrow> byte list" where
  "le_bytes 0 k = []"
| "le_bytes (Suc n) k = of_nat (k mod 256) # le_bytes n (k div 256)"

definition be_nat :: "byte list \<Rightarrow> nat" where
  "be_nat bs = le_nat (rev bs)"

definition be_bytes :: "nat \<Rightarrow> nat \<Rightarrow> byte list" where
  "be_bytes n k = rev (le_bytes n k)"

lemma unat_byte_lt [simp]: "unat (b :: byte) < 256"
  using unsigned_less [of b] by simp

lemma length_le_bytes [simp]: "length (le_bytes n k) = n"
  by (induction n arbitrary: k) auto

lemma length_be_bytes [simp]: "length (be_bytes n k) = n"
  by (simp add: be_bytes_def)

lemma le_nat_le_bytes [simp]: "le_nat (le_bytes n k) = k mod 256 ^ n"
proof (induction n arbitrary: k)
  case (Suc n)
  have "k mod 256 + 256 * (k div 256 mod 256 ^ n) = k mod 256 ^ Suc n"
    by (simp add: mod_mult2_eq)
  then show ?case
    by (simp add: Suc unat_of_nat)
qed auto

lemma le_bytes_le_nat: "le_bytes (length bs) (le_nat bs) = bs"
proof (induction bs)
  case (Cons b bs)
  have "(unat b + 256 * le_nat bs) mod 256 = unat b"
    by simp
  moreover have "(unat b + 256 * le_nat bs) div 256 = le_nat bs"
    by simp
  ultimately show ?case
    using Cons by simp
qed auto

lemma le_nat_lt: "le_nat bs < 256 ^ length bs"
proof (induction bs)
  case (Cons b bs)
  have "unat b + 256 * le_nat bs < 256 * Suc (le_nat bs)"
    by simp
  also have "\<dots> \<le> 256 * 256 ^ length bs"
    using Cons by (intro mult_le_mono2) simp
  finally show ?case by simp
qed auto

lemma be_nat_be_bytes [simp]: "be_nat (be_bytes n k) = k mod 256 ^ n"
  by (simp add: be_nat_def be_bytes_def)

lemma be_nat_lt: "be_nat bs < 256 ^ length bs"
  using le_nat_lt [of "rev bs"] by (simp add: be_nat_def)

lemma be_bytes_be_nat: "length bs = n \<Longrightarrow> be_bytes n (be_nat bs) = bs"
  using le_bytes_le_nat [of "rev bs"] by (simp add: be_nat_def be_bytes_def)


text \<open>\<open>put_uN_le\<close>, \<open>put_uN\<close>: a wire integer as bytes, little and big endian.\<close>

definition put_u16_le :: "u16 \<Rightarrow> byte list" where
  "put_u16_le w = le_bytes 2 (unat w)"

definition put_u32_le :: "u32 \<Rightarrow> byte list" where
  "put_u32_le w = le_bytes 4 (unat w)"

definition put_u64_le :: "u64 \<Rightarrow> byte list" where
  "put_u64_le w = le_bytes 8 (unat w)"

definition put_u16 :: "u16 \<Rightarrow> byte list" where
  "put_u16 w = be_bytes 2 (unat w)"

definition put_u32 :: "u32 \<Rightarrow> byte list" where
  "put_u32 w = be_bytes 4 (unat w)"

lemma length_put [simp]:
  "length (put_u16_le a) = 2" "length (put_u32_le b) = 4" "length (put_u64_le c) = 8"
  "length (put_u16 a) = 2" "length (put_u32 b) = 4"
  by (simp_all add: put_u16_le_def put_u32_le_def put_u64_le_def put_u16_def put_u32_def)

section \<open>Reading from a buffer\<close>

text \<open>
  Each operation of \<^verbatim>\<open>bytes::Buf\<close> takes the buffer and returns the value read and what is
  left. Like the crate's, they panic on a buffer that is too short.
\<close>

definition advance :: "nat \<Rightarrow> byte list \<Rightarrow> byte list result" where
  "advance n b = (if length b < n then Panic else Ok (drop n b))"

definition split_to :: "nat \<Rightarrow> byte list \<Rightarrow> (byte list \<times> byte list) result" where
  "split_to n b = (if length b < n then Panic else Ok (take n b, drop n b))"

definition get_u8 :: "byte list \<Rightarrow> (byte \<times> byte list) result" where
  "get_u8 b = (case b of [] \<Rightarrow> Panic | x # r \<Rightarrow> Ok (x, r))"

definition get_u16_le :: "byte list \<Rightarrow> (u16 \<times> byte list) result" where
  "get_u16_le b = rbind (split_to 2 b) (\<lambda>(v, r). Ok (of_nat (le_nat v), r))"

definition get_u32_le :: "byte list \<Rightarrow> (u32 \<times> byte list) result" where
  "get_u32_le b = rbind (split_to 4 b) (\<lambda>(v, r). Ok (of_nat (le_nat v), r))"

definition get_u16 :: "byte list \<Rightarrow> (u16 \<times> byte list) result" where
  "get_u16 b = rbind (split_to 2 b) (\<lambda>(v, r). Ok (of_nat (be_nat v), r))"

definition get_u32 :: "byte list \<Rightarrow> (u32 \<times> byte list) result" where
  "get_u32 b = rbind (split_to 4 b) (\<lambda>(v, r). Ok (of_nat (be_nat v), r))"

text \<open>\<^verbatim>\<open>buf.iter().position(|&b| b == 0)\<close>.\<close>

fun find_nul :: "byte list \<Rightarrow> nat option" where
  "find_nul [] = None"
| "find_nul (b # bs) = (if b = 0 then Some 0 else map_option Suc (find_nul bs))"

lemma advance_long [buf_simps]: "n \<le> length b \<Longrightarrow> advance n b = Ok (drop n b)"
  by (simp add: advance_def)

lemma split_to_long [buf_simps]: "n \<le> length b \<Longrightarrow> split_to n b = Ok (take n b, drop n b)"
  by (simp add: split_to_def)

lemma get_u8_long [buf_simps]: "1 \<le> length b \<Longrightarrow> get_u8 b = Ok (hd b, drop 1 b)"
  by (cases b) (auto simp: get_u8_def)

lemma get_u16_le_long [buf_simps]:
  "2 \<le> length b \<Longrightarrow> get_u16_le b = Ok (of_nat (le_nat (take 2 b)), drop 2 b)"
  by (simp add: get_u16_le_def split_to_def)

lemma get_u32_le_long [buf_simps]:
  "4 \<le> length b \<Longrightarrow> get_u32_le b = Ok (of_nat (le_nat (take 4 b)), drop 4 b)"
  by (simp add: get_u32_le_def split_to_def)

lemma get_u16_long [buf_simps]:
  "2 \<le> length b \<Longrightarrow> get_u16 b = Ok (of_nat (be_nat (take 2 b)), drop 2 b)"
  by (simp add: get_u16_def split_to_def)

lemma get_u32_long [buf_simps]:
  "4 \<le> length b \<Longrightarrow> get_u32 b = Ok (of_nat (be_nat (take 4 b)), drop 4 b)"
  by (simp add: get_u32_def split_to_def)

text \<open>Reading back what was written, whatever follows it.\<close>

lemma of_nat_unat_mod [simp]:
  "of_nat (unat (a :: u16) mod 65536) = a" "of_nat (unat (b :: u32) mod 4294967296) = b"
  "of_nat (unat (c :: u64) mod 18446744073709551616) = c"
  using unsigned_less [of a, where 'a = nat] unsigned_less [of b, where 'a = nat]
    unsigned_less [of c, where 'a = nat] by simp_all

lemma get_u8_put [simp]: "get_u8 (x # r) = Ok (x, r)"
  by (simp add: get_u8_def)

lemma get_u16_le_put [simp]: "get_u16_le (put_u16_le w @ r) = Ok (w, r)"
  by (simp add: get_u16_le_def split_to_def put_u16_le_def)

lemma get_u32_le_put [simp]: "get_u32_le (put_u32_le w @ r) = Ok (w, r)"
  by (simp add: get_u32_le_def split_to_def put_u32_le_def)

lemma get_u16_put [simp]: "get_u16 (put_u16 w @ r) = Ok (w, r)"
  by (simp add: get_u16_def split_to_def put_u16_def)

lemma get_u32_put [simp]: "get_u32 (put_u32 w @ r) = Ok (w, r)"
  by (simp add: get_u32_def split_to_def put_u32_def)

lemma advance_append [simp]: "n = length xs \<Longrightarrow> advance n (xs @ r) = Ok r"
  by (simp add: advance_def)

lemma split_to_append [simp]: "n = length xs \<Longrightarrow> split_to n (xs @ r) = Ok (xs, r)"
  by (simp add: split_to_def)

lemma find_nul_append [simp]: "0 \<notin> set xs \<Longrightarrow> find_nul (xs @ 0 # r) = Some (length xs)"
  by (induction xs) auto

lemma find_nul_SomeD: "find_nul bs = Some n \<Longrightarrow> n < length bs \<and> bs ! n = 0 \<and> 0 \<notin> set (take n bs)"
  by (induction bs arbitrary: n) (auto split: if_splits)

lemma find_nul_None_iff: "find_nul bs = None \<longleftrightarrow> 0 \<notin> set bs"
  by (induction bs) auto

lemma find_nul_append_Some: "find_nul xs = Some n \<Longrightarrow> find_nul (xs @ ys) = Some n"
  by (induction xs arbitrary: n) (auto split: if_splits)

lemma find_nul_lt [dest]: "find_nul bs = Some n \<Longrightarrow> n < length bs"
  by (simp add: find_nul_SomeD)

section \<open>Bytes joined by shifting\<close>

lemma le_bytes4: "le_bytes 4 k = [of_nat (k mod 256), of_nat (k div 256 mod 256),
    of_nat (k div 256 div 256 mod 256), of_nat (k div 256 div 256 div 256 mod 256)]"
proof -
  have 4: "(4 :: nat) = Suc (Suc (Suc (Suc 0)))" by simp
  show ?thesis unfolding 4 le_bytes.simps ..
qed

lemma list_split: "n \<le> length xs \<Longrightarrow> \<exists>a b. xs = a @ b \<and> length a = n"
  by (metis append_take_drop_id length_take min.absorb2)

lemma le_nat_append: "le_nat (xs @ ys) = le_nat xs + 256 ^ length xs * le_nat ys"
  by (induction xs) (auto simp: algebra_simps)

lemma word_bits_above: "unat w < 2 ^ k \<Longrightarrow> k \<le> i \<Longrightarrow> \<not> bit (w :: 'a::len word) i"
proof -
  assume w: "unat w < 2 ^ k" and i: "k \<le> i"
  have "bit w i \<longleftrightarrow> bit (unat w) i" by (simp add: bit_simps)
  also have "take_bit k (unat w) = unat w" using w by (simp add: take_bit_eq_mod)
  then have "\<not> bit (unat w) i" using i by (metis bit_take_bit_iff not_le)
  finally show ?thesis by simp
qed

lemma or_push_bit: "unat w < 2 ^ k \<Longrightarrow> w OR push_bit k v = w + 2 ^ k * (v :: 'a::len word)"
proof -
  assume w: "unat w < 2 ^ k"
  have "w AND push_bit k v = 0"
    using word_bits_above [OF w] by (intro bit_word_eqI) (auto simp: bit_simps)
  then show ?thesis
    by (simp add: disjunctive_add_eq_or [symmetric] push_bit_eq_mult mult.commute)
qed

lemma or_le_nat:
  assumes "length bs < 8"
  shows "(of_nat (le_nat bs) :: u64) OR push_bit (8 * length bs) (ucast b) = of_nat (le_nat (bs @ [b]))"
proof -
  have p: "(256 :: nat) ^ length bs = 2 ^ (8 * length bs)"
    by (simp add: power_mult)
  have lt: "le_nat bs < 2 ^ (8 * length bs)"
    using le_nat_lt [of bs] p by simp
  also have "(2 :: nat) ^ (8 * length bs) \<le> 2 ^ 56"
    using assms by (intro power_increasing) auto
  finally have "unat (of_nat (le_nat bs) :: u64) = le_nat bs"
    by (simp add: unat_of_nat)
  with lt have "unat (of_nat (le_nat bs) :: u64) < 2 ^ (8 * length bs)" by simp
  then show ?thesis
    by (simp add: or_push_bit le_nat_append p)
qed

lemma unat_and_255: "unat ((w :: 'a::len word) AND 0xff) = unat w mod 256"
proof -
  have "w AND 0xff = take_bit 8 w" by (simp add: take_bit_eq_mask mask_eq_exp_minus_1)
  then have "unat (w AND 0xff) = take_bit 8 (unat w)" by (simp only: unsigned_take_bit_eq)
  then show ?thesis by (simp add: take_bit_eq_mod)
qed

lemma nat_and_255 [simp]: "(n :: nat) AND 0xff = n mod 256"
proof -
  have "n AND 0xff = take_bit 8 n" by (simp add: take_bit_eq_mask mask_eq_exp_minus_1)
  then show ?thesis by (simp add: take_bit_eq_mod)
qed

text \<open>The low byte of a shifted word, as the encoders write it.\<close>

lemma shifted_byte:
  "(ucast (drop_bit n (w :: 'a::len word) AND 0xff) :: byte) = of_nat (unat w div 2 ^ n mod 256)"
proof -
  have "(ucast (drop_bit n w AND 0xff) :: byte) = of_nat (unat (drop_bit n w AND 0xff))" by simp
  also have "unat (drop_bit n w AND 0xff) = unat w div 2 ^ n mod 256"
    unfolding unat_and_255 unat_drop_bit_eq by (simp add: drop_bit_eq_div)
  finally show ?thesis .
qed

lemma low_byte: "(ucast ((w :: 'a::len word) AND 0xff) :: byte) = of_nat (unat w mod 256)"
  using shifted_byte [of 0 w] by simp

end
