(* ===== verification/Strings.thy ===== *)
theory Strings
  imports Prelude
begin

text \<open>
  The string operations of the Rust standard library that the program calls, on strings held
  as their UTF-8 bytes: UTF-8 validation and lossy decoding, \<^verbatim>\<open>trim\<close> over the Unicode
  White_Space characters, \<^verbatim>\<open>to_ascii_lowercase\<close>, \<^verbatim>\<open>split_whitespace\<close>, two-character
  \<^verbatim>\<open>replace\<close>, and byte slicing at a character boundary. The lemmas show that normalising an
  identifier is idempotent, which the rule lookup relies on.
\<close>

section \<open>Bytes and strings\<close>

definition str_of_bytes :: "byte list \<Rightarrow> string" where
  "str_of_bytes bs = map (\<lambda>b. char_of (unat b)) bs"

definition bytes_of_str :: "string \<Rightarrow> byte list" where
  "bytes_of_str s = map (\<lambda>c. of_nat (of_char c)) s"

lemma of_char_lt [simp]: "(of_char c :: nat) < 256"
  using mod_less_divisor [of 256 "of_char c :: nat"] by simp

lemma length_bytes_of_str [simp]: "length (bytes_of_str s) = length s"
  by (simp add: bytes_of_str_def)

lemma length_str_of_bytes [simp]: "length (str_of_bytes bs) = length bs"
  by (simp add: str_of_bytes_def)

lemma str_of_bytes_of_str [simp]: "str_of_bytes (bytes_of_str s) = s"
  by (induction s) (auto simp: str_of_bytes_def bytes_of_str_def unat_of_nat)

lemma bytes_of_str_of_bytes [simp]: "bytes_of_str (str_of_bytes bs) = bs"
  by (induction bs) (auto simp: str_of_bytes_def bytes_of_str_def)

lemma str_of_bytes_append [simp]: "str_of_bytes (xs @ ys) = str_of_bytes xs @ str_of_bytes ys"
  by (simp add: str_of_bytes_def)

lemma str_of_bytes_eq_Nil_iff [simp]: "str_of_bytes bs = [] \<longleftrightarrow> bs = []"
  by (simp add: str_of_bytes_def)

lemma bytes_of_str_eq_Nil_iff [simp]: "bytes_of_str s = [] \<longleftrightarrow> s = []"
  by (simp add: bytes_of_str_def)

section \<open>UTF-8\<close>

text \<open>
  \<open>utf8_chunk bs\<close> looks at the head of a non-empty buffer: whether a well-formed sequence
  starts there, and how many bytes it has (or, when it does not, how many bytes form the
  maximal ill-formed prefix that a lossy decode replaces by one U+FFFD). A missing byte reads
  as 0, which is no continuation byte.
\<close>

definition utf8_cont :: "byte \<Rightarrow> bool" where
  "utf8_cont b \<longleftrightarrow> 0x80 \<le> b \<and> b \<le> 0xBF"

definition byte_at :: "byte list \<Rightarrow> nat \<Rightarrow> byte" where
  "byte_at bs i = (if i < length bs then bs ! i else 0)"

definition utf8_second3 :: "byte \<Rightarrow> byte \<Rightarrow> bool" where
  "utf8_second3 b c \<longleftrightarrow>
     (if b = 0xE0 then 0xA0 \<le> c \<and> c \<le> 0xBF
      else if b = 0xED then 0x80 \<le> c \<and> c \<le> 0x9F
      else utf8_cont c)"

definition utf8_second4 :: "byte \<Rightarrow> byte \<Rightarrow> bool" where
  "utf8_second4 b c \<longleftrightarrow>
     (if b = 0xF0 then 0x90 \<le> c \<and> c \<le> 0xBF
      else if b = 0xF4 then 0x80 \<le> c \<and> c \<le> 0x8F
      else utf8_cont c)"

definition utf8_chunk :: "byte list \<Rightarrow> bool \<times> nat" where
  "utf8_chunk bs =
     (let b = byte_at bs 0 in
      if b < 0x80 then (True, 1)
      else if 0xC2 \<le> b \<and> b \<le> 0xDF then
        (if utf8_cont (byte_at bs 1) then (True, 2) else (False, 1))
      else if 0xE0 \<le> b \<and> b \<le> 0xEF then
        (if \<not> utf8_second3 b (byte_at bs 1) then (False, 1)
         else if \<not> utf8_cont (byte_at bs 2) then (False, 2)
         else (True, 3))
      else if 0xF0 \<le> b \<and> b \<le> 0xF4 then
        (if \<not> utf8_second4 b (byte_at bs 1) then (False, 1)
         else if \<not> utf8_cont (byte_at bs 2) then (False, 2)
         else if \<not> utf8_cont (byte_at bs 3) then (False, 3)
         else (True, 4))
      else (False, 1))"

lemma utf8_chunk_pos: "0 < snd (utf8_chunk bs)"
  by (simp add: utf8_chunk_def Let_def)

function utf8_chunks :: "byte list \<Rightarrow> (bool \<times> byte list) list" where
  "utf8_chunks bs =
     (if bs = [] then []
      else let (ok, n) = utf8_chunk bs in (ok, take n bs) # utf8_chunks (drop n bs))"
  by pat_completeness auto
termination
proof (relation "measure length", goal_cases)
  case (2 bs p ok n)
  then have "0 < n" using utf8_chunk_pos [of bs] by (metis snd_conv)
  with 2 show ?case by auto
qed auto

declare utf8_chunks.simps [simp del]

lemma utf8_chunks_Nil [simp]: "utf8_chunks [] = []"
  by (subst utf8_chunks.simps) simp

definition utf8_valid :: "byte list \<Rightarrow> bool" where
  "utf8_valid bs \<longleftrightarrow> (\<forall>c \<in> set (utf8_chunks bs). fst c)"

definition from_utf8 :: "byte list \<Rightarrow> string option" where
  "from_utf8 bs = (if utf8_valid bs then Some (str_of_bytes bs) else None)"

definition from_utf8_lossy :: "byte list \<Rightarrow> string" where
  "from_utf8_lossy bs =
     concat (map (\<lambda>(ok, c). str_of_bytes (if ok then c else [0xEF, 0xBF, 0xBD])) (utf8_chunks bs))"

definition ascii :: "byte list \<Rightarrow> bool" where
  "ascii bs \<longleftrightarrow> (\<forall>b \<in> set bs. b < 0x80)"

lemma concat_utf8_chunks: "concat (map snd (utf8_chunks bs)) = bs"
proof (induction bs rule: utf8_chunks.induct)
  case (1 bs)
  show ?case
  proof (cases "bs = []")
    case False
    obtain ok n where c: "utf8_chunk bs = (ok, n)" by fastforce
    with 1 False have "concat (map snd (utf8_chunks (drop n bs))) = drop n bs" by metis
    with c False show ?thesis by (subst utf8_chunks.simps) simp
  qed simp
qed

lemma utf8_chunks_ascii: "ascii bs \<Longrightarrow> utf8_chunks bs = map (\<lambda>b. (True, [b])) bs"
proof (induction bs)
  case (Cons b bs)
  then have "utf8_chunk (b # bs) = (True, 1)"
    by (simp add: utf8_chunk_def byte_at_def ascii_def)
  with Cons show ?case
    by (subst utf8_chunks.simps) (simp add: ascii_def)
qed simp

lemma utf8_valid_ascii: "ascii bs \<Longrightarrow> utf8_valid bs"
  by (simp add: utf8_valid_def utf8_chunks_ascii)

lemma from_utf8_ascii: "ascii bs \<Longrightarrow> from_utf8 bs = Some (str_of_bytes bs)"
  by (simp add: from_utf8_def utf8_valid_ascii)

text \<open>On valid UTF-8 the lossy decode loses nothing.\<close>

lemma from_utf8_lossy_valid:
  assumes "utf8_valid bs"
  shows "from_utf8_lossy bs = str_of_bytes bs"
proof -
  have "map (\<lambda>(ok, c). str_of_bytes (if ok then c else [0xEF, 0xBF, 0xBD])) (utf8_chunks bs)
      = map (str_of_bytes \<circ> snd) (utf8_chunks bs)"
    using assms by (intro map_cong) (auto simp: utf8_valid_def)
  moreover have "concat (map (str_of_bytes \<circ> snd) xs) = str_of_bytes (concat (map snd xs))"
    for xs :: "(bool \<times> byte list) list"
    by (induction xs) (auto simp: str_of_bytes_def)
  ultimately show ?thesis
    unfolding from_utf8_lossy_def by (simp only: concat_utf8_chunks)
qed


section \<open>Trimming and lower-casing\<close>

text \<open>
  A White_Space character is one, two or three bytes in UTF-8: U+0009 to U+000D and U+0020;
  U+0085 and U+00A0; U+1680, U+2000 to U+200A, U+2028, U+2029, U+202F, U+205F and U+3000.
\<close>

definition ws1 :: "nat \<Rightarrow> bool" where
  "ws1 a \<longleftrightarrow> (9 \<le> a \<and> a \<le> 13) \<or> a = 32"

definition ws2 :: "nat \<Rightarrow> nat \<Rightarrow> bool" where
  "ws2 a b \<longleftrightarrow> a = 0xC2 \<and> (b = 0x85 \<or> b = 0xA0)"

definition ws3 :: "nat \<Rightarrow> nat \<Rightarrow> nat \<Rightarrow> bool" where
  "ws3 a b c \<longleftrightarrow>
     a = 0xE1 \<and> b = 0x9A \<and> c = 0x80
   \<or> a = 0xE2 \<and> b = 0x80 \<and> (0x80 \<le> c \<and> c \<le> 0x8A \<or> c = 0xA8 \<or> c = 0xA9 \<or> c = 0xAF)
   \<or> a = 0xE2 \<and> b = 0x81 \<and> c = 0x9F
   \<or> a = 0xE3 \<and> b = 0x80 \<and> c = 0x80"

definition char_code :: "char \<Rightarrow> nat" where
  "char_code c = of_char c"

text \<open>The bytes of the white-space character at the head of a string (0 when there is none),
  and at the end of a reversed one.\<close>

fun ws_head :: "string \<Rightarrow> nat" where
  "ws_head [] = 0"
| "ws_head [a] = (if ws1 (char_code a) then 1 else 0)"
| "ws_head [a, b] = (if ws1 (char_code a) then 1 else if ws2 (char_code a) (char_code b) then 2 else 0)"
| "ws_head (a # b # c # r) =
     (if ws1 (char_code a) then 1 else if ws2 (char_code a) (char_code b) then 2
      else if ws3 (char_code a) (char_code b) (char_code c) then 3 else 0)"

fun ws_last :: "string \<Rightarrow> nat" where
  "ws_last [] = 0"
| "ws_last [a] = (if ws1 (char_code a) then 1 else 0)"
| "ws_last [b, a] = (if ws1 (char_code b) then 1 else if ws2 (char_code a) (char_code b) then 2 else 0)"
| "ws_last (c # b # a # r) =
     (if ws1 (char_code c) then 1 else if ws2 (char_code b) (char_code c) then 2
      else if ws3 (char_code a) (char_code b) (char_code c) then 3 else 0)"

lemma ws_nonempty: "0 < ws_head s \<Longrightarrow> s \<noteq> []" "0 < ws_last s \<Longrightarrow> s \<noteq> []"
  by auto

function trim_start :: "string \<Rightarrow> string" where
  "trim_start s = (if ws_head s = 0 then s else trim_start (drop (ws_head s) s))"
  by pat_completeness auto
termination
  by (relation "measure length") (auto intro!: diff_less simp: ws_nonempty)

function trim_rev :: "string \<Rightarrow> string" where
  "trim_rev s = (if ws_last s = 0 then s else trim_rev (drop (ws_last s) s))"
  by pat_completeness auto
termination
  by (relation "measure length") (auto intro!: diff_less simp: ws_nonempty)

declare trim_start.simps [simp del] trim_rev.simps [simp del]

definition trim_end :: "string \<Rightarrow> string" where
  "trim_end s = rev (trim_rev (rev s))"

definition trim :: "string \<Rightarrow> string" where
  "trim s = trim_end (trim_start s)"

definition ascii_lower :: "char \<Rightarrow> char" where
  "ascii_lower c = (if 65 \<le> char_code c \<and> char_code c \<le> 90 then char_of (char_code c + 32) else c)"

definition to_ascii_lowercase :: "string \<Rightarrow> string" where
  "to_ascii_lowercase s = map ascii_lower s"

text \<open>\<^verbatim>\<open>split_whitespace().next()\<close>.\<close>

function until_ws :: "string \<Rightarrow> string" where
  "until_ws s = (if s = [] \<or> ws_head s \<noteq> 0 then [] else hd s # until_ws (tl s))"
  by pat_completeness auto
termination
  by (relation "measure length") auto

declare until_ws.simps [simp del]

definition first_token :: "string \<Rightarrow> string option" where
  "first_token s = (let t = trim_start s in if t = [] then None else Some (until_ws t))"

lemma ascii_lower_idem [simp]: "ascii_lower (ascii_lower c) = ascii_lower c"
  by (simp add: ascii_lower_def char_code_def)

lemma code_ascii_lower: "char_code (ascii_lower c) = (if 65 \<le> char_code c \<and> char_code c \<le> 90 then char_code c + 32 else char_code c)"
  by (simp add: ascii_lower_def char_code_def)

lemma ws_lower [simp]:
  "ws1 (char_code (ascii_lower a)) = ws1 (char_code a)"
  "ws2 (char_code (ascii_lower a)) (char_code (ascii_lower b)) = ws2 (char_code a) (char_code b)"
  "ws3 (char_code (ascii_lower a)) (char_code (ascii_lower b)) (char_code (ascii_lower c)) = ws3 (char_code a) (char_code b) (char_code c)"
  by (auto simp: ws1_def ws2_def ws3_def code_ascii_lower)

lemma ws_head_lower [simp]: "ws_head (map ascii_lower s) = ws_head s"
  by (induction s rule: ws_head.induct) auto

lemma ws_last_lower [simp]: "ws_last (map ascii_lower s) = ws_last s"
  by (induction s rule: ws_last.induct) auto

lemma trim_start_lower: "trim_start (map ascii_lower s) = map ascii_lower (trim_start s)"
proof (induction s rule: trim_start.induct)
  case (1 s)
  then show ?case
    by (cases "ws_head s = 0")
       (simp_all add: trim_start.simps [of s] trim_start.simps [of "map ascii_lower s"] drop_map)
qed

lemma trim_rev_lower: "trim_rev (map ascii_lower s) = map ascii_lower (trim_rev s)"
proof (induction s rule: trim_rev.induct)
  case (1 s)
  then show ?case
    by (cases "ws_last s = 0")
       (simp_all add: trim_rev.simps [of s] trim_rev.simps [of "map ascii_lower s"] drop_map)
qed

lemma trim_lower: "trim (map ascii_lower s) = map ascii_lower (trim s)"
  by (simp add: trim_def trim_end_def trim_start_lower rev_map trim_rev_lower)

lemma ws_head_trim_start: "ws_head (trim_start s) = 0"
  by (induction s rule: trim_start.induct) (subst trim_start.simps, simp)

lemma ws_last_trim_rev: "ws_last (trim_rev s) = 0"
  by (induction s rule: trim_rev.induct) (subst trim_rev.simps, simp)

lemma trim_rev_suffix: "\<exists>n. trim_rev s = drop n s"
proof (induction s rule: trim_rev.induct)
  case (1 s)
  show ?case
  proof (cases "ws_last s = 0")
    case True
    then have "trim_rev s = drop 0 s" by (simp add: trim_rev.simps [of s])
    then show ?thesis by blast
  next
    case False
    with 1 obtain n where "trim_rev (drop (ws_last s) s) = drop n (drop (ws_last s) s)" by blast
    with False have "trim_rev s = drop (n + ws_last s) s" by (simp add: trim_rev.simps [of s])
    then show ?thesis by blast
  qed
qed

lemma ws_head_take: "ws_head s = 0 \<Longrightarrow> ws_head (take n s) = 0"
  by (cases s rule: ws_head.cases; cases n; simp; cases "n - 1"; simp; cases "n - 2"; simp split: if_splits)

lemma ws_head_trim_end: "ws_head s = 0 \<Longrightarrow> ws_head (trim_end s) = 0"
proof -
  assume h: "ws_head s = 0"
  obtain n where "trim_rev (rev s) = drop n (rev s)" using trim_rev_suffix by blast
  then have "trim_end s = take (length s - n) s" by (simp add: trim_end_def rev_drop)
  with h show ?thesis by (simp add: ws_head_take)
qed

lemma trim_idem: "trim (trim s) = trim s"
proof -
  have "trim_start (trim s) = trim s"
    by (subst trim_start.simps) (simp add: trim_def ws_head_trim_end ws_head_trim_start)
  moreover have "trim_end (trim_end t) = trim_end t" for t
    by (simp add: trim_end_def) (subst trim_rev.simps, simp add: ws_last_trim_rev)
  ultimately show ?thesis by (simp add: trim_def)
qed

section \<open>Slices and character boundaries\<close>

definition starts_with :: "string \<Rightarrow> char \<Rightarrow> bool" where
  "starts_with s c \<longleftrightarrow> s \<noteq> [] \<and> hd s = c"

definition ends_with :: "string \<Rightarrow> char \<Rightarrow> bool" where
  "ends_with s c \<longleftrightarrow> s \<noteq> [] \<and> last s = c"

text \<open>\<^verbatim>\<open>str::replace\<close> for a pattern of two characters: leftmost, non-overlapping.\<close>

fun replace2 :: "char \<Rightarrow> char \<Rightarrow> string \<Rightarrow> string \<Rightarrow> string" where
  "replace2 a b by [] = []"
| "replace2 a b by [c] = [c]"
| "replace2 a b by (c # d # s) =
     (if c = a \<and> d = b then by @ replace2 a b by s else c # replace2 a b by (d # s))"

text \<open>\<^verbatim>\<open>is_char_boundary\<close>: not inside a multi-byte character.\<close>

definition is_char_boundary :: "string \<Rightarrow> nat \<Rightarrow> bool" where
  "is_char_boundary s i \<longleftrightarrow>
     i = 0 \<or> i = length s \<or> (i < length s \<and> \<not> (0x80 \<le> char_code (s ! i) \<and> char_code (s ! i) < 0xC0))"

text \<open>\<^verbatim>\<open>&s[i..j]\<close>, which panics when the indices are out of order, past the end or inside a character.\<close>

definition slice_str :: "string \<Rightarrow> nat \<Rightarrow> nat \<Rightarrow> string result" where
  "slice_str s i j =
     (if i \<le> j \<and> j \<le> length s \<and> is_char_boundary s i \<and> is_char_boundary s j then Ok (drop i (take j s)) else Panic)"

text \<open>What a \<^verbatim>\<open>str\<close> has that any list of bytes need not have: no continuation byte follows an ASCII byte.\<close>

definition text_ok :: "string \<Rightarrow> bool" where
  "text_ok s \<longleftrightarrow> successively (\<lambda>a b. char_code a < 0x80 \<longrightarrow> \<not> (0x80 \<le> char_code b \<and> char_code b < 0xC0)) s"

lemma text_ok_parts: "text_ok (p @ s @ q) \<Longrightarrow> text_ok s"
  by (simp add: text_ok_def successively_append_iff)

lemma slice_str_start: "i \<le> length s \<Longrightarrow> is_char_boundary s i \<Longrightarrow> slice_str s 0 i = Ok (take i s)"
  by (simp add: slice_str_def is_char_boundary_def)

lemma slice_str_inner:
  assumes "text_ok s" "starts_with s c" "ends_with s d" "2 \<le> length s" "char_code c < 0x80" "char_code d < 0x80"
  shows "slice_str s 1 (length s - 1) = Ok (butlast (tl s))"
proof -
  obtain b t where s: "s = c # b # t" using assms(2,4) by (cases s; cases "tl s") (auto simp: starts_with_def)
  have "\<not> (0x80 \<le> char_code b \<and> char_code b < 0xC0)" using assms(1,5) by (simp add: s text_ok_def)
  then have "is_char_boundary s 1" by (simp add: s is_char_boundary_def)
  moreover have "s ! (length s - 1) = d" using assms(3) last_conv_nth [of s] by (simp add: ends_with_def)
  then have "is_char_boundary s (length s - 1)" using assms(6) by (simp add: is_char_boundary_def s)
  ultimately show ?thesis using assms(4) by (simp add: slice_str_def butlast_conv_take s take_Cons')
qed

lemma trim_part: "\<exists>p q. s = p @ trim s @ q"
proof -
  have "\<exists>p. t = p @ trim_start t" for t
  proof (induction t rule: trim_start.induct)
    case (1 t)
    show ?case
    proof (cases "ws_head t = 0")
      case False
      with 1 obtain p where "drop (ws_head t) t = p @ trim_start (drop (ws_head t) t)" by blast
      then have "t = (take (ws_head t) t @ p) @ trim_start (drop (ws_head t) t)" by (metis append.assoc append_take_drop_id)
      with False show ?thesis using trim_start.simps [of t] by metis
    qed (simp add: trim_start.simps [of t])
  qed
  then obtain p where p: "s = p @ trim_start s" by blast
  obtain n where "trim_rev (rev (trim_start s)) = drop n (rev (trim_start s))" using trim_rev_suffix by blast
  then have "trim s = take (length (trim_start s) - n) (trim_start s)" by (simp add: trim_def trim_end_def rev_drop)
  then have "s = p @ trim s @ drop (length (trim_start s) - n) (trim_start s)" using p by simp
  then show ?thesis by blast
qed

lemma text_ok_trim: "text_ok s \<Longrightarrow> text_ok (trim s)"
  using trim_part [of s] text_ok_parts by metis

text \<open>UTF-8 has the property: an ASCII byte is a character of its own, and none begins with a
  continuation byte.\<close>

lemma utf8_high:
  "utf8_cont c \<Longrightarrow> 0x80 \<le> c" "utf8_second3 b c \<Longrightarrow> 0x80 \<le> c" "utf8_second4 b c \<Longrightarrow> 0x80 \<le> c"
  by (auto simp: utf8_cont_def utf8_second3_def utf8_second4_def word_le_nat_alt split: if_splits)

lemma byte_at_high: "0x80 \<le> byte_at bs i \<Longrightarrow> i < length bs \<and> 0x80 \<le> bs ! i"
  by (auto simp: byte_at_def split: if_splits)

lemma utf8_chunk_bytes:
  assumes "bs \<noteq> []" "utf8_chunk bs = (True, n)"
  shows "n \<le> length bs \<and> \<not> utf8_cont (hd bs) \<and> (n = 1 \<or> (\<forall>i < n. 0x80 \<le> bs ! i))"
proof -
  have h: "byte_at bs 0 = hd bs" "bs ! 0 = hd bs" using assms(1) by (simp_all add: byte_at_def hd_conv_nth)
  have high: "0xC2 \<le> hd bs \<Longrightarrow> \<not> utf8_cont (hd bs) \<and> 0x80 \<le> hd bs" for b
    by (auto simp: utf8_cont_def word_le_nat_alt)
  have more: "0xE0 \<le> hd bs \<Longrightarrow> 0xC2 \<le> hd bs" "0xF0 \<le> hd bs \<Longrightarrow> 0xC2 \<le> hd bs"
    by (auto simp: word_le_nat_alt)
  have low: "hd bs < 0x80 \<Longrightarrow> \<not> utf8_cont (hd bs)" by (auto simp: utf8_cont_def)
  have nums: "(\<forall>i < 2. P i) \<longleftrightarrow> P 0 \<and> P 1" "(\<forall>i < 3. P i) \<longleftrightarrow> P 0 \<and> P 1 \<and> P 2"
    "(\<forall>i < 4. P i) \<longleftrightarrow> P 0 \<and> P 1 \<and> P 2 \<and> P 3" for P :: "nat \<Rightarrow> bool"
    by (auto simp: numeral_eq_Suc less_Suc_eq)
  from assms(2) consider "hd bs < 0x80" "n = 1"
    | "0xC2 \<le> hd bs" "n = 2" "utf8_cont (byte_at bs 1)"
    | "0xE0 \<le> hd bs" "n = 3" "utf8_second3 (hd bs) (byte_at bs 1)" "utf8_cont (byte_at bs 2)"
    | "0xF0 \<le> hd bs" "n = 4" "utf8_second4 (hd bs) (byte_at bs 1)" "utf8_cont (byte_at bs 2)" "utf8_cont (byte_at bs 3)"
    by (auto simp: utf8_chunk_def h Let_def split: if_splits)
  then show ?thesis
  proof cases
    case 1
    with low assms(1) show ?thesis by (simp add: Suc_le_eq)
  next
    case 2
    with high byte_at_high [OF utf8_high(1), of bs 1] show ?thesis by (simp add: h nums(1))
  next
    case 3
    with high more(1) byte_at_high [OF utf8_high(2), of _ bs 1] byte_at_high [OF utf8_high(1), of bs 2]
    show ?thesis by (auto simp: h nums(2))
  next
    case 4
    with high more(2) byte_at_high [OF utf8_high(3), of _ bs 1] byte_at_high [OF utf8_high(1), of bs 2]
      byte_at_high [OF utf8_high(1), of bs 3]
    show ?thesis by (auto simp: h nums(3))
  qed
qed

lemma utf8_valid_ok:
  "utf8_valid bs \<Longrightarrow> (bs \<noteq> [] \<longrightarrow> \<not> utf8_cont (hd bs)) \<and> successively (\<lambda>a b. a < 0x80 \<longrightarrow> \<not> utf8_cont b) bs"
proof (induction bs rule: utf8_chunks.induct)
  case (1 bs)
  show ?case
  proof (cases "bs = []")
    case False
    obtain ok n where c: "utf8_chunk bs = (ok, n)" by fastforce
    with 1(2) False have ok: "ok" and v: "utf8_valid (drop n bs)"
      using utf8_chunks.simps [of bs] by (auto simp: utf8_valid_def)
    note B = utf8_chunk_bytes [OF False, of n, OF c [unfolded ok [THEN eqTrueI]]]
    have IH: "drop n bs \<noteq> [] \<longrightarrow> \<not> utf8_cont (hd (drop n bs))"
      "successively (\<lambda>a b. a < 0x80 \<longrightarrow> \<not> utf8_cont b) (drop n bs)"
      using 1(1) [OF False c [symmetric] _ v] by simp_all
    have "successively (\<lambda>a b. a < 0x80 \<longrightarrow> \<not> utf8_cont b) (take n bs)"
    proof (cases "n = 1")
      case False
      with B have "\<not> bs ! i < 0x80" if "i < n" for i using that by (auto simp: not_less)
      then show ?thesis by (auto simp: successively_conv_nth)
    qed (use False in \<open>cases bs; simp\<close>)
    then have "successively (\<lambda>a b. a < 0x80 \<longrightarrow> \<not> utf8_cont b) (take n bs @ drop n bs)"
      unfolding successively_append_iff using IH by auto
    with B show ?thesis by simp
  qed simp
qed

lemma from_utf8_ok: "from_utf8 bs = Some s \<Longrightarrow> text_ok s"
proof -
  assume "from_utf8 bs = Some s"
  then have v: "utf8_valid bs" and s: "s = str_of_bytes bs" by (auto simp: from_utf8_def split: if_splits)
  have "char_code (char_of (unat b)) = unat b" for b :: byte by (simp add: char_code_def)
  moreover have "unat a < 0x80 \<longleftrightarrow> a < 0x80" "utf8_cont b \<longleftrightarrow> 0x80 \<le> unat b \<and> unat b < 0xC0" for a b :: byte
    by (auto simp: utf8_cont_def word_less_nat_alt word_le_nat_alt)
  ultimately show ?thesis
    using utf8_valid_ok [OF v] by (simp add: text_ok_def s str_of_bytes_def successively_map flip: not_less)
qed

section \<open>Numbers as text\<close>

definition digit_char :: "nat \<Rightarrow> char" where
  "digit_char d = char_of (if d < 10 then 48 + d else 87 + d)"

text \<open>\<^verbatim>\<open>{}\<close>, \<^verbatim>\<open>{:04}\<close> and \<^verbatim>\<open>{:x}\<close> of a format string.\<close>

fun show_nat :: "nat \<Rightarrow> string" where
  "show_nat n = (if n < 10 then [digit_char n] else show_nat (n div 10) @ [digit_char (n mod 10)])"

declare show_nat.simps [simp del]

definition show_padded :: "nat \<Rightarrow> nat \<Rightarrow> string" where
  "show_padded w n = (let s = show_nat n in replicate (w - length s) (CHR ''0'') @ s)"

definition show_hex :: "byte list \<Rightarrow> string" where
  "show_hex bs = concat (map (\<lambda>b. [digit_char (unat b div 16), digit_char (unat b mod 16)]) bs)"

definition is_digit :: "char \<Rightarrow> bool" where
  "is_digit c \<longleftrightarrow> 48 \<le> char_code c \<and> char_code c \<le> 57"

definition digits_value :: "string \<Rightarrow> nat" where
  "digits_value s = foldl (\<lambda>n c. 10 * n + (char_code c - 48)) 0 s"

lemma char_code_digit: "d < 10 \<Longrightarrow> char_code (digit_char d) = 48 + d"
  by (simp add: char_code_def digit_char_def)

lemma digits_value_snoc: "digits_value (s @ [c]) = 10 * digits_value s + (char_code c - 48)"
  by (simp add: digits_value_def)

lemma digits_value_show_nat [simp]: "digits_value (show_nat n) = n"
proof (induction n rule: show_nat.induct)
  case (1 n)
  show ?case
  proof (cases "n < 10")
    case True
    then show ?thesis by (simp add: show_nat.simps [of n] digits_value_def char_code_digit)
  next
    case False
    with 1 have "digits_value (show_nat (n div 10)) = n div 10" by blast
    with False show ?thesis
      by (simp add: show_nat.simps [of n] digits_value_snoc char_code_digit)
  qed
qed

lemma show_nat_inj [simp]: "show_nat m = show_nat n \<longleftrightarrow> m = n"
  by (metis digits_value_show_nat)

lemma show_nat_digits: "list_all is_digit (show_nat n)"
proof (induction n rule: show_nat.induct)
  case (1 n)
  then show ?case
    by (cases "n < 10") (simp_all add: show_nat.simps [of n] is_digit_def char_code_digit)
qed

lemma show_nat_nonempty [simp]: "show_nat n \<noteq> []"
  by (subst show_nat.simps) simp

lemma length_show_hex [simp]: "length (show_hex bs) = 2 * length bs"
  by (induction bs) (simp_all add: show_hex_def)

end
