(* ===== verification/Config.thy ===== *)
theory Config
  imports Strings
begin

text \<open>
  \<^verbatim>\<open>src/src/config.rs\<close>: the configuration records, their defaults, \<^verbatim>\<open>validate\<close>, the
  resolution of secrets for \<^verbatim>\<open>auth.mode: terminate\<close> and of the listen settings. The file system,
  the environment and the YAML parser are parameters: a function that reads a file, one that
  looks a variable up, one that turns text into a configuration.
\<close>

definition KNOWN_STRATEGIES :: "string list" where
  "KNOWN_STRATEGIES =
     [''email'', ''phone'', ''address'', ''name'', ''first_name'', ''last_name'', ''company'', ''text'',
      ''credit_card'', ''ssn'', ''ip'', ''dob'', ''passport'', ''hash'', ''json'']"

definition KNOWN_HEURISTIC_TYPES :: "string list" where
  "KNOWN_HEURISTIC_TYPES = [''email'', ''phone'', ''ssn'', ''credit_card'', ''ip'', ''dob'', ''passport'']"

definition KNOWN_CLIENT_AUTH_PLUGINS :: "string list" where
  "KNOWN_CLIENT_AUTH_PLUGINS = [''caching_sha2_password'', ''mysql_native_password'']"

section \<open>The configuration\<close>

record heuristics_config =
  hc_enabled :: bool
  hc_types :: "string list"

definition default_heuristic_types :: "string list" where
  "default_heuristic_types = [''email'', ''phone'', ''ssn'']"

definition default_heuristics_config :: heuristics_config where
  "default_heuristics_config = \<lparr>hc_enabled = True, hc_types = default_heuristic_types\<rparr>"

record limits_config =
  lc_max_connections :: "nat option"
  lc_connections_per_second :: "u32 option"
  lc_connect_timeout_secs :: u64
  lc_idle_timeout_secs :: u64
  lc_upstream_pool_size :: "nat option"
  lc_upstream_pool_wait_timeout_secs :: u64

record health_check_config =
  hk_enabled :: bool
  hk_interval_secs :: u64
  hk_timeout_secs :: u64
  hk_unhealthy_threshold :: u32
  hk_healthy_threshold :: u32

definition default_health_check_config :: health_check_config where
  "default_health_check_config =
     \<lparr>hk_enabled = True, hk_interval_secs = 10, hk_timeout_secs = 5,
      hk_unhealthy_threshold = 3, hk_healthy_threshold = 1\<rparr>"

record api_config =
  ac_enabled :: bool
  ac_api_key :: "string option"
  ac_jwt_secret :: "string option"
  ac_bind :: "string option"
  ac_port :: "u16 option"
  ac_cors_origins :: "string list option"

definition default_api_config :: api_config where
  "default_api_config =
     \<lparr>ac_enabled = True, ac_api_key = None, ac_jwt_secret = None, ac_bind = None, ac_port = None,
      ac_cors_origins = None\<rparr>"

datatype auth_mode = Passthrough | Terminate

record auth_config =
  au_mode :: auth_mode
  au_client_username :: "string option"
  au_client_password :: "string option"
  au_client_password_file :: "string option"
  au_client_auth_plugin :: "string option"
  au_upstream_username :: "string option"
  au_upstream_password :: "string option"
  au_upstream_password_file :: "string option"
  au_upstream_database :: "string option"
  au_upstream_rsa_public_key :: "string option"
  au_upstream_rsa_public_key_file :: "string option"

record resolved_auth =
  ra_client_username :: string
  ra_client_password :: string
  ra_client_auth_plugin :: string
  ra_upstream_username :: string
  ra_upstream_password :: string
  ra_upstream_database :: "string option"
  ra_upstream_rsa_public_key :: "string option"

record listen_config =
  ln_bind :: "string option"
  ln_port :: "u16 option"

datatype audit_event_type =
    AuthAttempt | ConfigChange | RuleAdded | RuleDeleted | RulesImported | ConfigReload
  | DatabaseScan | SchemaQuery

record audit_config =
  ad_enabled :: bool
  ad_log_to_stdout :: bool
  ad_log_file :: "string option"
  ad_rotation_enabled :: bool
  ad_max_file_size_bytes :: u64
  ad_max_rotated_files :: nat
  ad_events :: "audit_event_type list"

definition default_audit_config :: audit_config where
  "default_audit_config =
     \<lparr>ad_enabled = True, ad_log_to_stdout = False, ad_log_file = None, ad_rotation_enabled = True,
      ad_max_file_size_bytes = 10 * 1024 * 1024, ad_max_rotated_files = 5, ad_events = []\<rparr>"

record tls_config =
  tl_enabled :: bool
  tl_cert_path :: string
  tl_key_path :: string
  tl_client_ca_path :: "string option"
  tl_require_client_cert :: bool

text \<open>The sampling ratio, an \<^verbatim>\<open>f64\<close>, is kept as its bits.\<close>

record telemetry_config =
  te_enabled :: bool
  te_otlp_endpoint :: string
  te_service_name :: string
  te_sample_ratio :: "u64 option"

record masking_rule =
  mr_table :: "string option"
  mr_column :: string
  mr_strategy :: string

record app_config =
  cf_masking_enabled :: bool
  cf_rules :: "masking_rule list"
  cf_masking_secret :: "string option"
  cf_heuristics :: "heuristics_config option"
  cf_tls :: "tls_config option"
  cf_upstream_tls :: bool
  cf_telemetry :: "telemetry_config option"
  cf_listen :: "listen_config option"
  cf_auth :: "auth_config option"
  cf_api :: "api_config option"
  cf_limits :: "limits_config option"
  cf_health_check :: "health_check_config option"
  cf_audit :: "audit_config option"

definition default_app_config :: app_config where
  "default_app_config =
     \<lparr>cf_masking_enabled = True, cf_rules = [], cf_masking_secret = None, cf_heuristics = None,
      cf_tls = None, cf_upstream_tls = False, cf_telemetry = None, cf_listen = None, cf_auth = None,
      cf_api = None, cf_limits = None, cf_health_check = None, cf_audit = None\<rparr>"

section \<open>Validation and loading\<close>

text \<open>The first offending rule, then the first offending heuristic type, then the TLS section.\<close>

definition validate :: "app_config \<Rightarrow> unit result" where
  "validate c =
     (if \<exists>r \<in> set (cf_rules c). mr_strategy r \<notin> set KNOWN_STRATEGIES
      then bail ''unknown masking strategy''
      else if \<exists>h \<in> set_option (cf_heuristics c). \<exists>t \<in> set (hc_types h). t \<notin> set KNOWN_HEURISTIC_TYPES
      then bail ''unknown heuristic type''
      else case cf_tls c of
          None \<Rightarrow> Ok ()
        | Some tls \<Rightarrow>
            if tl_require_client_cert tls \<and> tl_client_ca_path tls = None
            then bail ''tls.require_client_cert is set but tls.client_ca_path is not''
            else if tl_client_ca_path tls \<noteq> None \<and> \<not> tl_enabled tls
            then bail ''tls.client_ca_path is set but tls.enabled is false''
            else Ok ())"

definition load :: "(string \<Rightarrow> string result) \<Rightarrow> (string \<Rightarrow> app_config result) \<Rightarrow> (string \<Rightarrow> string option)
    \<Rightarrow> string \<Rightarrow> app_config result" where
  "load read_file from_yaml env path =
     rbind (read_file path) (\<lambda>content.
     rbind (from_yaml content) (\<lambda>config.
     let config = (case env ''IRONVEIL_MASKING_SECRET'' of
           Some secret \<Rightarrow> if secret \<noteq> [] then config\<lparr>cf_masking_secret := Some secret\<rparr> else config
         | None \<Rightarrow> config) in
     rbind (validate config) (\<lambda>_. Ok config)))"

section \<open>Credentials\<close>

definition trim_newlines :: "string \<Rightarrow> string" where
  "trim_newlines s = rev (dropWhile (\<lambda>c. char_code c = 10 \<or> char_code c = 13) (rev s))"

definition resolve_secret :: "(string \<Rightarrow> string result) \<Rightarrow> string option \<Rightarrow> string option \<Rightarrow> string option
    \<Rightarrow> string option result" where
  "resolve_secret read_file env file inline =
     (case env of
        Some v \<Rightarrow> Ok (Some v)
      | None \<Rightarrow>
          (case file of
             Some path \<Rightarrow> rbind (read_file path) (\<lambda>raw. Ok (Some (trim_newlines raw)))
           | None \<Rightarrow> Ok inline))"

definition opt_or :: "'a option \<Rightarrow> 'a option \<Rightarrow> 'a option" where
  "opt_or x y = (case x of Some v \<Rightarrow> Some v | None \<Rightarrow> y)"

definition opt_filter :: "('a \<Rightarrow> bool) \<Rightarrow> 'a option \<Rightarrow> 'a option" where
  "opt_filter P x = (case x of Some v \<Rightarrow> if P v then Some v else None | None \<Rightarrow> None)"

fun ok_or :: "'a option \<Rightarrow> string \<Rightarrow> 'a result" where
  "ok_or (Some x) m = Ok x"
| "ok_or None m = bail m"

definition resolve_with :: "(string \<Rightarrow> string result) \<Rightarrow> (string \<Rightarrow> string option) \<Rightarrow> auth_config
    \<Rightarrow> resolved_auth option result" where
  "resolve_with read_file env a =
     (if au_mode a = Passthrough then Ok None else
      rbind (ok_or (opt_filter (\<lambda>u. u \<noteq> []) (opt_or (env ''IRONVEIL_CLIENT_USERNAME'') (au_client_username a)))
        ''auth.mode is 'terminate' but auth.client_username is not set'') (\<lambda>client_username.
      rbind (resolve_secret read_file (env ''IRONVEIL_CLIENT_PASSWORD'') (au_client_password_file a)
        (au_client_password a)) (\<lambda>cp.
      rbind (ok_or cp ''auth.mode is 'terminate' but no client password is configured'') (\<lambda>client_password.
      if client_password = [] then bail ''auth.client_password must not be empty in 'terminate' mode'' else
      rbind (ok_or (opt_filter (\<lambda>u. u \<noteq> []) (opt_or (env ''IRONVEIL_UPSTREAM_USERNAME'') (au_upstream_username a)))
        ''auth.mode is 'terminate' but auth.upstream_username is not set'') (\<lambda>upstream_username.
      rbind (resolve_secret read_file (env ''IRONVEIL_UPSTREAM_PASSWORD'') (au_upstream_password_file a)
        (au_upstream_password a)) (\<lambda>up.
      let upstream_password = (case up of Some p \<Rightarrow> p | None \<Rightarrow> []);
          client_auth_plugin = (case au_client_auth_plugin a of Some p \<Rightarrow> p | None \<Rightarrow> ''caching_sha2_password'') in
      if client_auth_plugin \<notin> set KNOWN_CLIENT_AUTH_PLUGINS then bail ''unknown auth.client_auth_plugin'' else
      rbind (resolve_secret read_file (env ''IRONVEIL_UPSTREAM_RSA_PUBLIC_KEY'')
        (au_upstream_rsa_public_key_file a) (au_upstream_rsa_public_key a)) (\<lambda>pem.
      Ok (Some \<lparr>ra_client_username = client_username, ra_client_password = client_password,
           ra_client_auth_plugin = client_auth_plugin, ra_upstream_username = upstream_username,
           ra_upstream_password = upstream_password, ra_upstream_database = au_upstream_database a,
           ra_upstream_rsa_public_key = opt_filter (\<lambda>p. trim p \<noteq> []) pem\<rparr>))))))))"

section \<open>Listen settings\<close>

text \<open>CLI, then environment, then file, then the built-in default. The address parser is a
  parameter; a port is parsed as \<^verbatim>\<open>u16::from_str\<close> does: digits, an optional plus sign, no overflow.\<close>

definition resolve_listen_addr :: "(string \<Rightarrow> 'a option) \<Rightarrow> 'a option \<Rightarrow> string option \<Rightarrow> string option
    \<Rightarrow> 'a \<Rightarrow> 'a result" where
  "resolve_listen_addr parse cli env file dflt =
     (case cli of Some addr \<Rightarrow> Ok addr
      | None \<Rightarrow>
     (case opt_filter (\<lambda>v. v \<noteq> []) env of Some raw \<Rightarrow> ok_or (parse raw) ''invalid address from environment''
      | None \<Rightarrow>
     (case opt_filter (\<lambda>v. v \<noteq> []) file of Some raw \<Rightarrow> ok_or (parse raw) ''invalid address in config''
      | None \<Rightarrow> Ok dflt)))"

definition parse_nat :: "string \<Rightarrow> nat option" where
  "parse_nat s =
     (let t = (if starts_with s (CHR ''+'') then tl s else s) in
      if t \<noteq> [] \<and> list_all is_digit t
      then Some (digits_value t) else None)"

definition parse_u16 :: "string \<Rightarrow> u16 option" where
  "parse_u16 s = (case parse_nat s of
     Some n \<Rightarrow> if n < 65536 then Some (of_nat n) else None | None \<Rightarrow> None)"

definition resolve_listen_port :: "u16 option \<Rightarrow> string option \<Rightarrow> u16 option \<Rightarrow> u16 \<Rightarrow> u16 result" where
  "resolve_listen_port cli env file dflt =
     (case cli of Some port \<Rightarrow> Ok port
      | None \<Rightarrow>
     (case opt_filter (\<lambda>v. v \<noteq> []) env of Some raw \<Rightarrow> ok_or (parse_u16 raw) ''invalid port from environment''
      | None \<Rightarrow>
     (case file of Some port \<Rightarrow> Ok port | None \<Rightarrow> Ok dflt)))"

definition resolve_flag :: "bool option \<Rightarrow> string option \<Rightarrow> bool option \<Rightarrow> bool \<Rightarrow> bool result" where
  "resolve_flag cli env file dflt =
     (case cli of Some v \<Rightarrow> Ok v
      | None \<Rightarrow>
     (case opt_filter (\<lambda>v. v \<noteq> []) env of
        Some raw \<Rightarrow>
          (let v = to_ascii_lowercase (trim raw) in
           if v \<in> {''1'', ''true'', ''yes'', ''on''} then Ok True
           else if v \<in> {''0'', ''false'', ''no'', ''off''} then Ok False
           else bail ''invalid value from environment (expected true/false)'')
      | None \<Rightarrow>
     (case file of Some v \<Rightarrow> Ok v | None \<Rightarrow> Ok dflt)))"

end
