(* ===== verification/Json.thy ===== *)
theory Json
  imports Strings
begin

text \<open>
  \<^verbatim>\<open>serde_json::Value\<close>, the data type the masking code and the logs work on. The parser and
  the printer are the crate's and appear as parameters where they are used; a number keeps the
  text it is printed as.
\<close>

datatype json =
    JNull
  | JBool bool
  | JNumber string
  | JString string
  | JArray "json list"
  | JObject "(string \<times> json) list"

definition jnat :: "nat \<Rightarrow> json" where
  "jnat n = JNumber (show_nat n)"

fun jopt :: "string option \<Rightarrow> json" where
  "jopt None = JNull"
| "jopt (Some s) = JString s"

text \<open>Every string that occurs in a document, keys aside.\<close>

fun json_strings :: "json \<Rightarrow> string list" where
  "json_strings (JString s) = [s]"
| "json_strings (JArray vs) = concat (map json_strings vs)"
| "json_strings (JObject kvs) = concat (map (\<lambda>(k, v). json_strings v) kvs)"
| "json_strings _ = []"

end
