(* ===== verification/Logs.thy ===== *)
theory Logs
  imports Main
begin

text \<open>
  The bounded, newest-first log that the program keeps three times: the event log and the
  connection history of \<^verbatim>\<open>src/src/state.rs\<close> and the entries of \<^verbatim>\<open>src/src/audit.rs\<close>. The locale
  states what an insertion does; its lemmas say what the log holds after any number of them.
\<close>

locale bounded_log =
  fixes push :: "'a \<Rightarrow> 'a list \<Rightarrow> 'a list"
    and cap :: nat
  assumes cap_pos: "0 < cap"
    and push_newest: "\<exists>rest. push x xs = x # rest"
    and push_keeps: "length xs \<le> cap \<Longrightarrow> push x xs = take cap (x # xs)"
begin

lemma push_bounded: "length xs \<le> cap \<Longrightarrow> length (push x xs) \<le> cap"
  by (simp add: push_keeps)

lemma fold_bounded: "length xs \<le> cap \<Longrightarrow> length (fold push es xs) \<le> cap"
  by (induction es arbitrary: xs) (simp_all add: push_bounded)

text \<open>The log is the newest \<open>cap\<close> of everything ever inserted.\<close>

lemma fold_recent: "length xs \<le> cap \<Longrightarrow> fold push es xs = take cap (rev es @ xs)"
proof (induction es arbitrary: xs)
  case (Cons e es)
  then have "fold push (e # es) xs = take cap (rev es @ push e xs)"
    by (simp add: push_bounded)
  also have "\<dots> = take cap (rev es @ take cap (e # xs))"
    using Cons.prems by (simp only: push_keeps)
  also have "\<dots> = take cap (rev es @ e # xs)"
    by (simp add: take_append min_def)
  finally show ?case by simp
qed simp

lemma fold_from_empty: "fold push es [] = take cap (rev es)"
  by (simp add: fold_recent)

lemma newest_first: "\<exists>rest. fold push (es @ [e]) xs = e # rest"
  using push_newest by simp

end

end
