(* ===== verification/Audit_Log.thy ===== *)
theory Audit_Log
  imports Config Json Logs
begin

text \<open>
  \<^verbatim>\<open>src/src/audit.rs\<close>: audit entries, the logger with its memory ring, and the log file with
  its rotation. The file system is a map from paths to contents, any call to which may fail, the tests
  \<^verbatim>\<open>exists\<close> and \<^verbatim>\<open>metadata\<close> included, and a failing write may leave part of its line behind; the
  id, the time and the JSON printer are parameters. \<^verbatim>\<open>audit::AuditConfig\<close> has the fields of
  \<^verbatim>\<open>config::AuditConfig\<close> and is the same record here.
\<close>

definition MAX_MEMORY_ENTRIES :: nat where "MAX_MEMORY_ENTRIES = 1000"

datatype audit_outcome = Success | Failure | Denied

datatype auth_method = ApiKey | Jwt | NoMethod

record audit_entry =
  ae_id :: string
  ae_timestamp :: nat
  ae_event_type :: audit_event_type
  ae_outcome :: audit_outcome
  ae_client_ip :: "string option"
  ae_auth_method :: "auth_method option"
  ae_user_id :: "string option"
  ae_endpoint :: "string option"
  ae_method :: "string option"
  ae_details :: "json option"
  ae_error :: "string option"

text \<open>\<open>stamp\<close>: the fresh id and the time of an entry.\<close>

type_synonym stamp = "string \<times> nat"

definition audit_entry_new :: "stamp \<Rightarrow> audit_event_type \<Rightarrow> audit_outcome \<Rightarrow> audit_entry" where
  "audit_entry_new st event_type outcome =
     \<lparr>ae_id = fst st, ae_timestamp = snd st, ae_event_type = event_type, ae_outcome = outcome,
      ae_client_ip = None, ae_auth_method = None, ae_user_id = None, ae_endpoint = None,
      ae_method = None, ae_details = None, ae_error = None\<rparr>"

definition with_auth_method :: "auth_method \<Rightarrow> audit_entry \<Rightarrow> audit_entry" where
  "with_auth_method m e = e\<lparr>ae_auth_method := Some m\<rparr>"

definition with_client_ip :: "string \<Rightarrow> audit_entry \<Rightarrow> audit_entry" where
  "with_client_ip ip e = e\<lparr>ae_client_ip := Some ip\<rparr>"

definition with_user_id :: "string \<Rightarrow> audit_entry \<Rightarrow> audit_entry" where
  "with_user_id u e = e\<lparr>ae_user_id := Some u\<rparr>"

definition with_endpoint :: "string \<Rightarrow> audit_entry \<Rightarrow> audit_entry" where
  "with_endpoint p e = e\<lparr>ae_endpoint := Some p\<rparr>"

definition with_method :: "string \<Rightarrow> audit_entry \<Rightarrow> audit_entry" where
  "with_method m e = e\<lparr>ae_method := Some m\<rparr>"

definition with_details :: "json \<Rightarrow> audit_entry \<Rightarrow> audit_entry" where
  "with_details d e = e\<lparr>ae_details := Some d\<rparr>"

definition with_error :: "string \<Rightarrow> audit_entry \<Rightarrow> audit_entry" where
  "with_error x e = e\<lparr>ae_error := Some x\<rparr>"

lemmas audit_builders = with_auth_method_def with_client_ip_def with_user_id_def with_endpoint_def with_method_def
  with_details_def with_error_def

definition auth_success :: "stamp \<Rightarrow> auth_method \<Rightarrow> string option \<Rightarrow> audit_entry" where
  "auth_success st m user_id =
     (let entry = with_auth_method m (audit_entry_new st AuthAttempt Success)
      in case user_id of Some uid \<Rightarrow> with_user_id uid entry | None \<Rightarrow> entry)"

definition auth_failure :: "stamp \<Rightarrow> auth_method \<Rightarrow> string \<Rightarrow> audit_entry" where
  "auth_failure st m error =
     with_error error (with_auth_method m (audit_entry_new st AuthAttempt Failure))"

definition auth_denied :: "stamp \<Rightarrow> audit_entry" where
  "auth_denied st = with_error ''No authentication credentials provided''
     (with_auth_method NoMethod (audit_entry_new st AuthAttempt Denied))"

definition config_change :: "stamp \<Rightarrow> json \<Rightarrow> audit_entry" where
  "config_change st details = with_details details (audit_entry_new st ConfigChange Success)"

definition rule_added :: "stamp \<Rightarrow> json \<Rightarrow> audit_entry" where
  "rule_added st rule = with_details rule (audit_entry_new st RuleAdded Success)"

definition rule_deleted :: "stamp \<Rightarrow> json \<Rightarrow> audit_entry" where
  "rule_deleted st details = with_details details (audit_entry_new st RuleDeleted Success)"

definition rules_imported :: "stamp \<Rightarrow> nat \<Rightarrow> audit_entry" where
  "rules_imported st count =
     with_details (JObject [(''rules_count'', jnat count)]) (audit_entry_new st RulesImported Success)"

definition config_reload :: "stamp \<Rightarrow> nat \<Rightarrow> audit_entry" where
  "config_reload st count =
     with_details (JObject [(''rules_count'', jnat count)]) (audit_entry_new st ConfigReload Success)"

definition database_scan :: "stamp \<Rightarrow> string \<Rightarrow> nat \<Rightarrow> audit_entry" where
  "database_scan st database findings =
     with_details (JObject [(''database'', JString database), (''findings_count'', jnat findings)]) (audit_entry_new st DatabaseScan Success)"

definition schema_query :: "stamp \<Rightarrow> string \<Rightarrow> nat \<Rightarrow> audit_entry" where
  "schema_query st database tables =
     with_details (JObject [(''database'', JString database), (''tables_count'', jnat tables)]) (audit_entry_new st SchemaQuery Success)"

section \<open>The log file\<close>

type_synonym file_system = "string \<Rightarrow> string option"

text \<open>The calls to the file system, and which of them fail, with what error. A failed call leaves the
  files as they were, except that a failed write may have written the first bytes of its line: the
  number beside the error says how many.\<close>

datatype file_call =
    Exists_File string
  | File_Metadata string
  | Remove_File string
  | Rename_File string string
  | Open_Append string
  | Write_Line string string

type_synonym io_errors = "file_call \<Rightarrow> (error \<times> nat) option"

type_synonym file_step = "file_system \<Rightarrow> unit result \<times> file_system"

definition file_io :: "io_errors \<Rightarrow> file_call \<Rightarrow> (file_system \<Rightarrow> file_system) \<Rightarrow> file_step" where
  "file_io io call effect fs = (case io call of None \<Rightarrow> (Ok (), effect fs) | Some (e, _) \<Rightarrow> (Err e, fs))"

text \<open>\<^verbatim>\<open>Path::exists\<close> answers \<^verbatim>\<open>false\<close> when the test fails.\<close>

definition file_exists :: "io_errors \<Rightarrow> string \<Rightarrow> file_system \<Rightarrow> bool" where
  "file_exists io path fs \<longleftrightarrow> io (Exists_File path) = None \<and> fs path \<noteq> None"

definition file_length :: "io_errors \<Rightarrow> string \<Rightarrow> file_system \<Rightarrow> nat option" where
  "file_length io path fs = (if io (File_Metadata path) = None then map_option length (fs path) else None)"

text \<open>What follows a \<^verbatim>\<open>?\<close>.\<close>

definition and_then :: "unit result \<times> file_system \<Rightarrow> file_step \<Rightarrow> unit result \<times> file_system" where
  "and_then st k = (case st of (Ok _, fs) \<Rightarrow> k fs | _ \<Rightarrow> st)"

definition rename_file :: "string \<Rightarrow> string \<Rightarrow> file_system \<Rightarrow> file_system" where
  "rename_file a b fs = (fs(a := None))(b := fs a)"

definition backup :: "string \<Rightarrow> nat \<Rightarrow> string" where
  "backup path i = path @ ''.'' @ show_nat i"

text \<open>The loop \<^verbatim>\<open>for i in (1..max_files).rev()\<close>: \<open>n\<close> is the number of steps left.\<close>

fun shift_logs :: "io_errors \<Rightarrow> string \<Rightarrow> nat \<Rightarrow> file_step" where
  "shift_logs io path 0 fs = (Ok (), fs)"
| "shift_logs io path (Suc n) fs =
     and_then
       (if file_exists io (backup path (Suc n)) fs
        then file_io io (Rename_File (backup path (Suc n)) (backup path (Suc (Suc n))))
               (rename_file (backup path (Suc n)) (backup path (Suc (Suc n)))) fs
        else (Ok (), fs))
       (shift_logs io path n)"

definition rotate_logs :: "io_errors \<Rightarrow> string \<Rightarrow> nat \<Rightarrow> file_step" where
  "rotate_logs io path max_files fs =
     and_then
       (and_then
         (if file_exists io (backup path max_files) fs
          then file_io io (Remove_File (backup path max_files)) (\<lambda>fs. fs(backup path max_files := None)) fs
          else (Ok (), fs))
         (shift_logs io path (max_files - 1)))
       (\<lambda>fs. if file_exists io path fs
         then file_io io (Rename_File path (backup path 1)) (rename_file path (backup path 1)) fs
         else (Ok (), fs))"

text \<open>\<^verbatim>\<open>writeln!\<close> and \<^verbatim>\<open>flush\<close> through the \<^verbatim>\<open>BufWriter\<close>: the bytes of the line reach the file in order, so a
  failure leaves a prefix of it.\<close>

definition append_to :: "string \<Rightarrow> string \<Rightarrow> file_system \<Rightarrow> file_system" where
  "append_to path s fs = fs(path := map_option (\<lambda>old. old @ s) (fs path))"

definition write_line :: "io_errors \<Rightarrow> string \<Rightarrow> string \<Rightarrow> file_step" where
  "write_line io path line fs =
     (case io (Write_Line path line) of
        None \<Rightarrow> (Ok (), append_to path (line @ [char_of (10 :: nat)]) fs)
      | Some (e, written) \<Rightarrow> (Err e, append_to path (take written (line @ [char_of (10 :: nat)])) fs))"

definition append_line :: "io_errors \<Rightarrow> string \<Rightarrow> string \<Rightarrow> file_step" where
  "append_line io path line fs =
     and_then
       (file_io io (Open_Append path) (\<lambda>fs. fs(path := Some (case fs path of Some old \<Rightarrow> old | None \<Rightarrow> []))) fs)
       (write_line io path line)"

definition write_to_file :: "io_errors \<Rightarrow> string \<Rightarrow> string \<Rightarrow> audit_config \<Rightarrow> file_step" where
  "write_to_file io path line config fs =
     and_then
       (if ad_rotation_enabled config \<and>
           (case file_length io path fs of Some bytes \<Rightarrow> unat (ad_max_file_size_bytes config) \<le> bytes | None \<Rightarrow> False)
        then rotate_logs io path (ad_max_rotated_files config) fs else (Ok (), fs))
       (append_line io path line)"

section \<open>The logger\<close>

record audit_logger =
  al_config :: audit_config
  al_entries :: "audit_entry list"
  al_log_file_path :: "string option"

definition audit_logger_new :: "audit_config \<Rightarrow> audit_logger" where
  "audit_logger_new config =
     \<lparr>al_config = config, al_entries = [], al_log_file_path = ad_log_file config\<rparr>"

definition apply_config :: "audit_config \<Rightarrow> audit_logger \<Rightarrow> audit_logger" where
  "apply_config config l = l\<lparr>al_log_file_path := ad_log_file config, al_config := config\<rparr>"

definition should_log :: "audit_logger \<Rightarrow> audit_event_type \<Rightarrow> bool" where
  "should_log l event_type =
     (if \<not> ad_enabled (al_config l) then False
      else if ad_events (al_config l) = [] then True
      else event_type \<in> set (ad_events (al_config l)))"

definition push_entry :: "audit_entry \<Rightarrow> audit_entry list \<Rightarrow> audit_entry list" where
  "push_entry e es = e # (if MAX_MEMORY_ENTRIES \<le> length es then butlast es else es)"

text \<open>The outside world of the logger: the lines printed, the files, and which calls of which write fail. A
  write that failed is reported by a warning and otherwise ignored.\<close>

record audit_world =
  aw_stdout :: "string list"
  aw_fs :: file_system
  aw_io :: "nat \<Rightarrow> io_errors"
  aw_writes :: nat

definition audit_log :: "(audit_entry \<Rightarrow> string) \<Rightarrow> audit_entry \<Rightarrow> audit_logger \<times> audit_world
    \<Rightarrow> audit_logger \<times> audit_world" where
  "audit_log to_json entry s =
     (case s of (l, w) \<Rightarrow>
      if \<not> should_log l (ae_event_type entry) then (l, w)
      else
        let w = (if ad_log_to_stdout (al_config l) then w\<lparr>aw_stdout := aw_stdout w @ [to_json entry]\<rparr> else w);
            w = (case al_log_file_path l of
                   Some path \<Rightarrow> w\<lparr>aw_fs := snd (write_to_file (aw_io w (aw_writes w)) path (to_json entry) (al_config l) (aw_fs w)),
                                  aw_writes := aw_writes w + 1\<rparr>
                 | None \<Rightarrow> w)
        in (l\<lparr>al_entries := push_entry entry (al_entries l)\<rparr>, w))"

definition or_100 :: "nat option \<Rightarrow> nat" where
  "or_100 limit = (case limit of Some n \<Rightarrow> n | None \<Rightarrow> 100)"

definition get_entries :: "nat option \<Rightarrow> audit_logger \<Rightarrow> audit_entry list" where
  "get_entries limit l = take (min (or_100 limit) (length (al_entries l))) (al_entries l)"

definition get_entries_by_type :: "audit_event_type \<Rightarrow> nat option \<Rightarrow> audit_logger \<Rightarrow> audit_entry list" where
  "get_entries_by_type t limit l = take (or_100 limit) (filter (\<lambda>e. ae_event_type e = t) (al_entries l))"

definition get_entries_by_outcome :: "audit_outcome \<Rightarrow> nat option \<Rightarrow> audit_logger \<Rightarrow> audit_entry list" where
  "get_entries_by_outcome p limit l = take (or_100 limit) (filter (\<lambda>e. ae_outcome e = p) (al_entries l))"

section \<open>Lemmas\<close>

lemma butlast_take_push:
  assumes "0 < cap" "length xs \<le> cap"
  shows "x # (if cap \<le> length xs then butlast xs else xs) = take cap (x # xs)"
proof (cases cap)
  case (Suc n)
  with assms have "n = length xs - 1" if "cap \<le> length xs" using that by simp
  with assms Suc show ?thesis by (auto simp: butlast_conv_take)
qed (use assms in simp)

interpretation audit_ring: bounded_log push_entry MAX_MEMORY_ENTRIES
  by unfold_locales
     (simp_all only: push_entry_def butlast_take_push MAX_MEMORY_ENTRIES_def, simp_all)

lemma audit_log_entries:
  "al_entries (fst (audit_log j e (l, w))) =
     (if should_log l (ae_event_type e) then push_entry e (al_entries l) else al_entries l)"
  "al_config (fst (audit_log j e (l, w))) = al_config l"
  "al_log_file_path (fst (audit_log j e (l, w))) = al_log_file_path l"
  by (simp_all add: audit_log_def Let_def)

lemma fold_audit_log:
  "al_entries (fst (fold (audit_log j) es (l, w))) =
     fold push_entry (filter (\<lambda>e. should_log l (ae_event_type e)) es) (al_entries l)
   \<and> al_config (fst (fold (audit_log j) es (l, w))) = al_config l"
proof (induction es arbitrary: l w)
  case (Cons e es)
  obtain l' w' where a: "audit_log j e (l, w) = (l', w')" by fastforce
  have c: "al_config l' = al_config l" using audit_log_entries(2) [of j e l w] a by simp
  then have "should_log l' = should_log l" by (intro ext) (simp add: should_log_def)
  with Cons.IH [of l' w'] a c audit_log_entries(1) [of j e l w] show ?case by simp
qed simp

lemma backup_inj [simp]: "backup path i = backup path j \<longleftrightarrow> i = j"
  by (simp add: backup_def)

lemma backup_not_path [simp]: "backup path i \<noteq> path" "path \<noteq> backup path i"
  by (simp_all add: backup_def)

section \<open>Rotation\<close>

text \<open>What rotation comes to when no call fails.\<close>

fun shifted_logs :: "string \<Rightarrow> nat \<Rightarrow> file_system \<Rightarrow> file_system" where
  "shifted_logs path 0 fs = fs"
| "shifted_logs path (Suc n) fs =
     shifted_logs path n
       (if fs (backup path (Suc n)) \<noteq> None
        then rename_file (backup path (Suc n)) (backup path (Suc (Suc n))) fs else fs)"

definition rotated_logs :: "string \<Rightarrow> nat \<Rightarrow> file_system \<Rightarrow> file_system" where
  "rotated_logs path max_files fs =
     (let fs = (if fs (backup path max_files) \<noteq> None then fs(backup path max_files := None) else fs);
          fs = shifted_logs path (max_files - 1) fs
      in if fs path \<noteq> None then rename_file path (backup path 1) fs else fs)"

lemma and_then_Ok [simp]: "and_then (Ok u, fs) k = k fs" "and_then (Err e, fs) k = (Err e, fs)"
  by (simp_all add: and_then_def)

lemma file_io_works [simp]: "file_io (\<lambda>_. None) call effect fs = (Ok (), effect fs)"
  by (simp add: file_io_def)

lemma file_tests_work [simp]:
  "file_exists (\<lambda>_. None) path fs \<longleftrightarrow> fs path \<noteq> None"
  "file_length (\<lambda>_. None) path fs = map_option length (fs path)"
  by (simp_all add: file_exists_def file_length_def)

lemma shift_logs_works [simp]: "shift_logs (\<lambda>_. None) path n fs = (Ok (), shifted_logs path n fs)"
  by (induction n arbitrary: fs) simp_all

lemma rotate_logs_works [simp]: "rotate_logs (\<lambda>_. None) path n fs = (Ok (), rotated_logs path n fs)"
  by (simp add: rotate_logs_def rotated_logs_def Let_def)

lemma append_line_works [simp]:
  "append_line (\<lambda>_. None) path line fs =
     (Ok (), fs(path := Some ((case fs path of Some old \<Rightarrow> old | None \<Rightarrow> []) @ line @ [char_of (10 :: nat)])))"
  by (simp add: append_line_def write_line_def append_to_def)

text \<open>A shift of \<open>n\<close> generations moves each of them up by one, provided the slot above is free.\<close>

lemma shifted_logs_spec:
  "fs (backup path (Suc n)) = None \<Longrightarrow>
   (\<forall>i. 1 \<le> i \<and> i \<le> n \<longrightarrow> shifted_logs path n fs (backup path (Suc i)) = fs (backup path i))
   \<and> (0 < n \<longrightarrow> shifted_logs path n fs (backup path 1) = None)
   \<and> (\<forall>x. (\<forall>i. 1 \<le> i \<and> i \<le> Suc n \<longrightarrow> x \<noteq> backup path i) \<longrightarrow> shifted_logs path n fs x = fs x)"
proof (induction n arbitrary: fs)
  case (Suc n)
  let ?a = "backup path (Suc n)" and ?b = "backup path (Suc (Suc n))"
  define gs where "gs = (if fs ?a \<noteq> None then rename_file ?a ?b fs else fs)"
  have gs: "gs x = (if x = ?b then fs ?a else if x = ?a then None else fs x)" for x
    using Suc.prems by (auto simp: gs_def rename_file_def)
  have step: "shifted_logs path (Suc n) fs = shifted_logs path n gs" by (simp add: gs_def)
  have free: "gs ?a = None" by (simp add: gs)
  from Suc.IH [of gs, OF free] have IH:
      "(\<forall>i. 1 \<le> i \<and> i \<le> n \<longrightarrow> shifted_logs path n gs (backup path (Suc i)) = gs (backup path i))
       \<and> (0 < n \<longrightarrow> shifted_logs path n gs (backup path 1) = None)
       \<and> (\<forall>x. (\<forall>i. 1 \<le> i \<and> i \<le> Suc n \<longrightarrow> x \<noteq> backup path i) \<longrightarrow> shifted_logs path n gs x = gs x)" .
  show ?case
  proof (intro conjI allI impI)
    fix i assume i: "1 \<le> i \<and> i \<le> Suc n"
    show "shifted_logs path (Suc n) fs (backup path (Suc i)) = fs (backup path i)"
    proof (cases "i = Suc n")
      case True
      then have "shifted_logs path n gs (backup path (Suc i)) = gs (backup path (Suc i))"
        using IH by auto
      with True show ?thesis by (simp only: step gs) simp
    next
      case False
      with i IH have "shifted_logs path n gs (backup path (Suc i)) = gs (backup path i)" by auto
      with False i show ?thesis by (simp only: step gs) auto
    qed
  next
    show "shifted_logs path (Suc n) fs (backup path 1) = None"
      unfolding step using IH by (cases "n = 0") (auto simp: gs)
  next
    fix x assume "\<forall>i. 1 \<le> i \<and> i \<le> Suc (Suc n) \<longrightarrow> x \<noteq> backup path i"
    with IH show "shifted_logs path (Suc n) fs x = fs x" unfolding step by (simp add: gs)
  qed
qed simp

lemma rotated_logs_spec:
  assumes "1 \<le> n" "fs path = Some content"
  shows "rotated_logs path n fs path = None \<and> rotated_logs path n fs (backup path 1) = Some content
    \<and> (\<forall>i. 1 \<le> i \<and> i < n \<longrightarrow> rotated_logs path n fs (backup path (Suc i)) = fs (backup path i))
    \<and> (\<forall>x. x \<noteq> path \<and> (\<forall>i. 1 \<le> i \<and> i \<le> n \<longrightarrow> x \<noteq> backup path i) \<longrightarrow> rotated_logs path n fs x = fs x)"
proof -
  define gs where "gs = (if fs (backup path n) \<noteq> None then fs(backup path n := None) else fs)"
  obtain k where n: "n = Suc k" using assms(1) by (cases n) auto
  have gs: "gs x = (if x = backup path n then None else fs x)" for x by (auto simp: gs_def)
  define hs where "hs = shifted_logs path k gs"
  have "gs (backup path (Suc k)) = None" by (simp add: gs n)
  note S = shifted_logs_spec [of gs path k, OF this, folded hs_def]
  have p: "hs path = Some content" using S assms(2) by (simp add: gs)
  then have rot: "rotated_logs path n fs = rename_file path (backup path 1) hs"
    unfolding rotated_logs_def gs_def [symmetric] Let_def by (simp add: n hs_def [symmetric])
  show ?thesis
    unfolding rot using S p n by (auto simp: rename_file_def gs)
qed

section \<open>Properties\<close>

text \<open>After any sequence of audit calls the memory ring holds exactly the last 1000 entries whose
  event type the configuration selects, newest first; a disabled logger records nothing.\<close>
theorem audit_ring_recent:
  "al_entries (fst (fold (audit_log to_json) es (audit_logger_new config, w))) =
     take 1000 (rev (filter (\<lambda>e. ad_enabled config
        \<and> (ad_events config = [] \<or> ae_event_type e \<in> set (ad_events config))) es))"
proof -
  have "should_log (audit_logger_new config) t \<longleftrightarrow>
      ad_enabled config \<and> (ad_events config = [] \<or> t \<in> set (ad_events config))" for t
    by (simp add: should_log_def audit_logger_new_def)
  moreover have "al_entries (audit_logger_new config) = []" by (simp add: audit_logger_new_def)
  ultimately show ?thesis
    using fold_audit_log [of to_json es "audit_logger_new config" w] audit_ring.fold_from_empty
    by (simp add: MAX_MEMORY_ENTRIES_def)
qed

text \<open>Writing an entry to a file that has reached the limit rotates first, as long as no call fails: the old file becomes
  \<^verbatim>\<open>.1\<close>, every kept generation moves up by one, no other file is touched, and the new file
  holds the new line alone. Below the limit the line is appended. Either way the file stays
  below the limit plus one line. (With a limit of no rotated files, one is kept all the same.)\<close>
theorem audit_file_rotation:
  assumes "ad_rotation_enabled config" "fs path = Some old"
  shows "(unat (ad_max_file_size_bytes config) \<le> length old \<longrightarrow>
      (let fs' = snd (write_to_file (\<lambda>_. None) path line config fs); n = ad_max_rotated_files config in
       fs' path = Some (line @ [char_of (10 :: nat)]) \<and> fs' (backup path 1) = Some old
       \<and> (\<forall>i. 1 \<le> i \<and> i < n \<longrightarrow> fs' (backup path (Suc i)) = fs (backup path i))
       \<and> (\<forall>x. x \<noteq> path \<and> (\<forall>i \<le> max 1 n. x \<noteq> backup path i) \<longrightarrow> fs' x = fs x)))
    \<and> (length old < unat (ad_max_file_size_bytes config) \<longrightarrow>
      snd (write_to_file (\<lambda>_. None) path line config fs) = fs(path := Some (old @ line @ [char_of (10 :: nat)])))
    \<and> (\<exists>new. snd (write_to_file (\<lambda>_. None) path line config fs) path = Some new
        \<and> length new \<le> unat (ad_max_file_size_bytes config) + length line + 1)"
proof -
  let ?m = "unat (ad_max_file_size_bytes config)" and ?n = "ad_max_rotated_files config"
  let ?fs = "snd (write_to_file (\<lambda>_. None) path line config fs)" and ?rot = "rotated_logs path ?n fs"
  have small: "?fs = fs(path := Some (old @ line @ [char_of (10 :: nat)]))" if "length old < ?m"
    using assms that by (simp add: write_to_file_def)
  have big: "?fs = snd (append_line (\<lambda>_. None) path line ?rot)" if "?m \<le> length old"
    using assms that by (simp add: write_to_file_def)
  have rot: "?rot path = None \<and> ?rot (backup path 1) = Some old
    \<and> (\<forall>i. 1 \<le> i \<and> i < ?n \<longrightarrow> ?rot (backup path (Suc i)) = fs (backup path i))
    \<and> (\<forall>x. x \<noteq> path \<and> (\<forall>i \<le> max 1 ?n. x \<noteq> backup path i) \<longrightarrow> ?rot x = fs x)"
  proof (cases "1 \<le> ?n")
    case True
    with rotated_logs_spec [of ?n fs path old] assms(2) show ?thesis
      by (simp add: max_def split: if_splits)
  next
    case False
    with assms(2) show ?thesis by (auto simp: rotated_logs_def rename_file_def Let_def)
  qed
  show ?thesis
  proof (cases "length old < ?m")
    case True
    with small show ?thesis by simp
  next
    case False
    with big rot show ?thesis by (simp add: Let_def)
  qed
qed

theorem audit_file_rotation_witness:
  "let config = default_audit_config\<lparr>ad_max_file_size_bytes := 2, ad_max_rotated_files := 2\<rparr>;
       fs = [''a'' \<mapsto> ''xyz'', backup ''a'' 1 \<mapsto> ''old''];
       fs' = snd (write_to_file (\<lambda>_. None) ''a'' ''n'' config fs)
   in fs' (backup ''a'' 1) = Some ''xyz'' \<and> fs' (backup ''a'' 2) = Some ''old''"
proof -
  define c where "c = default_audit_config\<lparr>ad_max_file_size_bytes := 2, ad_max_rotated_files := 2\<rparr>"
  define fs where "fs = [''a'' \<mapsto> ''xyz'', backup ''a'' 1 \<mapsto> ''old'']"
  define fs' where "fs' = snd (write_to_file (\<lambda>_. None) ''a'' ''n'' c fs)"
  have c: "ad_rotation_enabled c" "fs ''a'' = Some ''xyz''" "unat (ad_max_file_size_bytes c) \<le> length ''xyz''"
    "ad_max_rotated_files c = 2" "fs (backup ''a'' 1) = Some ''old''"
    by (simp_all add: c_def fs_def default_audit_config_def)
  from audit_file_rotation [of c fs "''a''" "''xyz''" "''n''", OF c(1,2), folded fs'_def] c(3)
  have "fs' (backup ''a'' 1) = Some ''xyz''"
    "\<And>i. 1 \<le> i \<and> i < ad_max_rotated_files c \<longrightarrow> fs' (backup ''a'' (Suc i)) = fs (backup ''a'' i)"
    unfolding Let_def by blast+
  from this(1) this(2) [of 1] c(4,5) have "fs' (backup ''a'' 1) = Some ''xyz'' \<and> fs' (backup ''a'' 2) = Some ''old''"
    by (simp add: numeral_2_eq_2)
  then show ?thesis unfolding c_def fs_def fs'_def Let_def .
qed

text \<open>Under any failures: a generation whose \<^verbatim>\<open>exists\<close> test answered truthfully stays where it is or moves up
  by one.\<close>

definition stays_or_moves :: "string \<Rightarrow> nat \<Rightarrow> file_system \<Rightarrow> file_system \<Rightarrow> bool" where
  "stays_or_moves path i fs fs' \<longleftrightarrow>
     fs (backup path i) = None \<or> fs' (backup path i) = fs (backup path i) \<or> fs' (backup path (Suc i)) = fs (backup path i)"

lemma file_io_cases:
  obtains "file_io io call effect fs = (Ok (), effect fs)" | e where "file_io io call effect fs = (Err e, fs)"
  by (cases "io call") (auto simp: file_io_def)

definition no_backup :: "string \<Rightarrow> nat \<Rightarrow> string \<Rightarrow> bool" where
  "no_backup path n x \<longleftrightarrow> (\<forall>i. 1 \<le> i \<and> i \<le> n \<longrightarrow> x \<noteq> backup path i)"

lemma no_backup_Suc: "no_backup path (Suc n) x \<longleftrightarrow> no_backup path n x \<and> x \<noteq> backup path (Suc n)"
  by (auto simp: no_backup_def le_Suc_eq)

lemma no_backup_later: "n < i \<Longrightarrow> no_backup path n (backup path i)" "no_backup path n path"
  by (auto simp: no_backup_def)

text \<open>A shift touches no file but the backups it handles, and moves a generation it sees up by one,
  or ends in an error with the generation in one of the two places.\<close>

lemma shift_logs_others:
  "shift_logs io path n fs = (r, fs') \<Longrightarrow> no_backup path (Suc n) x \<Longrightarrow> fs' x = fs x"
proof (induction n arbitrary: fs)
  case (Suc n)
  let ?a = "backup path (Suc n)" and ?b = "backup path (Suc (Suc n))"
  have x: "no_backup path (Suc n) x" "x \<noteq> ?a" "x \<noteq> ?b" using Suc.prems(2) by (auto simp: no_backup_Suc)
  show ?case
  proof (cases "file_exists io ?a fs")
    case True
    show ?thesis
    proof (rule file_io_cases [of io "Rename_File ?a ?b" "rename_file ?a ?b" fs])
      assume "file_io io (Rename_File ?a ?b) (rename_file ?a ?b) fs = (Ok (), rename_file ?a ?b fs)"
      with Suc.prems(1) True have "shift_logs io path n (rename_file ?a ?b fs) = (r, fs')" by simp
      from Suc.IH [OF this x(1)] x show ?thesis by (simp add: rename_file_def)
    next
      fix e assume "file_io io (Rename_File ?a ?b) (rename_file ?a ?b) fs = (Err e, fs)"
      with Suc.prems(1) True show ?thesis by simp
    qed
  qed (use Suc in \<open>simp add: x\<close>)
qed simp

lemma shift_logs_seen:
  assumes "shift_logs io path n fs = (r, fs')" "1 \<le> i" "i \<le> n" "file_exists io (backup path i) fs"
  shows "fs' (backup path (Suc i)) = fs (backup path i) \<or> r \<noteq> Ok () \<and> fs' (backup path i) = fs (backup path i)"
  using assms
proof (induction n arbitrary: fs)
  case (Suc n)
  let ?a = "backup path (Suc n)" and ?b = "backup path (Suc (Suc n))"
  show ?case
  proof (cases "file_exists io ?a fs")
    case True
    show ?thesis
    proof (rule file_io_cases [of io "Rename_File ?a ?b" "rename_file ?a ?b" fs])
      assume "file_io io (Rename_File ?a ?b) (rename_file ?a ?b) fs = (Ok (), rename_file ?a ?b fs)"
      with Suc.prems(1) True have s: "shift_logs io path n (rename_file ?a ?b fs) = (r, fs')" by simp
      show ?thesis
      proof (cases "i = Suc n")
        case True
        with shift_logs_others [OF s, of ?b] show ?thesis by (simp add: no_backup_later rename_file_def)
      next
        case False
        with Suc.prems Suc.IH [OF s] show ?thesis by (auto simp: rename_file_def file_exists_def)
      qed
    next
      fix e assume "file_io io (Rename_File ?a ?b) (rename_file ?a ?b) fs = (Err e, fs)"
      with Suc.prems(1) True show ?thesis by auto
    qed
  next
    case False
    with Suc show ?thesis by (cases "i = Suc n") auto
  qed
qed simp

text \<open>The last step of a rotation.\<close>

lemma rename_current_keeps:
  assumes "(if file_exists io path gs then file_io io (Rename_File path (backup path 1)) (rename_file path (backup path 1)) gs
      else (Ok (), gs)) = (r, fs')"
  shows "fs' = gs \<or> fs' = rename_file path (backup path 1) gs \<and> gs path \<noteq> None"
  using assms
  by (cases rule: file_io_cases [of io "Rename_File path (backup path 1)" "rename_file path (backup path 1)" gs])
    (auto simp: file_exists_def split: if_splits)

lemma rotate_logs_keeps:
  assumes "1 \<le> n" "rotate_logs io path n fs = (r, fs')"
  shows "(\<forall>i. 1 \<le> i \<and> i < n \<and> io (Exists_File (backup path i)) = None \<longrightarrow> stays_or_moves path i fs fs')
    \<and> (fs' path = fs path \<or> fs' path = None \<and> fs' (backup path 1) = fs path)
    \<and> (\<forall>x. x \<noteq> path \<and> no_backup path n x \<longrightarrow> fs' x = fs x)"
proof -
  obtain k where n: "n = Suc k" using assms(1) by (cases n) auto
  let ?old = "backup path n"
  define st where "st = (if file_exists io ?old fs then file_io io (Remove_File ?old) (\<lambda>fs. fs(?old := None)) fs else (Ok (), fs))"
  have "\<exists>gs. (st = (Ok (), gs) \<or> (\<exists>e. st = (Err e, gs))) \<and> (\<forall>x. x \<noteq> ?old \<longrightarrow> gs x = fs x)"
    unfolding st_def by (cases rule: file_io_cases [of io "Remove_File ?old" "\<lambda>fs. fs(?old := None)" fs]) auto
  then obtain gs where st: "st = (Ok (), gs) \<or> (\<exists>e. st = (Err e, gs))" and gs: "\<And>x. x \<noteq> ?old \<Longrightarrow> gs x = fs x" by blast
  show ?thesis
  proof (cases "\<exists>e. st = (Err e, gs)")
    case True
    with assms(2) have "fs' = gs" unfolding rotate_logs_def st_def [symmetric] by auto
    with gs n show ?thesis by (auto simp: stays_or_moves_def no_backup_def)
  next
    case False
    with st have st: "st = (Ok (), gs)" by blast
    obtain q hs where s: "shift_logs io path k gs = (q, hs)" by fastforce
    note S = shift_logs_others [OF s] shift_logs_seen [OF s]
    have p: "hs path = fs path" using S(1) [of path] gs by (simp add: no_backup_later)
    have seen: "hs (backup path (Suc i)) = fs (backup path i) \<or> q \<noteq> Ok () \<and> hs (backup path i) = fs (backup path i)"
      if "1 \<le> i" "i < n" "io (Exists_File (backup path i)) = None" "fs (backup path i) \<noteq> None" for i
      using S(2) [of i] that gs [of "backup path i"] n by (auto simp: file_exists_def)
    have rest: "hs x = fs x" if "no_backup path n x" for x
      using S(1) [of x] that gs [of x] n by (auto simp: no_backup_def)
    have rot: "rotate_logs io path n fs = and_then (q, hs)
       (\<lambda>fs. if file_exists io path fs then file_io io (Rename_File path (backup path 1)) (rename_file path (backup path 1)) fs
          else (Ok (), fs))"
      unfolding rotate_logs_def st_def [symmetric] st by (simp add: s n)
    have "(q = Ok () \<and> fs' = rename_file path (backup path 1) hs) \<or> fs' = hs"
    proof (cases q)
      case (Ok u)
      with assms(2) rename_current_keeps [of io path hs r fs'] show ?thesis unfolding rot by auto
    qed (use assms(2) in \<open>auto simp: rot and_then_def\<close>)
    then show ?thesis
    proof
      assume "q = Ok () \<and> fs' = rename_file path (backup path 1) hs"
      with p seen rest n show ?thesis by (auto simp: stays_or_moves_def rename_file_def no_backup_def)
    next
      assume "fs' = hs"
      with p seen rest show ?thesis by (auto simp: stays_or_moves_def)
    qed
  qed
qed

lemma append_line_keeps:
  assumes "append_line io path line fs = (r, fs')"
  shows "(\<forall>x. x \<noteq> path \<longrightarrow> fs' x = fs x)
    \<and> (\<forall>old. fs path = Some old \<longrightarrow> (\<exists>k. fs' path = Some (old @ take k (line @ [char_of (10 :: nat)]))))
    \<and> (r = Ok () \<longrightarrow> fs' path = Some ((case fs path of Some old \<Rightarrow> old | None \<Rightarrow> []) @ line @ [char_of (10 :: nat)]))"
proof (cases "io (Open_Append path)")
  case (Some x)
  then have "r \<noteq> Ok () \<and> fs' = fs" using assms by (cases x) (auto simp: append_line_def file_io_def)
  moreover have "\<exists>k. old = old @ take k (line @ [char_of (10 :: nat)])" for old :: string by (rule exI [of _ 0]) simp
  ultimately show ?thesis by simp
next
  case None
  then have w: "write_line io path line (fs(path := Some (case fs path of Some old \<Rightarrow> old | None \<Rightarrow> []))) = (r, fs')"
    using assms by (simp add: append_line_def file_io_def)
  show ?thesis
  proof (cases "io (Write_Line path line)")
    case None
    have "\<exists>k. line @ [char_of (10 :: nat)] = take k (line @ [char_of (10 :: nat)])"
      by (rule exI [of _ "Suc (length line)"]) simp
    with None w show ?thesis by (auto simp: write_line_def append_to_def simp del: take_append)
  next
    case (Some x)
    with w show ?thesis by (cases x) (auto simp: write_line_def append_to_def)
  qed
qed

text \<open>When nothing but the test of \<^verbatim>\<open>.1\<close> fails, a rotation with two backups reports success and
  overwrites \<^verbatim>\<open>.1\<close> with the current file, although \<^verbatim>\<open>.2\<close> is free.\<close>

lemma unseen_backup_is_overwritten:
  assumes "io = (\<lambda>call. if call = Exists_File (backup path 1) then Some x else None)"
    "fs path = Some old" "fs (backup path 2) = None"
  shows "rotate_logs io path 2 fs = (Ok (), fs(path := None, backup path 1 := Some old))"
  using assms by (simp add: rotate_logs_def numeral_2_eq_2 file_exists_def file_io_def rename_file_def)

text \<open>C37: What file system errors can do to the audit log. Whichever calls fail, the \<^verbatim>\<open>metadata\<close> and
  \<^verbatim>\<open>exists\<close> tests included, and wherever in the rotation: every generation but the oldest whose own
  \<^verbatim>\<open>exists\<close> test does not fail is still there afterwards, in its place or in the next (one whose
  test fails can be overwritten: see the lemma above); the current file either has become the first
  backup or still has its content, followed by some prefix of the line (the part a failed write
  left, nothing, or all of it); files that are not the log's are not touched; and when the write
  reports success the line is the last of the file.\<close>
theorem audit_trail_survives_io_errors:
  assumes "write_to_file io path line config fs = (r, fs')" "1 \<le> ad_max_rotated_files config"
  shows "(\<forall>i. 1 \<le> i \<and> i < ad_max_rotated_files config \<and> io (Exists_File (backup path i)) = None
         \<longrightarrow> stays_or_moves path i fs fs')
    \<and> (\<forall>old. fs path = Some old \<longrightarrow>
         (\<exists>k. fs' path = Some (old @ take k (line @ [char_of (10 :: nat)]))) \<or> fs' (backup path 1) = Some old)
    \<and> (\<forall>x. x \<noteq> path \<and> no_backup path (ad_max_rotated_files config) x \<longrightarrow> fs' x = fs x)
    \<and> (r = Ok () \<longrightarrow> (\<exists>before. fs' path = Some (before @ line @ [char_of (10 :: nat)])))"
proof -
  let ?n = "ad_max_rotated_files config"
  obtain q gs where rot: "(if ad_rotation_enabled config \<and>
       (case file_length io path fs of Some bytes \<Rightarrow> unat (ad_max_file_size_bytes config) \<le> bytes | None \<Rightarrow> False)
      then rotate_logs io path ?n fs else (Ok (), fs)) = (q, gs)" by fastforce
  have R: "(\<forall>i. 1 \<le> i \<and> i < ?n \<and> io (Exists_File (backup path i)) = None \<longrightarrow> stays_or_moves path i fs gs)
    \<and> (gs path = fs path \<or> gs path = None \<and> gs (backup path 1) = fs path)
    \<and> (\<forall>x. x \<noteq> path \<and> no_backup path ?n x \<longrightarrow> gs x = fs x)"
  proof (cases "rotate_logs io path ?n fs = (q, gs)")
    case True
    from rotate_logs_keeps [OF assms(2) True] show ?thesis by blast
  next
    case False
    with rot show ?thesis by (auto simp: stays_or_moves_def split: if_splits)
  qed
  have w: "(r, fs') = and_then (q, gs) (append_line io path line)"
    using assms(1) unfolding write_to_file_def rot by simp
  show ?thesis
  proof (cases "q = Ok ()")
    case True
    with w have a: "append_line io path line gs = (r, fs')" by simp
    from append_line_keeps [OF a] R show ?thesis
      by (auto simp: stays_or_moves_def split: option.splits)
  next
    case False
    with w have "r \<noteq> Ok ()" "fs' = gs" by (cases q; auto simp: and_then_def)+
    moreover have "\<exists>k. old = old @ take k (line @ [char_of (10 :: nat)])" for old :: string by (rule exI [of _ 0]) simp
    ultimately show ?thesis using R by auto
  qed
qed

text \<open>The disk refuses the second rename of a rotation: the oldest backup is gone, the rest is where it was.\<close>

theorem audit_trail_survives_io_errors_witness:
  "let config = default_audit_config\<lparr>ad_max_file_size_bytes := 2, ad_max_rotated_files := 2\<rparr>;
       fs = [''a'' \<mapsto> ''xyz'', backup ''a'' 1 \<mapsto> ''old''];
       io = (\<lambda>c. if c = Rename_File ''a'' (backup ''a'' 1) then Some (Bail ''denied'' [], 0) else None);
       (r, fs') = write_to_file io ''a'' ''n'' config fs
   in r \<noteq> Ok () \<and> stays_or_moves ''a'' 1 fs fs' \<and> fs' (backup ''a'' 2) = Some ''old''"
proof -
  let ?c = "default_audit_config\<lparr>ad_max_file_size_bytes := 2, ad_max_rotated_files := 2\<rparr>"
  let ?fs = "[''a'' \<mapsto> ''xyz'', backup ''a'' 1 \<mapsto> ''old'']"
  let ?io = "\<lambda>c. if c = Rename_File ''a'' (backup ''a'' 1) then Some (Bail ''denied'' [], 0 :: nat) else None"
  obtain r fs' where w: "write_to_file ?io ''a'' ''n'' ?c ?fs = (r, fs')" by fastforce
  have c: "1 \<le> ad_max_rotated_files ?c" by simp
  have n: "ad_rotation_enabled ?c" "ad_max_rotated_files ?c = Suc (Suc 0)" "unat (ad_max_file_size_bytes ?c) \<le> length ''xyz''"
    by (simp_all add: default_audit_config_def)
  have "rotate_logs ?io ''a'' (Suc (Suc 0)) ?fs
      = (Err (Bail ''denied'' []), rename_file (backup ''a'' (Suc 0)) (backup ''a'' (Suc (Suc 0))) ?fs)"
    by (simp add: rotate_logs_def file_io_def file_exists_def rename_file_def)
  then have wr: "write_to_file ?io ''a'' ''n'' ?c ?fs
      = (Err (Bail ''denied'' []), rename_file (backup ''a'' (Suc 0)) (backup ''a'' (Suc (Suc 0))) ?fs)"
    unfolding write_to_file_def n(2) using n(1,3) by (simp add: file_length_def)
  with w have "r \<noteq> Ok () \<and> fs' (backup ''a'' 2) = Some ''old''"
    by (auto simp: rename_file_def numeral_2_eq_2)
  moreover have "stays_or_moves ''a'' 1 ?fs fs'"
    using audit_trail_survives_io_errors [OF w c] n(2) by simp
  ultimately show ?thesis unfolding Let_def w prod.case by blast
qed

end
