(* ===== verification/Metric_Calls.thy ===== *)
theory Metric_Calls
  imports Prelude
begin

text \<open>
  The metrics of \<^verbatim>\<open>src/src/metrics.rs\<close>. The registry behind the macros \<^verbatim>\<open>counter!\<close>, \<^verbatim>\<open>gauge!\<close> and
  \<^verbatim>\<open>histogram!\<close> is a library, so a function of that file is the list of calls it makes to the
  registry; a statement about a metric is one about the calls made so far. A float is kept as the
  integer, quotient or duration it was computed from.
\<close>

datatype float_value =
    Of_Nat nat
  | Quotient nat nat
  | Duration nat

datatype metric_call =
    Increment_Counter string "(string \<times> string) list" nat
  | Increment_Gauge string float_value
  | Decrement_Gauge string float_value
  | Set_Gauge string float_value
  | Record_Histogram string "(string \<times> string) list" float_value

definition record_connection_opened :: "metric_call list" where
  "record_connection_opened =
     [Increment_Counter ''ironveil_connections_total'' [] 1, Increment_Gauge ''ironveil_connections_active'' (Of_Nat 1)]"

definition record_connection_closed :: "metric_call list" where
  "record_connection_closed = [Decrement_Gauge ''ironveil_connections_active'' (Of_Nat 1)]"

definition record_connection_rejected :: "string \<Rightarrow> metric_call list" where
  "record_connection_rejected reason =
     [Increment_Counter ''ironveil_connections_rejected_total'' [(''reason'', reason)] 1]"

definition record_query_processed :: "string \<Rightarrow> metric_call list" where
  "record_query_processed protocol = [Increment_Counter ''ironveil_queries_total'' [(''protocol'', protocol)] 1]"

definition record_query_duration :: "string \<Rightarrow> float_value \<Rightarrow> metric_call list" where
  "record_query_duration protocol duration =
     [Record_Histogram ''ironveil_query_duration_seconds'' [(''protocol'', protocol)] duration]"

definition record_fields_masked :: "nat \<Rightarrow> metric_call list" where
  "record_fields_masked count = [Increment_Counter ''ironveil_fields_masked_total'' [] count]"

definition record_masking_error :: "metric_call list" where
  "record_masking_error = [Increment_Counter ''ironveil_masking_errors_total'' [] 1]"

definition record_binary_protocol_rejected :: "metric_call list" where
  "record_binary_protocol_rejected = [Increment_Counter ''ironveil_binary_protocol_rejected_total'' [] 1]"

definition record_client_auth :: "bool \<Rightarrow> metric_call list" where
  "record_client_auth success =
     [Increment_Counter ''ironveil_client_auth_total'' [(''outcome'', if success then ''success'' else ''failure'')] 1]"

definition record_copy_passthrough :: "metric_call list" where
  "record_copy_passthrough = [Increment_Counter ''ironveil_copy_passthrough_total'' [] 1]"

definition record_health_check :: "bool \<Rightarrow> nat option \<Rightarrow> metric_call list" where
  "record_health_check healthy latency_ms =
     (case latency_ms of
        Some latency \<Rightarrow> [Record_Histogram ''ironveil_upstream_health_check_latency_ms'' [] (Of_Nat latency)]
      | None \<Rightarrow> [])
     @ [Set_Gauge ''ironveil_upstream_healthy'' (Of_Nat (if healthy then 1 else 0))]"

definition record_upstream_timeout :: "metric_call list" where
  "record_upstream_timeout = [Increment_Counter ''ironveil_upstream_timeouts_total'' [] 1]"

definition record_idle_timeout :: "metric_call list" where
  "record_idle_timeout = [Increment_Counter ''ironveil_idle_timeouts_total'' [] 1]"

definition record_upstream_pool_wait :: "float_value \<Rightarrow> metric_call list" where
  "record_upstream_pool_wait duration = [Record_Histogram ''ironveil_upstream_pool_wait_seconds'' [] duration]"

definition record_upstream_pool_acquire_timeout :: "metric_call list" where
  "record_upstream_pool_acquire_timeout = [Increment_Counter ''ironveil_upstream_pool_acquire_timeouts_total'' [] 1]"

definition set_upstream_pool_state :: "nat \<Rightarrow> nat \<Rightarrow> metric_call list" where
  "set_upstream_pool_state active max_size =
     [Set_Gauge ''ironveil_upstream_pool_active_connections'' (Of_Nat active),
      Set_Gauge ''ironveil_upstream_pool_size'' (Of_Nat max_size),
      Set_Gauge ''ironveil_upstream_pool_utilization_ratio'' (if max_size = 0 then Of_Nat 0 else Quotient active max_size)]"

section \<open>Installing the recorder\<close>

text \<open>The builder of the Prometheus exporter and its handle are the library's. The handle is kept in a
  static cell that is filled once.\<close>

record ('b, 'h) prometheus =
  pr_builder :: 'b
  pr_set_buckets :: "float_value list \<Rightarrow> 'b \<Rightarrow> 'b result"
  pr_set_buckets_for_metric :: "string \<Rightarrow> float_value list \<Rightarrow> 'b \<Rightarrow> 'b result"
  pr_install_recorder :: "'b \<Rightarrow> 'h result"

definition DEFAULT_BUCKETS :: "float_value list" where
  "DEFAULT_BUCKETS = map (\<lambda>n. Quotient n 10000) [10, 25, 50, 100, 250, 500, 1000, 2500, 5000, 10000, 25000, 50000, 100000]"

definition LATENCY_BUCKETS :: "float_value list" where
  "LATENCY_BUCKETS = map (\<lambda>n. Quotient n 10) [10, 25, 50, 100, 250, 500, 1000, 2500, 5000, 10000, 25000]"

text \<open>\<^verbatim>\<open>expect\<close>: an error is a panic.\<close>

definition expect :: "'a result \<Rightarrow> 'a result" where
  "expect r = (case r of Ok x \<Rightarrow> Ok x | _ \<Rightarrow> Panic)"

definition init_metrics :: "('b, 'h) prometheus \<Rightarrow> 'h option \<Rightarrow> 'h result \<times> 'h option" where
  "init_metrics pr cell =
     (case cell of
        Some h \<Rightarrow> (Ok h, cell)
      | None \<Rightarrow>
          (let r = rbind (expect (pr_set_buckets pr DEFAULT_BUCKETS (pr_builder pr))) (\<lambda>b.
                   rbind (expect (pr_set_buckets_for_metric pr ''ironveil_upstream_health_check_latency_ms'' LATENCY_BUCKETS b)) (\<lambda>b.
                   expect (pr_install_recorder pr b)))
           in (r, case r of Ok h \<Rightarrow> Some h | _ \<Rightarrow> None)))"

section \<open>What has been counted\<close>

text \<open>The sum of a counter's increments, the last value a gauge was set to, and the balance of the unit
  steps of a gauge.\<close>

fun counted_by :: "string \<Rightarrow> (string \<times> string) list \<Rightarrow> metric_call list \<Rightarrow> nat" where
  "counted_by name labels [] = 0"
| "counted_by name labels (c # cs) =
     (case c of
        Increment_Counter n l k \<Rightarrow> if n = name \<and> l = labels then k else 0
      | _ \<Rightarrow> 0) + counted_by name labels cs"

fun last_set :: "string \<Rightarrow> metric_call list \<Rightarrow> float_value option" where
  "last_set name [] = None"
| "last_set name (c # cs) =
     (case last_set name cs of
        Some v \<Rightarrow> Some v
      | None \<Rightarrow> (case c of Set_Gauge n v \<Rightarrow> if n = name then Some v else None | _ \<Rightarrow> None))"

fun gauge_balance :: "string \<Rightarrow> metric_call list \<Rightarrow> int" where
  "gauge_balance name [] = 0"
| "gauge_balance name (c # cs) =
     (case c of
        Increment_Gauge n (Of_Nat k) \<Rightarrow> if n = name then int k else 0
      | Decrement_Gauge n (Of_Nat k) \<Rightarrow> if n = name then - int k else 0
      | _ \<Rightarrow> 0) + gauge_balance name cs"

lemma counted_by_append [simp]: "counted_by n l (xs @ ys) = counted_by n l xs + counted_by n l ys"
  by (induction xs) auto

lemma gauge_balance_append [simp]: "gauge_balance n (xs @ ys) = gauge_balance n xs + gauge_balance n ys"
  by (induction xs) auto

lemma last_set_append [simp]:
  "last_set n (xs @ ys) = (case last_set n ys of Some v \<Rightarrow> Some v | None \<Rightarrow> last_set n xs)"
  by (induction xs) (auto split: option.splits)

lemma init_metrics_once:
  "init_metrics pr cell = (Ok h, cell') \<Longrightarrow> cell' = Some h \<and> init_metrics pr cell' = (Ok h, cell')"
  by (auto simp: init_metrics_def Let_def split: option.splits result.splits)

lemmas metric_calls_defs =
  record_connection_opened_def record_connection_closed_def record_connection_rejected_def
  record_upstream_pool_wait_def record_upstream_pool_acquire_timeout_def set_upstream_pool_state_def

end
