(* ===== verification/State.thy ===== *)
theory State
  imports Audit_Log Metric_Calls
begin

text \<open>
  \<^verbatim>\<open>src/src/state.rs\<close>: the state every component shares (\<^verbatim>\<open>AppState\<close>) and its operations. Locks are
  not modelled: each operation is one function on the state. That is an abstraction for
  \<open>commit_config\<close>, which in the code writes and renames its file before it takes the lock, so that two
  concurrent commits can interleave there. The calls made to the metrics registry, which the code keeps in a global, are a part of it here.
\<close>

section \<open>Statistics\<close>

record log_entry =
  le_id :: string
  le_timestamp :: nat
  le_connection_id :: nat
  le_event_type :: string
  le_content :: string
  le_details :: "json option"

record health_status =
  he_healthy :: bool
  he_last_check :: "nat option"
  he_last_error :: "string option"
  he_consecutive_failures :: u32
  he_consecutive_successes :: u32
  he_latency_ms :: "u64 option"

definition default_health_status :: health_status where
  "default_health_status =
     \<lparr>he_healthy = False, he_last_check = None, he_last_error = None, he_consecutive_failures = 0,
      he_consecutive_successes = 0, he_latency_ms = None\<rparr>"

datatype db_protocol = Postgres | MySql

definition metrics_label :: "db_protocol \<Rightarrow> string" where
  "metrics_label p = (case p of Postgres \<Rightarrow> ''postgres'' | MySql \<Rightarrow> ''mysql'')"

record masking_stats =
  ms_email :: u64
  ms_phone :: u64
  ms_address :: u64
  ms_credit_card :: u64
  ms_ssn :: u64
  ms_ip :: u64
  ms_dob :: u64
  ms_passport :: u64
  ms_hash :: u64
  ms_json :: u64
  ms_other :: u64

definition default_masking_stats :: masking_stats where
  "default_masking_stats =
     \<lparr>ms_email = 0, ms_phone = 0, ms_address = 0, ms_credit_card = 0, ms_ssn = 0, ms_ip = 0,
      ms_dob = 0, ms_passport = 0, ms_hash = 0, ms_json = 0, ms_other = 0\<rparr>"

definition increment :: "string \<Rightarrow> masking_stats \<Rightarrow> masking_stats" where
  "increment strategy s =
     (if strategy = ''email'' then s\<lparr>ms_email := ms_email s + 1\<rparr>
      else if strategy = ''phone'' then s\<lparr>ms_phone := ms_phone s + 1\<rparr>
      else if strategy = ''address'' then s\<lparr>ms_address := ms_address s + 1\<rparr>
      else if strategy = ''credit_card'' then s\<lparr>ms_credit_card := ms_credit_card s + 1\<rparr>
      else if strategy = ''ssn'' then s\<lparr>ms_ssn := ms_ssn s + 1\<rparr>
      else if strategy = ''ip'' then s\<lparr>ms_ip := ms_ip s + 1\<rparr>
      else if strategy = ''dob'' then s\<lparr>ms_dob := ms_dob s + 1\<rparr>
      else if strategy = ''passport'' then s\<lparr>ms_passport := ms_passport s + 1\<rparr>
      else if strategy = ''hash'' then s\<lparr>ms_hash := ms_hash s + 1\<rparr>
      else if strategy = ''json'' then s\<lparr>ms_json := ms_json s + 1\<rparr>
      else s\<lparr>ms_other := ms_other s + 1\<rparr>)"

definition masking_total :: "masking_stats \<Rightarrow> u64" where
  "masking_total s = ms_email s + ms_phone s + ms_address s + ms_credit_card s + ms_ssn s + ms_ip s
     + ms_dob s + ms_passport s + ms_hash s + ms_json s + ms_other s"

record query_stats =
  qs_total_queries :: u64
  qs_select_count :: u64
  qs_insert_count :: u64
  qs_update_count :: u64
  qs_delete_count :: u64
  qs_other_count :: u64

definition default_query_stats :: query_stats where
  "default_query_stats = \<lparr>qs_total_queries = 0, qs_select_count = 0, qs_insert_count = 0,
     qs_update_count = 0, qs_delete_count = 0, qs_other_count = 0\<rparr>"

text \<open>
  \<^verbatim>\<open>to_uppercase\<close> as far as a comparison with an ASCII word can see it: ASCII letters, and the
  two characters whose upper case is an ASCII letter, U+0131 (I) and U+017F (S).
\<close>

definition ascii_upper :: "char \<Rightarrow> char" where
  "ascii_upper c = (if 97 \<le> char_code c \<and> char_code c \<le> 122 then char_of (char_code c - 32) else c)"

fun to_uppercase :: "string \<Rightarrow> string" where
  "to_uppercase [] = []"
| "to_uppercase [c] = [ascii_upper c]"
| "to_uppercase (c # d # s) =
     (if char_code c = 0xC4 \<and> char_code d = 0xB1 then CHR ''I'' # to_uppercase s
      else if char_code c = 0xC5 \<and> char_code d = 0xBF then CHR ''S'' # to_uppercase s
      else ascii_upper c # to_uppercase (d # s))"

definition query_stats_record :: "string \<Rightarrow> query_stats \<Rightarrow> query_stats" where
  "query_stats_record query_type q =
     (let q = q\<lparr>qs_total_queries := qs_total_queries q + 1\<rparr>; t = to_uppercase query_type in
      if t = ''SELECT'' then q\<lparr>qs_select_count := qs_select_count q + 1\<rparr>
      else if t = ''INSERT'' then q\<lparr>qs_insert_count := qs_insert_count q + 1\<rparr>
      else if t = ''UPDATE'' then q\<lparr>qs_update_count := qs_update_count q + 1\<rparr>
      else if t = ''DELETE'' then q\<lparr>qs_delete_count := qs_delete_count q + 1\<rparr>
      else q\<lparr>qs_other_count := qs_other_count q + 1\<rparr>)"

record connection_data_point =
  cp_timestamp :: nat
  cp_active_connections :: nat
  cp_total_queries :: u64
  cp_total_masked :: u64

record app_stats =
  ap_masking :: masking_stats
  ap_queries :: query_stats
  ap_total_connections :: u64

definition default_app_stats :: app_stats where
  "default_app_stats = \<lparr>ap_masking = default_masking_stats, ap_queries = default_query_stats,
     ap_total_connections = 0\<rparr>"

section \<open>The shared state\<close>

record app_state =
  as_config :: app_config
  as_config_path :: string
  as_active_connections :: nat
  as_logs :: "log_entry list"
  as_health_status :: health_status
  as_upstream_host :: string
  as_upstream_port :: u16
  as_db_protocol :: db_protocol
  as_audit_logger :: audit_logger
  as_stats :: app_stats
  as_connection_history :: "connection_data_point list"
  as_masking_key :: "byte list"
  as_metrics :: "metric_call list"

text \<open>\<open>sha256\<close> is the hash of the \<^verbatim>\<open>sha2\<close> crate, \<open>random_key\<close> the draw of 32 bytes.\<close>

definition derive_masking_key :: "(byte list \<Rightarrow> byte list) \<Rightarrow> byte list \<Rightarrow> string option \<Rightarrow> byte list" where
  "derive_masking_key sha256 random_key secret =
     (case secret of
        Some s \<Rightarrow> if s \<noteq> [] then sha256 (bytes_of_str s) else random_key
      | None \<Rightarrow> random_key)"

definition audit_config_of :: "app_config \<Rightarrow> audit_config" where
  "audit_config_of c = (case cf_audit c of Some a \<Rightarrow> a | None \<Rightarrow> default_audit_config)"

definition app_state_new :: "(byte list \<Rightarrow> byte list) \<Rightarrow> byte list \<Rightarrow> app_config \<Rightarrow> string \<Rightarrow> string \<Rightarrow> u16
    \<Rightarrow> db_protocol \<Rightarrow> app_state" where
  "app_state_new sha256 random_key config config_path host port protocol =
     \<lparr>as_config = config, as_config_path = config_path, as_active_connections = 0, as_logs = [],
      as_health_status = default_health_status, as_upstream_host = host, as_upstream_port = port,
      as_db_protocol = protocol, as_audit_logger = audit_logger_new (audit_config_of config),
      as_stats = default_app_stats, as_connection_history = [],
      as_masking_key = derive_masking_key sha256 random_key (cf_masking_secret config), as_metrics = []\<rparr>"

definition metered :: "metric_call list \<Rightarrow> app_state \<Rightarrow> app_state" where
  "metered calls s = s\<lparr>as_metrics := as_metrics s @ calls\<rparr>"

definition push_log :: "log_entry \<Rightarrow> log_entry list \<Rightarrow> log_entry list" where
  "push_log e logs = e # (if 100 \<le> length logs then butlast logs else logs)"

definition add_log :: "log_entry \<Rightarrow> app_state \<Rightarrow> app_state" where
  "add_log e s = s\<lparr>as_logs := push_log e (as_logs s)\<rparr>"

definition update_health_status :: "nat \<Rightarrow> bool \<Rightarrow> u64 option \<Rightarrow> string option \<Rightarrow> app_state \<Rightarrow> app_state" where
  "update_health_status now healthy latency_ms error s =
     (let st = (as_health_status s)\<lparr>he_last_check := Some now, he_latency_ms := latency_ms\<rparr>;
          st = (if healthy
                then st\<lparr>he_consecutive_successes := he_consecutive_successes st + 1,
                        he_consecutive_failures := 0, he_last_error := None\<rparr>
                else st\<lparr>he_consecutive_failures := he_consecutive_failures st + 1,
                        he_consecutive_successes := 0, he_last_error := error\<rparr>);
          hc = cf_health_check (as_config s);
          unhealthy_threshold = (case hc of Some h \<Rightarrow> hk_unhealthy_threshold h | None \<Rightarrow> 3);
          healthy_threshold = (case hc of Some h \<Rightarrow> hk_healthy_threshold h | None \<Rightarrow> 1)
      in s\<lparr>as_health_status :=
          (if unhealthy_threshold \<le> he_consecutive_failures st then st\<lparr>he_healthy := False\<rparr>
           else if healthy_threshold \<le> he_consecutive_successes st then st\<lparr>he_healthy := True\<rparr>
           else st)\<rparr>)"

text \<open>
  Persist, then swap, in one step (in the code only the swap is under the lock). \<open>write_file\<close> and \<open>rename\<close> are the file system's operations: they return
  the file system afterwards and whether they succeeded.
\<close>

type_synonym 'fs file_op = "'fs \<Rightarrow> unit result \<times> 'fs"

definition commit_config :: "(app_config \<Rightarrow> string result) \<Rightarrow> (string \<Rightarrow> string \<Rightarrow> 'fs file_op)
    \<Rightarrow> (string \<Rightarrow> string \<Rightarrow> 'fs file_op) \<Rightarrow> app_config \<Rightarrow> app_state \<times> 'fs \<Rightarrow> unit result \<times> app_state \<times> 'fs" where
  "commit_config to_yaml write_file rename new_config sf =
     (case sf of (s, fs) \<Rightarrow>
      case to_yaml new_config of
        Err e \<Rightarrow> (Err e, s, fs)
      | Panic \<Rightarrow> (Panic, s, fs)
      | Ok yaml \<Rightarrow>
          (let path = as_config_path s; tmp = path @ ''.tmp'' in
           case write_file tmp yaml fs of
             (Ok _, fs) \<Rightarrow>
               (case rename tmp path fs of
                  (Ok _, fs) \<Rightarrow> (Ok (), s\<lparr>as_config := new_config\<rparr>, fs)
                | (Err e, fs) \<Rightarrow> (Err e, s, fs)
                | (Panic, fs) \<Rightarrow> (Panic, s, fs))
           | (Err e, fs) \<Rightarrow> (Err e, s, fs)
           | (Panic, fs) \<Rightarrow> (Panic, s, fs)))"

text \<open>The comparison of the restart-only sections only decides about a warning.\<close>

definition reload_config :: "(byte list \<Rightarrow> byte list) \<Rightarrow> (string \<Rightarrow> app_config result) \<Rightarrow> app_state
    \<Rightarrow> nat result \<times> app_state" where
  "reload_config sha256 load_file s =
     (case load_file (as_config_path s) of
        Err e \<Rightarrow> (Err e, s)
      | Panic \<Rightarrow> (Panic, s)
      | Ok new_config \<Rightarrow>
          (let s = (case cf_masking_secret new_config of
                 Some secret \<Rightarrow> if secret \<noteq> []
                   then s\<lparr>as_masking_key := derive_masking_key sha256 [] (Some secret)\<rparr> else s
               | None \<Rightarrow> s);
               s = s\<lparr>as_audit_logger := apply_config (audit_config_of new_config) (as_audit_logger s)\<rparr>
           in (Ok (length (cf_rules new_config)), s\<lparr>as_config := new_config\<rparr>)))"

definition restart_required :: "app_config \<Rightarrow> app_config \<Rightarrow> string list" where
  "restart_required current new =
     (if cf_tls current \<noteq> cf_tls new then [''tls''] else [])
     @ (if cf_upstream_tls current \<noteq> cf_upstream_tls new then [''upstream_tls''] else [])
     @ (if cf_limits current \<noteq> cf_limits new then [''limits''] else [])
     @ (if cf_telemetry current \<noteq> cf_telemetry new then [''telemetry''] else [])
     @ (if cf_api current \<noteq> cf_api new then [''api''] else [])"

definition record_masking_batch :: "string list \<Rightarrow> app_state \<Rightarrow> app_state" where
  "record_masking_batch strategies s =
     (if strategies = [] then s
      else metered (record_fields_masked (length strategies))
        (s\<lparr>as_stats := (as_stats s)\<lparr>ap_masking := fold increment strategies (ap_masking (as_stats s))\<rparr>\<rparr>))"

definition record_masking :: "string \<Rightarrow> app_state \<Rightarrow> app_state" where
  "record_masking strategy s = record_masking_batch [strategy] s"

definition record_query :: "string \<Rightarrow> app_state \<Rightarrow> app_state" where
  "record_query query_type s =
     metered (record_query_processed (metrics_label (as_db_protocol s)))
       (s\<lparr>as_stats := (as_stats s)\<lparr>ap_queries := query_stats_record query_type (ap_queries (as_stats s))\<rparr>\<rparr>)"

definition record_query_latency :: "nat \<Rightarrow> app_state \<Rightarrow> app_state" where
  "record_query_latency elapsed s = metered (record_query_duration (metrics_label (as_db_protocol s)) (Duration elapsed)) s"

definition record_connection :: "app_state \<Rightarrow> app_state" where
  "record_connection s =
     s\<lparr>as_stats := (as_stats s)\<lparr>ap_total_connections := ap_total_connections (as_stats s) + 1\<rparr>\<rparr>"

definition push_history :: "connection_data_point \<Rightarrow> connection_data_point list \<Rightarrow> connection_data_point list" where
  "push_history p history = p # (if 60 \<le> length history then butlast history else history)"

definition record_history_snapshot :: "nat \<Rightarrow> app_state \<Rightarrow> app_state" where
  "record_history_snapshot now s =
     (let point = \<lparr>cp_timestamp = now, cp_active_connections = as_active_connections s,
            cp_total_queries = qs_total_queries (ap_queries (as_stats s)),
            cp_total_masked = masking_total (ap_masking (as_stats s))\<rparr>
      in s\<lparr>as_connection_history := push_history point (as_connection_history s)\<rparr>)"

section \<open>Lemmas\<close>

interpretation event_log: bounded_log push_log 100
  by unfold_locales (simp_all only: push_log_def butlast_take_push, simp_all)

interpretation history: bounded_log push_history 60
  by unfold_locales (simp_all only: push_history_def butlast_take_push, simp_all)

lemma increment_total: "masking_total (increment strategy s) = masking_total s + 1"
  by (simp add: increment_def masking_total_def)

lemma fold_increment_total:
  "masking_total (fold increment strategies s) = masking_total s + of_nat (length strategies)"
  by (induction strategies arbitrary: s) (simp_all add: increment_total ac_simps)

lemma metered_frame [simp]:
  "as_config (metered calls s) = as_config s" "as_masking_key (metered calls s) = as_masking_key s"
  "as_logs (metered calls s) = as_logs s" "as_stats (metered calls s) = as_stats s"
  "as_db_protocol (metered calls s) = as_db_protocol s" "as_metrics (metered calls s) = as_metrics s @ calls"
  "as_active_connections (metered calls s) = as_active_connections s"
  "as_health_status (metered calls s) = as_health_status s" "as_audit_logger (metered calls s) = as_audit_logger s"
  "metered [] s = s" "metered calls' (metered calls s) = metered (calls @ calls') s"
  by (simp_all add: metered_def)

lemma record_masking_batch_frame [simp]:
  "as_config (record_masking_batch strategies s) = as_config s"
  "as_masking_key (record_masking_batch strategies s) = as_masking_key s"
  "as_logs (record_masking_batch strategies s) = as_logs s"
  by (simp_all add: record_masking_batch_def)

lemma add_log_frame [simp]:
  "as_config (add_log e s) = as_config s" "as_masking_key (add_log e s) = as_masking_key s"
  "as_stats (add_log e s) = as_stats s"
  by (simp_all add: add_log_def)

lemma query_stats_sum:
  "qs_total_queries (query_stats_record t q) = qs_total_queries q + 1 \<and>
   qs_select_count (query_stats_record t q) + qs_insert_count (query_stats_record t q)
     + qs_update_count (query_stats_record t q) + qs_delete_count (query_stats_record t q)
     + qs_other_count (query_stats_record t q)
   = qs_select_count q + qs_insert_count q + qs_update_count q + qs_delete_count q + qs_other_count q + 1"
  by (simp add: query_stats_record_def Let_def)

section \<open>Properties\<close>

text \<open>The masking counters count: recording a batch adds its length to the total (modulo
  \<open>2 ^ 64\<close>), recording a query adds one to the total and to exactly one of the five kinds, and
  neither touches the configuration, the masking key or the event log.\<close>
theorem statistics_count:
  "masking_total (ap_masking (as_stats (record_masking_batch strategies s)))
     = masking_total (ap_masking (as_stats s)) + of_nat (length strategies)
   \<and> (let q = ap_queries (as_stats s); q' = ap_queries (as_stats (record_query t s)) in
      qs_total_queries q' = qs_total_queries q + 1
      \<and> qs_select_count q' + qs_insert_count q' + qs_update_count q' + qs_delete_count q' + qs_other_count q'
        = qs_select_count q + qs_insert_count q + qs_update_count q + qs_delete_count q + qs_other_count q + 1)
   \<and> as_config (record_masking_batch strategies s) = as_config s
   \<and> as_masking_key (record_query t (record_masking_batch strategies s)) = as_masking_key s
   \<and> as_logs (record_query t (record_masking_batch strategies s)) = as_logs s"
  using query_stats_sum [of t "ap_queries (as_stats s)"]
  by (simp add: record_masking_batch_def fold_increment_total record_query_def Let_def)

text \<open>The event log and the connection history are bounded rings: after any sequence of
  insertions they hold the newest 100 events and the newest 60 data points, newest first.\<close>
theorem event_log_recent:
  "as_logs (fold add_log es (app_state_new sha256 key config path host port proto)) = take 100 (rev es)
   \<and> fold push_history ps [] = take 60 (rev ps)"
proof -
  have "as_logs (fold add_log es s) = fold push_log es (as_logs s)" for s
    by (induction es arbitrary: s) (simp_all add: add_log_def)
  then show ?thesis
    using event_log.fold_from_empty history.fold_from_empty by (simp add: app_state_new_def)
qed

text \<open>Committing a configuration is all or nothing. When it reports success the live configuration
  is the new one and the file operations both succeeded on the temporary file's text; when it
  reports an error the shared state is exactly as before.\<close>
lemma commit_config_cases:
  "case commit_config to_yaml write_file rename new_config (s, fs) of
     (Ok _, s', fs') \<Rightarrow> s' = s\<lparr>as_config := new_config\<rparr>
       \<and> (\<exists>yaml fs1. to_yaml new_config = Ok yaml
            \<and> write_file (as_config_path s @ ''.tmp'') yaml fs = (Ok (), fs1)
            \<and> rename (as_config_path s @ ''.tmp'') (as_config_path s) fs1 = (Ok (), fs'))
   | (_, s', fs') \<Rightarrow> s' = s"
  by (auto simp: commit_config_def Let_def split: result.splits prod.splits)

text \<open>A reload that fails changes nothing; one that succeeds installs the file's configuration and
  the audit section, and keeps the masking key unless the file brings a secret, so that masked
  values stay the same across reloads.\<close>
theorem reload_config_effect:
  "case load_file (as_config_path s) of
     Ok c \<Rightarrow> (let (r, s') = reload_config sha256 load_file s in
        r = Ok (length (cf_rules c)) \<and> as_config s' = c
        \<and> al_config (as_audit_logger s') = audit_config_of c
        \<and> al_entries (as_audit_logger s') = al_entries (as_audit_logger s)
        \<and> as_masking_key s' =
            (case cf_masking_secret c of Some k \<Rightarrow> if k = [] then as_masking_key s else sha256 (bytes_of_str k)
             | None \<Rightarrow> as_masking_key s)
        \<and> as_stats s' = as_stats s \<and> as_logs s' = as_logs s)
   | Err e \<Rightarrow> reload_config sha256 load_file s = (Err e, s)
   | Panic \<Rightarrow> reload_config sha256 load_file s = (Panic, s)"
  by (simp add: reload_config_def apply_config_def derive_masking_key_def Let_def
      split: result.split option.split)

section \<open>Health\<close>

definition thresholds :: "app_state \<Rightarrow> u32 \<times> u32" where
  "thresholds s = (case cf_health_check (as_config s) of
     Some h \<Rightarrow> (hk_unhealthy_threshold h, hk_healthy_threshold h) | None \<Rightarrow> (3, 1))"

definition probes :: "(nat \<times> u64 option \<times> string option) list \<Rightarrow> bool \<Rightarrow> app_state \<Rightarrow> app_state" where
  "probes ps ok s = fold (\<lambda>(now, latency, error). update_health_status now ok latency error) ps s"

lemma update_health_config [simp]: "as_config (update_health_status now ok lat err s) = as_config s"
  by (simp add: update_health_status_def Let_def)

lemma update_health_failure:
  "as_health_status (update_health_status now False lat err s) =
     (let st = as_health_status s; n = he_consecutive_failures st + 1 in
      \<lparr>he_healthy = (if fst (thresholds s) \<le> n then False
                     else if snd (thresholds s) \<le> 0 then True else he_healthy st),
       he_last_check = Some now, he_last_error = err, he_consecutive_failures = n,
       he_consecutive_successes = 0, he_latency_ms = lat\<rparr>)"
  by (cases "as_health_status s")
     (simp add: update_health_status_def thresholds_def Let_def split: option.split)

lemma update_health_success:
  "as_health_status (update_health_status now True lat err s) =
     (let st = as_health_status s; n = he_consecutive_successes st + 1 in
      \<lparr>he_healthy = (if fst (thresholds s) \<le> 0 then False
                     else if snd (thresholds s) \<le> n then True else he_healthy st),
       he_last_check = Some now, he_last_error = None, he_consecutive_failures = 0,
       he_consecutive_successes = n, he_latency_ms = lat\<rparr>)"
  by (cases "as_health_status s")
     (simp add: update_health_status_def thresholds_def Let_def split: option.split)

lemma thresholds_update [simp]: "thresholds (update_health_status now ok lat err s) = thresholds s"
  by (simp add: thresholds_def)

lemma probes_snoc: "probes (ps @ [(now, lat, err)]) ok s = update_health_status now ok lat err (probes ps ok s)"
  by (simp add: probes_def)

lemma thresholds_probes [simp]: "thresholds (probes ps ok s) = thresholds s"
  by (induction ps rule: rev_induct) (auto simp: probes_def)

lemma unat_succ: "n + 1 < 2 ^ 32 \<Longrightarrow> unat (of_nat n + 1 :: u32) = n + 1"
proof -
  assume "n + 1 < 2 ^ 32"
  moreover have "(of_nat n + 1 :: u32) = of_nat (n + 1)" by simp
  ultimately show ?thesis by (simp only: unat_of_nat) simp
qed

lemma failing_probes:
  assumes "he_consecutive_failures (as_health_status s) = 0" "snd (thresholds s) \<noteq> 0"
  shows "length ps < 2 ^ 32 \<Longrightarrow>
    he_consecutive_failures (as_health_status (probes ps False s)) = of_nat (length ps)
    \<and> he_healthy (as_health_status (probes ps False s)) =
        (he_healthy (as_health_status s) \<and> (length ps < unat (fst (thresholds s)) \<or> ps = []))"
proof (induction ps rule: rev_induct)
  case Nil
  with assms show ?case by (simp add: probes_def)
next
  case (snoc p ps)
  obtain now lat err where p: "p = (now, lat, err)" by (metis prod_cases3)
  from snoc have IH: "he_consecutive_failures (as_health_status (probes ps False s)) = of_nat (length ps)"
    "he_healthy (as_health_status (probes ps False s)) =
        (he_healthy (as_health_status s) \<and> (length ps < unat (fst (thresholds s)) \<or> ps = []))"
    by simp_all
  have u: "unat (of_nat (length ps) + 1 :: u32) = length ps + 1"
    using snoc.prems by (intro unat_succ) simp
  have "fst (thresholds s) \<le> of_nat (length ps) + 1 \<longleftrightarrow> unat (fst (thresholds s)) \<le> length ps + 1"
    by (simp only: word_le_nat_alt u)
  with IH assms(2) show ?case
    by (auto simp: p probes_snoc update_health_failure Let_def)
qed

lemma succeeding_probes:
  assumes "he_consecutive_successes (as_health_status s) = 0" "fst (thresholds s) \<noteq> 0"
  shows "length ps < 2 ^ 32 \<Longrightarrow>
    he_consecutive_successes (as_health_status (probes ps True s)) = of_nat (length ps)
    \<and> he_healthy (as_health_status (probes ps True s)) =
        (he_healthy (as_health_status s) \<or> (unat (snd (thresholds s)) \<le> length ps \<and> ps \<noteq> []))"
proof (induction ps rule: rev_induct)
  case Nil
  with assms show ?case by (simp add: probes_def)
next
  case (snoc p ps)
  obtain now lat err where p: "p = (now, lat, err)" by (metis prod_cases3)
  from snoc have IH: "he_consecutive_successes (as_health_status (probes ps True s)) = of_nat (length ps)"
    "he_healthy (as_health_status (probes ps True s)) =
        (he_healthy (as_health_status s) \<or> (unat (snd (thresholds s)) \<le> length ps \<and> ps \<noteq> []))"
    by simp_all
  have u: "unat (of_nat (length ps) + 1 :: u32) = length ps + 1"
    using snoc.prems by (intro unat_succ) simp
  have "snd (thresholds s) \<le> of_nat (length ps) + 1 \<longleftrightarrow> unat (snd (thresholds s)) \<le> length ps + 1"
    by (simp only: word_le_nat_alt u)
  with IH assms(2) show ?case
    by (auto simp: p probes_snoc update_health_success Let_def)
qed

text \<open>C34: with thresholds of at least one, the upstream counts as down after exactly the configured number
  of failed probes in a row and as up after exactly the configured number of successful ones,
  and not before. An unhealthy threshold of zero keeps it down whatever the probes say.\<close>
theorem health_thresholds:
  assumes "length ps < 2 ^ 32" "snd (thresholds s) \<noteq> 0"
  shows "(fst (thresholds s) \<noteq> 0 \<longrightarrow> he_consecutive_failures (as_health_status s) = 0 \<longrightarrow>
      he_healthy (as_health_status (probes ps False s)) =
        (he_healthy (as_health_status s) \<and> length ps < unat (fst (thresholds s))))
    \<and> (fst (thresholds s) \<noteq> 0 \<longrightarrow> he_consecutive_successes (as_health_status s) = 0 \<longrightarrow>
      he_healthy (as_health_status (probes ps True s)) =
        (he_healthy (as_health_status s) \<or> unat (snd (thresholds s)) \<le> length ps))
    \<and> (fst (thresholds s) = 0 \<longrightarrow> \<not> he_healthy (as_health_status (probes (ps @ [p]) ok s)))"
proof (intro conjI impI)
  assume "fst (thresholds s) \<noteq> 0" "he_consecutive_failures (as_health_status s) = 0"
  with failing_probes [of s ps] assms show "he_healthy (as_health_status (probes ps False s)) =
        (he_healthy (as_health_status s) \<and> length ps < unat (fst (thresholds s)))"
    by (auto simp: unat_gt_0)
next
  assume "fst (thresholds s) \<noteq> 0" "he_consecutive_successes (as_health_status s) = 0"
  with succeeding_probes [of s ps] assms show "he_healthy (as_health_status (probes ps True s)) =
        (he_healthy (as_health_status s) \<or> unat (snd (thresholds s)) \<le> length ps)"
    by (auto simp: unat_eq_zero)
next
  assume z: "fst (thresholds s) = 0"
  obtain now lat err where p: "p = (now, lat, err)" by (metis prod_cases3)
  show "\<not> he_healthy (as_health_status (probes (ps @ [p]) ok s))"
    by (cases ok) (simp_all add: p probes_snoc update_health_success update_health_failure Let_def z)
qed

theorem health_thresholds_witness:
  "let s = app_state_new (\<lambda>b. b) [] default_app_config '''' '''' 0 Postgres;
       s = probes [(1, None, None)] True s;
       fail = [(2, None, None), (3, None, None)]
   in he_healthy (as_health_status s) \<and> he_healthy (as_health_status (probes fail False s))
      \<and> \<not> he_healthy (as_health_status (probes (fail @ [(4, None, None)]) False s))"
proof -
  let ?n = "app_state_new (\<lambda>b. b) [] default_app_config '''' '''' 0 Postgres"
  let ?s = "probes [(1, None, None)] True ?n"
  have n: "thresholds ?n = (3, 1)" "he_consecutive_successes (as_health_status ?n) = 0"
    by (simp_all add: thresholds_def app_state_new_def default_app_config_def default_health_status_def)
  have s: "thresholds ?s = (3, 1)" "he_consecutive_failures (as_health_status ?s) = 0"
    using n by (simp_all add: probes_def update_health_success Let_def)
  have "he_healthy (as_health_status ?s)"
    using health_thresholds [of "[(1, None, None)]" ?n] n by simp
  with s health_thresholds [of "[(2, None, None), (3, None, None)]" ?s]
    health_thresholds [of "[(2, None, None), (3, None, None), (4, None, None)]" ?s]
  show ?thesis by (simp add: Let_def)
qed

end
