(* ===== verification/Framing.thy ===== *)
theory Framing
  imports Prelude
begin

text \<open>
  The interface between a codec and the stream that drives it. \<^verbatim>\<open>tokio_util\<close>'s \<^verbatim>\<open>Framed\<close> is
  not under the repository; what the program relies on is its documented loop: append what the
  socket delivers to the buffer, call \<^verbatim>\<open>decode\<close> until it asks for more, hand every message
  on, stop at the first error. \<open>drain\<close> is that loop on one buffer and \<open>feed\<close> is it over the
  chunks a socket delivers. The locale \<open>stream_decoder\<close> states what a decoder promises, and
  proves that then the messages do not depend on how the bytes were cut into chunks.
\<close>

type_synonym ('s, 'm) decoder = "'s \<Rightarrow> byte list \<Rightarrow> 'm option result \<times> 's \<times> byte list"

datatype status = Waiting | Failed error | Crashed

fun drain :: "('s, 'm) decoder \<Rightarrow> nat \<Rightarrow> 's \<Rightarrow> byte list \<Rightarrow> 'm list \<times> status \<times> 's \<times> byte list" where
  "drain dec 0 s b = ([], Waiting, s, b)"
| "drain dec (Suc n) s b =
     (case dec s b of
        (Ok None, s', b') \<Rightarrow> ([], Waiting, s', b')
      | (Ok (Some m), s', b') \<Rightarrow>
          (case drain dec n s' b' of (ms, r) \<Rightarrow> (m # ms, r))
      | (Err e, s', b') \<Rightarrow> ([], Failed e, s', b')
      | (Panic, s', b') \<Rightarrow> ([], Crashed, s', b'))"

text \<open>Every message takes at least one byte, so the buffer's length is enough fuel.\<close>

definition drain_all :: "('s, 'm) decoder \<Rightarrow> 's \<Rightarrow> byte list \<Rightarrow> 'm list \<times> status \<times> 's \<times> byte list" where
  "drain_all dec s b = drain dec (Suc (length b)) s b"

fun feed :: "('s, 'm) decoder \<Rightarrow> 's \<Rightarrow> byte list \<Rightarrow> byte list list \<Rightarrow> 'm list \<times> status \<times> 's" where
  "feed dec s b [] = ([], Waiting, s)"
| "feed dec s b (c # cs) =
     (case drain_all dec s (b @ c) of
        (ms, Waiting, s', b') \<Rightarrow> (case feed dec s' b' cs of (ms', r) \<Rightarrow> (ms @ ms', r))
      | (ms, st, s', b') \<Rightarrow> (ms, st, s'))"

text \<open>What the program sees of a run: the messages, how it ended and the codec's state.\<close>

fun outcome :: "'m list \<times> status \<times> 's \<times> byte list \<Rightarrow> 'm list \<times> status \<times> 's" where
  "outcome (ms, st, s, b) = (ms, st, s)"

definition prepend :: "'m list \<Rightarrow> 'm list \<times> 'r \<Rightarrow> 'm list \<times> 'r" where
  "prepend ms r = (ms @ fst r, snd r)"

lemma prepend_simps [simp]: "prepend ms (ms', r) = (ms @ ms', r)" "prepend [] p = p"
  by (auto simp: prepend_def)

lemma outcome_prepend: "outcome (prepend ms r) = prepend ms (outcome r)"
  by (cases r) simp

lemma prepend_prepend: "prepend xs (prepend ys r) = prepend (xs @ ys) r"
  by (cases r) simp

locale stream_decoder =
  fixes dec :: "('s, 'm) decoder"
  assumes dec_item: "dec s b = (Ok (Some m), s', b') \<Longrightarrow> dec s (b @ x) = (Ok (Some m), s', b' @ x)"
    and dec_fails: "dec s b = (Err e, s', b') \<Longrightarrow> dec s (b @ x) = (Err e, s', b' @ x)"
    and dec_waits: "dec s b = (Ok None, s', b') \<Longrightarrow> dec s (b @ x) = dec s' (b' @ x)"
    and item_shrinks: "dec s b = (Ok (Some m), s', b') \<Longrightarrow> length b' < length b"
    and wait_shrinks: "dec s b = (Ok None, s', b') \<Longrightarrow> length b' \<le> length b"
    and never_panics: "fst (dec s b) \<noteq> Panic"
    and empty_waits: "dec s [] = (Ok None, s, [])"
begin

lemma dec_cases:
  obtains (wait) s' b' where "dec s b = (Ok None, s', b')"
  | (item) m s' b' where "dec s b = (Ok (Some m), s', b')"
  | (fail) e s' b' where "dec s b = (Err e, s', b')"
  using never_panics [of s b]
  by (cases "dec s b") (metis fst_conv not_Some_eq result.exhaust)

lemma drain_fuel: "length b < n \<Longrightarrow> drain dec n s b = drain_all dec s b"
proof (induction n arbitrary: s b rule: less_induct)
  case (less n)
  from less.prems obtain k where n: "n = Suc k" by (cases n) auto
  show ?case
  proof (cases rule: dec_cases [of s b])
    case (item m s' b')
    then have lt: "length b' < length b" by (rule item_shrinks)
    with less n have "drain dec k s' b' = drain_all dec s' b'" by simp
    moreover from lt less n have "drain dec (length b) s' b' = drain_all dec s' b'"
      by (cases "length b = n") simp_all
    ultimately show ?thesis by (simp add: n item drain_all_def)
  qed (simp_all add: n drain_all_def)
qed

lemma drain_all_unfold:
  "drain_all dec s b =
     (case dec s b of
        (Ok None, s', b') \<Rightarrow> ([], Waiting, s', b')
      | (Ok (Some m), s', b') \<Rightarrow> prepend [m] (drain_all dec s' b')
      | (Err e, s', b') \<Rightarrow> ([], Failed e, s', b')
      | (Panic, s', b') \<Rightarrow> ([], Crashed, s', b'))"
proof (cases rule: dec_cases [of s b])
  case (item m s' b')
  then have "length b' < length b" by (rule item_shrinks)
  then have "drain dec (length b) s' b' = drain_all dec s' b'" by (rule drain_fuel)
  with item show ?thesis by (simp add: drain_all_def [of _ s b] prepend_def split: prod.split)
qed (simp_all add: drain_all_def)

text \<open>A run that is waiting has settled: decoding again still waits.\<close>

lemma drain_settled:
  "drain_all dec s b = (ms, Waiting, s', b') \<Longrightarrow> dec s' b' = (Ok None, s', b')"
proof (induction "length b" arbitrary: s b ms rule: less_induct)
  case less
  show ?case
  proof (cases rule: dec_cases [of s b])
    case (wait t c)
    with less.prems have "t = s'" "c = b'" by (simp_all add: drain_all_unfold [of s b])
    with wait dec_waits [of s b t c "[]"] show ?thesis by simp
  next
    case (item m t c)
    then have "length c < length b" by (rule item_shrinks)
    moreover from item less.prems obtain ms' where "drain_all dec t c = (ms', Waiting, s', b')"
      by (cases "drain_all dec t c") (simp add: drain_all_unfold [of s b])
    ultimately show ?thesis using less.hyps by blast
  next
    case (fail e t c)
    with less.prems show ?thesis by (simp add: drain_all_unfold [of s b])
  qed
qed

lemma drain_append:
  "drain_all dec s b = (ms, Waiting, s', b') \<Longrightarrow>
   drain_all dec s (b @ x) = prepend ms (drain_all dec s' (b' @ x))"
proof (induction "length b" arbitrary: s b ms rule: less_induct)
  case less
  show ?case
  proof (cases rule: dec_cases [of s b])
    case (wait t c)
    with less.prems have eqs: "t = s'" "c = b'" "ms = []" by (simp_all add: drain_all_unfold [of s b])
    from wait have "dec s (b @ x) = dec t (c @ x)" by (rule dec_waits)
    then have "drain_all dec s (b @ x) = drain_all dec t (c @ x)"
      by (simp add: drain_all_unfold [of s "b @ x"] drain_all_unfold [of t "c @ x"])
    with eqs show ?thesis by simp
  next
    case (item m t c)
    then have lt: "length c < length b" by (rule item_shrinks)
    from item less.prems obtain ms' where ms': "drain_all dec t c = (ms', Waiting, s', b')" "ms = m # ms'"
      by (cases "drain_all dec t c") (auto simp: drain_all_unfold [of s b])
    from less.hyps [OF lt ms'(1)] dec_item [OF item] show ?thesis
      by (simp add: drain_all_unfold [of s "b @ x"] ms' prepend_prepend)
  next
    case (fail e t c)
    with less.prems show ?thesis by (simp add: drain_all_unfold [of s b])
  qed
qed

lemma drain_failed:
  "drain_all dec s b = (ms, st, s', b') \<Longrightarrow> st \<noteq> Waiting \<Longrightarrow>
   drain_all dec s (b @ x) = (ms, st, s', b' @ x)"
proof (induction "length b" arbitrary: s b ms rule: less_induct)
  case less
  show ?case
  proof (cases rule: dec_cases [of s b])
    case (wait t c)
    with less.prems show ?thesis by (simp add: drain_all_unfold [of s b])
  next
    case (item m t c)
    then have lt: "length c < length b" by (rule item_shrinks)
    from item less.prems obtain ms' where ms': "drain_all dec t c = (ms', st, s', b')" "ms = m # ms'"
      by (cases "drain_all dec t c") (auto simp: drain_all_unfold [of s b])
    from less.hyps [OF lt ms'(1) less.prems(2)] dec_item [OF item] show ?thesis
      by (simp add: drain_all_unfold [of s "b @ x"] ms')
  next
    case (fail e t c)
    from dec_fails [OF fail] fail less.prems show ?thesis
      by (simp add: drain_all_unfold [of s b] drain_all_unfold [of s "b @ x"])
  qed
qed

lemma feed_settled:
  "dec s b = (Ok None, s, b) \<Longrightarrow> feed dec s b cs = outcome (drain_all dec s (b @ concat cs))"
proof (induction cs arbitrary: s b)
  case Nil
  then show ?case by (simp add: drain_all_unfold [of s b])
next
  case (Cons c cs)
  obtain ms st s' b' where d: "drain_all dec s (b @ c) = (ms, st, s', b')"
    by (metis prod_cases4)
  show ?case
  proof (cases "st = Waiting")
    case True
    with d have "dec s' b' = (Ok None, s', b')" by (simp add: drain_settled)
    then have "feed dec s' b' cs = outcome (drain_all dec s' (b' @ concat cs))" by (rule Cons.IH)
    moreover have "drain_all dec s (b @ concat (c # cs)) = prepend ms (drain_all dec s' (b' @ concat cs))"
      using drain_append [of s "b @ c" ms s' b' "concat cs"] d True by simp
    ultimately show ?thesis using d True
      by (simp add: outcome_prepend) (simp add: prepend_def split: prod.split)
  next
    case False
    then have "drain_all dec s (b @ concat (c # cs)) = (ms, st, s', b' @ concat cs)"
      using drain_failed [OF d, of "concat cs"] by simp
    with d False show ?thesis by (cases st) simp_all
  qed
qed

text \<open>The messages depend on the bytes alone, not on how the socket cut them.\<close>

lemma segmentation_independent: "feed dec s [] cs = outcome (drain_all dec s (concat cs))"
  using feed_settled [OF empty_waits] by simp

lemma same_bytes_same_messages: "concat cs = concat cs' \<Longrightarrow> feed dec s [] cs = feed dec s [] cs'"
  by (simp add: segmentation_independent)

end

text \<open>A codec whose encoder writes what its decoder, in state \<open>s0\<close>, reads back.\<close>

locale frame_codec = stream_decoder dec
  for dec :: "('s, 'm) decoder" +
  fixes enc :: "'m \<Rightarrow> byte list"
    and wf :: "'m \<Rightarrow> bool"
    and s0 :: 's
  assumes decodes: "wf m \<Longrightarrow> dec s0 (enc m @ x) = (Ok (Some m), s0, x)"
begin

lemma drain_encoded:
  "(\<forall>m \<in> set ms. wf m) \<Longrightarrow> drain_all dec s0 (concat (map enc ms)) = (ms, Waiting, s0, [])"
  by (induction ms)
     (simp_all add: drain_all_unfold [of s0 "[]"] empty_waits drain_all_unfold [of s0 "enc _ @ _"] decodes)

lemma pipeline_roundtrip:
  "(\<forall>m \<in> set ms. wf m) \<Longrightarrow> concat cs = concat (map enc ms) \<Longrightarrow>
   feed dec s0 [] cs = (ms, Waiting, s0)"
  by (simp add: segmentation_independent drain_encoded)

end

end
