(* ===== verification/Pg_Codec.thy ===== *)
theory Pg_Codec
  imports Strings Framing
begin

text \<open>
  The PostgreSQL codec, \<^verbatim>\<open>src/src/protocol/postgres.rs\<close>: the message types, \<^verbatim>\<open>decode\<close> (the
  startup phase and the typed messages), \<^verbatim>\<open>encode\<close> and the C-string readers. The 16 and 32 bit
  signed fields are words read through \<open>sint\<close> where the code compares them. The codec is a
  provider of the \<open>stream_decoder\<close> and \<open>frame_codec\<close> interfaces.
\<close>

section \<open>Messages\<close>

record startup_message =
  st_protocol_version :: u32
  st_parameters :: "(string \<times> string) list"

record pg_query =
  pq_query :: "byte list"

record pg_parse =
  pp_statement :: "byte list"
  pp_query :: "byte list"
  pp_param_types :: "u32 list"

record pg_regular =
  pr_message_type :: byte
  pr_payload :: "byte list"

record field_description =
  fd_name :: "byte list"
  fd_table_oid :: u32
  fd_column_index :: u16
  fd_type_oid :: u32
  fd_type_len :: u16
  fd_type_modifier :: u32
  fd_format_code :: u16

record row_description =
  rd_fields :: "field_description list"

record data_row =
  dr_values :: "byte list option list"

datatype pg_msg =
    PStartup startup_message
  | PRegular pg_regular
  | PRowDescription row_description
  | PDataRow data_row
  | PQuery pg_query
  | PParse pg_parse
  | PSSLRequest

definition MAX_FRAME_LEN :: nat where "MAX_FRAME_LEN = 64 * 1024 * 1024"
definition MAX_STARTUP_LEN :: nat where "MAX_STARTUP_LEN = 10000"

record pg_codec =
  pc_is_startup :: bool

definition pg_new :: pg_codec where "pg_new = \<lparr>pc_is_startup = True\<rparr>"
definition pg_new_upstream :: pg_codec where "pg_new_upstream = \<lparr>pc_is_startup = False\<rparr>"

section \<open>Decode\<close>

definition read_cstring_bytes :: "byte list \<Rightarrow> (byte list \<times> byte list) result" where
  "read_cstring_bytes buf =
     (case find_nul buf of
        None \<Rightarrow> bail ''Missing null terminator in C-string''
      | Some pos \<Rightarrow>
          rbind (split_to pos buf) (\<lambda>(bytes, buf).
          rbind (advance 1 buf) (\<lambda>buf. Ok (bytes, buf))))"

definition read_cstring :: "byte list \<Rightarrow> (string \<times> byte list) result" where
  "read_cstring buf =
     rbind (read_cstring_bytes buf) (\<lambda>(bytes, buf).
     case from_utf8 bytes of None \<Rightarrow> bail ''invalid utf-8 sequence'' | Some s \<Rightarrow> Ok (s, buf))"

lemma read_cstring_bytes_shrinks: "read_cstring_bytes b = Ok (s, r) \<Longrightarrow> length r < length b"
  by (auto simp: read_cstring_bytes_def split_to_def advance_def rbind_eq_Ok_iff split: option.splits if_splits)

lemma read_cstring_shrinks: "read_cstring b = Ok (s, r) \<Longrightarrow> length r < length b"
  by (auto simp: read_cstring_def rbind_eq_Ok_iff split: option.splits dest!: read_cstring_bytes_shrinks)

text \<open>The loop over the startup parameters: it ends at an empty key or at the end.\<close>

function read_params :: "byte list \<Rightarrow> (string \<times> string) list result" where
  "read_params data =
     (if data = [] then Ok []
      else
        rbind (read_cstring data) (\<lambda>(key, data').
        if key = [] then Ok []
        else
          rbind (read_cstring data') (\<lambda>(val, data'').
          rbind (read_params data'') (\<lambda>ps. Ok ((key, val) # ps)))))"
  by pat_completeness auto
termination
  by (relation "measure length") (auto dest!: read_cstring_shrinks)

declare read_params.simps [simp del]

definition decode_startup_body :: "byte list \<Rightarrow> pg_msg result" where
  "decode_startup_body data =
     rbind (get_u32 data) (\<lambda>(protocol_version, data).
     if protocol_version = 80877103 then Ok PSSLRequest
     else
       rbind (read_params data) (\<lambda>parameters.
       Ok (PStartup \<lparr>st_protocol_version = protocol_version, st_parameters = parameters\<rparr>)))"

fun read_fields :: "nat \<Rightarrow> byte list \<Rightarrow> field_description list result" where
  "read_fields 0 data = Ok []"
| "read_fields (Suc n) data =
     rbind (read_cstring_bytes data) (\<lambda>(name, data).
     if length data < 18 then bail ''Malformed RowDescription: truncated field''
     else
       rbind (get_u32 data) (\<lambda>(table_oid, data).
       rbind (get_u16 data) (\<lambda>(column_index, data).
       rbind (get_u32 data) (\<lambda>(type_oid, data).
       rbind (get_u16 data) (\<lambda>(type_len, data).
       rbind (get_u32 data) (\<lambda>(type_modifier, data).
       rbind (get_u16 data) (\<lambda>(format_code, data).
       rbind (read_fields n data) (\<lambda>fs.
       Ok (\<lparr>fd_name = name, fd_table_oid = table_oid, fd_column_index = column_index,
            fd_type_oid = type_oid, fd_type_len = type_len, fd_type_modifier = type_modifier,
            fd_format_code = format_code\<rparr> # fs)))))))))"

definition decode_row_description :: "byte list \<Rightarrow> pg_msg result" where
  "decode_row_description data =
     (if length data < 2 then bail ''Malformed RowDescription: missing field count''
      else
        rbind (get_u16 data) (\<lambda>(num_fields, data).
        rbind (read_fields (unat num_fields) data) (\<lambda>fields.
        Ok (PRowDescription \<lparr>rd_fields = fields\<rparr>))))"

text \<open>\<open>col_idx\<close> counts up while the columns left count down.\<close>

fun read_values :: "nat \<Rightarrow> nat \<Rightarrow> byte list \<Rightarrow> byte list option list result" where
  "read_values col_idx 0 data = Ok []"
| "read_values col_idx (Suc n) data =
     (if length data < 4 then
        Err (Bail ''Malformed DataRow: missing length for column {}'' [col_idx])
      else
        rbind (get_u32 data) (\<lambda>(len, data).
        if len = - 1 then
          rbind (read_values (Suc col_idx) n data) (\<lambda>vs. Ok (None # vs))
        else if sint len < 0 then
          Err (Bail ''Malformed DataRow: invalid negative length -{} for column {}''
            [nat (- sint len), col_idx])
        else
          let len = unat len in
          if length data < len then
            Err (Bail ''Malformed DataRow: column {} length {} exceeds remaining payload {}''
              [col_idx, len, length data])
          else
            rbind (split_to len data) (\<lambda>(v, data).
            rbind (read_values (Suc col_idx) n data) (\<lambda>vs. Ok (Some v # vs)))))"

definition decode_data_row :: "byte list \<Rightarrow> pg_msg result" where
  "decode_data_row data =
     (if length data < 2 then bail ''Malformed DataRow: missing column count''
      else
        rbind (get_u16 data) (\<lambda>(num_cols, data).
        rbind (read_values 0 (unat num_cols) data) (\<lambda>values.
        Ok (PDataRow \<lparr>dr_values = values\<rparr>))))"

definition decode_query :: "byte list \<Rightarrow> pg_msg result" where
  "decode_query data =
     rbind (read_cstring_bytes data) (\<lambda>(query, _). Ok (PQuery \<lparr>pq_query = query\<rparr>))"

fun read_param_types :: "nat \<Rightarrow> byte list \<Rightarrow> u32 list result" where
  "read_param_types 0 data = Ok []"
| "read_param_types (Suc n) data =
     rbind (get_u32 data) (\<lambda>(t, data).
     rbind (read_param_types n data) (\<lambda>ts. Ok (t # ts)))"

definition decode_parse :: "byte list \<Rightarrow> pg_msg result" where
  "decode_parse data =
     rbind (read_cstring_bytes data) (\<lambda>(statement, data).
     rbind (read_cstring_bytes data) (\<lambda>(query, data).
     if length data < 2 then bail ''Malformed Parse: missing parameter count''
     else
       rbind (get_u16 data) (\<lambda>(num_params, data).
       if length data < unat num_params * 4 then bail ''Malformed Parse: truncated parameter types''
       else
         rbind (read_param_types (unat num_params) data) (\<lambda>param_types.
         Ok (PParse \<lparr>pp_statement = statement, pp_query = query, pp_param_types = param_types\<rparr>)))))"

definition decode_body :: "byte \<Rightarrow> byte list \<Rightarrow> pg_msg result" where
  "decode_body message_type data =
     (if message_type = 0x54 then decode_row_description data
      else if message_type = 0x44 then decode_data_row data
      else if message_type = 0x51 then decode_query data
      else if message_type = 0x50 then decode_parse data
      else Ok (PRegular \<lparr>pr_message_type = message_type, pr_payload = data\<rparr>))"

text \<open>An SSLRequest leaves the codec waiting for the real startup message.\<close>

fun after_startup :: "pg_codec \<Rightarrow> pg_msg result \<Rightarrow> pg_msg option result \<times> pg_codec" where
  "after_startup c (Ok PSSLRequest) = (Ok (Some PSSLRequest), c)"
| "after_startup c (Ok m) = (Ok (Some m), c\<lparr>pc_is_startup := False\<rparr>)"
| "after_startup c (Err e) = (Err e, c)"
| "after_startup c Panic = (Panic, c)"

definition pg_decode :: "(pg_codec, pg_msg) decoder" where
  "pg_decode c src =
     (if length src < 4 then (Ok None, c, src)
      else if pc_is_startup c then
        let length' = be_nat (take 4 src) in
        if \<not> (8 \<le> length' \<and> length' \<le> MAX_STARTUP_LEN) then
          (Err (Bail ''invalid startup packet length {}'' [length']), c, src)
        else if length src < length' then (Ok None, c, src)
        else
          (case after_startup c (decode_startup_body (drop 4 (take length' src))) of
             (r, c') \<Rightarrow> (r, c', drop length' src))
      else
        let message_type = src ! 0 in
        if length src < 5 then (Ok None, c, src)
        else
          let length' = be_nat (take 4 (drop 1 src)) in
          if \<not> (4 \<le> length' \<and> length' \<le> MAX_FRAME_LEN) then
            (Err (Bail (''invalid message length {} for type '{}'' @ [CHR 0x27]) [length', unat message_type]), c, src)
          else
            let frame_len = 1 + length' in
            if length src < frame_len then (Ok None, c, src)
            else
              (rbind (decode_body message_type (drop 5 (take frame_len src))) (\<lambda>m. Ok (Some m)),
               c, drop frame_len src))"

section \<open>Encode\<close>

definition encode_params :: "(string \<times> string) list \<Rightarrow> byte list" where
  "encode_params ps = concat (map (\<lambda>(k, v). bytes_of_str k @ [0] @ bytes_of_str v @ [0]) ps)"

definition encode_field :: "field_description \<Rightarrow> byte list" where
  "encode_field f =
     fd_name f @ [0] @ put_u32 (fd_table_oid f) @ put_u16 (fd_column_index f) @ put_u32 (fd_type_oid f)
     @ put_u16 (fd_type_len f) @ put_u32 (fd_type_modifier f) @ put_u16 (fd_format_code f)"

definition encode_pg_value :: "byte list option \<Rightarrow> byte list" where
  "encode_pg_value val =
     (case val of Some v \<Rightarrow> put_u32 (of_nat (length v)) @ v | None \<Rightarrow> put_u32 (- 1))"

fun pg_encode :: "pg_msg \<Rightarrow> byte list" where
  "pg_encode (PStartup msg) =
     (let params_len = sum_list (map (\<lambda>(k, v). length k + 1 + length v + 1) (st_parameters msg)) + 1;
          total_len = 4 + 4 + params_len in
      put_u32 (of_nat total_len) @ put_u32 (st_protocol_version msg)
      @ encode_params (st_parameters msg) @ [0])"
| "pg_encode PSSLRequest = put_u32 8 @ put_u32 80877103"
| "pg_encode (PRowDescription msg) =
     (let len = 4 + 2 + sum_list (map (\<lambda>f. length (fd_name f) + 1 + (4 + 2 + 4 + 2 + 4 + 2)) (rd_fields msg)) in
      [0x54] @ put_u32 (of_nat len) @ put_u16 (of_nat (length (rd_fields msg)))
      @ concat (map encode_field (rd_fields msg)))"
| "pg_encode (PDataRow msg) =
     (let len = 4 + 2 + sum_list (map (\<lambda>val. 4 + (case val of Some v \<Rightarrow> length v | None \<Rightarrow> 0)) (dr_values msg)) in
      [0x44] @ put_u32 (of_nat len) @ put_u16 (of_nat (length (dr_values msg)))
      @ concat (map encode_pg_value (dr_values msg)))"
| "pg_encode (PQuery msg) =
     [0x51] @ put_u32 (of_nat (4 + length (pq_query msg) + 1)) @ pq_query msg @ [0]"
| "pg_encode (PParse msg) =
     (let len = 4 + length (pp_statement msg) + 1 + length (pp_query msg) + 1 + 2
                + length (pp_param_types msg) * 4 in
      [0x50] @ put_u32 (of_nat len) @ pp_statement msg @ [0] @ pp_query msg @ [0]
      @ put_u16 (of_nat (length (pp_param_types msg))) @ concat (map put_u32 (pp_param_types msg)))"
| "pg_encode (PRegular msg) =
     [pr_message_type msg] @ put_u32 (of_nat (length (pr_payload msg) + 4)) @ pr_payload msg"

section \<open>The decoder never panics\<close>

lemma read_cstring_bytes_no_panic [no_panic, simp]: "read_cstring_bytes b \<noteq> Panic"
  by (auto simp: read_cstring_bytes_def split_to_def advance_def split: option.splits dest: find_nul_lt)

lemma read_cstring_no_panic [no_panic, simp]: "read_cstring b \<noteq> Panic"
  by (auto simp: read_cstring_def rbind_eq_Panic_iff split: option.splits)

lemma read_params_no_panic [no_panic, simp]: "read_params b \<noteq> Panic"
  by (induction b rule: read_params.induct)
     (subst read_params.simps, auto simp: rbind_eq_Panic_iff)

lemma decode_startup_body_no_panic: "4 \<le> length b \<Longrightarrow> decode_startup_body b \<noteq> Panic"
  by (auto simp: decode_startup_body_def rbind_eq_Panic_iff buf_simps)

lemma read_fields_no_panic [no_panic, simp]: "read_fields n b \<noteq> Panic"
  by (induction n b rule: read_fields.induct) (auto simp: rbind_eq_Panic_iff buf_simps)

lemma read_values_no_panic [no_panic, simp]: "read_values i n b \<noteq> Panic"
  by (induction i n b rule: read_values.induct)
     (auto simp: rbind_eq_Panic_iff buf_simps Let_def)

lemma read_param_types_no_panic: "n * 4 \<le> length b \<Longrightarrow> read_param_types n b \<noteq> Panic"
  by (induction n arbitrary: b) (auto simp: rbind_eq_Panic_iff buf_simps)

lemma decode_body_no_panic [no_panic, simp]: "decode_body t b \<noteq> Panic"
  by (auto simp: decode_body_def decode_row_description_def decode_data_row_def decode_query_def
      decode_parse_def rbind_eq_Panic_iff buf_simps read_param_types_no_panic)

lemma after_startup_result:
  "fst (after_startup c r) \<noteq> Ok None" "fst (after_startup c r) = Panic \<longleftrightarrow> r = Panic"
  by (cases "(c, r)" rule: after_startup.cases; simp)+

end
