(* ===== verification/Pg_Stream.thy ===== *)
theory Pg_Stream
  imports Pg_Codec
begin

text \<open>
  What the PostgreSQL codec promises: decoding is independent of how the stream is cut, a
  pipeline of messages is read back as it was encoded, every decoded message is one the
  encoder writes back unchanged, and frames are bounded before anything is allocated.
\<close>

section \<open>The codec as a stream decoder\<close>

lemma after_startup_not_None [simp]: "after_startup c r \<noteq> (Ok None, c')"
  using after_startup_result(1) by (metis fst_conv)

lemma pg_decode_waits: "pg_decode c b = (Ok None, c', b') \<Longrightarrow> c' = c \<and> b' = b"
  by (auto simp: pg_decode_def Let_def rbind_eq_Ok_iff split: if_splits prod.splits)

lemma pg_decode_append:
  assumes d: "pg_decode c b = (r, c', b')" and r: "r \<noteq> Ok None"
  shows "pg_decode c (b @ x) = (r, c', b' @ x)"
proof -
  have cut: "\<not> length b < n \<Longrightarrow> take n (b @ x) = take n b \<and> drop n (b @ x) = drop n b @ x" for n by auto
  have l4: "\<not> length b < 4" using d r by (auto simp: pg_decode_def)
  then have t: "take 4 (b @ x) = take 4 b" "(b @ x) ! 0 = b ! 0" "\<not> length (b @ x) < 4" by (cases b; auto)+
  have x: "\<not> length b < n \<Longrightarrow> \<not> length (b @ x) < n" for n by simp
  show ?thesis
  proof (cases "pc_is_startup c")
    case True
    let ?n = "be_nat (take 4 b)"
    show ?thesis
    proof (cases "\<not> (8 \<le> ?n \<and> ?n \<le> MAX_STARTUP_LEN)")
      case bad: True
      with d l4 True show ?thesis
        unfolding pg_decode_def Let_def t(1) if_not_P [OF l4] if_not_P [OF t(3)] if_P [OF True] if_P [OF bad]
        by blast
    next
      case ok: False
      with True have "length b < ?n \<Longrightarrow> pg_decode c b = (Ok None, c, b)"
        by (simp add: pg_decode_def Let_def)
      with d r have n: "\<not> length b < ?n" by auto
      from d show ?thesis
        unfolding pg_decode_def Let_def t(1) if_not_P [OF l4] if_not_P [OF t(3)] if_P [OF True] if_not_P [OF ok]
          if_not_P [OF n] if_not_P [OF x [OF n]] conjunct1 [OF cut [OF n]] conjunct2 [OF cut [OF n]]
        by (cases "after_startup c (decode_startup_body (drop 4 (take ?n b)))") simp
    qed
  next
    case False
    then have "length b < 5 \<Longrightarrow> pg_decode c b = (Ok None, c, b)" by (simp add: pg_decode_def)
    with d r have l5: "\<not> length b < 5" by auto
    then have t5: "take 4 (drop 1 (b @ x)) = take 4 (drop 1 b)" by simp
    let ?n = "be_nat (take 4 (drop 1 b))"
    show ?thesis
    proof (cases "\<not> (4 \<le> ?n \<and> ?n \<le> MAX_FRAME_LEN)")
      case bad: True
      with d show ?thesis
        unfolding pg_decode_def Let_def t if_not_P [OF l4] if_not_P [OF t(3)] if_not_P [OF False]
          if_not_P [OF l5] if_not_P [OF x [OF l5]] t5 if_P [OF bad]
        by blast
    next
      case ok: False
      with False have "length b < 1 + ?n \<Longrightarrow> pg_decode c b = (Ok None, c, b)"
        by (simp add: pg_decode_def Let_def)
      with d r have n: "\<not> length b < 1 + ?n" by auto
      from d show ?thesis
        unfolding pg_decode_def Let_def t if_not_P [OF l4] if_not_P [OF t(3)] if_not_P [OF False]
          if_not_P [OF l5] if_not_P [OF x [OF l5]] t5 if_not_P [OF ok]
          if_not_P [OF n] if_not_P [OF x [OF n]] conjunct1 [OF cut [OF n]] conjunct2 [OF cut [OF n]]
        by blast
    qed
  qed
qed

lemma pg_decode_item_shrinks: "pg_decode c b = (Ok (Some m), c', b') \<Longrightarrow> length b' < length b"
  by (auto simp: pg_decode_def Let_def split: if_splits prod.splits)

lemma pg_decode_no_panic: "fst (pg_decode c b) \<noteq> Panic"
proof -
  have s: "8 \<le> n \<Longrightarrow> \<not> length b < n \<Longrightarrow> decode_startup_body (drop 4 (take n b)) \<noteq> Panic" for n
    by (rule decode_startup_body_no_panic) simp
  have "fst (after_startup c (decode_startup_body (drop 4 (take n b)))) \<noteq> Panic"
    if "8 \<le> n" "\<not> length b < n" for n
    using s [OF that] by (simp add: after_startup_result)
  moreover have "fst (case q of (r, c') \<Rightarrow> (r, c', y)) = fst q"
    for q :: "pg_msg option result \<times> pg_codec" and y :: "byte list"
    by (cases q) simp
  ultimately show ?thesis
    by (simp add: pg_decode_def Let_def rbind_eq_Panic_iff del: take_all take_all_iff)
qed

interpretation pg: stream_decoder pg_decode
proof unfold_locales
  fix s s' :: pg_codec and b b' x :: "byte list" and m e
  show "pg_decode s b = (Ok (Some m), s', b') \<Longrightarrow> pg_decode s (b @ x) = (Ok (Some m), s', b' @ x)"
    by (rule pg_decode_append) simp_all
  show "pg_decode s b = (Err e, s', b') \<Longrightarrow> pg_decode s (b @ x) = (Err e, s', b' @ x)"
    by (rule pg_decode_append) simp_all
  show "pg_decode s b = (Ok None, s', b') \<Longrightarrow> pg_decode s (b @ x) = pg_decode s' (b' @ x)"
    by (drule pg_decode_waits) simp
  show "pg_decode s b = (Ok (Some m), s', b') \<Longrightarrow> length b' < length b"
    by (rule pg_decode_item_shrinks)
  show "pg_decode s b = (Ok None, s', b') \<Longrightarrow> length b' \<le> length b"
    by (drule pg_decode_waits) simp
  show "fst (pg_decode s b) \<noteq> Panic" by (rule pg_decode_no_panic)
  show "pg_decode s [] = (Ok None, s, [])" by (simp add: pg_decode_def)
qed

section \<open>Messages on the wire\<close>

text \<open>A typed message is its type byte, its length and a body.\<close>

fun pg_type :: "pg_msg \<Rightarrow> byte" where
  "pg_type (PRowDescription m) = 0x54"
| "pg_type (PDataRow m) = 0x44"
| "pg_type (PQuery m) = 0x51"
| "pg_type (PParse m) = 0x50"
| "pg_type (PRegular m) = pr_message_type m"
| "pg_type _ = 0"

fun pg_body :: "pg_msg \<Rightarrow> byte list" where
  "pg_body (PRowDescription m) = put_u16 (of_nat (length (rd_fields m))) @ concat (map encode_field (rd_fields m))"
| "pg_body (PDataRow m) = put_u16 (of_nat (length (dr_values m))) @ concat (map encode_pg_value (dr_values m))"
| "pg_body (PQuery m) = pq_query m @ [0]"
| "pg_body (PParse m) = pp_statement m @ [0] @ pp_query m @ [0]
      @ put_u16 (of_nat (length (pp_param_types m))) @ concat (map put_u32 (pp_param_types m))"
| "pg_body (PRegular m) = pr_payload m"
| "pg_body _ = []"

fun pg_typed :: "pg_msg \<Rightarrow> bool" where
  "pg_typed (PStartup m) = False"
| "pg_typed PSSLRequest = False"
| "pg_typed _ = True"

text \<open>What a message must satisfy for its frame to say the same.\<close>

fun pg_content :: "pg_msg \<Rightarrow> bool" where
  "pg_content (PRowDescription m) \<longleftrightarrow>
     length (rd_fields m) < 65536 \<and> (\<forall>f \<in> set (rd_fields m). 0 \<notin> set (fd_name f))"
| "pg_content (PDataRow m) \<longleftrightarrow>
     length (dr_values m) < 65536 \<and> (\<forall>v. Some v \<in> set (dr_values m) \<longrightarrow> length v < 2 ^ 31)"
| "pg_content (PQuery m) \<longleftrightarrow> 0 \<notin> set (pq_query m)"
| "pg_content (PParse m) \<longleftrightarrow> 0 \<notin> set (pp_statement m) \<and> 0 \<notin> set (pp_query m) \<and> length (pp_param_types m) < 65536"
| "pg_content (PRegular m) \<longleftrightarrow> pr_message_type m \<notin> {0x54, 0x44, 0x51, 0x50}"
| "pg_content _ \<longleftrightarrow> False"

definition pg_wf :: "pg_msg \<Rightarrow> bool" where
  "pg_wf m \<longleftrightarrow> pg_content m \<and> 4 + length (pg_body m) \<le> MAX_FRAME_LEN"

lemma length_encode_field [simp]: "length (encode_field f) = length (fd_name f) + 19"
  by (simp add: encode_field_def)

lemma length_encode_pg_value [simp]:
  "length (encode_pg_value v) = 4 + (case v of Some v \<Rightarrow> length v | None \<Rightarrow> 0)"
  by (simp add: encode_pg_value_def split: option.split)

lemma length_concat_map: "length (concat (map f xs)) = sum_list (map (\<lambda>x. length (f x)) xs)"
  by (induction xs) auto

lemma pg_encode_typed:
  "pg_typed m \<Longrightarrow> pg_encode m = pg_type m # put_u32 (of_nat (4 + length (pg_body m))) @ pg_body m"
proof (cases m)
  case (PRowDescription r)
  have "sum_list (map (\<lambda>f. length (fd_name f) + 1 + (4 + 2 + 4 + 2 + 4 + 2)) fs)
      = length (concat (map encode_field fs))" for fs
    by (induction fs) auto
  with PRowDescription show ?thesis by (simp add: Let_def add.assoc del: of_nat_add)
next
  case (PDataRow r)
  have "sum_list (map (\<lambda>v. 4 + (case v of Some v \<Rightarrow> length v | None \<Rightarrow> 0)) vs)
      = length (concat (map encode_pg_value vs))" for vs
    by (induction vs) auto
  with PDataRow show ?thesis by (simp add: Let_def add.assoc del: of_nat_add)
next
  case (PParse r)
  have "length ts * 4 = length (concat (map put_u32 ts))" for ts
    by (induction ts) auto
  with PParse show ?thesis by (simp add: Let_def ac_simps del: of_nat_add of_nat_Suc)
qed (simp_all add: ac_simps)

section \<open>Encode, then decode\<close>

lemma read_cstring_bytes_append [simp]: "0 \<notin> set s \<Longrightarrow> read_cstring_bytes (s @ 0 # r) = Ok (s, r)"
  by (simp add: read_cstring_bytes_def advance_def)

lemma read_fields_encode:
  "\<forall>f \<in> set fs. 0 \<notin> set (fd_name f) \<Longrightarrow> read_fields (length fs) (concat (map encode_field fs) @ r) = Ok fs"
  by (induction fs) (simp_all add: encode_field_def)

lemma read_values_encode:
  "\<forall>v. Some v \<in> set vs \<longrightarrow> length v < 2 ^ 31 \<Longrightarrow>
   read_values i (length vs) (concat (map encode_pg_value vs) @ r) = Ok vs"
proof (induction vs arbitrary: i)
  case (Cons v vs)
  show ?case
  proof (cases v)
    case None
    with Cons show ?thesis by (simp add: encode_pg_value_def)
  next
    case (Some x)
    with Cons.prems have len: "length x < 2147483648" by simp
    then have u: "unat (of_nat (length x) :: u32) = length x" by (simp add: unat_of_nat)
    have "uint (of_nat (length x) :: u32) = int (length x)"
      using u by (metis uint_nat)
    with len have s: "\<not> sint (of_nat (length x) :: u32) < 0"
      by (simp add: sint_uint signed_take_bit_int_eq_self)
    have m1: "(of_nat (length x) :: u32) \<noteq> - 1"
    proof
      assume "(of_nat (length x) :: u32) = - 1"
      also have "(- 1 :: u32) = 4294967295" by simp
      finally have "unat (of_nat (length x) :: u32) = unat (4294967295 :: u32)" by (rule arg_cong)
      with u len show False by simp
    qed
    from Some Cons s m1 u show ?thesis
      by (simp add: encode_pg_value_def Let_def)
  qed
qed simp

lemma read_param_types_encode: "read_param_types (length ts) (concat (map put_u32 ts) @ r) = Ok ts"
  by (induction ts) simp_all

lemma length_put_u32s: "length (concat (map put_u32 ts)) = length ts * 4"
  by (induction ts) auto

lemma decode_body_encode: "pg_content m \<Longrightarrow> decode_body (pg_type m) (pg_body m) = Ok m"
proof (cases m)
  case (PRowDescription r)
  assume "pg_content m"
  with PRowDescription show ?thesis
    using read_fields_encode [of "rd_fields r" "[]"]
    by (simp add: decode_body_def decode_row_description_def unat_of_nat)
next
  case (PDataRow r)
  assume "pg_content m"
  with PDataRow show ?thesis
    using read_values_encode [of "dr_values r" 0 "[]"]
    by (simp add: decode_body_def decode_data_row_def unat_of_nat)
next
  case (PParse r)
  assume "pg_content m"
  with PParse show ?thesis
    using read_param_types_encode [of "pp_param_types r" "[]"]
    by (simp add: decode_body_def decode_parse_def unat_of_nat length_put_u32s)
qed (simp_all add: decode_body_def decode_query_def)

lemma be_nat_put_u32: "be_nat (put_u32 w) = unat w"
  using unsigned_less [of w, where 'a = nat] by (simp add: put_u32_def)

lemma pg_frame:
  assumes "4 + length p \<le> MAX_FRAME_LEN"
  shows "pg_decode pg_new_upstream (t # put_u32 (of_nat (4 + length p)) @ p @ x) =
    (rbind (decode_body t p) (\<lambda>m. Ok (Some m)), pg_new_upstream, x)"
proof -
  let ?b = "t # put_u32 (of_nat (4 + length p)) @ p @ x"
  have u: "unat (of_nat (4 + length p) :: u32) = 4 + length p"
    using assms by (simp add: unat_of_nat MAX_FRAME_LEN_def del: of_nat_add)
  have l: "be_nat (take 4 (drop 1 ?b)) = 4 + length p"
    by (simp add: be_nat_put_u32 u del: of_nat_add)
  have cut: "length hd = 5 \<Longrightarrow> drop 5 (take (1 + (4 + length p)) (hd @ p @ x)) = p
      \<and> drop (1 + (4 + length p)) (hd @ p @ x) = x" for hd :: "byte list"
    by simp
  have "length (t # put_u32 (of_nat (4 + length p))) = 5" by simp
  from cut [OF this] have d: "drop 5 (take (1 + (4 + length p)) ?b) = p" "drop (1 + (4 + length p)) ?b = x"
    unfolding append_Cons by blast+
  have c: "\<not> length ?b < 4" "\<not> length ?b < 5" "\<not> length ?b < 1 + (4 + length p)" "?b ! 0 = t"
    "\<not> \<not> (4 \<le> 4 + length p \<and> 4 + length p \<le> MAX_FRAME_LEN)" "\<not> pc_is_startup pg_new_upstream"
    using assms by (simp_all add: pg_new_upstream_def)
  show ?thesis
    unfolding pg_decode_def Let_def l c(4) d if_not_P [OF c(1)] if_not_P [OF c(2)] if_not_P [OF c(3)]
      if_not_P [OF c(5)] if_not_P [OF c(6)] ..
qed

lemma pg_wf_typed: "pg_wf m \<Longrightarrow> pg_typed m"
  by (cases m) (simp_all add: pg_wf_def)

lemma pg_decode_encode:
  "pg_wf m \<Longrightarrow> pg_decode pg_new_upstream (pg_encode m @ x) = (Ok (Some m), pg_new_upstream, x)"
  using pg_frame [of "pg_body m" "pg_type m" x]
  by (simp add: pg_encode_typed pg_wf_typed pg_wf_def decode_body_encode del: of_nat_add)

interpretation pgw: frame_codec pg_decode pg_encode pg_wf pg_new_upstream
  by unfold_locales (rule pg_decode_encode)

section \<open>Decode, then encode\<close>

lemma get_u32_inv: assumes "get_u32 b = Ok (w, r)" shows "b = put_u32 w @ r"
proof -
  from assms have w: "w = of_nat (be_nat (take 4 b))" "r = drop 4 b" "4 \<le> length b"
    by (auto simp: get_u32_def split_to_def split: if_splits)
  have "be_nat (take 4 b) < 4294967296" using be_nat_lt [of "take 4 b"] w(3) by simp
  then have "put_u32 w = take 4 b"
    using w be_bytes_be_nat [of "take 4 b" 4] by (simp add: put_u32_def unat_of_nat)
  with w show ?thesis by simp
qed

lemma get_u16_inv: assumes "get_u16 b = Ok (w, r)" shows "b = put_u16 w @ r"
proof -
  from assms have w: "w = of_nat (be_nat (take 2 b))" "r = drop 2 b" "2 \<le> length b"
    by (auto simp: get_u16_def split_to_def split: if_splits)
  have "be_nat (take 2 b) < 65536" using be_nat_lt [of "take 2 b"] w(3) by simp
  then have "put_u16 w = take 2 b"
    using w be_bytes_be_nat [of "take 2 b" 2] by (simp add: put_u16_def unat_of_nat)
  with w show ?thesis by simp
qed

lemma split_to_inv: "split_to n b = Ok (v, r) \<Longrightarrow> b = v @ r \<and> length v = n"
  by (auto simp: split_to_def split: if_splits)

lemma read_cstring_bytes_inv:
  assumes "read_cstring_bytes b = Ok (s, r)" shows "b = s @ 0 # r \<and> 0 \<notin> set s"
proof -
  from assms obtain pos where p: "find_nul b = Some pos" "s = take pos b" "r = drop (Suc pos) b"
    by (auto simp: read_cstring_bytes_def split_to_def advance_def split: option.splits if_splits)
  from find_nul_SomeD [OF p(1)] p(2,3) show ?thesis by (metis id_take_nth_drop)
qed

lemma read_fields_inv:
  "read_fields n b = Ok fs \<Longrightarrow> length fs = n \<and> (\<forall>f \<in> set fs. 0 \<notin> set (fd_name f))
     \<and> (\<exists>r. b = concat (map encode_field fs) @ r)"
proof (induction n arbitrary: b fs)
  case (Suc n)
  from Suc.prems obtain name d oid d1 ci d2 ty d3 tl d4 tm d5 fc d6 gs where
    "read_cstring_bytes b = Ok (name, d)" "get_u32 d = Ok (oid, d1)" "get_u16 d1 = Ok (ci, d2)"
    "get_u32 d2 = Ok (ty, d3)" "get_u16 d3 = Ok (tl, d4)" "get_u32 d4 = Ok (tm, d5)"
    "get_u16 d5 = Ok (fc, d6)" "read_fields n d6 = Ok gs"
    "fs = \<lparr>fd_name = name, fd_table_oid = oid, fd_column_index = ci, fd_type_oid = ty,
       fd_type_len = tl, fd_type_modifier = tm, fd_format_code = fc\<rparr> # gs"
    by (auto simp: rbind_eq_Ok_iff split: if_splits)
  with Suc.IH [of d6 gs] show ?case
    by (auto dest!: get_u32_inv get_u16_inv read_cstring_bytes_inv simp: encode_field_def)
qed simp

lemma nonneg_word_lt: "\<not> sint (w :: u32) < 0 \<Longrightarrow> unat w < 2 ^ 31"
proof -
  assume "\<not> sint w < 0"
  then have "\<not> bit w 31" by (simp add: sint_uint signed_take_bit_negative_iff not_less bit_uint_iff)
  then have "take_bit 31 w = w"
  proof (intro bit_word_eqI)
    fix n assume "\<not> bit w 31" "n < LENGTH(32)"
    then show "bit (take_bit 31 w) n = bit w n"
      by (cases "n = 31") (auto simp: bit_take_bit_iff)
  qed
  then have "take_bit 31 (unat w) = unat w" by (metis unsigned_take_bit_eq)
  then show ?thesis by (metis take_bit_nat_less_exp)
qed

lemma read_values_inv:
  "read_values i n b = Ok vs \<Longrightarrow> length vs = n \<and> (\<forall>v. Some v \<in> set vs \<longrightarrow> length v < 2 ^ 31)
     \<and> (\<exists>r. b = concat (map encode_pg_value vs) @ r)"
proof (induction n arbitrary: i b vs)
  case (Suc n)
  from Suc.prems obtain len d where l: "get_u32 b = Ok (len, d)"
    by (auto simp: rbind_eq_Ok_iff split: if_splits)
  show ?case
  proof (cases "len = - 1")
    case True
    with Suc.prems l obtain ws where "read_values (Suc i) n d = Ok ws" "vs = None # ws"
      by (auto simp: rbind_eq_Ok_iff split: if_splits)
    with Suc.IH [of "Suc i" d ws] get_u32_inv [OF l] True show ?thesis
      by (auto simp: encode_pg_value_def)
  next
    case False
    with Suc.prems l obtain v e ws where w: "split_to (unat len) d = Ok (v, e)" "\<not> sint len < 0"
      "read_values (Suc i) n e = Ok ws" "vs = Some v # ws"
      by (auto simp: rbind_eq_Ok_iff Let_def split: if_splits)
    from split_to_inv [OF w(1)] have v: "d = v @ e" "length v = unat len" by auto
    with Suc.IH [OF w(3)] get_u32_inv [OF l] w nonneg_word_lt [OF w(2)] show ?thesis
      by (auto simp: encode_pg_value_def)
  qed
qed simp

lemma read_param_types_inv:
  "read_param_types n b = Ok ts \<Longrightarrow> length ts = n \<and> (\<exists>r. b = concat (map put_u32 ts) @ r)"
  by (induction n arbitrary: b ts) (auto simp: rbind_eq_Ok_iff dest!: get_u32_inv)

lemma of_nat_unat_u16: "of_nat (unat w) = (w :: u16)" by simp

lemma decode_body_inv:
  assumes "decode_body t b = Ok m"
  shows "pg_type m = t \<and> pg_content m \<and> pg_typed m \<and> (\<exists>r. b = pg_body m @ r)"
proof -
  have lt: "unat (n :: u16) < 65536" for n using unsigned_less [of n] by simp
  consider (T) "t = 0x54" | (D) "t = 0x44" | (Q) "t = 0x51" | (P) "t = 0x50" | (R) "t \<notin> {0x54, 0x44, 0x51, 0x50}"
    by blast
  then show ?thesis
  proof cases
    case T
    with assms obtain n d fs where "get_u16 b = Ok (n, d)" "read_fields (unat n) d = Ok fs"
      "m = PRowDescription \<lparr>rd_fields = fs\<rparr>"
      by (auto simp: decode_body_def decode_row_description_def rbind_eq_Ok_iff split: if_splits)
    with T lt [of n] show ?thesis by (auto dest!: get_u16_inv read_fields_inv)
  next
    case D
    with assms obtain n d vs where "get_u16 b = Ok (n, d)" "read_values 0 (unat n) d = Ok vs"
      "m = PDataRow \<lparr>dr_values = vs\<rparr>"
      by (auto simp: decode_body_def decode_data_row_def rbind_eq_Ok_iff split: if_splits)
    with D lt [of n] show ?thesis by (auto dest!: get_u16_inv read_values_inv)
  next
    case Q
    with assms show ?thesis
      by (auto simp: decode_body_def decode_query_def rbind_eq_Ok_iff dest!: read_cstring_bytes_inv)
  next
    case P
    with assms obtain s d q e n f ts where "read_cstring_bytes b = Ok (s, d)" "read_cstring_bytes d = Ok (q, e)"
      "get_u16 e = Ok (n, f)" "read_param_types (unat n) f = Ok ts"
      "m = PParse \<lparr>pp_statement = s, pp_query = q, pp_param_types = ts\<rparr>"
      by (auto simp: decode_body_def decode_parse_def rbind_eq_Ok_iff split: if_splits)
    with P lt [of n] show ?thesis
      by (auto dest!: get_u16_inv read_cstring_bytes_inv read_param_types_inv)
  next
    case R
    with assms show ?thesis by (auto simp: decode_body_def)
  qed
qed

lemma pg_decode_inv:
  assumes "pg_decode pg_new_upstream b = (Ok (Some m), c', b')"
  shows "c' = pg_new_upstream \<and> pg_wf m \<and>
    (\<exists>r. b = pg_type m # put_u32 (of_nat (4 + length (pg_body m @ r))) @ pg_body m @ r @ b')"
proof -
  let ?n = "be_nat (take 4 (drop 1 b))"
  have st: "\<not> pc_is_startup pg_new_upstream" by (simp add: pg_new_upstream_def)
  from assms st have len: "5 \<le> length b" "4 \<le> ?n" "?n \<le> MAX_FRAME_LEN" "1 + ?n \<le> length b"
    and body: "decode_body (b ! 0) (drop 5 (take (1 + ?n) b)) = Ok m"
    and rest: "c' = pg_new_upstream" "b' = drop (1 + ?n) b"
    by (auto simp: pg_decode_def Let_def rbind_eq_Ok_iff split: if_splits)
  from len(1) obtain t l p where b: "b = t # l @ p" "length l = 4"
    using list_split [of 4 "tl b"] by (cases b) auto
  then have n: "?n = be_nat l" by simp
  from len(4) b have "?n - 4 \<le> length p" by (simp add: n)
  then obtain d q where p: "p = d @ q" "length d = ?n - 4" using list_split by blast
  have "drop 5 (take (1 + ?n) b) = d" "drop (1 + ?n) b = q"
    using b p len by (simp_all add: n)
  with body rest b have body: "decode_body t d = Ok m" and q: "b' = q" by simp_all
  have L: "put_u32 (of_nat (4 + length d)) = l"
    using p(2) len(2) b(2) n be_nat_lt [of l] be_bytes_be_nat [of l 4]
    by (simp add: put_u32_def unat_of_nat del: of_nat_add)
  from decode_body_inv [OF body] obtain r where
    m: "pg_type m = t" "pg_content m" "d = pg_body m @ r" by auto
  then have "b = pg_type m # put_u32 (of_nat (4 + length (pg_body m @ r))) @ pg_body m @ r @ b'"
    unfolding b(1) p(1) q using L by (simp del: of_nat_add)
  moreover have "4 + length (pg_body m) \<le> MAX_FRAME_LEN"
    using p(2) m(3) len(2,3) n by simp
  ultimately show ?thesis using m rest(1) unfolding pg_wf_def by blast
qed

section \<open>Startup\<close>

definition params_ok :: "(string \<times> string) list \<Rightarrow> bool" where
  "params_ok ps \<longleftrightarrow> (\<forall>(k, v) \<in> set ps. k \<noteq> []
     \<and> 0 \<notin> set (bytes_of_str k) \<and> utf8_valid (bytes_of_str k)
     \<and> 0 \<notin> set (bytes_of_str v) \<and> utf8_valid (bytes_of_str v))"

lemma read_cstring_append [simp]:
  "0 \<notin> set (bytes_of_str s) \<Longrightarrow> utf8_valid (bytes_of_str s) \<Longrightarrow>
   read_cstring (bytes_of_str s @ 0 # r) = Ok (s, r)"
  by (simp add: read_cstring_def from_utf8_def)

lemma utf8_valid_Nil [simp]: "utf8_valid []"
  by (simp add: utf8_valid_def)

lemma read_cstring_empty [simp]: "read_cstring (0 # r) = Ok ([], r)"
  using read_cstring_append [of "[]" r] by (simp add: bytes_of_str_def)

lemma read_params_encode: "params_ok ps \<Longrightarrow> read_params (encode_params ps @ 0 # r) = Ok ps"
proof (induction ps)
  case Nil
  show ?case by (subst read_params.simps) (simp add: encode_params_def)
next
  case (Cons p ps)
  obtain k v where p: "p = (k, v)" by fastforce
  have e: "encode_params (p # ps) @ 0 # r
      = bytes_of_str k @ 0 # bytes_of_str v @ 0 # encode_params ps @ 0 # r"
    by (simp add: encode_params_def p)
  from Cons p show ?case
    unfolding e by (subst read_params.simps) (simp add: params_ok_def)
qed

lemma length_encode_params:
  "length (encode_params ps) = sum_list (map (\<lambda>(k, v). length k + 1 + length v + 1) ps)"
  unfolding encode_params_def by (induction ps) auto

lemma startup_frame:
  assumes "8 \<le> n" "n \<le> MAX_STARTUP_LEN" "4 + length p = n"
  shows "pg_decode pg_new (put_u32 (of_nat n) @ p @ x) =
    (case after_startup pg_new (decode_startup_body p) of (r, c') \<Rightarrow> (r, c', x))"
proof -
  let ?b = "put_u32 (of_nat n) @ p @ x"
  have u: "unat (of_nat n :: u32) = n"
    using assms by (simp add: unat_of_nat MAX_STARTUP_LEN_def)
  have l: "be_nat (take 4 ?b) = n" by (simp add: be_nat_put_u32 u)
  have cut: "drop 4 (take n (h @ p @ x)) = p \<and> drop n (h @ p @ x) = x" if "length h = 4" for h :: "byte list"
    using that assms(3) by auto
  note d = conjunct1 [OF cut [OF length_put(5)]] conjunct2 [OF cut [OF length_put(5)]]
  have c: "\<not> length ?b < 4" "pc_is_startup pg_new" "\<not> \<not> (8 \<le> n \<and> n \<le> MAX_STARTUP_LEN)" "\<not> length ?b < n"
    using assms by (simp_all add: pg_new_def)
  show ?thesis
    unfolding pg_decode_def Let_def l if_not_P [OF c(1)] if_P [OF c(2)] if_not_P [OF c(3)] if_not_P [OF c(4)] d ..
qed

lemma pg_decode_startup:
  assumes "params_ok (st_parameters m)" "st_protocol_version m \<noteq> 80877103"
    and "length (encode_params (st_parameters m)) + 9 \<le> MAX_STARTUP_LEN"
  shows "pg_decode pg_new (pg_encode (PStartup m) @ x) = (Ok (Some (PStartup m)), pg_new_upstream, x)"
proof -
  let ?p = "put_u32 (st_protocol_version m) @ encode_params (st_parameters m) @ [0]"
  have "pg_encode (PStartup m) @ x = put_u32 (of_nat (length (encode_params (st_parameters m)) + 9)) @ ?p @ x"
    by (simp add: Let_def length_encode_params ac_simps)
  moreover have "decode_startup_body ?p = Ok (PStartup m)"
    using assms(1,2) read_params_encode [of "st_parameters m" "[]"] by (simp add: decode_startup_body_def)
  ultimately show ?thesis
    using startup_frame [of "length (encode_params (st_parameters m)) + 9" ?p x] assms(3)
    by (simp add: pg_new_def pg_new_upstream_def del: of_nat_add pg_encode.simps)
qed

lemma pg_decode_ssl_request:
  "pg_decode pg_new (pg_encode PSSLRequest @ x) = (Ok (Some PSSLRequest), pg_new, x)"
  using startup_frame [of 8 "put_u32 80877103" x] get_u32_put [of 80877103 "[]"]
  by (simp add: decode_startup_body_def MAX_STARTUP_LEN_def)

section \<open>Properties\<close>

text \<open>C29: decoding a PostgreSQL stream never panics, and messages, final state and error depend only on the
  bytes received, not on how the socket cut them.\<close>
theorem postgres_segmentation_independent:
  "feed pg_decode c [] chunks = outcome (drain_all pg_decode c (concat chunks))
   \<and> fst (pg_decode c b) \<noteq> Panic"
  using pg.segmentation_independent pg.never_panics by blast

text \<open>C30: a pipeline of well-formed typed messages, encoded one after the other and cut into chunks in
  any way, is decoded into exactly those messages.\<close>
theorem postgres_pipeline_roundtrip:
  assumes "\<forall>m \<in> set ms. pg_wf m" "concat chunks = concat (map pg_encode ms)"
  shows "feed pg_decode pg_new_upstream [] chunks = (ms, Waiting, pg_new_upstream)"
  using assms by (rule pgw.pipeline_roundtrip)

theorem postgres_pipeline_roundtrip_witness:
  "let ms = [PQuery \<lparr>pq_query = [0x53]\<rparr>, PDataRow \<lparr>dr_values = [Some [1, 0, 2], None]\<rparr>] in
   feed pg_decode pg_new_upstream [] [take 7 (concat (map pg_encode ms)), drop 7 (concat (map pg_encode ms))]
     = (ms, Waiting, pg_new_upstream)"
  unfolding Let_def
  by (rule postgres_pipeline_roundtrip) (simp_all add: pg_wf_def MAX_FRAME_LEN_def encode_pg_value_def)

text \<open>Whatever typed message is decoded, encoding it gives the frame it came from, without the bytes
  (if any) that followed its body, and the next reader decodes the same message.\<close>
theorem postgres_forwarding:
  assumes "pg_decode pg_new_upstream b = (Ok (Some m), c', b')"
  shows "c' = pg_new_upstream
    \<and> (\<exists>trailing. b = pg_type m # put_u32 (of_nat (4 + length (pg_body m @ trailing))) @ pg_body m @ trailing @ b'
         \<and> (trailing = [] \<longrightarrow> b = pg_encode m @ b'))
    \<and> pg_decode pg_new_upstream (pg_encode m @ rest) = (Ok (Some m), pg_new_upstream, rest)"
proof -
  from pg_decode_inv [OF assms] obtain r where r: "c' = pg_new_upstream" "pg_wf m"
    "b = pg_type m # put_u32 (of_nat (4 + length (pg_body m @ r))) @ pg_body m @ r @ b'" by blast
  have "r = [] \<longrightarrow> b = pg_encode m @ b'"
    unfolding r(3) pg_encode_typed [OF pg_wf_typed [OF r(2)]] by simp
  with r pg_decode_encode [OF r(2)] show ?thesis by blast
qed

theorem postgres_forwarding_witness:
  "pg_decode pg_new_upstream (pg_encode (PRegular \<lparr>pr_message_type = 0x5A, pr_payload = [0x49]\<rparr>) @ [7]) =
     (Ok (Some (PRegular \<lparr>pr_message_type = 0x5A, pr_payload = [0x49]\<rparr>)), pg_new_upstream, [7])"
proof -
  have "pg_decode pg_new_upstream (0x5A # put_u32 5 @ [0x49] @ []) =
    (Ok (Some (PRegular \<lparr>pr_message_type = 0x5A, pr_payload = [0x49]\<rparr>)), pg_new_upstream, [])"
    using pg_frame [of "[0x49]" "0x5A" "[]"] by (simp add: decode_body_def MAX_FRAME_LEN_def)
  from postgres_forwarding [OF this] show ?thesis by blast
qed

text \<open>A startup message the proxy re-encodes is read as the same message, and an SSLRequest leaves
  the codec waiting for it.\<close>
theorem postgres_startup_roundtrip:
  assumes "params_ok (st_parameters m)" "st_protocol_version m \<noteq> 80877103"
    and "length (encode_params (st_parameters m)) + 9 \<le> MAX_STARTUP_LEN"
  shows "pg_decode pg_new (pg_encode (PStartup m) @ rest) = (Ok (Some (PStartup m)), pg_new_upstream, rest)
    \<and> pg_decode pg_new (pg_encode PSSLRequest @ rest) = (Ok (Some PSSLRequest), pg_new, rest)"
  using pg_decode_startup [OF assms] pg_decode_ssl_request by blast

theorem postgres_startup_roundtrip_witness:
  "pg_decode pg_new (pg_encode (PStartup \<lparr>st_protocol_version = 196608,
       st_parameters = [(''user'', ''a'')]\<rparr>) @ [9]) =
    (Ok (Some (PStartup \<lparr>st_protocol_version = 196608, st_parameters = [(''user'', ''a'')]\<rparr>)),
     pg_new_upstream, [9])"
  by (rule conjunct1 [OF postgres_startup_roundtrip]; code_simp)

text \<open>Before a message is complete the codec holds less than one frame: a length field above the cap
  is refused at once, so no peer makes the proxy buffer more than 64 MiB and one byte.\<close>
theorem postgres_buffer_bound:
  "(fst (pg_decode c b) = Ok None \<longrightarrow>
     length (snd (snd (pg_decode c b))) < (if pc_is_startup c then MAX_STARTUP_LEN else 1 + MAX_FRAME_LEN))
   \<and> (5 \<le> length b \<longrightarrow> \<not> pc_is_startup c \<longrightarrow> MAX_FRAME_LEN < be_nat (take 4 (drop 1 b)) \<longrightarrow>
     (\<exists>e. pg_decode c b = (Err e, c, b)))"
proof (intro conjI impI)
  assume "fst (pg_decode c b) = Ok None"
  then obtain c' b' where d: "pg_decode c b = (Ok None, c', b')" by (metis prod.collapse)
  with pg_decode_waits have eqs: "c' = c" "b' = b" by blast+
  have caps: "4 \<le> MAX_STARTUP_LEN" "5 \<le> 1 + MAX_FRAME_LEN"
    by (simp_all add: MAX_STARTUP_LEN_def MAX_FRAME_LEN_def)
  have "length b < (if pc_is_startup c then MAX_STARTUP_LEN else 1 + MAX_FRAME_LEN)"
  proof (rule ccontr)
    assume "\<not> ?thesis"
    with caps d show False
      by (auto simp: pg_decode_def Let_def rbind_eq_Ok_iff split: if_splits prod.splits)
  qed
  with d eqs show "length (snd (snd (pg_decode c b)))
      < (if pc_is_startup c then MAX_STARTUP_LEN else 1 + MAX_FRAME_LEN)" by simp
next
  assume "5 \<le> length b" "\<not> pc_is_startup c" "MAX_FRAME_LEN < be_nat (take 4 (drop 1 b))"
  then show "\<exists>e. pg_decode c b = (Err e, c, b)"
    by (simp add: pg_decode_def Let_def)
qed

theorem postgres_buffer_bound_witness:
  "\<exists>e. pg_decode pg_new_upstream [0x51, 0xff, 0xff, 0xff, 0xff] = (Err e, pg_new_upstream, [0x51, 0xff, 0xff, 0xff, 0xff])"
  using postgres_buffer_bound [of pg_new_upstream "[0x51, 0xff, 0xff, 0xff, 0xff]"]
  by (simp add: pg_new_upstream_def MAX_FRAME_LEN_def be_nat_def)

text \<open>A CancelRequest (length 16, code 80877102, process id, secret key) for a process id below
  \<open>2 ^ 24\<close> is taken for a startup message without parameters, and what the proxy sends on in its
  place is nine bytes that hold neither the process id nor the key.\<close>
theorem postgres_cancel_request_lost:
  assumes "unat pid < 2 ^ 24"
  shows "pg_decode pg_new (put_u32 16 @ put_u32 80877102 @ put_u32 pid @ put_u32 key) =
      (Ok (Some (PStartup \<lparr>st_protocol_version = 80877102, st_parameters = []\<rparr>)), pg_new_upstream, [])
    \<and> pg_encode (PStartup \<lparr>st_protocol_version = 80877102, st_parameters = []\<rparr>)
      = put_u32 9 @ put_u32 80877102 @ [0]"
proof -
  have "unat pid div 256 div 256 div 256 = 0" using assms by (simp add: div_mult2_eq [symmetric])
  then obtain r where r: "put_u32 pid = 0 # r"
    unfolding put_u32_def be_bytes_def le_bytes4 by simp
  then have "decode_startup_body (put_u32 80877102 @ put_u32 pid @ put_u32 key) =
      Ok (PStartup \<lparr>st_protocol_version = 80877102, st_parameters = []\<rparr>)"
    unfolding r append_Cons by (simp add: decode_startup_body_def read_params.simps [of "0 # _"])
  then show ?thesis
    using startup_frame [of 16 "put_u32 80877102 @ put_u32 pid @ put_u32 key" "[]"]
    by (simp add: MAX_STARTUP_LEN_def pg_new_def pg_new_upstream_def encode_params_def)
qed

theorem postgres_cancel_request_lost_witness:
  "pg_decode pg_new (put_u32 16 @ put_u32 80877102 @ put_u32 4242 @ put_u32 0xCAFEBABE) =
      (Ok (Some (PStartup \<lparr>st_protocol_version = 80877102, st_parameters = []\<rparr>)), pg_new_upstream, [])"
  by (rule conjunct1 [OF postgres_cancel_request_lost]) simp

end
