(* ===== verification/MySql_Types.thy ===== *)
theory MySql_Types
  imports Strings
begin

text \<open>
  \<^verbatim>\<open>src/src/protocol/mysql.rs\<close>: the packet types of the MySQL wire protocol, the capability
  flags and the packets the proxy builds itself. A field of a record is named after the
  field of the struct, with a prefix per struct; a constructor of \<open>my_msg\<close> is the variant of
  \<^verbatim>\<open>MySqlMessage\<close> with an \<open>M\<close> in front.
\<close>

section \<open>Packet types\<close>

record handshake_v10 =
  hs_protocol_version :: byte
  hs_server_version :: string
  hs_connection_id :: u32
  hs_auth_plugin_data_part1 :: "byte list"
  hs_capability_flags :: u32
  hs_character_set :: byte
  hs_status_flags :: u16
  hs_auth_plugin_data_part2 :: "byte list"
  hs_auth_plugin_name :: string
  hs_raw :: "byte list"

record handshake_response =
  hr_capability_flags :: u32
  hr_max_packet_size :: u32
  hr_character_set :: byte
  hr_username :: string
  hr_auth_response :: "byte list"
  hr_database :: "string option"
  hr_auth_plugin_name :: "string option"
  hr_raw :: "byte list"

record generic_packet =
  gp_sequence_id :: byte
  gp_payload :: "byte list"

record query_packet =
  qp_sequence_id :: byte
  qp_query :: "byte list"

record column_definition =
  cd_sequence_id :: byte
  cd_catalog :: "byte list"
  cd_schema :: "byte list"
  cd_table :: "byte list"
  cd_org_table :: "byte list"
  cd_name :: "byte list"
  cd_org_name :: "byte list"
  cd_character_set :: u16
  cd_column_length :: u32
  cd_column_type :: byte
  cd_flags :: u16
  cd_decimals :: byte
  cd_raw :: "byte list"

record result_row =
  rr_sequence_id :: byte
  rr_values :: "byte list option list"

record ok_packet =
  ok_sequence_id :: byte
  ok_affected_rows :: u64
  ok_last_insert_id :: u64
  ok_status_flags :: u16
  ok_warnings :: u16
  ok_info :: "byte list"
  ok_raw :: "byte list"

record err_packet =
  err_sequence_id :: byte
  err_error_code :: u16
  err_sql_state :: "byte list"
  err_error_message :: string
  err_raw :: "byte list"

record eof_packet =
  eof_sequence_id :: byte
  eof_warnings :: u16
  eof_status_flags :: u16
  eof_raw :: "byte list"

datatype my_msg =
    MHandshake handshake_v10
  | MHandshakeResponse handshake_response
  | MGeneric generic_packet
  | MQuery query_packet
  | MColumnDefinition column_definition
  | MResultRow result_row
  | MOk ok_packet
  | MErr err_packet
  | MEof eof_packet

section \<open>Capability flags\<close>

definition CLIENT_SSL :: u32 where "CLIENT_SSL = push_bit 11 1"
definition CLIENT_COMPRESS :: u32 where "CLIENT_COMPRESS = push_bit 5 1"
definition CLIENT_PROTOCOL_41 :: u32 where "CLIENT_PROTOCOL_41 = push_bit 9 1"
definition CLIENT_CONNECT_WITH_DB :: u32 where "CLIENT_CONNECT_WITH_DB = push_bit 3 1"
definition CLIENT_SECURE_CONNECTION :: u32 where "CLIENT_SECURE_CONNECTION = push_bit 15 1"
definition CLIENT_PLUGIN_AUTH :: u32 where "CLIENT_PLUGIN_AUTH = push_bit 19 1"
definition CLIENT_CONNECT_ATTRS :: u32 where "CLIENT_CONNECT_ATTRS = push_bit 20 1"
definition CLIENT_DEPRECATE_EOF :: u32 where "CLIENT_DEPRECATE_EOF = push_bit 24 1"
definition SERVER_STATUS_AUTOCOMMIT :: u16 where "SERVER_STATUS_AUTOCOMMIT = 0x0002"
definition AUTH_MORE_DATA_FAST_AUTH_SUCCESS :: byte where "AUTH_MORE_DATA_FAST_AUTH_SUCCESS = 0x03"
definition AUTH_MORE_DATA_FULL_AUTH_REQUIRED :: byte where "AUTH_MORE_DATA_FULL_AUTH_REQUIRED = 0x04"

lemmas caps_defs =
  CLIENT_SSL_def CLIENT_COMPRESS_def CLIENT_PROTOCOL_41_def CLIENT_CONNECT_WITH_DB_def
  CLIENT_SECURE_CONNECTION_def CLIENT_PLUGIN_AUTH_def CLIENT_CONNECT_ATTRS_def
  CLIENT_DEPRECATE_EOF_def

text \<open>\<open>has caps f\<close> is the code's \<^verbatim>\<open>caps & f != 0\<close>.\<close>

definition has :: "u32 \<Rightarrow> u32 \<Rightarrow> bool" where
  "has caps f \<longleftrightarrow> caps AND f \<noteq> 0"

definition proxy_error :: "byte \<Rightarrow> u16 \<Rightarrow> byte list \<Rightarrow> string \<Rightarrow> err_packet" where
  "proxy_error seq code state msg =
     \<lparr>err_sequence_id = seq, err_error_code = code, err_sql_state = state,
      err_error_message = msg, err_raw = []\<rparr>"

definition is_ssl_request :: "handshake_response \<Rightarrow> bool" where
  "is_ssl_request r \<longleftrightarrow> length (hr_raw r) = 32 \<and> has (hr_capability_flags r) CLIENT_SSL"

definition build_ssl_request :: "u32 \<Rightarrow> u32 \<Rightarrow> byte \<Rightarrow> generic_packet" where
  "build_ssl_request caps max_packet_size character_set =
     \<lparr>gp_sequence_id = 1,
      gp_payload = put_u32_le (caps OR CLIENT_SSL) @ put_u32_le max_packet_size
        @ [character_set] @ replicate 23 0\<rparr>"

definition auth_packet_expects_client_reply :: "byte list \<Rightarrow> bool" where
  "auth_packet_expects_client_reply payload =
     (case payload of
        [] \<Rightarrow> True
      | first # rest \<Rightarrow>
          if first = 0x01 then
            (case rest of [] \<Rightarrow> True | status # _ \<Rightarrow> status \<noteq> AUTH_MORE_DATA_FAST_AUTH_SUCCESS)
          else True)"

end
