(* ===== verification/MySql_Packets.thy ===== *)
theory MySql_Packets
  imports MySql_Types
begin

text \<open>
  \<^verbatim>\<open>src/src/protocol/mysql.rs\<close>: the parsers and the encoders of the MySQL wire protocol, one
  definition per function. The lemmas prove the round trips of the length-encoded integers,
  strings and rows, and that no parser reads past its buffer.
\<close>

section \<open>Parsing helpers\<close>

definition read_lenenc_int :: "byte list \<Rightarrow> (u64 \<times> nat) result" where
  "read_lenenc_int buf =
     (if buf = [] then bail ''Empty buffer for lenenc int''
      else let first = buf ! 0 in
        if first \<le> 0xfa then Ok (ucast first, 1)
        else if first = 0xfc then
          (if length buf < 3 then bail ''Not enough bytes for 2-byte lenenc int''
           else Ok (ucast (buf ! 1) OR push_bit 8 (ucast (buf ! 2)), 3))
        else if first = 0xfd then
          (if length buf < 4 then bail ''Not enough bytes for 3-byte lenenc int''
           else Ok (ucast (buf ! 1) OR push_bit 8 (ucast (buf ! 2)) OR push_bit 16 (ucast (buf ! 3)), 4))
        else if first = 0xfe then
          (if length buf < 9 then bail ''Not enough bytes for 8-byte lenenc int''
           else Ok (ucast (buf ! 1) OR push_bit 8 (ucast (buf ! 2)) OR push_bit 16 (ucast (buf ! 3))
             OR push_bit 24 (ucast (buf ! 4)) OR push_bit 32 (ucast (buf ! 5))
             OR push_bit 40 (ucast (buf ! 6)) OR push_bit 48 (ucast (buf ! 7))
             OR push_bit 56 (ucast (buf ! 8)), 9))
        else if first = 0xfb then Ok (0, 1)
        else bail ''Invalid lenenc int marker 0xff'')"

definition read_lenenc_int_from_buf :: "byte list \<Rightarrow> (u64 \<times> byte list) result" where
  "read_lenenc_int_from_buf buf =
     rbind (read_lenenc_int buf) (\<lambda>(val, consumed).
     rbind (advance consumed buf) (\<lambda>buf. Ok (val, buf)))"

definition take_lenenc :: "byte list \<Rightarrow> (u64 \<times> byte list) result" where
  "take_lenenc buf =
     rbind (read_lenenc_int buf) (\<lambda>(val, consumed).
     rbind (advance consumed buf) (\<lambda>buf. Ok (val, buf)))"

definition read_lenenc_string :: "byte list \<Rightarrow> (byte list \<times> byte list) result" where
  "read_lenenc_string buf =
     rbind (read_lenenc_int_from_buf buf) (\<lambda>(len, buf).
     if length buf < unat len then bail ''Not enough bytes for lenenc string''
     else split_to (unat len) buf)"

text \<open>
  Two callers ignore a failure of this function and read on, so what it leaves in the buffer
  when it fails is part of its result: all of it without a terminator, and the terminator and
  what follows when the bytes before it are not UTF-8.
\<close>

definition read_null_terminated_string :: "byte list \<Rightarrow> string result \<times> byte list" where
  "read_null_terminated_string buf =
     (case find_nul buf of
        None \<Rightarrow> (bail ''Missing null terminator'', buf)
      | Some pos \<Rightarrow>
          (case split_to pos buf of
             Ok (head, rest) \<Rightarrow>
               (case from_utf8 head of
                  None \<Rightarrow> (bail ''invalid utf-8'', rest)
                | Some s \<Rightarrow>
                    (case advance 1 rest of Ok rest' \<Rightarrow> (Ok s, rest') | _ \<Rightarrow> (Panic, rest)))
           | _ \<Rightarrow> (Panic, buf)))"

lemma read_lenenc_int_no_panic [no_panic, simp]: "read_lenenc_int b \<noteq> Panic"
  by (simp add: read_lenenc_int_def Let_def)

lemma read_lenenc_int_consumed:
  "read_lenenc_int b = Ok (v, k) \<Longrightarrow> 0 < k \<and> k \<le> length b"
  by (cases b) (auto simp: read_lenenc_int_def Let_def split: if_splits)

lemma read_lenenc_int_from_buf_no_panic [no_panic, simp]: "read_lenenc_int_from_buf b \<noteq> Panic"
  unfolding read_lenenc_int_from_buf_def
  by (auto simp: rbind_eq_Panic_iff advance_def dest: read_lenenc_int_consumed)

lemma take_lenenc_no_panic [no_panic, simp]: "take_lenenc b \<noteq> Panic"
  unfolding take_lenenc_def
  by (auto simp: rbind_eq_Panic_iff advance_def dest: read_lenenc_int_consumed)

lemma read_lenenc_string_no_panic [no_panic, simp]: "read_lenenc_string b \<noteq> Panic"
  unfolding read_lenenc_string_def by (auto simp: rbind_eq_Panic_iff split_to_def)

lemma read_null_terminated_string_no_panic [no_panic, simp]:
  "fst (read_null_terminated_string b) \<noteq> Panic"
  by (auto simp: read_null_terminated_string_def split_to_def advance_def
      split: option.split dest: find_nul_lt)

section \<open>Packet parsers\<close>

text \<open>The last two fields of the server handshake, whose presence the capabilities decide.\<close>

definition parse_handshake_auth_tail :: "u32 \<Rightarrow> byte \<Rightarrow> byte list \<Rightarrow> (byte list \<times> string) result" where
  "parse_handshake_auth_tail caps auth_plugin_data_len buf =
     (let part2_len =
        (if has caps CLIENT_SECURE_CONNECTION then max 13 (unat auth_plugin_data_len - 8) else 0) in
      rbind (if 0 < part2_len \<and> part2_len \<le> length buf
             then rbind (split_to part2_len buf) (\<lambda>(data, buf). Ok (takeWhile (\<lambda>b. b \<noteq> 0) data, buf))
             else Ok ([], buf)) (\<lambda>(part2, buf).
      rbind (if has caps CLIENT_PLUGIN_AUTH \<and> buf \<noteq> []
             then or_default [] (fst (read_null_terminated_string buf))
             else Ok []) (\<lambda>plugin.
      Ok (part2, plugin))))"

definition parse_handshake_v10 :: "byte list \<Rightarrow> handshake_v10 result" where
  "parse_handshake_v10 raw =
     (if length raw < 1 then bail ''truncated handshake: missing protocol version'' else
      rbind (get_u8 raw) (\<lambda>(protocol_version, buf).
      let (sv, buf) = read_null_terminated_string buf in
      rbind sv (\<lambda>server_version.
      if length buf < 4 + 8 + 1 then bail ''truncated handshake: missing connection id / auth data'' else
      rbind (get_u32_le buf) (\<lambda>(connection_id, buf).
      rbind (split_to 8 buf) (\<lambda>(part1, buf).
      rbind (advance 1 buf) (\<lambda>buf.
      if length buf < 2 + 1 + 2 + 2 + 1 + 10
      then bail ''truncated handshake: missing capability/status fields'' else
      rbind (get_u16_le buf) (\<lambda>(lower, buf).
      rbind (get_u8 buf) (\<lambda>(character_set, buf).
      rbind (get_u16_le buf) (\<lambda>(status_flags, buf).
      rbind (get_u16_le buf) (\<lambda>(upper, buf).
      let caps = ucast lower OR push_bit 16 (ucast upper) in
      rbind (get_u8 buf) (\<lambda>(auth_plugin_data_len, buf).
      rbind (advance 10 buf) (\<lambda>buf.
      rbind (parse_handshake_auth_tail caps auth_plugin_data_len buf) (\<lambda>(part2, plugin).
      Ok \<lparr>hs_protocol_version = protocol_version, hs_server_version = server_version,
          hs_connection_id = connection_id, hs_auth_plugin_data_part1 = part1,
          hs_capability_flags = caps, hs_character_set = character_set,
          hs_status_flags = status_flags, hs_auth_plugin_data_part2 = part2,
          hs_auth_plugin_name = plugin, hs_raw = raw\<rparr>)))))))))))))"

definition parse_handshake_response :: "byte list \<Rightarrow> handshake_response result" where
  "parse_handshake_response raw =
     (if length raw < 4 + 4 + 1 + 23 then bail ''truncated handshake response'' else
      rbind (get_u32_le raw) (\<lambda>(caps, buf).
      rbind (get_u32_le buf) (\<lambda>(max_packet_size, buf).
      rbind (get_u8 buf) (\<lambda>(character_set, buf).
      rbind (advance 23 buf) (\<lambda>buf.
      if buf = [] \<and> has caps CLIENT_SSL then
        Ok \<lparr>hr_capability_flags = caps, hr_max_packet_size = max_packet_size,
            hr_character_set = character_set, hr_username = '''', hr_auth_response = [],
            hr_database = None, hr_auth_plugin_name = None, hr_raw = raw\<rparr>
      else
      let (un, buf) = read_null_terminated_string buf in
      rbind un (\<lambda>username.
      rbind (if has caps CLIENT_SECURE_CONNECTION then
               (if length buf < 1 then bail ''truncated handshake response: missing auth length'' else
                rbind (get_u8 buf) (\<lambda>(len, buf).
                if length buf < unat len
                then bail ''truncated handshake response: short auth response''
                else split_to (unat len) buf))
             else
               rbind (split_to (case find_nul buf of None \<Rightarrow> length buf | Some pos \<Rightarrow> pos) buf)
                 (\<lambda>(data, buf).
                  if buf \<noteq> [] then rbind (advance 1 buf) (\<lambda>buf. Ok (data, buf))
                  else Ok (data, buf))) (\<lambda>(auth_response, buf).
      rbind (if has caps CLIENT_CONNECT_WITH_DB \<and> buf \<noteq> [] then
               (let (db, buf) = read_null_terminated_string buf in
                rbind (or_default '''' db) (\<lambda>db. Ok (Some db, buf)))
             else Ok (None, buf)) (\<lambda>(database, buf).
      rbind (if has caps CLIENT_PLUGIN_AUTH \<and> buf \<noteq> [] then
               (let (pn, buf) = read_null_terminated_string buf in
                rbind (or_default '''' pn) (\<lambda>pn. Ok (Some pn, buf)))
             else Ok (None, buf)) (\<lambda>(plugin, buf).
      Ok \<lparr>hr_capability_flags = caps, hr_max_packet_size = max_packet_size,
          hr_character_set = character_set, hr_username = username,
          hr_auth_response = auth_response, hr_database = database,
          hr_auth_plugin_name = plugin, hr_raw = raw\<rparr>)))))))))"

definition parse_ok_packet :: "byte list \<Rightarrow> byte \<Rightarrow> u32 \<Rightarrow> ok_packet result" where
  "parse_ok_packet packet sequence_id caps =
     (if packet = [] then bail ''truncated OK packet'' else
      rbind (advance 1 packet) (\<lambda>buf.
      rbind (take_lenenc buf) (\<lambda>(affected_rows, buf).
      rbind (take_lenenc buf) (\<lambda>(last_insert_id, buf).
      rbind (if has caps CLIENT_PROTOCOL_41 then
               (if length buf < 4 then bail ''truncated OK packet: missing status/warnings'' else
                rbind (get_u16_le buf) (\<lambda>(s, buf).
                rbind (get_u16_le buf) (\<lambda>(w, buf). Ok (s, w, buf))))
             else Ok (0, 0, buf)) (\<lambda>(status_flags, warnings, info).
      Ok \<lparr>ok_sequence_id = sequence_id, ok_affected_rows = affected_rows,
          ok_last_insert_id = last_insert_id, ok_status_flags = status_flags,
          ok_warnings = warnings, ok_info = info, ok_raw = packet\<rparr>)))))"

definition parse_err_packet :: "byte list \<Rightarrow> byte \<Rightarrow> u32 \<Rightarrow> err_packet result" where
  "parse_err_packet packet sequence_id caps =
     (if length packet < 3 then bail ''truncated ERR packet'' else
      rbind (advance 1 packet) (\<lambda>buf.
      rbind (get_u16_le buf) (\<lambda>(error_code, buf).
      rbind (if has caps CLIENT_PROTOCOL_41 then
               (if length buf < 6 then bail ''truncated ERR packet: missing sql state'' else
                rbind (advance 1 buf) (\<lambda>buf. split_to 5 buf))
             else Ok (replicate 5 0, buf)) (\<lambda>(sql_state, buf).
      Ok \<lparr>err_sequence_id = sequence_id, err_error_code = error_code, err_sql_state = sql_state,
          err_error_message = from_utf8_lossy buf, err_raw = packet\<rparr>))))"

definition parse_eof_packet :: "byte list \<Rightarrow> byte \<Rightarrow> eof_packet result" where
  "parse_eof_packet packet sequence_id =
     (if packet = [] then bail ''truncated EOF packet'' else
      Ok \<lparr>eof_sequence_id = sequence_id,
          eof_warnings = (if 3 \<le> length packet then of_nat (le_nat [packet ! 1, packet ! 2]) else 0),
          eof_status_flags = (if 5 \<le> length packet then of_nat (le_nat [packet ! 3, packet ! 4]) else 0),
          eof_raw = packet\<rparr>)"

definition parse_column_definition :: "byte list \<Rightarrow> byte \<Rightarrow> column_definition result" where
  "parse_column_definition raw sequence_id =
     rbind (read_lenenc_string raw) (\<lambda>(catalog, buf).
     rbind (read_lenenc_string buf) (\<lambda>(schema, buf).
     rbind (read_lenenc_string buf) (\<lambda>(table, buf).
     rbind (read_lenenc_string buf) (\<lambda>(org_table, buf).
     rbind (read_lenenc_string buf) (\<lambda>(name, buf).
     rbind (read_lenenc_string buf) (\<lambda>(org_name, buf).
     if length buf < 13 then bail ''truncated column definition: missing fixed fields'' else
     rbind (advance 1 buf) (\<lambda>buf.
     rbind (get_u16_le buf) (\<lambda>(character_set, buf).
     rbind (get_u32_le buf) (\<lambda>(column_length, buf).
     rbind (get_u8 buf) (\<lambda>(column_type, buf).
     rbind (get_u16_le buf) (\<lambda>(flags, buf).
     rbind (get_u8 buf) (\<lambda>(decimals, buf).
     rbind (advance 2 buf) (\<lambda>buf.
     Ok \<lparr>cd_sequence_id = sequence_id, cd_catalog = catalog, cd_schema = schema, cd_table = table,
         cd_org_table = org_table, cd_name = name, cd_org_name = org_name,
         cd_character_set = character_set, cd_column_length = column_length,
         cd_column_type = column_type, cd_flags = flags, cd_decimals = decimals,
         cd_raw = raw\<rparr>)))))))))))))"

text \<open>The loop of \<^verbatim>\<open>parse_result_row\<close>: the column count, for the message, and the columns left.\<close>

fun parse_row_values :: "nat \<Rightarrow> nat \<Rightarrow> byte list \<Rightarrow> byte list option list result" where
  "parse_row_values column_count 0 buf = Ok []"
| "parse_row_values column_count (Suc k) buf =
     (if buf = [] then
        Err (Bail ''malformed ResultRow: buffer exhausted at column {} of {}''
               [column_count - Suc k, column_count])
      else if buf ! 0 = 0xfb then
        rbind (advance 1 buf) (\<lambda>buf.
        rbind (parse_row_values column_count k buf) (\<lambda>vs. Ok (None # vs)))
      else
        rbind (read_lenenc_int_from_buf buf) (\<lambda>(len, buf).
        if length buf < unat len then
          Err (Bail ''malformed ResultRow: field length {} exceeds remaining {} at column {}''
                 [unat len, length buf, column_count - Suc k])
        else
          rbind (split_to (unat len) buf) (\<lambda>(v, buf).
          rbind (parse_row_values column_count k buf) (\<lambda>vs. Ok (Some v # vs)))))"

definition parse_result_row :: "byte list \<Rightarrow> byte \<Rightarrow> nat \<Rightarrow> result_row result" where
  "parse_result_row buf sequence_id column_count =
     rbind (parse_row_values column_count column_count buf) (\<lambda>values.
     Ok \<lparr>rr_sequence_id = sequence_id, rr_values = values\<rparr>)"

section \<open>Encoding helpers\<close>

definition write_packet_header :: "nat \<Rightarrow> byte \<Rightarrow> byte list" where
  "write_packet_header payload_len sequence_id =
     [of_nat (payload_len AND 0xff), of_nat (drop_bit 8 payload_len AND 0xff),
      of_nat (drop_bit 16 payload_len AND 0xff), sequence_id]"

function write_packet_chunked :: "byte list \<Rightarrow> byte \<Rightarrow> byte list" where
  "write_packet_chunked rest seq =
     (let chunk_len = min (length rest) 0xffffff in
      write_packet_header chunk_len seq @ take chunk_len rest @
      (if chunk_len < 0xffffff then [] else write_packet_chunked (drop chunk_len rest) (seq + 1)))"
  by pat_completeness auto
termination
  by (relation "measure (\<lambda>(rest, seq). length rest)") auto

declare write_packet_chunked.simps [simp del]

definition write_lenenc_int :: "u64 \<Rightarrow> byte list" where
  "write_lenenc_int val =
     (if val < 251 then [ucast val]
      else if val < 65536 then 0xfc # put_u16_le (ucast val)
      else if val < 16777216 then
        [0xfd, ucast (val AND 0xff), ucast (drop_bit 8 val AND 0xff), ucast (drop_bit 16 val AND 0xff)]
      else 0xfe # put_u64_le val)"

definition write_lenenc_string :: "byte list \<Rightarrow> byte list" where
  "write_lenenc_string s = write_lenenc_int (of_nat (length s)) @ s"

definition encode_handshake_v10 :: "handshake_v10 \<Rightarrow> byte list" where
  "encode_handshake_v10 h =
     (let raw = hs_raw h; caps = hs_capability_flags h;
          rebuilt =
            [hs_protocol_version h] @ bytes_of_str (hs_server_version h) @ [0]
            @ put_u32_le (hs_connection_id h) @ hs_auth_plugin_data_part1 h @ [0]
            @ put_u16_le (ucast (caps AND 0xffff)) @ [hs_character_set h]
            @ put_u16_le (hs_status_flags h) @ put_u16_le (ucast (drop_bit 16 caps AND 0xffff))
            @ [of_nat (length (hs_auth_plugin_data_part2 h) + 8 + 1)] @ replicate 10 0
            @ hs_auth_plugin_data_part2 h @ [0]
            @ (if hs_auth_plugin_name h \<noteq> [] then bytes_of_str (hs_auth_plugin_name h) @ [0] else []);
          rebuild = write_packet_header (length rebuilt) 0 @ rebuilt
      in
      if raw \<noteq> [] then
        (case find_nul (drop 1 raw) of
           Some nul \<Rightarrow>
             (let off = 1 + nul + 1 + 4 + 8 + 1 in
              if off + 7 \<le> length raw then
                (let payload = raw[off := ucast (caps AND 0xff),
                                   off + 1 := ucast (drop_bit 8 caps AND 0xff),
                                   off + 5 := ucast (drop_bit 16 caps AND 0xff),
                                   off + 6 := ucast (drop_bit 24 caps AND 0xff)]
                 in write_packet_header (length payload) 0 @ payload)
              else rebuild)
         | None \<Rightarrow> rebuild)
      else rebuild)"

definition build_handshake_response_payload :: "handshake_response \<Rightarrow> byte list" where
  "build_handshake_response_payload r =
     put_u32_le (hr_capability_flags r) @ put_u32_le (hr_max_packet_size r)
     @ [hr_character_set r] @ replicate 23 0 @ bytes_of_str (hr_username r) @ [0]
     @ (if has (hr_capability_flags r) CLIENT_SECURE_CONNECTION
        then of_nat (length (hr_auth_response r)) # hr_auth_response r
        else hr_auth_response r @ [0])
     @ (if has (hr_capability_flags r) CLIENT_CONNECT_WITH_DB
        then bytes_of_str (case hr_database r of None \<Rightarrow> '''' | Some db \<Rightarrow> db) @ [0] else [])
     @ (if has (hr_capability_flags r) CLIENT_PLUGIN_AUTH
        then bytes_of_str (case hr_auth_plugin_name r of None \<Rightarrow> '''' | Some pn \<Rightarrow> pn) @ [0] else [])"

definition encode_handshake_response :: "handshake_response \<Rightarrow> byte list" where
  "encode_handshake_response r =
     (if hr_raw r \<noteq> [] then write_packet_header (length (hr_raw r)) 1 @ hr_raw r
      else let payload = build_handshake_response_payload r in
        write_packet_header (length payload) 1 @ payload)"

definition encode_generic :: "generic_packet \<Rightarrow> byte list" where
  "encode_generic g = write_packet_chunked (gp_payload g) (gp_sequence_id g)"

definition encode_query :: "query_packet \<Rightarrow> byte list" where
  "encode_query q =
     write_packet_header (1 + length (qp_query q)) (qp_sequence_id q) @ [0x03] @ qp_query q"

definition encode_column_definition :: "column_definition \<Rightarrow> byte list" where
  "encode_column_definition c =
     (if cd_raw c \<noteq> [] then write_packet_chunked (cd_raw c) (cd_sequence_id c)
      else let payload =
          write_lenenc_string (cd_catalog c) @ write_lenenc_string (cd_schema c)
          @ write_lenenc_string (cd_table c) @ write_lenenc_string (cd_org_table c)
          @ write_lenenc_string (cd_name c) @ write_lenenc_string (cd_org_name c)
          @ [0x0c] @ put_u16_le (cd_character_set c) @ put_u32_le (cd_column_length c)
          @ [cd_column_type c] @ put_u16_le (cd_flags c) @ [cd_decimals c] @ put_u16 0
        in write_packet_header (length payload) (cd_sequence_id c) @ payload)"

definition encode_row_value :: "byte list option \<Rightarrow> byte list" where
  "encode_row_value val = (case val of Some v \<Rightarrow> write_lenenc_string v | None \<Rightarrow> [0xfb])"

definition encode_result_row :: "result_row \<Rightarrow> byte list" where
  "encode_result_row r =
     write_packet_chunked (concat (map encode_row_value (rr_values r))) (rr_sequence_id r)"

definition encode_ok :: "ok_packet \<Rightarrow> u32 \<Rightarrow> byte list" where
  "encode_ok p caps =
     (if ok_raw p \<noteq> [] then write_packet_chunked (ok_raw p) (ok_sequence_id p)
      else let payload =
          [0x00] @ write_lenenc_int (ok_affected_rows p) @ write_lenenc_int (ok_last_insert_id p)
          @ (if has caps CLIENT_PROTOCOL_41
             then put_u16_le (ok_status_flags p) @ put_u16_le (ok_warnings p) else [])
          @ ok_info p
        in write_packet_header (length payload) (ok_sequence_id p) @ payload)"

definition encode_err :: "err_packet \<Rightarrow> u32 \<Rightarrow> byte list" where
  "encode_err e caps =
     (if err_raw e \<noteq> [] then write_packet_chunked (err_raw e) (err_sequence_id e)
      else let payload =
          [0xff] @ put_u16_le (err_error_code e)
          @ (if has caps CLIENT_PROTOCOL_41 then [0x23] @ err_sql_state e else [])
          @ bytes_of_str (err_error_message e)
        in write_packet_header (length payload) (err_sequence_id e) @ payload)"

definition encode_eof :: "eof_packet \<Rightarrow> byte list" where
  "encode_eof e =
     (if eof_raw e \<noteq> [] then write_packet_chunked (eof_raw e) (eof_sequence_id e)
      else let payload = [0xfe] @ put_u16_le (eof_warnings e) @ put_u16_le (eof_status_flags e)
        in write_packet_header (length payload) (eof_sequence_id e) @ payload)"

section \<open>The parsers never read past their buffer\<close>

lemma parse_row_values_no_panic [no_panic, simp]: "parse_row_values n k b \<noteq> Panic"
  by (induction n k b rule: parse_row_values.induct)
     (auto simp: rbind_eq_Panic_iff split_to_def advance_def)

lemma parse_result_row_no_panic [no_panic, simp]: "parse_result_row b s n \<noteq> Panic"
  unfolding parse_result_row_def by (auto simp: rbind_eq_Panic_iff)

lemma parse_eof_packet_no_panic [no_panic, simp]: "parse_eof_packet b s \<noteq> Panic"
  by (simp add: parse_eof_packet_def)

lemma parse_err_packet_no_panic [no_panic, simp]: "parse_err_packet b s caps \<noteq> Panic"
  by (auto simp: parse_err_packet_def rbind_eq_Panic_iff buf_simps)

lemma parse_ok_packet_no_panic [no_panic, simp]: "parse_ok_packet b s caps \<noteq> Panic"
  by (auto simp: parse_ok_packet_def rbind_eq_Panic_iff buf_simps neq_Nil_conv split: if_splits)

lemma parse_column_definition_no_panic [no_panic, simp]: "parse_column_definition b s \<noteq> Panic"
  by (auto simp: parse_column_definition_def rbind_eq_Panic_iff buf_simps split: if_splits)

lemma read_null_terminated_string_pair [simp]: "read_null_terminated_string b \<noteq> (Panic, r)"
  by (metis read_null_terminated_string_no_panic fst_conv)

lemma get_u8_eq_Panic_iff [simp]: "get_u8 b = Panic \<longleftrightarrow> b = []"
  by (simp add: get_u8_def split: list.split)

lemma parse_handshake_auth_tail_no_panic [no_panic, simp]:
  "parse_handshake_auth_tail caps n b \<noteq> Panic"
  unfolding parse_handshake_auth_tail_def Let_def
  by (auto simp: rbind_eq_Panic_iff buf_simps)

lemma parse_handshake_v10_no_panic [no_panic, simp]: "parse_handshake_v10 b \<noteq> Panic"
  unfolding parse_handshake_v10_def Let_def
  by (auto simp: rbind_eq_Panic_iff buf_simps split: prod.splits if_splits)

lemma parse_handshake_response_no_panic [no_panic, simp]: "parse_handshake_response b \<noteq> Panic"
  unfolding parse_handshake_response_def Let_def
  by (auto simp: rbind_eq_Panic_iff buf_simps split: prod.splits if_splits option.splits)

end
