(* ===== verification/MySql_Roundtrips.thy ===== *)
theory MySql_Roundtrips
  imports MySql_Packets
begin

text \<open>
  Encoders against parsers: what \<^verbatim>\<open>write_lenenc_int\<close>, \<^verbatim>\<open>write_lenenc_string\<close>, the row
  encoder and the packet builders of \<^verbatim>\<open>src/src/protocol/mysql.rs\<close> write, the parsers read back.
\<close>

section \<open>Length-encoded integers, strings and rows\<close>

lemma le_nat_2: "of_nat (le_nat [a, b]) = ((ucast a :: u64) OR push_bit 8 (ucast b))"
  using or_le_nat [of "[a]" b] by simp
lemma le_nat_3: "of_nat (le_nat [a, b, c]) = ((ucast a :: u64) OR push_bit 8 (ucast b) OR push_bit 16 (ucast c))"
  using or_le_nat [of "[a, b]" c] le_nat_2 [of a b] by (simp add: or.assoc del: le_nat.simps)
lemma le_nat_8: "of_nat (le_nat [a, b, c, d, e, f, g, h]) = ((ucast a :: u64) OR push_bit 8 (ucast b) OR push_bit 16 (ucast c)
   OR push_bit 24 (ucast d) OR push_bit 32 (ucast e) OR push_bit 40 (ucast f) OR push_bit 48 (ucast g) OR push_bit 56 (ucast h))"
proof -
  have "of_nat (le_nat [a, b, c, d]) = (of_nat (le_nat [a, b, c]) :: u64) OR push_bit 24 (ucast d)"
    using or_le_nat [of "[a, b, c]" d] by (simp del: le_nat.simps)
  moreover have "of_nat (le_nat [a, b, c, d, e]) = (of_nat (le_nat [a, b, c, d]) :: u64) OR push_bit 32 (ucast e)"
    using or_le_nat [of "[a, b, c, d]" e] by (simp del: le_nat.simps)
  moreover have "of_nat (le_nat [a, b, c, d, e, f]) = (of_nat (le_nat [a, b, c, d, e]) :: u64) OR push_bit 40 (ucast f)"
    using or_le_nat [of "[a, b, c, d, e]" f] by (simp del: le_nat.simps)
  moreover have "of_nat (le_nat [a, b, c, d, e, f, g]) = (of_nat (le_nat [a, b, c, d, e, f]) :: u64) OR push_bit 48 (ucast g)"
    using or_le_nat [of "[a, b, c, d, e, f]" g] by (simp del: le_nat.simps)
  moreover have "of_nat (le_nat [a, b, c, d, e, f, g, h]) = (of_nat (le_nat [a, b, c, d, e, f, g]) :: u64) OR push_bit 56 (ucast h)"
    using or_le_nat [of "[a, b, c, d, e, f, g]" h] by (simp del: le_nat.simps)
  ultimately show ?thesis by (simp only: le_nat_3 or.assoc)
qed

lemma length_2: "length xs = 2 \<Longrightarrow> \<exists>a b. xs = [a, b]"
  by (auto simp: numeral_eq_Suc length_Suc_conv)
lemma length_3: "length xs = 3 \<Longrightarrow> \<exists>a b c. xs = [a, b, c]"
  by (auto simp: numeral_eq_Suc length_Suc_conv)
lemma length_8: "length xs = 8 \<Longrightarrow> \<exists>a b c d e f g h. xs = [a, b, c, d, e, f, g, h]"
  by (auto simp: numeral_eq_Suc length_Suc_conv)

lemma read_lenenc_2: "length bs = 2 \<Longrightarrow> read_lenenc_int (0xfc # bs @ r) = Ok (of_nat (le_nat bs), 3)"
  by (drule length_2) (auto simp: read_lenenc_int_def le_nat_2 simp del: le_nat.simps)
lemma read_lenenc_3: "length bs = 3 \<Longrightarrow> read_lenenc_int (0xfd # bs @ r) = Ok (of_nat (le_nat bs), 4)"
  by (drule length_3) (auto simp: read_lenenc_int_def le_nat_3 simp del: le_nat.simps)
lemma read_lenenc_8: "length bs = 8 \<Longrightarrow> read_lenenc_int (0xfe # bs @ r) = Ok (of_nat (le_nat bs), 9)"
  by (drule length_8) (auto simp: read_lenenc_int_def le_nat_8 simp del: le_nat.simps)
lemma read_lenenc_1: "b \<le> 0xfa \<Longrightarrow> read_lenenc_int (b # r) = Ok (ucast b, 1)"
  by (simp add: read_lenenc_int_def)

text \<open>The encoder picks one of four shapes.\<close>
lemma write_lenenc_cases:
  obtains (one) b where "write_lenenc_int v = [b]" "b \<le> 0xfa" "v = ucast b"
  | (two) bs where "write_lenenc_int v = 0xfc # bs" "length bs = 2" "v = of_nat (le_nat bs)"
  | (three) bs where "write_lenenc_int v = 0xfd # bs" "length bs = 3" "v = of_nat (le_nat bs)"
  | (eight) bs where "write_lenenc_int v = 0xfe # bs" "length bs = 8" "v = of_nat (le_nat bs)"
proof -
  consider "unat v < 251" | "251 \<le> unat v" "unat v < 65536" | "65536 \<le> unat v" "unat v < 16777216" | "16777216 \<le> unat v"
    by linarith
  then show thesis
  proof cases
    case 1
    then have u: "unat (ucast v :: byte) = unat v"
      unfolding unsigned_ucast_eq by (simp add: take_bit_eq_mod)
    have "v = ucast (ucast v :: byte)"
    proof -
      have "unat (ucast (b :: byte) :: u64) = unat b" for b
        using unat_byte_lt [of b] unfolding unsigned_ucast_eq take_bit_eq_mod
        by (intro mod_less) (simp del: unat_byte_lt)
      then have "unat (ucast (ucast v :: byte) :: u64) = unat v" using u by simp
      then show ?thesis by (simp only: word_unat_eq_iff)
    qed
    moreover have "(ucast v :: byte) \<le> 0xfa"
      using 1 by (simp add: word_le_nat_alt u)
    ultimately show thesis using 1 one [of "ucast v"] by (simp add: write_lenenc_int_def word_less_nat_alt)
  next
    case 2
    then show thesis
      using two [of "put_u16_le (ucast v)"]
      by (simp add: write_lenenc_int_def word_less_nat_alt put_u16_le_def unsigned_ucast_eq take_bit_eq_mod)
  next
    case 3
    have "[ucast (v AND 0xff), ucast (drop_bit 8 v AND 0xff), ucast (drop_bit 16 v AND 0xff)] = le_bytes 3 (unat v)"
      by (simp add: shifted_byte low_byte [of v] numeral_3_eq_3 div_mult2_eq [symmetric] del: of_nat_mod)
    with 3 show thesis
      using three [of "le_bytes 3 (unat v)"]
      by (simp add: write_lenenc_int_def word_less_nat_alt)
  next
    case 4
    then show thesis
      using eight [of "put_u64_le v"] by (simp add: write_lenenc_int_def word_less_nat_alt put_u64_le_def)
  qed
qed
lemma read_write_lenenc:
  "read_lenenc_int (write_lenenc_int v @ r) = Ok (v, length (write_lenenc_int v))"
  by (cases rule: write_lenenc_cases [of v])
     (simp_all add: read_lenenc_1 read_lenenc_2 read_lenenc_3 read_lenenc_8)

lemma write_lenenc_head: "\<exists>b bs. write_lenenc_int v = b # bs \<and> b \<noteq> 0xfb \<and> b \<noteq> 0xff"
  by (cases rule: write_lenenc_cases [of v]) auto

lemma read_lenenc_from_buf_write [simp]:
  "read_lenenc_int_from_buf (write_lenenc_int v @ r) = Ok (v, r)"
  by (simp add: read_lenenc_int_from_buf_def read_write_lenenc)

lemma take_lenenc_write [simp]: "take_lenenc (write_lenenc_int v @ r) = Ok (v, r)"
  by (simp add: take_lenenc_def read_write_lenenc)

definition fits :: "byte list \<Rightarrow> bool" where
  "fits s \<longleftrightarrow> length s < 2 ^ 64"

lemma unat_length: "fits s \<Longrightarrow> unat (of_nat (length s) :: u64) = length s"
  by (simp add: fits_def unat_of_nat)

lemma read_write_lenenc_string [simp]:
  "fits s \<Longrightarrow> read_lenenc_string (write_lenenc_string s @ r) = Ok (s, r)"
  by (simp add: read_lenenc_string_def write_lenenc_string_def unat_length)

lemma encode_row_value_simps [simp]:
  "encode_row_value None = [0xfb]" "encode_row_value (Some v) = write_lenenc_int (of_nat (length v)) @ v"
  by (simp_all add: encode_row_value_def write_lenenc_string_def)

lemma parse_row_values_encode:
  "(\<forall>v. Some v \<in> set vs \<longrightarrow> fits v) \<Longrightarrow>
   parse_row_values n (length vs) (concat (map encode_row_value vs) @ r) = Ok vs"
proof (induction vs)
  case (Cons v vs)
  show ?case
  proof (cases v)
    case None
    with Cons show ?thesis by (simp add: advance_def)
  next
    case (Some x)
    obtain b bs where w: "write_lenenc_int (of_nat (length x)) = b # bs" "b \<noteq> 0xfb"
      using write_lenenc_head by blast
    have "read_lenenc_int_from_buf (write_lenenc_int (of_nat (length x)) @ x @ concat (map encode_row_value vs) @ r)
        = Ok (of_nat (length x), x @ concat (map encode_row_value vs) @ r)"
      by simp
    with Cons Some w show ?thesis
      by (simp add: unat_length)
  qed
qed simp

lemma parse_result_row_encode:
  "(\<forall>v. Some v \<in> set vs \<longrightarrow> fits v) \<Longrightarrow>
   parse_result_row (concat (map encode_row_value vs)) seq (length vs)
     = Ok \<lparr>rr_sequence_id = seq, rr_values = vs\<rparr>"
  using parse_row_values_encode [of vs "length vs" "[]"] by (simp add: parse_result_row_def)

section \<open>The server handshake\<close>

text \<open>The fixed part of the handshake, byte by byte.\<close>

definition handshake_bytes where
  "handshake_bytes pv sv cid p1 f l0 l1 cs s0 s1 u0 u1 al res rest =
     [pv] @ sv @ [0] @ cid @ p1 @ [f, l0, l1, cs, s0, s1, u0, u1, al] @ res @ (rest :: byte list)"

definition caps_of :: "byte \<Rightarrow> byte \<Rightarrow> byte \<Rightarrow> byte \<Rightarrow> u32" where
  "caps_of l0 l1 u0 u1 =
     ucast (of_nat (le_nat [l0, l1]) :: u16) OR push_bit 16 (ucast (of_nat (le_nat [u0, u1]) :: u16))"

lemma read_nts_append:
  "0 \<notin> set s \<Longrightarrow> utf8_valid s \<Longrightarrow>
   read_null_terminated_string (s @ 0 # r) = (Ok (str_of_bytes s), r)"
  by (simp add: read_null_terminated_string_def split_to_def advance_def from_utf8_def)

lemma parse_handshake_bytes:
  assumes "0 \<notin> set sv" "utf8_valid sv" "length cid = 4" "length p1 = 8" "length res = 10"
  shows "parse_handshake_v10 (handshake_bytes pv sv cid p1 f l0 l1 cs s0 s1 u0 u1 al res rest) =
    rbind (parse_handshake_auth_tail (caps_of l0 l1 u0 u1) al rest) (\<lambda>(part2, plugin).
    Ok \<lparr>hs_protocol_version = pv, hs_server_version = str_of_bytes sv,
        hs_connection_id = of_nat (le_nat cid), hs_auth_plugin_data_part1 = p1,
        hs_capability_flags = caps_of l0 l1 u0 u1, hs_character_set = cs,
        hs_status_flags = of_nat (le_nat [s0, s1]), hs_auth_plugin_data_part2 = part2,
        hs_auth_plugin_name = plugin,
        hs_raw = handshake_bytes pv sv cid p1 f l0 l1 cs s0 s1 u0 u1 al res rest\<rparr>)"
  using assms
  by (simp add: parse_handshake_v10_def handshake_bytes_def read_nts_append get_u32_le_def
      get_u16_le_def split_to_def advance_def caps_of_def Let_def del: le_nat.simps)

lemma parse_handshake_layout:
  assumes "parse_handshake_v10 raw = Ok h"
  obtains pv sv cid p1 f l0 l1 cs s0 s1 u0 u1 al res rest where
    "raw = handshake_bytes pv sv cid p1 f l0 l1 cs s0 s1 u0 u1 al res rest"
    "0 \<notin> set sv" "utf8_valid sv" "length cid = 4" "length p1 = 8" "length res = 10"
proof -
  from assms obtain pv b where raw: "raw = pv # b"
    by (cases raw) (auto simp: parse_handshake_v10_def)
  obtain sv b2 where rn: "read_null_terminated_string b = (sv, b2)" by fastforce
  from assms raw rn obtain v where sv: "sv = Ok v" and l1: "13 \<le> length b2" and l2: "31 \<le> length b2"
    by (auto simp: parse_handshake_v10_def rbind_eq_Ok_iff buf_simps split: if_splits)
  from rn sv obtain pos where pos: "find_nul b = Some pos" "utf8_valid (take pos b)" "b2 = drop (Suc pos) b"
    by (auto simp: read_null_terminated_string_def split_to_def advance_def from_utf8_def
        split: option.splits if_splits)
  from find_nul_SomeD [OF pos(1)] have b: "b = take pos b @ [0] @ b2" "0 \<notin> set (take pos b)"
    using pos(3) by (auto simp: Cons_nth_drop_Suc) (metis Cons_nth_drop_Suc append_take_drop_id)
  from list_split [of 4 b2] l2 obtain cid c where c: "b2 = cid @ c" "length cid = 4" by auto
  from list_split [of 8 c] l2 c obtain p1 d where d: "c = p1 @ d" "length p1 = 8" by auto
  from list_split [of 9 d] l2 c d obtain m e where e: "d = m @ e" "length m = 9" by auto
  from list_split [of 10 e] l2 c d e obtain res rest where r: "e = res @ rest" "length res = 10" by auto
  from e(2) obtain f l0 l1 cs s0 s1 u0 u1 al where m: "m = [f, l0, l1, cs, s0, s1, u0, u1, al]"
    by (auto simp: numeral_eq_Suc length_Suc_conv)
  have "raw = handshake_bytes pv (take pos b) cid p1 f l0 l1 cs s0 s1 u0 u1 al res rest"
    using raw b(1) c(1) d(1) e(1) r(1) m by (simp add: handshake_bytes_def)
  with b(2) pos(2) c(2) d(2) r(2) show thesis using that by blast
qed

lemma caps_of_le_nat: "caps_of a b c d = of_nat (le_nat [a, b, c, d])"
proof -
  have lt: "le_nat [x, y] < 65536" for x y using le_nat_lt [of "[x, y]"] by simp
  have u: "ucast (of_nat (le_nat [x, y]) :: u16) = (of_nat (le_nat [x, y]) :: u32)" for x y
  proof -
    have "unat (ucast (of_nat (le_nat [x, y]) :: u16) :: u32) = le_nat [x, y]"
      using lt [of x y] unfolding unsigned_ucast_eq by (simp add: take_bit_eq_mod unat_of_nat del: le_nat.simps)
    moreover have "unat (of_nat (le_nat [x, y]) :: u32) = le_nat [x, y]"
      using lt [of x y] by (simp add: unat_of_nat del: le_nat.simps)
    ultimately show ?thesis by (simp only: word_unat_eq_iff)
  qed
  have "unat (of_nat (le_nat [a, b]) :: u32) < 2 ^ 16"
    using lt [of a b] by (simp add: unat_of_nat del: le_nat.simps)
  then have "caps_of a b c d = of_nat (le_nat [a, b]) + 2 ^ 16 * of_nat (le_nat [c, d])"
    unfolding caps_of_def u by (simp add: or_push_bit del: le_nat.simps)
  also have "\<dots> = of_nat (le_nat ([a, b] @ [c, d]))"
    unfolding le_nat_append by (simp del: le_nat.simps)
  finally show ?thesis by simp
qed

lemma caps_of_bytes:
  "caps_of (ucast (c AND 0xff)) (ucast (drop_bit 8 c AND 0xff))
     (ucast (drop_bit 16 c AND 0xff)) (ucast (drop_bit 24 c AND 0xff)) = c"
proof -
  have "[ucast (c AND 0xff), ucast (drop_bit 8 c AND 0xff), ucast (drop_bit 16 c AND 0xff), ucast (drop_bit 24 c AND 0xff)]
      = le_bytes 4 (unat c)"
    by (simp add: shifted_byte low_byte [of c] le_bytes4 div_mult2_eq [symmetric] del: of_nat_mod)
  then show ?thesis
    unfolding caps_of_le_nat by (simp only: le_nat_le_bytes) simp
qed


text \<open>The encoder's edit: four bytes of the raw packet, and no others.\<close>

definition caps_byte :: "nat \<Rightarrow> u32 \<Rightarrow> byte" where
  "caps_byte n c = ucast (drop_bit n c AND 0xff)"

lemma caps_byte_of [simp]:
  "caps_byte 0 (caps_of a b c d) = a" "caps_byte 8 (caps_of a b c d) = b"
  "caps_byte 16 (caps_of a b c d) = c" "caps_byte 24 (caps_of a b c d) = d"
proof -
  let ?n = "le_nat [a, b, c, d]"
  have "?n < 4294967296" using le_nat_lt [of "[a, b, c, d]"] by simp
  then have u: "unat (caps_of a b c d) = ?n"
    by (simp add: caps_of_le_nat unat_of_nat del: le_nat.simps)
  have "le_bytes 4 ?n = [a, b, c, d]"
    using le_bytes_le_nat [of "[a, b, c, d]"] by (simp add: le_bytes4 del: le_nat.simps of_nat_mod)
  then have l: "of_nat (?n mod 256) = a" "of_nat (?n div 256 mod 256) = b"
    "of_nat (?n div 256 div 256 mod 256) = c" "of_nat (?n div 256 div 256 div 256 mod 256) = d"
    unfolding le_bytes4 by (simp_all del: of_nat_mod le_nat.simps)
  show "caps_byte 0 (caps_of a b c d) = a" "caps_byte 8 (caps_of a b c d) = b"
    "caps_byte 16 (caps_of a b c d) = c" "caps_byte 24 (caps_of a b c d) = d"
    unfolding caps_byte_def shifted_byte u using l
    by (simp_all add: div_mult2_eq [symmetric] del: of_nat_mod le_nat.simps)
qed

lemma caps_of_byte [simp]: "caps_of (caps_byte 0 c) (caps_byte 8 c) (caps_byte 16 c) (caps_byte 24 c) = c"
  using caps_of_bytes [of c] by (simp add: caps_byte_def)

lemma update_seven:
  "length pre = n \<Longrightarrow>
   (pre @ [l0, l1, a, b, c, u0, u1] @ post)[n := v0, n + 1 := v1, n + 5 := v2, n + 6 := v3]
     = pre @ [v0, v1, a, b, c, v2, v3] @ post"
  by (simp add: list_update_append nth_append)

lemma encode_handshake_layout:
  assumes "hs_raw h = handshake_bytes pv sv cid p1 f l0 l1 cs s0 s1 u0 u1 al res rest"
    and "0 \<notin> set sv" "length cid = 4" "length p1 = 8"
  shows "encode_handshake_v10 h =
    (let c = hs_capability_flags h in
     write_packet_header (length (hs_raw h)) 0 @
     handshake_bytes pv sv cid p1 f (caps_byte 0 c) (caps_byte 8 c) cs s0 s1
       (caps_byte 16 c) (caps_byte 24 c) al res rest)"
proof -
  let ?off = "1 + length sv + 1 + 4 + 8 + 1"
  have raw: "hs_raw h = (pv # sv @ [0] @ cid @ p1 @ [f]) @ [l0, l1, cs, s0, s1, u0, u1] @ (al # res @ rest)"
    using assms(1) by (simp add: handshake_bytes_def)
  have upd: "(hs_raw h)[?off := a, ?off + 1 := b, ?off + 5 := d, ?off + 6 := e] =
      handshake_bytes pv sv cid p1 f a b cs s0 s1 d e al res rest" for a b d e
    unfolding raw using assms(3,4) by (subst update_seven) (simp_all add: handshake_bytes_def)
  have len: "length (handshake_bytes pv sv cid p1 f a b cs s0 s1 d e al res rest) = length (hs_raw h)" for a b d e
    by (simp add: assms(1) handshake_bytes_def)
  have "hs_raw h \<noteq> []" "find_nul (drop 1 (hs_raw h)) = Some (length sv)" "?off + 7 \<le> length (hs_raw h)"
    using assms(2,3,4) by (simp_all add: raw)
  then show ?thesis
    unfolding encode_handshake_v10_def Let_def by (simp add: upd [simplified] len caps_byte_def)
qed

lemma encode_parsed_handshake:
  assumes "parse_handshake_v10 raw = Ok h"
  shows "encode_handshake_v10 h = write_packet_header (length raw) 0 @ raw"
proof -
  from parse_handshake_layout [OF assms] obtain pv sv cid p1 f l0 l1 cs s0 s1 u0 u1 al res rest where
    raw: "raw = handshake_bytes pv sv cid p1 f l0 l1 cs s0 s1 u0 u1 al res rest"
    and ok: "0 \<notin> set sv" "utf8_valid sv" "length cid = 4" "length p1 = 8" "length res = 10" .
  from assms have h: "hs_raw h = raw" "hs_capability_flags h = caps_of l0 l1 u0 u1"
    using parse_handshake_bytes [OF ok] unfolding raw by (auto simp: rbind_eq_Ok_iff)
  show ?thesis
    using encode_handshake_layout [of h] h ok unfolding raw by (simp add: caps_byte_of Let_def)
qed

text \<open>
  The proxy strips capabilities from the server's handshake and forwards it. The packet keeps
  its length, and parsing it gives the same handshake with the new capabilities, so long as
  the two flags that lay out the tail of the packet stay as they were.
\<close>

lemma encode_stripped_handshake:
  assumes "parse_handshake_v10 raw = Ok h"
    and "has c CLIENT_SECURE_CONNECTION = has (hs_capability_flags h) CLIENT_SECURE_CONNECTION"
    and "has c CLIENT_PLUGIN_AUTH = has (hs_capability_flags h) CLIENT_PLUGIN_AUTH"
  shows "\<exists>p. encode_handshake_v10 (h\<lparr>hs_capability_flags := c\<rparr>) = write_packet_header (length raw) 0 @ p
    \<and> length p = length raw
    \<and> parse_handshake_v10 p = Ok (h\<lparr>hs_capability_flags := c, hs_raw := p\<rparr>)"
proof -
  from parse_handshake_layout [OF assms(1)] obtain pv sv cid p1 f l0 l1 cs s0 s1 u0 u1 al res rest where
    raw: "raw = handshake_bytes pv sv cid p1 f l0 l1 cs s0 s1 u0 u1 al res rest"
    and ok: "0 \<notin> set sv" "utf8_valid sv" "length cid = 4" "length p1 = 8" "length res = 10" .
  from assms(1) obtain part2 plugin where
    t: "parse_handshake_auth_tail (caps_of l0 l1 u0 u1) al rest = Ok (part2, plugin)"
    and h: "h = \<lparr>hs_protocol_version = pv, hs_server_version = str_of_bytes sv,
        hs_connection_id = of_nat (le_nat cid), hs_auth_plugin_data_part1 = p1,
        hs_capability_flags = caps_of l0 l1 u0 u1, hs_character_set = cs,
        hs_status_flags = of_nat (le_nat [s0, s1]), hs_auth_plugin_data_part2 = part2,
        hs_auth_plugin_name = plugin, hs_raw = raw\<rparr>"
    using parse_handshake_bytes [OF ok] unfolding raw by (auto simp: rbind_eq_Ok_iff)
  let ?p = "handshake_bytes pv sv cid p1 f (caps_byte 0 c) (caps_byte 8 c) cs s0 s1
       (caps_byte 16 c) (caps_byte 24 c) al res rest"
  have "parse_handshake_auth_tail c al rest = Ok (part2, plugin)"
    using t assms(2,3) by (simp add: h parse_handshake_auth_tail_def)
  then have "parse_handshake_v10 ?p = Ok (h\<lparr>hs_capability_flags := c, hs_raw := ?p\<rparr>)"
    unfolding parse_handshake_bytes [OF ok] by (simp add: h)
  moreover have "length ?p = length raw" by (simp add: raw handshake_bytes_def)
  moreover have "encode_handshake_v10 (h\<lparr>hs_capability_flags := c\<rparr>) = write_packet_header (length raw) 0 @ ?p"
    using encode_handshake_layout [of "h\<lparr>hs_capability_flags := c\<rparr>"] ok raw by (simp add: h Let_def)
  ultimately show ?thesis by blast
qed

section \<open>The client's handshake response and the packets the proxy builds\<close>

definition c_str :: "string \<Rightarrow> bool" where
  "c_str s \<longleftrightarrow> 0 \<notin> set (bytes_of_str s) \<and> utf8_valid (bytes_of_str s)"

lemma read_c_str [simp]:
  "c_str s \<Longrightarrow> read_null_terminated_string (bytes_of_str s @ 0 # r) = (Ok s, r)"
  by (simp add: c_str_def read_nts_append)

text \<open>What the fields must satisfy for the packet built from them to say the same.\<close>

definition response_ok :: "handshake_response \<Rightarrow> bool" where
  "response_ok r \<longleftrightarrow>
     c_str (hr_username r)
   \<and> (if has (hr_capability_flags r) CLIENT_SECURE_CONNECTION
      then length (hr_auth_response r) < 256 else 0 \<notin> set (hr_auth_response r))
   \<and> (case hr_database r of None \<Rightarrow> \<not> has (hr_capability_flags r) CLIENT_CONNECT_WITH_DB
      | Some db \<Rightarrow> has (hr_capability_flags r) CLIENT_CONNECT_WITH_DB \<and> c_str db)
   \<and> (case hr_auth_plugin_name r of None \<Rightarrow> \<not> has (hr_capability_flags r) CLIENT_PLUGIN_AUTH
      | Some p \<Rightarrow> has (hr_capability_flags r) CLIENT_PLUGIN_AUTH \<and> c_str p)"

lemma auth_field_roundtrip:
  "(if sec then length ar < 256 else 0 \<notin> set ar) \<Longrightarrow>
   (if sec then
      (if length ((if sec then of_nat (length ar) # ar else ar @ [0]) @ rest) < 1 then e1 else
       rbind (get_u8 ((if sec then of_nat (length ar) # ar else ar @ [0]) @ rest)) (\<lambda>(len, buf).
       if length buf < unat len then e2 else split_to (unat len) buf))
    else
      rbind (split_to (case find_nul ((if sec then of_nat (length ar) # ar else ar @ [0]) @ rest) of
          None \<Rightarrow> length ((if sec then of_nat (length ar) # ar else ar @ [0]) @ rest) | Some pos \<Rightarrow> pos)
        ((if sec then of_nat (length ar) # ar else ar @ [0]) @ rest))
      (\<lambda>(data, buf). if buf \<noteq> [] then rbind (advance 1 buf) (\<lambda>buf. Ok (data, buf)) else Ok (data, buf)))
   = Ok (ar, rest :: byte list)"
  by (cases sec) (auto simp: unat_of_nat advance_def split_to_def)

lemma string_field_roundtrip:
  "(case db of None \<Rightarrow> \<not> f | Some d \<Rightarrow> f \<and> c_str d) \<Longrightarrow>
   (if f \<and> (if f then bytes_of_str (case db of None \<Rightarrow> '''' | Some d \<Rightarrow> d) @ [0] else []) @ rest \<noteq> [] then
      (case read_null_terminated_string
            ((if f then bytes_of_str (case db of None \<Rightarrow> '''' | Some d \<Rightarrow> d) @ [0] else []) @ rest) of
       (d, buf) \<Rightarrow> rbind (or_default '''' d) (\<lambda>d. Ok (Some d, buf)))
    else Ok (None, (if f then bytes_of_str (case db of None \<Rightarrow> '''' | Some d \<Rightarrow> d) @ [0] else []) @ rest))
   = Ok (db, rest)"
  by (cases db) auto

lemma parse_built_response:
  assumes "response_ok r"
  shows "parse_handshake_response (build_handshake_response_payload r)
    = Ok (r\<lparr>hr_raw := build_handshake_response_payload r\<rparr>)"
proof -
  obtain caps mps cs un ar db pn raw0 where r: "r = \<lparr>hr_capability_flags = caps, hr_max_packet_size = mps,
      hr_character_set = cs, hr_username = un, hr_auth_response = ar, hr_database = db,
      hr_auth_plugin_name = pn, hr_raw = raw0\<rparr>" by (cases r)
  define raw where "raw = build_handshake_response_payload r"
  let ?plugin = "if has caps CLIENT_PLUGIN_AUTH then bytes_of_str (case pn of None \<Rightarrow> '''' | Some p \<Rightarrow> p) @ [0] else []"
  let ?db = "if has caps CLIENT_CONNECT_WITH_DB then bytes_of_str (case db of None \<Rightarrow> '''' | Some p \<Rightarrow> p) @ [0] else []"
  let ?ar = "if has caps CLIENT_SECURE_CONNECTION then of_nat (length ar) # ar else ar @ [0]"
  have raw: "raw = put_u32_le caps @ put_u32_le mps @ cs # replicate 23 0 @ bytes_of_str un @ 0 # ?ar @ ?db @ ?plugin"
    by (simp add: raw_def r build_handshake_response_payload_def)
  have len: "\<not> length raw < 4 + 4 + 1 + 23" by (simp add: raw)
  have u1: "get_u32_le raw = Ok (caps, put_u32_le mps @ cs # replicate 23 0 @ bytes_of_str un @ 0 # ?ar @ ?db @ ?plugin)"
    by (simp only: raw get_u32_le_put)
  note un = read_c_str [of un "?ar @ ?db @ ?plugin"]
  note ar = auth_field_roundtrip [where sec = "has caps CLIENT_SECURE_CONNECTION" and ar = ar]
  note db = string_field_roundtrip [where db = db and f = "has caps CLIENT_CONNECT_WITH_DB" and rest = ?plugin]
  note pn = string_field_roundtrip [where db = pn and f = "has caps CLIENT_PLUGIN_AUTH" and rest = "[]", unfolded append_Nil2]
  have wf: "c_str un" "if has caps CLIENT_SECURE_CONNECTION then length ar < 256 else 0 \<notin> set ar"
    "case db of None \<Rightarrow> \<not> has caps CLIENT_CONNECT_WITH_DB | Some db \<Rightarrow> has caps CLIENT_CONNECT_WITH_DB \<and> c_str db"
    "case pn of None \<Rightarrow> \<not> has caps CLIENT_PLUGIN_AUTH | Some p \<Rightarrow> has caps CLIENT_PLUGIN_AUTH \<and> c_str p"
    using assms unfolding r response_ok_def handshake_response.simps by blast+
  have adv: "advance 23 (replicate 23 0 @ x) = Ok x" for x :: "byte list" by simp
  have ne: "\<not> (bytes_of_str un @ 0 # x = [] \<and> P)" for x P by simp
  show ?thesis
    unfolding raw_def [symmetric] parse_handshake_response_def if_not_P [OF len] u1 rbind.simps prod.case
      get_u32_le_put get_u8_put adv if_not_P [OF ne] un [OF wf(1)] Let_def ar [OF wf(2)] db [OF wf(3)]
      pn [OF wf(4)]
    by (simp add: r)
qed

text \<open>The payloads the encoders build when a packet has no raw form to replay.\<close>

definition column_definition_payload :: "column_definition \<Rightarrow> byte list" where
  "column_definition_payload c =
     write_lenenc_string (cd_catalog c) @ write_lenenc_string (cd_schema c)
     @ write_lenenc_string (cd_table c) @ write_lenenc_string (cd_org_table c)
     @ write_lenenc_string (cd_name c) @ write_lenenc_string (cd_org_name c)
     @ [0x0c] @ put_u16_le (cd_character_set c) @ put_u32_le (cd_column_length c)
     @ [cd_column_type c] @ put_u16_le (cd_flags c) @ [cd_decimals c] @ put_u16 0"

definition ok_payload :: "ok_packet \<Rightarrow> u32 \<Rightarrow> byte list" where
  "ok_payload p caps =
     [0x00] @ write_lenenc_int (ok_affected_rows p) @ write_lenenc_int (ok_last_insert_id p)
     @ (if has caps CLIENT_PROTOCOL_41
        then put_u16_le (ok_status_flags p) @ put_u16_le (ok_warnings p) else [])
     @ ok_info p"

definition err_payload :: "err_packet \<Rightarrow> u32 \<Rightarrow> byte list" where
  "err_payload e caps =
     [0xff] @ put_u16_le (err_error_code e)
     @ (if has caps CLIENT_PROTOCOL_41 then [0x23] @ err_sql_state e else [])
     @ bytes_of_str (err_error_message e)"

definition eof_payload :: "eof_packet \<Rightarrow> byte list" where
  "eof_payload e = [0xfe] @ put_u16_le (eof_warnings e) @ put_u16_le (eof_status_flags e)"

lemma encode_built:
  "cd_raw c = [] \<Longrightarrow> encode_column_definition c =
     write_packet_header (length (column_definition_payload c)) (cd_sequence_id c) @ column_definition_payload c"
  "ok_raw p = [] \<Longrightarrow> encode_ok p caps =
     write_packet_header (length (ok_payload p caps)) (ok_sequence_id p) @ ok_payload p caps"
  "err_raw e = [] \<Longrightarrow> encode_err e caps =
     write_packet_header (length (err_payload e caps)) (err_sequence_id e) @ err_payload e caps"
  "eof_raw f = [] \<Longrightarrow> encode_eof f =
     write_packet_header (length (eof_payload f)) (eof_sequence_id f) @ eof_payload f"
  by (simp_all add: encode_column_definition_def column_definition_payload_def encode_ok_def ok_payload_def
      encode_err_def err_payload_def encode_eof_def eof_payload_def Let_def)

lemma encode_replayed:
  "cd_raw c \<noteq> [] \<Longrightarrow> encode_column_definition c = write_packet_chunked (cd_raw c) (cd_sequence_id c)"
  "ok_raw p \<noteq> [] \<Longrightarrow> encode_ok p caps = write_packet_chunked (ok_raw p) (ok_sequence_id p)"
  "err_raw e \<noteq> [] \<Longrightarrow> encode_err e caps = write_packet_chunked (err_raw e) (err_sequence_id e)"
  "eof_raw f \<noteq> [] \<Longrightarrow> encode_eof f = write_packet_chunked (eof_raw f) (eof_sequence_id f)"
  by (simp_all add: encode_column_definition_def encode_ok_def encode_err_def encode_eof_def)

lemma parse_column_definition_payload:
  assumes "fits (cd_catalog c)" "fits (cd_schema c)" "fits (cd_table c)" "fits (cd_org_table c)"
    "fits (cd_name c)" "fits (cd_org_name c)"
  shows "parse_column_definition (column_definition_payload c) (cd_sequence_id c)
    = Ok (c\<lparr>cd_raw := column_definition_payload c\<rparr>)"
proof -
  define raw where "raw = column_definition_payload c"
  let ?fixed = "[0x0c] @ put_u16_le (cd_character_set c) @ put_u32_le (cd_column_length c)
     @ [cd_column_type c] @ put_u16_le (cd_flags c) @ [cd_decimals c] @ put_u16 0"
  have 1: "read_lenenc_string raw = Ok (cd_catalog c, write_lenenc_string (cd_schema c)
     @ write_lenenc_string (cd_table c) @ write_lenenc_string (cd_org_table c)
     @ write_lenenc_string (cd_name c) @ write_lenenc_string (cd_org_name c) @ ?fixed)"
    using assms by (simp only: raw_def column_definition_payload_def read_write_lenenc_string)
  show ?thesis
    unfolding raw_def [symmetric] parse_column_definition_def 1
    using assms by (simp add: advance_def)
qed

lemma parse_ok_payload:
  assumes "\<not> has caps CLIENT_PROTOCOL_41 \<Longrightarrow> ok_status_flags p = 0 \<and> ok_warnings p = 0"
  shows "parse_ok_packet (ok_payload p caps) (ok_sequence_id p) caps
    = Ok (p\<lparr>ok_raw := ok_payload p caps\<rparr>)"
proof -
  define raw where "raw = ok_payload p caps"
  have 1: "advance 1 raw = Ok (write_lenenc_int (ok_affected_rows p) @ write_lenenc_int (ok_last_insert_id p)
     @ (if has caps CLIENT_PROTOCOL_41
        then put_u16_le (ok_status_flags p) @ put_u16_le (ok_warnings p) else [])
     @ ok_info p)" and 2: "raw \<noteq> []"
    by (simp_all add: raw_def ok_payload_def advance_def)
  show ?thesis
    unfolding raw_def [symmetric] parse_ok_packet_def if_not_P [OF 2] 1
    using assms by simp
qed

lemma parse_err_payload:
  assumes "utf8_valid (bytes_of_str (err_error_message e))"
    and "if has caps CLIENT_PROTOCOL_41 then length (err_sql_state e) = 5 else err_sql_state e = replicate 5 0"
  shows "parse_err_packet (err_payload e caps) (err_sequence_id e) caps
    = Ok (e\<lparr>err_raw := err_payload e caps\<rparr>)"
proof -
  define raw where "raw = err_payload e caps"
  have 1: "advance 1 raw = Ok (put_u16_le (err_error_code e)
     @ (if has caps CLIENT_PROTOCOL_41 then [0x23] @ err_sql_state e else [])
     @ bytes_of_str (err_error_message e))" and 2: "\<not> length raw < 3"
    by (simp_all add: raw_def err_payload_def advance_def)
  show ?thesis
    unfolding raw_def [symmetric] parse_err_packet_def if_not_P [OF 2] 1
    using assms by (simp add: from_utf8_lossy_valid advance_def split_to_def split: if_splits)
qed

lemma parse_eof_payload:
  "parse_eof_packet (eof_payload e) (eof_sequence_id e) = Ok (e\<lparr>eof_raw := eof_payload e\<rparr>)"
proof -
  obtain a b where w: "put_u16_le (eof_warnings e) = [a, b]"
    using length_2 [of "put_u16_le (eof_warnings e)"] by auto
  obtain c d where s: "put_u16_le (eof_status_flags e) = [c, d]"
    using length_2 [of "put_u16_le (eof_status_flags e)"] by auto
  have "of_nat (le_nat (put_u16_le x)) = x" for x
    by (simp add: put_u16_le_def)
  from this [of "eof_warnings e"] this [of "eof_status_flags e"] show ?thesis
    by (simp add: parse_eof_packet_def eof_payload_def w s del: le_nat.simps)
qed

end
