(* ===== verification/MySql_Codec.thy ===== *)
theory MySql_Codec
  imports MySql_Roundtrips Framing
begin

text \<open>
  The codec of \<^verbatim>\<open>src/src/protocol/mysql.rs\<close>: \<^verbatim>\<open>MySqlState\<close>, \<^verbatim>\<open>MySqlCodec\<close>, its constructors,
  \<^verbatim>\<open>decode\<close> with the reassembly of payloads of 0xFFFFFF bytes, \<^verbatim>\<open>dispatch\<close> (one definition per
  state) and \<^verbatim>\<open>encode\<close>. The codec is the provider of the \<open>stream_decoder\<close> interface.
\<close>

section \<open>State\<close>

datatype my_state =
    WaitingHandshake
  | WaitingHandshakeResponse
  | WaitingAuthResponse
  | Command
  | ReadingColumns nat
  | ReadingRows

record my_codec =
  mc_state :: my_state
  mc_capability_flags :: u32
  mc_is_client_side :: bool
  mc_column_count :: nat
  mc_pending_large :: "(byte \<times> byte list) option"

definition new_server :: my_codec where
  "new_server = \<lparr>mc_state = WaitingHandshake, mc_capability_flags = 0, mc_is_client_side = False,
     mc_column_count = 0, mc_pending_large = None\<rparr>"

definition new_client :: my_codec where
  "new_client = \<lparr>mc_state = WaitingHandshake, mc_capability_flags = 0, mc_is_client_side = True,
     mc_column_count = 0, mc_pending_large = None\<rparr>"

definition new_server_awaiting_handshake_response :: "u32 \<Rightarrow> my_codec" where
  "new_server_awaiting_handshake_response caps =
     \<lparr>mc_state = WaitingHandshakeResponse, mc_capability_flags = caps, mc_is_client_side = False,
      mc_column_count = 0, mc_pending_large = None\<rparr>"

definition new_server_awaiting_command :: my_codec where
  "new_server_awaiting_command = \<lparr>mc_state = Command, mc_capability_flags = 0, mc_is_client_side = False,
     mc_column_count = 0, mc_pending_large = None\<rparr>"

definition new_client_awaiting_auth :: "u32 \<Rightarrow> my_codec" where
  "new_client_awaiting_auth caps =
     \<lparr>mc_state = WaitingHandshakeResponse, mc_capability_flags = caps, mc_is_client_side = True,
      mc_column_count = 0, mc_pending_large = None\<rparr>"

definition set_capability_flags :: "u32 \<Rightarrow> my_codec \<Rightarrow> my_codec" where
  "set_capability_flags flags c = c\<lparr>mc_capability_flags := flags\<rparr>"

definition set_command_state :: "my_codec \<Rightarrow> my_codec" where
  "set_command_state c = c\<lparr>mc_state := Command\<rparr>"

definition set_auth_response_state :: "my_codec \<Rightarrow> my_codec" where
  "set_auth_response_state c = c\<lparr>mc_state := WaitingAuthResponse\<rparr>"

definition uses_deprecate_eof :: "my_codec \<Rightarrow> bool" where
  "uses_deprecate_eof c \<longleftrightarrow> has (mc_capability_flags c) CLIENT_DEPRECATE_EOF"

section \<open>Dispatch\<close>

abbreviation generic :: "byte \<Rightarrow> byte list \<Rightarrow> my_msg" where
  "generic seq payload \<equiv> MGeneric \<lparr>gp_sequence_id = seq, gp_payload = payload\<rparr>"

text \<open>A parse whose failure degrades to a verbatim packet.\<close>

fun parsed_or :: "('a \<Rightarrow> my_msg) \<Rightarrow> my_msg \<Rightarrow> 'a result \<Rightarrow> my_msg option result" where
  "parsed_or f g (Ok p) = Ok (Some (f p))"
| "parsed_or f g (Err e) = Ok (Some g)"
| "parsed_or f g Panic = Panic"

definition dispatch_handshake ::
  "my_codec \<Rightarrow> byte \<Rightarrow> byte list \<Rightarrow> my_msg option result \<times> my_codec" where
  "dispatch_handshake c seq packet =
     (if mc_is_client_side c then
        (case parse_handshake_v10 packet of
           Ok h \<Rightarrow> (Ok (Some (MHandshake h)), c\<lparr>mc_state := WaitingHandshakeResponse\<rparr>)
         | Err e \<Rightarrow> (Err e, c)
         | Panic \<Rightarrow> (Panic, c))
      else (Ok (Some (generic seq packet)), c))"

definition dispatch_handshake_response ::
  "my_codec \<Rightarrow> byte \<Rightarrow> byte list \<Rightarrow> my_msg option result \<times> my_codec" where
  "dispatch_handshake_response c seq packet =
     (if \<not> mc_is_client_side c then
        (case parse_handshake_response packet of
           Ok r \<Rightarrow> (Ok (Some (MHandshakeResponse r)),
                    c\<lparr>mc_capability_flags := hr_capability_flags r, mc_state := Command\<rparr>)
         | Err e \<Rightarrow> (Err e, c)
         | Panic \<Rightarrow> (Panic, c))
      else
        let first_byte = (if packet = [] then 0xff else packet ! 0) in
        if first_byte = 0x00 then
          (parsed_or MOk (generic seq packet) (parse_ok_packet packet seq (mc_capability_flags c)),
           c\<lparr>mc_state := Command\<rparr>)
        else if first_byte = 0xff then
          (parsed_or MErr (generic seq packet) (parse_err_packet packet seq (mc_capability_flags c)), c)
        else (Ok (Some (generic seq packet)), c\<lparr>mc_state := Command\<rparr>))"

definition dispatch_auth_response ::
  "my_codec \<Rightarrow> byte \<Rightarrow> byte list \<Rightarrow> my_msg option result \<times> my_codec" where
  "dispatch_auth_response c seq packet =
     (if mc_is_client_side c \<and> packet \<noteq> [] \<and> packet ! 0 = 0x00 then
        (case parse_ok_packet packet seq (mc_capability_flags c) of
           Ok p \<Rightarrow> (Ok (Some (MOk p)), c\<lparr>mc_state := Command\<rparr>)
         | Err _ \<Rightarrow> (Ok (Some (generic seq packet)), c)
         | Panic \<Rightarrow> (Panic, c))
      else if mc_is_client_side c \<and> packet \<noteq> [] \<and> packet ! 0 = 0xff then
        (parsed_or MErr (generic seq packet) (parse_err_packet packet seq (mc_capability_flags c)), c)
      else (Ok (Some (generic seq packet)), c))"

text \<open>OK, ERR and legacy EOF packets of the command phase.\<close>

definition command_reply :: "u32 \<Rightarrow> byte \<Rightarrow> byte list \<Rightarrow> my_msg option result" where
  "command_reply caps seq packet =
     (let g = generic seq packet in
      if packet ! 0 = 0x00 then parsed_or MOk g (parse_ok_packet packet seq caps)
      else if packet ! 0 = 0xff then parsed_or MErr g (parse_err_packet packet seq caps)
      else if packet ! 0 = 0xfe \<and> length packet < 9 then parsed_or MEof g (parse_eof_packet packet seq)
      else Ok (Some g))"

definition dispatch_command ::
  "my_codec \<Rightarrow> byte \<Rightarrow> byte list \<Rightarrow> my_msg option result \<times> my_codec" where
  "dispatch_command c seq packet =
     (if packet = [] then (Ok (Some (generic seq packet)), c)
      else if \<not> mc_is_client_side c \<and> packet ! 0 = 0x03 then
        (Ok (Some (MQuery \<lparr>qp_sequence_id = seq, qp_query = drop 1 packet\<rparr>)), c)
      else if mc_is_client_side c \<and> packet ! 0 \<noteq> 0x00 \<and> packet ! 0 \<noteq> 0xff \<and> packet ! 0 \<noteq> 0xfe then
        (case read_lenenc_int packet of
           Ok (col_count, _) \<Rightarrow>
             (if 0 < col_count \<and> col_count < 4096 then
                (Ok (Some (generic seq packet)),
                 c\<lparr>mc_column_count := unat col_count, mc_state := ReadingColumns (unat col_count)\<rparr>)
              else (command_reply (mc_capability_flags c) seq packet, c))
         | Err e \<Rightarrow> (Err e, c)
         | Panic \<Rightarrow> (Panic, c))
      else (command_reply (mc_capability_flags c) seq packet, c))"

definition dispatch_column ::
  "my_codec \<Rightarrow> nat \<Rightarrow> byte \<Rightarrow> byte list \<Rightarrow> my_msg option result \<times> my_codec" where
  "dispatch_column c remaining seq packet =
     (case parse_column_definition packet seq of
        Ok d \<Rightarrow>
          (let new_remaining = remaining - 1 in
           (Ok (Some (MColumnDefinition d)),
            if new_remaining = 0
            then (if uses_deprecate_eof c then c\<lparr>mc_state := ReadingRows\<rparr> else c)
            else c\<lparr>mc_state := ReadingColumns new_remaining\<rparr>))
      | Err e \<Rightarrow> (Err e, c)
      | Panic \<Rightarrow> (Panic, c))"

definition dispatch_columns ::
  "my_codec \<Rightarrow> nat \<Rightarrow> byte \<Rightarrow> byte list \<Rightarrow> my_msg option result \<times> my_codec" where
  "dispatch_columns c remaining seq packet =
     (if packet = [] then (bail ''empty MySQL packet while reading column definitions'', c)
      else if packet ! 0 = 0xfe \<and> length packet < 9 \<and> \<not> uses_deprecate_eof c then
        (case parse_eof_packet packet seq of
           Ok e \<Rightarrow> (Ok (Some (MEof e)), c\<lparr>mc_state := ReadingRows\<rparr>)
         | Err _ \<Rightarrow> dispatch_column c remaining seq packet
         | Panic \<Rightarrow> (Panic, c))
      else dispatch_column c remaining seq packet)"

definition dispatch_rows ::
  "my_codec \<Rightarrow> byte \<Rightarrow> byte list \<Rightarrow> bool \<Rightarrow> my_msg option result \<times> my_codec" where
  "dispatch_rows c seq packet assembled =
     (if packet = [] then (bail ''empty MySQL packet while reading result rows'', c)
      else if packet ! 0 = 0xfe \<and> \<not> assembled then
        (Ok (Some (generic seq packet)), c\<lparr>mc_state := Command\<rparr>)
      else if packet ! 0 = 0xff then
        (parsed_or MErr (generic seq packet) (parse_err_packet packet seq (mc_capability_flags c)),
         c\<lparr>mc_state := Command\<rparr>)
      else
        (rbind (parse_result_row packet seq (mc_column_count c)) (\<lambda>row. Ok (Some (MResultRow row))), c))"

definition dispatch ::
  "my_codec \<Rightarrow> byte \<Rightarrow> byte list \<Rightarrow> bool \<Rightarrow> my_msg option result \<times> my_codec" where
  "dispatch c seq packet assembled =
     (case mc_state c of
        WaitingHandshake \<Rightarrow> dispatch_handshake c seq packet
      | WaitingHandshakeResponse \<Rightarrow> dispatch_handshake_response c seq packet
      | WaitingAuthResponse \<Rightarrow> dispatch_auth_response c seq packet
      | Command \<Rightarrow> dispatch_command c seq packet
      | ReadingColumns remaining \<Rightarrow> dispatch_columns c remaining seq packet
      | ReadingRows \<Rightarrow> dispatch_rows c seq packet assembled)"

section \<open>Decode and encode\<close>

definition payload_len :: "byte list \<Rightarrow> nat" where
  "payload_len src = unat (src ! 0) OR push_bit 8 (unat (src ! 1)) OR push_bit 16 (unat (src ! 2))"

fun get_or_insert_pending :: "(byte \<times> byte list) option \<Rightarrow> byte \<Rightarrow> byte list \<Rightarrow> byte \<times> byte list" where
  "get_or_insert_pending None seq packet = (seq, packet)"
| "get_or_insert_pending (Some (s, p)) seq packet = (s, p @ packet)"

text \<open>The loop takes a packet of at least four bytes off the buffer in every round.\<close>

function my_decode :: "(my_codec, my_msg) decoder" where
  "my_decode c src =
     (if length src < 4 then (Ok None, c, src)
      else if length src < 4 + payload_len src then (Ok None, c, src)
      else
        let total_len = 4 + payload_len src;
            sequence_id = src ! 3;
            packet = drop 4 (take total_len src);
            rest = drop total_len src in
        if payload_len src = 0xffffff then
          my_decode (c\<lparr>mc_pending_large :=
            Some (get_or_insert_pending (mc_pending_large c) sequence_id packet)\<rparr>) rest
        else
          (case mc_pending_large c of
             Some (s, p) \<Rightarrow>
               (case dispatch (c\<lparr>mc_pending_large := None\<rparr>) s (p @ packet) True of
                  (r, c') \<Rightarrow> (r, c', rest))
           | None \<Rightarrow>
               (case dispatch c sequence_id packet False of (r, c') \<Rightarrow> (r, c', rest))))"
  by pat_completeness auto
termination
  by (relation "measure (\<lambda>(c, src). length src)") auto

declare my_decode.simps [simp del]

fun my_encode :: "my_codec \<Rightarrow> my_msg \<Rightarrow> my_codec \<times> byte list" where
  "my_encode c (MHandshake h) =
     (if \<not> mc_is_client_side c \<and> mc_state c = WaitingHandshake
      then c\<lparr>mc_state := WaitingHandshakeResponse\<rparr> else c,
      encode_handshake_v10 h)"
| "my_encode c (MHandshakeResponse r) = (c, encode_handshake_response r)"
| "my_encode c (MGeneric g) = (c, encode_generic g)"
| "my_encode c (MQuery q) = (c, encode_query q)"
| "my_encode c (MColumnDefinition d) = (c, encode_column_definition d)"
| "my_encode c (MResultRow r) = (c, encode_result_row r)"
| "my_encode c (MOk p) = (c, encode_ok p (mc_capability_flags c))"
| "my_encode c (MErr e) = (c, encode_err e (mc_capability_flags c))"
| "my_encode c (MEof e) = (c, encode_eof e)"

section \<open>The codec as a stream decoder\<close>

lemma parsed_or_no_panic [simp]: "parsed_or f g r \<noteq> Panic \<longleftrightarrow> r \<noteq> Panic" "parsed_or f g r \<noteq> Ok None"
  by (cases r; simp)+

lemma command_reply_result: "command_reply caps seq p \<noteq> Panic" "command_reply caps seq p \<noteq> Ok None"
  by (simp_all add: command_reply_def Let_def)

lemma read_lenenc_int_no_panic' [simp]: "read_lenenc_int p = Panic \<longleftrightarrow> False"
  by simp

lemmas dispatch_defs =
  dispatch_handshake_def dispatch_handshake_response_def dispatch_auth_response_def
  dispatch_command_def dispatch_column_def dispatch_columns_def dispatch_rows_def

lemma dispatch_result: "fst (dispatch c seq p a) \<noteq> Panic \<and> fst (dispatch c seq p a) \<noteq> Ok None"
proof (cases "mc_state c")
  case ReadingRows
  then show ?thesis
    by (auto simp: dispatch_def dispatch_rows_def rbind_eq_Panic_iff rbind_eq_Ok_iff)
qed (auto simp: dispatch_def dispatch_defs Let_def command_reply_result split: result.splits)

lemma dispatch_pending [simp]:
  "mc_pending_large (snd (dispatch c seq p a)) = mc_pending_large c"
  by (cases "mc_state c")
     (auto simp: dispatch_def dispatch_defs Let_def split: result.splits)

lemma dispatch_side [simp]: "mc_is_client_side (snd (dispatch c seq p a)) = mc_is_client_side c"
  by (cases "mc_state c")
     (auto simp: dispatch_def dispatch_defs Let_def split: result.splits)

text \<open>
  A buffer is short, or it starts with a frame: a header and the bytes it announces. What
  \<open>my_decode\<close> does in each case; \<open>deliver\<close> is what happens to the last frame of a packet.
\<close>

definition deliver :: "my_codec \<Rightarrow> byte \<Rightarrow> byte list \<Rightarrow> my_msg option result \<times> my_codec" where
  "deliver c seq packet =
     (case mc_pending_large c of
        Some (s, p) \<Rightarrow> dispatch (c\<lparr>mc_pending_large := None\<rparr>) s (p @ packet) True
      | None \<Rightarrow> dispatch c seq packet False)"

definition short :: "byte list \<Rightarrow> bool" where
  "short b \<longleftrightarrow> length b < 4 \<or> length b < 4 + payload_len b"

lemma deliver_result: "fst (deliver c seq p) \<noteq> Panic" "fst (deliver c seq p) \<noteq> Ok None"
  by (auto simp: deliver_def dispatch_result split: option.split)

lemma payload_len_le_nat: "payload_len (a # b # d # r) = le_nat [a, b, d]"
proof -
  have lt: "unat (x :: byte) < 2 ^ 8" for x by simp
  have or_nat: "m OR push_bit k n = m + 2 ^ k * n" if "m < 2 ^ k" for k m n :: nat
  proof -
    have "m AND push_bit k n = 0"
      using that by (intro bit_eqI) (auto simp: bit_simps, metis bit_take_bit_iff not_le take_bit_nat_eq_self)
    then show ?thesis by (simp add: disjunctive_add_eq_or [symmetric] push_bit_eq_mult mult.commute)
  qed
  have "unat a OR push_bit 8 (unat b) = unat a + 256 * unat b" using or_nat [OF lt] by simp
  moreover have "unat a + 256 * unat b < 2 ^ 16" using le_nat_lt [of "[a, b]"] by simp
  ultimately show ?thesis by (simp add: payload_len_def or.assoc [symmetric] or_nat)
qed

lemma write_packet_header_bytes:
  "write_packet_header n seq = le_bytes 3 n @ [seq]"
proof -
  have 3: "(3 :: nat) = Suc (Suc (Suc 0))" by simp
  show ?thesis
    unfolding 3 le_bytes.simps
    by (simp add: write_packet_header_def drop_bit_eq_div div_mult2_eq [symmetric] del: of_nat_mod)
qed

lemma length_write_packet_header [simp]: "length (write_packet_header n seq) = 4"
  by (simp add: write_packet_header_def)

lemma header_nth:
  "payload_len (write_packet_header n seq @ r) = n mod 0x1000000"
  "(write_packet_header n seq @ r) ! 3 = seq"
proof -
  obtain a b d where "le_bytes 3 n = [a, b, d]" using length_3 [of "le_bytes 3 n"] by auto
  moreover have "le_nat (le_bytes 3 n) = n mod 0x1000000" by (subst le_nat_le_bytes) simp
  ultimately show "payload_len (write_packet_header n seq @ r) = n mod 0x1000000"
    "(write_packet_header n seq @ r) ! 3 = seq"
    by (simp_all add: write_packet_header_bytes payload_len_le_nat del: le_nat.simps)
qed

lemma frame_cases:
  obtains (short) "short b"
  | (frame) seq p r where "b = write_packet_header (length p) seq @ p @ r" "length p \<le> 0xffffff"
proof (cases "short b")
  case False
  then have long: "4 \<le> length b" "4 + payload_len b \<le> length b" by (auto simp: short_def)
  from list_split [OF long(1)] obtain hd r where b: "b = hd @ r" "length hd = 4" by blast
  then obtain x y z seq where hd: "hd = [x, y, z, seq]"
    by (auto simp: numeral_eq_Suc length_Suc_conv)
  have pl: "payload_len b = le_nat [x, y, z]" using b hd by (simp add: payload_len_le_nat)
  with long b have "le_nat [x, y, z] \<le> length r" by simp
  from list_split [OF this] obtain p r' where r: "r = p @ r'" "length p = le_nat [x, y, z]" by blast
  have "le_bytes 3 (le_nat [x, y, z]) = [x, y, z]"
    using le_bytes_le_nat [of "[x, y, z]"] by (simp add: numeral_3_eq_3 del: le_nat.simps le_bytes.simps)
  with b hd r have "b = write_packet_header (length p) seq @ p @ r'"
    by (simp add: write_packet_header_bytes del: le_nat.simps)
  moreover have "length p \<le> 0xffffff" using le_nat_lt [of "[x, y, z]"] r by simp
  ultimately show thesis by (rule frame)
qed

lemma my_decode_short: "short b \<Longrightarrow> my_decode c b = (Ok None, c, b)"
  by (auto simp: short_def my_decode.simps [of c b])

lemma my_decode_frame:
  assumes "length p < 0xffffff"
  shows "my_decode c (write_packet_header (length p) seq @ p @ r) =
    (case deliver c seq p of (res, c') \<Rightarrow> (res, c', r))"
proof -
  let ?b = "write_packet_header (length p) seq @ p @ r"
  have h: "payload_len ?b = length p" "?b ! 3 = seq" using assms by (simp_all add: header_nth)
  have l: "\<not> length ?b < 4" "\<not> length ?b < 4 + length p" "length p \<noteq> 0xffffff" using assms by auto
  have t: "drop 4 (take (4 + length p) ?b) = p" "drop (4 + length p) ?b = r" by simp_all
  show ?thesis
    by (subst my_decode.simps) (cases "mc_pending_large c"; simp only: h l t if_False Let_def deliver_def option.case prod.case split: prod.split; simp)
qed

lemma my_decode_chunk:
  assumes "length p = 0xffffff"
  shows "my_decode c (write_packet_header 0xffffff seq @ p @ r) =
    my_decode (c\<lparr>mc_pending_large := Some (get_or_insert_pending (mc_pending_large c) seq p)\<rparr>) r"
proof -
  let ?b = "write_packet_header 0xffffff seq @ p @ r"
  have h: "payload_len ?b = 0xffffff" "?b ! 3 = seq" by (simp_all add: header_nth)
  have l: "\<not> length ?b < 4" "\<not> length ?b < 4 + 0xffffff" using assms by auto
  have t: "drop 4 (take (4 + 0xffffff) ?b) = p" "drop (4 + 0xffffff) ?b = r" using assms by simp_all
  show ?thesis
    by (subst my_decode.simps) (simp only: h l t if_False Let_def, simp)
qed

lemma my_decode_append:
  "my_decode c (b @ x) =
     (case my_decode c b of
        (Ok None, c', b') \<Rightarrow> my_decode c' (b' @ x)
      | (r, c', b') \<Rightarrow> (r, c', b' @ x))"
proof (induction "length b" arbitrary: c b rule: less_induct)
  case less
  show ?case
  proof (cases rule: frame_cases [of b])
    case (frame seq p r)
    show ?thesis
    proof (cases "length p = 0xffffff")
      case True
      have "length r < length b" using frame by simp
      from less [OF this] frame(1) True my_decode_chunk [OF True] show ?thesis by simp
    next
      case False
      then have lt: "length p < 0xffffff" using frame by simp
      obtain res c' where d: "deliver c seq p = (res, c')" by fastforce
      then have "res \<noteq> Ok None" "res \<noteq> Panic" using deliver_result by (metis fst_conv)+
      with frame(1) d my_decode_frame [OF lt] show ?thesis
        by (simp split: result.split option.split)
    qed
  qed (simp add: my_decode_short)
qed

lemma my_decode_shrinks:
  "my_decode c b = (r, c', b') \<Longrightarrow>
   r \<noteq> Panic \<and> length b' \<le> length b \<and> (r \<noteq> Ok None \<longrightarrow> length b' < length b)"
proof (induction "length b" arbitrary: c b rule: less_induct)
  case less
  show ?case
  proof (cases rule: frame_cases [of b])
    case short
    with less.prems show ?thesis by (auto simp: my_decode_short)
  next
    case (frame seq p q)
    show ?thesis
    proof (cases "length p = 0xffffff")
      case True
      have "length q < length b" using frame by simp
      from less.hyps [OF this] less.prems frame(1) True my_decode_chunk [OF True] show ?thesis by fastforce
    next
      case False
      then have lt: "length p < 0xffffff" using frame by simp
      obtain res d where d: "deliver c seq p = (res, d)" by fastforce
      then have "res \<noteq> Panic" using deliver_result by (metis fst_conv)
      with less.prems frame(1) d my_decode_frame [OF lt] show ?thesis by auto
    qed
  qed
qed

interpretation my: stream_decoder my_decode
proof unfold_locales
  fix s s' :: my_codec and b b' x :: "byte list" and m e
  show "my_decode s b = (Ok (Some m), s', b') \<Longrightarrow> my_decode s (b @ x) = (Ok (Some m), s', b' @ x)"
    "my_decode s b = (Err e, s', b') \<Longrightarrow> my_decode s (b @ x) = (Err e, s', b' @ x)"
    "my_decode s b = (Ok None, s', b') \<Longrightarrow> my_decode s (b @ x) = my_decode s' (b' @ x)"
    by (simp_all add: my_decode_append)
  show "my_decode s b = (Ok (Some m), s', b') \<Longrightarrow> length b' < length b"
    "my_decode s b = (Ok None, s', b') \<Longrightarrow> length b' \<le> length b"
    using my_decode_shrinks by fastforce+
  show "fst (my_decode s b) \<noteq> Panic" using my_decode_shrinks by (metis prod.collapse)
  show "my_decode s [] = (Ok None, s, [])" by (simp add: my_decode_short short_def)
qed

section \<open>Reassembly\<close>

lemma write_chunk_last:
  "length p < 0xffffff \<Longrightarrow> write_packet_chunked p seq = write_packet_header (length p) seq @ p"
  by (subst write_packet_chunked.simps) (simp add: min_def)

lemma write_chunk_more:
  "0xffffff \<le> length p \<Longrightarrow> write_packet_chunked p seq =
     write_packet_header 0xffffff seq @ take 0xffffff p @ write_packet_chunked (drop 0xffffff p) (seq + 1)"
  by (subst write_packet_chunked.simps) (simp add: min_def)

lemma pending_updates:
  "mc_pending_large (c\<lparr>mc_pending_large := q\<rparr>) = q"
  "c\<lparr>mc_pending_large := q, mc_pending_large := r\<rparr> = c\<lparr>mc_pending_large := r\<rparr>"
  by simp_all

lemma my_decode_continued:
  "mc_pending_large c = Some (s, q) \<Longrightarrow>
   my_decode c (write_packet_chunked p seq @ x) =
     (case dispatch (c\<lparr>mc_pending_large := None\<rparr>) s (q @ p) True of (r, c') \<Rightarrow> (r, c', x))"
proof (induction "length p" arbitrary: c p q seq rule: less_induct)
  case less
  show ?case
  proof (cases "length p < 0xffffff")
    case True
    with less.prems show ?thesis
      by (simp only: write_chunk_last append_assoc my_decode_frame) (simp add: deliver_def)
  next
    case False
    then have len: "0xffffff \<le> length p" "length (take 0xffffff p) = 0xffffff" by simp_all
    then have lt: "length (drop 0xffffff p) < length p" by simp
    have "my_decode c (write_packet_chunked p seq @ x) =
      my_decode (c\<lparr>mc_pending_large := Some (s, q @ take 0xffffff p)\<rparr>)
        (write_packet_chunked (drop 0xffffff p) (seq + 1) @ x)"
      unfolding write_chunk_more [OF len(1)] append_assoc my_decode_chunk [OF len(2)]
      by (simp only: less.prems get_or_insert_pending.simps)
    also have "\<dots> = (case dispatch (c\<lparr>mc_pending_large := None\<rparr>) s (q @ p) True of (r, c') \<Rightarrow> (r, c', x))"
      by (subst less.hyps [OF lt, where q = "q @ take 0xffffff p"]) (simp_all only: pending_updates append_assoc append_take_drop_id)
    finally show ?thesis .
  qed
qed

lemma my_decode_chunked:
  assumes "mc_pending_large c = None"
  shows "my_decode c (write_packet_chunked p seq @ x) =
    (case dispatch c seq p (0xffffff \<le> length p) of (r, c') \<Rightarrow> (r, c', x))"
proof (cases "length p < 0xffffff")
  case True
  with assms show ?thesis
    by (simp only: write_chunk_last append_assoc my_decode_frame) (simp add: deliver_def)
next
  case False
  then have len: "0xffffff \<le> length p" "length (take 0xffffff p) = 0xffffff" by simp_all
  have c: "c\<lparr>mc_pending_large := None\<rparr> = c" using assms by simp
  have "my_decode c (write_packet_chunked p seq @ x) =
      my_decode (c\<lparr>mc_pending_large := Some (seq, take 0xffffff p)\<rparr>)
        (write_packet_chunked (drop 0xffffff p) (seq + 1) @ x)"
    unfolding write_chunk_more [OF len(1)] append_assoc my_decode_chunk [OF len(2)]
    by (simp only: assms get_or_insert_pending.simps)
  also have "\<dots> = (case dispatch c seq p True of (r, c') \<Rightarrow> (r, c', x))"
    by (subst my_decode_continued [where s = seq and q = "take 0xffffff p"])
       (simp_all only: pending_updates append_take_drop_id c)
  finally show ?thesis using len by simp
qed

section \<open>The codec's invariant\<close>

text \<open>
  Inside a result set the codec faces the upstream server and knows the number of columns; the
  columns still to read are at least one and at most all of them.
\<close>

definition codec_inv :: "my_codec \<Rightarrow> bool" where
  "codec_inv c \<longleftrightarrow>
     (case mc_state c of
        ReadingColumns n \<Rightarrow> mc_is_client_side c \<and> 1 \<le> n \<and> n \<le> mc_column_count c \<and> mc_column_count c < 4096
      | ReadingRows \<Rightarrow> mc_is_client_side c \<and> 1 \<le> mc_column_count c \<and> mc_column_count c < 4096
      | _ \<Rightarrow> True)"

lemma codec_inv_constructors [simp]:
  "codec_inv new_server" "codec_inv new_client" "codec_inv new_server_awaiting_command"
  "codec_inv (new_server_awaiting_handshake_response caps)" "codec_inv (new_client_awaiting_auth caps)"
  by (simp_all add: codec_inv_def new_server_def new_client_def new_server_awaiting_command_def
      new_server_awaiting_handshake_response_def new_client_awaiting_auth_def)

lemma codec_inv_setters [simp]:
  "codec_inv c \<Longrightarrow> codec_inv (set_capability_flags f c)"
  "codec_inv (set_command_state c)" "codec_inv (set_auth_response_state c)"
  by (cases "mc_state c"; simp add: codec_inv_def set_capability_flags_def set_command_state_def set_auth_response_state_def)+

lemma codec_inv_pending [simp]: "codec_inv (c\<lparr>mc_pending_large := q\<rparr>) = codec_inv c"
  by (cases "mc_state c") (simp_all add: codec_inv_def)

lemma u64_pos_lt:
  "0 < (v :: u64) \<Longrightarrow> v < 4096 \<Longrightarrow> 1 \<le> unat v \<and> unat v < 4096"
  by (simp add: word_less_nat_alt Suc_le_eq)

lemma dispatch_column_inv:
  "codec_inv c \<Longrightarrow> mc_state c = ReadingColumns n \<Longrightarrow> codec_inv (snd (dispatch_column c n seq p))"
  by (auto simp: dispatch_column_def Let_def codec_inv_def split: result.split)

lemma dispatch_inv: "codec_inv c \<Longrightarrow> codec_inv (snd (dispatch c seq p a))"
proof (cases "mc_state c")
  case (ReadingColumns n)
  moreover assume "codec_inv c"
  ultimately show ?thesis
    using dispatch_column_inv [of c n seq p]
    by (auto simp: dispatch_def dispatch_columns_def codec_inv_def split: result.split)
next
  case Command
  moreover assume "codec_inv c"
  ultimately show ?thesis
    using u64_pos_lt by (auto simp: dispatch_def dispatch_command_def codec_inv_def split: result.split)
qed (auto simp: dispatch_def dispatch_handshake_def dispatch_handshake_response_def
      dispatch_auth_response_def dispatch_rows_def Let_def codec_inv_def split: result.split)

lemma deliver_inv: "codec_inv c \<Longrightarrow> codec_inv (snd (deliver c seq p))"
  by (auto simp: deliver_def dispatch_inv split: option.split)

lemma my_decode_inv: "my_decode c b = (r, c', b') \<Longrightarrow> codec_inv c \<Longrightarrow> codec_inv c'"
proof (induction "length b" arbitrary: c b rule: less_induct)
  case less
  show ?case
  proof (cases rule: frame_cases [of b])
    case short
    with less.prems show ?thesis by (auto simp: my_decode_short)
  next
    case (frame seq p q)
    show ?thesis
    proof (cases "length p = 0xffffff")
      case True
      have "length q < length b" using frame by simp
      from less.hyps [OF this] less.prems frame(1) True my_decode_chunk [OF True] show ?thesis
        by fastforce
    next
      case False
      then have lt: "length p < 0xffffff" using frame by simp
      from less.prems frame(1) my_decode_frame [OF lt] deliver_inv [of c seq p] show ?thesis
        by (auto split: prod.splits)
    qed
  qed
qed

lemma my_encode_inv: "codec_inv c \<Longrightarrow> codec_inv (fst (my_encode c m))"
  by (cases m) (auto simp: codec_inv_def)

lemma my_drain_inv: "codec_inv c \<Longrightarrow> drain my_decode n c b = (ms, st, c', b') \<Longrightarrow> codec_inv c'"
proof (induction n arbitrary: c b ms)
  case (Suc n)
  then show ?case
    by (cases "my_decode c b") (auto split: result.splits option.splits prod.splits dest: my_decode_inv)
qed simp

end
