(* ===== verification/MySql_Stream.thy ===== *)
theory MySql_Stream
  imports MySql_Codec
begin

text \<open>
  What the MySQL codec promises to the session that drives it: rows of any size survive
  masking and re-encoding, packets the proxy does not touch are forwarded byte for byte, a
  whole result set is decoded into its parts, and authentication replies stay opaque.
\<close>

section \<open>Rows\<close>

lemma lenenc_head_0xfe:
  assumes "write_lenenc_int v = 0xfe # bs"
  shows "16777216 \<le> unat v"
proof (rule ccontr)
  assume lt: "\<not> 16777216 \<le> unat v"
  show False
  proof (cases "v < 251")
    case True
    then have "unat v < 251" by (simp add: word_less_nat_alt)
    moreover from True assms have "(ucast v :: byte) = 0xfe" by (simp add: write_lenenc_int_def)
    then have "unat (ucast v :: byte) = 254" by simp
    then have "unat v mod 256 = 254" unfolding unsigned_ucast_eq by (simp add: take_bit_eq_mod)
    ultimately show False by simp
  next
    case False
    with assms lt show False by (auto simp: write_lenenc_int_def word_less_nat_alt split: if_splits)
  qed
qed

lemma encoded_row_head:
  assumes "vs \<noteq> []" "\<forall>v. Some v \<in> set vs \<longrightarrow> fits v"
  obtains b r where "concat (map encode_row_value vs) = b # r" "b \<noteq> 0xff"
    "b = 0xfe \<longrightarrow> 0xffffff \<le> length (b # r)"
proof -
  from assms(1) obtain v ws where vs: "vs = v # ws" by (cases vs) auto
  show thesis
  proof (cases v)
    case None
    with vs that [of "0xfb" "concat (map encode_row_value ws)"] show ?thesis by simp
  next
    case (Some x)
    obtain b bs where w: "write_lenenc_int (of_nat (length x)) = b # bs" "b \<noteq> 0xff"
      using write_lenenc_head by blast
    have "b = 0xfe \<longrightarrow> 16777216 \<le> length x"
      using lenenc_head_0xfe [of "of_nat (length x)" bs] w(1) assms(2) vs Some unat_length [of x] by auto
    with vs Some w that [of b "bs @ x @ concat (map encode_row_value ws)"] show ?thesis by auto
  qed
qed

definition reading_rows :: "my_codec \<Rightarrow> nat \<Rightarrow> bool" where
  "reading_rows c n \<longleftrightarrow> mc_state c = ReadingRows \<and> mc_pending_large c = None \<and> mc_column_count c = n"

lemma dispatch_row:
  assumes "mc_state c = ReadingRows" "mc_column_count c = length vs" "vs \<noteq> []" "\<forall>v. Some v \<in> set vs \<longrightarrow> fits v"
  shows "dispatch c seq (concat (map encode_row_value vs))
      (0xffffff \<le> length (concat (map encode_row_value vs)))
    = (Ok (Some (MResultRow \<lparr>rr_sequence_id = seq, rr_values = vs\<rparr>)), c)"
proof -
  let ?p = "concat (map encode_row_value vs)"
  obtain b r where p: "?p = b # r" "b \<noteq> 0xff" "b = 0xfe \<longrightarrow> 0xffffff \<le> length (b # r)"
    using encoded_row_head [OF assms(3,4)] .
  have "parse_result_row ?p seq (mc_column_count c) = Ok \<lparr>rr_sequence_id = seq, rr_values = vs\<rparr>"
    using parse_result_row_encode [OF assms(4)] assms(2) by simp
  moreover have "?p \<noteq> []" "?p ! 0 \<noteq> 0xff" "\<not> (?p ! 0 = 0xfe \<and> \<not> 0xffffff \<le> length ?p)"
    unfolding p(1) using p(2,3) by auto
  ultimately show ?thesis
    unfolding dispatch_def dispatch_rows_def assms(1) my_state.case by (simp only: if_False rbind.simps refl)
qed

lemma decode_row:
  assumes "reading_rows c (length vs)" "vs \<noteq> []" "\<forall>v. Some v \<in> set vs \<longrightarrow> fits v"
  shows "my_decode c (encode_result_row \<lparr>rr_sequence_id = seq, rr_values = vs\<rparr> @ x)
    = (Ok (Some (MResultRow \<lparr>rr_sequence_id = seq, rr_values = vs\<rparr>)), c, x)"
  using dispatch_row [of c vs seq] assms
  by (simp add: encode_result_row_def my_decode_chunked reading_rows_def)

section \<open>Forwarding\<close>

text \<open>
  The messages the proxy may forward without looking inside, and the packet each was decoded
  from: encoding gives back every frame of it.
\<close>

fun passthrough :: "my_msg \<Rightarrow> bool" where
  "passthrough (MGeneric g) = True"
| "passthrough (MColumnDefinition d) = True"
| "passthrough (MOk p) = True"
| "passthrough (MErr e) = True"
| "passthrough (MEof e) = True"
| "passthrough _ = False"

definition carries :: "byte \<Rightarrow> byte list \<Rightarrow> my_msg \<Rightarrow> bool" where
  "carries seq p m \<longleftrightarrow>
     (case m of
        MGeneric g \<Rightarrow> g = \<lparr>gp_sequence_id = seq, gp_payload = p\<rparr>
      | MColumnDefinition d \<Rightarrow> cd_raw d = p \<and> cd_sequence_id d = seq \<and> p \<noteq> []
      | MOk k \<Rightarrow> ok_raw k = p \<and> ok_sequence_id k = seq \<and> p \<noteq> []
      | MErr e \<Rightarrow> err_raw e = p \<and> err_sequence_id e = seq \<and> p \<noteq> []
      | MEof e \<Rightarrow> eof_raw e = p \<and> eof_sequence_id e = seq \<and> p \<noteq> []
      | _ \<Rightarrow> True)"

lemma lenenc_empty: "read_lenenc_string [] \<noteq> Ok v"
  by (simp add: read_lenenc_string_def read_lenenc_int_from_buf_def read_lenenc_int_def)

lemma parse_carries:
  "parse_ok_packet p seq caps = Ok k \<Longrightarrow> ok_raw k = p \<and> ok_sequence_id k = seq \<and> p \<noteq> []"
  "parse_err_packet p seq caps = Ok e \<Longrightarrow> err_raw e = p \<and> err_sequence_id e = seq \<and> p \<noteq> []"
  "parse_eof_packet p seq = Ok f \<Longrightarrow> eof_raw f = p \<and> eof_sequence_id f = seq \<and> p \<noteq> []"
  "parse_column_definition p seq = Ok d \<Longrightarrow> cd_raw d = p \<and> cd_sequence_id d = seq \<and> p \<noteq> []"
  by (auto simp: parse_ok_packet_def parse_err_packet_def parse_eof_packet_def parse_column_definition_def
      rbind_eq_Ok_iff lenenc_empty split: if_splits)

lemma parsed_or_carries:
  "parsed_or MOk (generic seq p) (parse_ok_packet p seq caps) = Ok (Some m) \<Longrightarrow> carries seq p m"
  "parsed_or MErr (generic seq p) (parse_err_packet p seq caps) = Ok (Some m) \<Longrightarrow> carries seq p m"
  "parsed_or MEof (generic seq p) (parse_eof_packet p seq) = Ok (Some m) \<Longrightarrow> carries seq p m"
    apply (cases "parse_ok_packet p seq caps"; auto simp: carries_def dest: parse_carries)
   apply (cases "parse_err_packet p seq caps"; auto simp: carries_def dest: parse_carries)
  apply (cases "parse_eof_packet p seq"; auto simp: carries_def dest: parse_carries)
  done

lemma generic_carries [simp]: "carries seq p (generic seq p)"
  by (simp add: carries_def)

lemma command_reply_carries: "command_reply caps seq p = Ok (Some m) \<Longrightarrow> carries seq p m"
  by (auto simp: command_reply_def Let_def dest: parsed_or_carries split: if_splits)

lemma dispatch_carries: "dispatch c seq p a = (Ok (Some m), c') \<Longrightarrow> carries seq p m"
proof (cases "mc_state c")
  case ReadingRows
  assume "dispatch c seq p a = (Ok (Some m), c')"
  with ReadingRows show ?thesis
    by (auto simp: dispatch_def dispatch_rows_def rbind_eq_Ok_iff carries_def [of _ _ "MResultRow _"]
        dest: parsed_or_carries split: if_splits)
next
  case (ReadingColumns n)
  assume "dispatch c seq p a = (Ok (Some m), c')"
  with ReadingColumns show ?thesis
    by (auto simp: dispatch_def dispatch_columns_def dispatch_column_def Let_def carries_def
        dest: parse_carries split: if_splits result.splits)
next
  case Command
  assume "dispatch c seq p a = (Ok (Some m), c')"
  with Command show ?thesis
    by (auto simp: dispatch_def dispatch_command_def carries_def [of _ _ "MQuery _"]
        dest: command_reply_carries split: if_splits result.splits)
next
  case WaitingAuthResponse
  assume "dispatch c seq p a = (Ok (Some m), c')"
  with WaitingAuthResponse show ?thesis
    by (auto simp: dispatch_def dispatch_auth_response_def carries_def [of _ _ "MOk _"]
        dest: parsed_or_carries parse_carries split: if_splits result.splits)
next
  case WaitingHandshake
  assume "dispatch c seq p a = (Ok (Some m), c')"
  with WaitingHandshake show ?thesis
    by (auto simp: dispatch_def dispatch_handshake_def carries_def [of _ _ "MHandshake _"] split: if_splits result.splits)
next
  case WaitingHandshakeResponse
  assume "dispatch c seq p a = (Ok (Some m), c')"
  with WaitingHandshakeResponse show ?thesis
    by (auto simp: dispatch_def dispatch_handshake_response_def Let_def carries_def [of _ _ "MHandshakeResponse _"]
        dest: parsed_or_carries split: if_splits result.splits)
qed

lemma encode_carries:
  "carries seq p m \<Longrightarrow> passthrough m \<Longrightarrow> snd (my_encode c m) = write_packet_chunked p seq"
  by (cases m) (auto simp: carries_def encode_generic_def encode_replayed)

lemma forward_verbatim:
  assumes "mc_pending_large c = None"
    and "my_decode c (write_packet_chunked p seq @ x) = (Ok (Some m), c', x')"
    and "passthrough m"
  shows "x' = x \<and> snd (my_encode k m) = write_packet_chunked p seq"
proof -
  from assms(1,2) have "dispatch c seq p (0xffffff \<le> length p) = (Ok (Some m), c')" "x' = x"
    by (auto simp: my_decode_chunked split: prod.splits)
  with dispatch_carries encode_carries assms(3) show ?thesis by blast
qed

section \<open>A whole result set\<close>

lemma drain_step:
  "my_decode c b = (Ok (Some m), c', x) \<Longrightarrow> drain_all my_decode c b = prepend [m] (drain_all my_decode c' x)"
  by (simp add: my.drain_all_unfold [of c b])

lemma drain_packet:
  assumes "mc_pending_large c = None" "dispatch c seq p (0xffffff \<le> length p) = (Ok (Some m), c')"
  shows "drain_all my_decode c (write_packet_chunked p seq @ x) = prepend [m] (drain_all my_decode c' x)"
  using assms by (intro drain_step) (simp add: my_decode_chunked)

lemma read_lenenc_string_shrinks:
  "read_lenenc_string b = Ok (s, r) \<Longrightarrow> length r < length b"
  by (auto simp: read_lenenc_string_def read_lenenc_int_from_buf_def rbind_eq_Ok_iff advance_def split_to_def
      dest!: read_lenenc_int_consumed split: if_splits)

lemma parse_column_definition_long:
  "parse_column_definition p seq = Ok d \<Longrightarrow> 19 \<le> length p"
  by (auto simp: parse_column_definition_def rbind_eq_Ok_iff dest!: read_lenenc_string_shrinks split: if_splits)

text \<open>Columns, rows and packets as the server sends them: each carries its own raw payload.\<close>

definition column_ok :: "column_definition \<Rightarrow> bool" where
  "column_ok d \<longleftrightarrow> parse_column_definition (cd_raw d) (cd_sequence_id d) = Ok d"

definition row_ok :: "nat \<Rightarrow> result_row \<Rightarrow> bool" where
  "row_ok n r \<longleftrightarrow> length (rr_values r) = n \<and> (\<forall>v. Some v \<in> set (rr_values r) \<longrightarrow> fits v)"

definition eof_ok :: "eof_packet \<Rightarrow> bool" where
  "eof_ok e \<longleftrightarrow> parse_eof_packet (eof_raw e) (eof_sequence_id e) = Ok e
     \<and> eof_raw e \<noteq> [] \<and> eof_raw e ! 0 = 0xfe \<and> length (eof_raw e) < 9"

lemma column_ok_raw: "column_ok d \<Longrightarrow> 19 \<le> length (cd_raw d)"
  by (simp add: column_ok_def parse_column_definition_long)

lemma dispatch_one_column:
  assumes "column_ok d" "mc_state c = ReadingColumns n"
  shows "dispatch c (cd_sequence_id d) (cd_raw d) a =
    (Ok (Some (MColumnDefinition d)),
     if n - 1 = 0 then (if uses_deprecate_eof c then c\<lparr>mc_state := ReadingRows\<rparr> else c)
     else c\<lparr>mc_state := ReadingColumns (n - 1)\<rparr>)"
proof -
  have "\<not> length (cd_raw d) < 9" "cd_raw d \<noteq> []" using column_ok_raw [OF assms(1)] by auto
  then show ?thesis
    using assms unfolding column_ok_def
    by (simp add: dispatch_def dispatch_columns_def dispatch_column_def Let_def)
qed

lemma drain_columns:
  assumes "ds \<noteq> []" "\<forall>d \<in> set ds. column_ok d" "mc_pending_large c = None"
    "mc_state c = ReadingColumns (length ds)"
  shows "drain_all my_decode c (concat (map encode_column_definition ds) @ x) =
    prepend (map MColumnDefinition ds)
      (drain_all my_decode
        (c\<lparr>mc_state := if uses_deprecate_eof c then ReadingRows else ReadingColumns 1\<rparr>) x)"
  using assms
proof (induction ds arbitrary: c)
  case (Cons d ds)
  have ok: "column_ok d" "cd_raw d \<noteq> []" using Cons.prems(2) column_ok_raw [of d] by auto
  have enc: "encode_column_definition d = write_packet_chunked (cd_raw d) (cd_sequence_id d)"
    using ok by (simp add: encode_replayed)
  have n: "mc_state c = ReadingColumns (Suc (length ds))" using Cons.prems by simp
  note step = drain_packet [OF Cons.prems(3) dispatch_one_column [OF ok(1) n]]
  show ?case
  proof (cases "ds = []")
    case True
    have same: "c\<lparr>mc_state := ReadingColumns 1\<rparr> = c" using n True by simp
    show ?thesis
      using step [of x] True same by (cases "uses_deprecate_eof c") (simp_all add: enc)
  next
    case False
    let ?c = "c\<lparr>mc_state := ReadingColumns (length ds)\<rparr>"
    have dep: "uses_deprecate_eof ?c = uses_deprecate_eof c" by (simp add: uses_deprecate_eof_def)
    have "drain_all my_decode ?c (concat (map encode_column_definition ds) @ x) =
      prepend (map MColumnDefinition ds)
        (drain_all my_decode
          (?c\<lparr>mc_state := if uses_deprecate_eof ?c then ReadingRows else ReadingColumns 1\<rparr>) x)"
      using Cons.prems False by (intro Cons.IH) auto
    with step [of "concat (map encode_column_definition ds) @ x"] False show ?thesis
      by (simp add: enc dep prepend_prepend)
  qed
qed simp

lemma drain_rows:
  assumes "\<forall>r \<in> set rs. row_ok n r" "reading_rows c n" "0 < n"
  shows "drain_all my_decode c (concat (map encode_result_row rs) @ x) =
    prepend (map MResultRow rs) (drain_all my_decode c x)"
  using assms(1)
proof (induction rs)
  case (Cons r rs)
  have "my_decode c (encode_result_row r @ concat (map encode_result_row rs) @ x) =
      (Ok (Some (MResultRow r)), c, concat (map encode_result_row rs) @ x)"
    using decode_row [of c "rr_values r" "rr_sequence_id r"] Cons.prems assms(2,3)
    by (cases r) (auto simp: row_ok_def)
  from drain_step [OF this] Cons show ?case by (simp add: prepend_prepend)
qed simp

definition result_set_bytes ::
  "bool \<Rightarrow> byte \<Rightarrow> column_definition list \<Rightarrow> eof_packet \<Rightarrow> result_row list \<Rightarrow> generic_packet \<Rightarrow> byte list" where
  "result_set_bytes deprecate_eof seq cols eof rows ending =
     write_packet_chunked (write_lenenc_int (of_nat (length cols))) seq
     @ concat (map encode_column_definition cols)
     @ (if deprecate_eof then [] else encode_eof eof)
     @ concat (map encode_result_row rows)
     @ encode_generic ending"

definition result_set_messages ::
  "bool \<Rightarrow> byte \<Rightarrow> column_definition list \<Rightarrow> eof_packet \<Rightarrow> result_row list \<Rightarrow> generic_packet \<Rightarrow> my_msg list" where
  "result_set_messages deprecate_eof seq cols eof rows ending =
     generic seq (write_lenenc_int (of_nat (length cols))) # map MColumnDefinition cols
     @ (if deprecate_eof then [] else [MEof eof]) @ map MResultRow rows @ [MGeneric ending]"

definition terminator_ok :: "generic_packet \<Rightarrow> bool" where
  "terminator_ok t \<longleftrightarrow> gp_payload t \<noteq> [] \<and> gp_payload t ! 0 = 0xfe \<and> length (gp_payload t) < 0xffffff"

lemma count_dispatch:
  assumes "mc_state c = Command" "mc_is_client_side c" "0 < n" "n < 4096"
  shows "dispatch c seq (write_lenenc_int (of_nat n)) a =
    (Ok (Some (generic seq (write_lenenc_int (of_nat n)))),
     c\<lparr>mc_column_count := n, mc_state := ReadingColumns n\<rparr>)"
proof -
  let ?p = "write_lenenc_int (of_nat n)"
  have u: "unat (of_nat n :: u64) = n" using assms by (simp add: unat_of_nat)
  have pos: "0 < (of_nat n :: u64)" "(of_nat n :: u64) < 4096"
    using assms u by (simp_all add: word_less_nat_alt)
  have head: "?p \<noteq> [] \<and> ?p ! 0 \<noteq> 0 \<and> ?p ! 0 \<noteq> 0xff \<and> ?p ! 0 \<noteq> 0xfe"
  proof (cases rule: write_lenenc_cases [of "of_nat n"])
    case (one b)
    have "b \<noteq> 0" using one(3) pos by auto
    with one show ?thesis by (auto)
  next
    case (eight bs)
    with lenenc_head_0xfe [OF eight(1)] u assms show ?thesis by simp
  qed auto
  have "read_lenenc_int ?p = Ok (of_nat n, length ?p)" using read_write_lenenc [of "of_nat n" "[]"] by simp
  with head pos u assms show ?thesis
    by (simp add: dispatch_def dispatch_command_def)
qed

lemma drain_result_set:
  assumes "mc_state c = Command" "mc_is_client_side c" "mc_pending_large c = None"
    and "0 < length cols" "length cols < 4096" "\<forall>d \<in> set cols. column_ok d" "eof_ok eof"
    and "\<forall>r \<in> set rows. row_ok (length cols) r" "terminator_ok t"
  shows "drain_all my_decode c
      (result_set_bytes (uses_deprecate_eof c) seq cols eof rows t @ x) =
    prepend (result_set_messages (uses_deprecate_eof c) seq cols eof rows t)
      (drain_all my_decode (c\<lparr>mc_column_count := length cols\<rparr>) x)"
proof -
  let ?n = "length cols" and ?d = "uses_deprecate_eof c"
  let ?c1 = "c\<lparr>mc_column_count := ?n, mc_state := ReadingColumns ?n\<rparr>"
  let ?c2 = "c\<lparr>mc_column_count := ?n, mc_state := ReadingColumns 1\<rparr>"
  let ?c3 = "c\<lparr>mc_column_count := ?n, mc_state := ReadingRows\<rparr>"
  let ?c4 = "c\<lparr>mc_column_count := ?n\<rparr>"
  let ?rows = "concat (map encode_result_row rows)" and ?ending = "encode_generic t"
  have dep: "uses_deprecate_eof ?c1 = ?d" "uses_deprecate_eof ?c2 = ?d" by (simp_all add: uses_deprecate_eof_def)
  have c4: "?c3\<lparr>mc_state := Command\<rparr> = ?c4" using assms(1) by simp
  have "dispatch ?c3 (gp_sequence_id t) (gp_payload t) (0xffffff \<le> length (gp_payload t)) = (Ok (Some (MGeneric t)), ?c4)"
    using assms(9) by (simp add: terminator_ok_def dispatch_def dispatch_rows_def assms(1))
  from drain_packet [OF _ this, of x] have t: "drain_all my_decode ?c3 (?ending @ x) = prepend [MGeneric t] (drain_all my_decode ?c4 x)"
    using assms(3) by (simp add: encode_generic_def)
  have rows: "drain_all my_decode ?c3 (?rows @ ?ending @ x) = prepend (map MResultRow rows @ [MGeneric t]) (drain_all my_decode ?c4 x)"
    using drain_rows [OF assms(8), of ?c3 "?ending @ x"] assms(3,4) t
    by (simp add: reading_rows_def prepend_prepend)
  have eof: "drain_all my_decode ?c2 (encode_eof eof @ ?rows @ ?ending @ x) =
      prepend (MEof eof # map MResultRow rows @ [MGeneric t]) (drain_all my_decode ?c4 x)" if "\<not> ?d"
  proof -
    have "dispatch ?c2 (eof_sequence_id eof) (eof_raw eof) (0xffffff \<le> length (eof_raw eof)) = (Ok (Some (MEof eof)), ?c3)"
      using assms(7) that by (simp add: eof_ok_def dispatch_def dispatch_columns_def uses_deprecate_eof_def)
    from drain_packet [OF _ this] assms(3,7) rows show ?thesis
      by (simp add: encode_replayed eof_ok_def prepend_prepend)
  qed
  let ?tail = "(if ?d then [] else encode_eof eof) @ ?rows @ ?ending @ x"
  have "drain_all my_decode ?c1 (concat (map encode_column_definition cols) @ ?tail) =
      prepend (map MColumnDefinition cols) (drain_all my_decode (if ?d then ?c3 else ?c2) ?tail)"
    using drain_columns [of cols ?c1 ?tail] assms(3,4,6) by (simp add: dep)
  with eof rows have cols: "drain_all my_decode ?c1 (concat (map encode_column_definition cols) @ ?tail) =
      prepend (map MColumnDefinition cols @ (if ?d then [] else [MEof eof]) @ map MResultRow rows @ [MGeneric t])
        (drain_all my_decode ?c4 x)"
    by (simp add: prepend_prepend)
  from drain_packet [OF assms(3) count_dispatch [OF assms(1,2,4,5)]] cols show ?thesis
    by (simp add: result_set_bytes_def result_set_messages_def prepend_prepend)
qed

section \<open>Properties\<close>

text \<open>C28: decoding never reads past its buffer, and the messages decoded from a connection, the
  way the run ends and the codec's final state depend only on the bytes received, not on how
  the socket cut them into chunks.\<close>
theorem mysql_segmentation_independent:
  "feed my_decode c [] chunks = outcome (drain_all my_decode c (concat chunks))
   \<and> fst (my_decode c b) \<noteq> Panic"
  using my.segmentation_independent my.never_panics by blast

text \<open>A payload of any size, split by \<^verbatim>\<open>write_packet_chunked\<close> into frames of 0xFFFFFF bytes, is
  reassembled and dispatched as one packet, marked as assembled exactly when it was split.\<close>
theorem mysql_reassembly:
  assumes "mc_pending_large c = None"
  shows "my_decode c (write_packet_chunked payload seq @ rest) =
    (case dispatch c seq payload (0xffffff \<le> length payload) of (r, c') \<Rightarrow> (r, c', rest))"
  by (rule my_decode_chunked) (rule assms)

theorem mysql_reassembly_witness:
  "my_decode new_server_awaiting_command (write_packet_chunked (3 # replicate 0x1000000 0x20) 0 @ [7]) =
    (Ok (Some (MQuery \<lparr>qp_sequence_id = 0, qp_query = replicate 0x1000000 0x20\<rparr>)),
     new_server_awaiting_command, [7])"
  by (subst mysql_reassembly)
     (simp_all add: new_server_awaiting_command_def dispatch_def dispatch_command_def)

text \<open>C26: a result set as a server sends it (column count, column definitions, EOF unless
  deprecated, rows, terminator), cut into chunks in any way, is decoded into exactly those
  messages, and the codec is back in the command phase.\<close>
theorem mysql_result_set:
  assumes "mc_state c = Command" "mc_is_client_side c" "mc_pending_large c = None"
    and "0 < length cols" "length cols < 4096" "\<forall>d \<in> set cols. column_ok d" "eof_ok eof"
    and "\<forall>r \<in> set rows. row_ok (length cols) r" "terminator_ok t"
    and "concat chunks = result_set_bytes (uses_deprecate_eof c) seq cols eof rows t"
  shows "feed my_decode c [] chunks =
    (result_set_messages (uses_deprecate_eof c) seq cols eof rows t, Waiting,
     c\<lparr>mc_column_count := length cols\<rparr>)"
proof -
  have "drain_all my_decode k [] = ([], Waiting, k, [])" for k
    by (simp add: my.drain_all_unfold [of k "[]"] my.empty_waits)
  with drain_result_set [OF assms(1-9), of seq "[]"] show ?thesis
    by (simp add: my.segmentation_independent assms(10))
qed

definition example_column :: column_definition where
  "example_column = \<lparr>cd_sequence_id = 2, cd_catalog = [0x64, 0x65, 0x66], cd_schema = [], cd_table = [0x74],
     cd_org_table = [0x74], cd_name = [0x61], cd_org_name = [0x61], cd_character_set = 33,
     cd_column_length = 255, cd_column_type = 0xfd, cd_flags = 0, cd_decimals = 0,
     cd_raw = [3, 0x64, 0x65, 0x66, 0, 1, 0x74, 1, 0x74, 1, 0x61, 1, 0x61,
               0x0c, 33, 0, 255, 0, 0, 0, 0xfd, 0, 0, 0, 0, 0]\<rparr>"

definition example_eof :: eof_packet where
  "example_eof = \<lparr>eof_sequence_id = 3, eof_warnings = 0, eof_status_flags = 2, eof_raw = [0xfe, 0, 0, 2, 0]\<rparr>"

lemma example_packets: "column_ok example_column" "eof_ok example_eof"
  by code_simp+

theorem mysql_result_set_witness:
  "feed my_decode (set_command_state new_client) []
     [result_set_bytes False 1 [example_column] example_eof
        [\<lparr>rr_sequence_id = 4, rr_values = [Some [0x78]]\<rparr>, \<lparr>rr_sequence_id = 5, rr_values = [None]\<rparr>]
        \<lparr>gp_sequence_id = 6, gp_payload = [0xfe, 0, 0, 2, 0]\<rparr>] =
   (result_set_messages False 1 [example_column] example_eof
        [\<lparr>rr_sequence_id = 4, rr_values = [Some [0x78]]\<rparr>, \<lparr>rr_sequence_id = 5, rr_values = [None]\<rparr>]
        \<lparr>gp_sequence_id = 6, gp_payload = [0xfe, 0, 0, 2, 0]\<rparr>, Waiting,
    (set_command_state new_client)\<lparr>mc_column_count := 1\<rparr>)"
proof -
  let ?c = "set_command_state new_client"
  have d: "uses_deprecate_eof ?c = False" by code_simp
  have "mc_state ?c = Command" "mc_is_client_side ?c" "mc_pending_large ?c = None"
    by (simp_all add: set_command_state_def new_client_def)
  from mysql_result_set [OF this, of "[example_column]" example_eof
      "[\<lparr>rr_sequence_id = 4, rr_values = [Some [0x78]]\<rparr>, \<lparr>rr_sequence_id = 5, rr_values = [None]\<rparr>]"
      "\<lparr>gp_sequence_id = 6, gp_payload = [0xfe, 0, 0, 2, 0]\<rparr>" "[_]" 1] example_packets
  show ?thesis by (simp add: d row_ok_def terminator_ok_def fits_def)
qed

text \<open>A row the proxy has masked, whatever the sizes of its values, NULLs and huge values
  included, is read back by the receiver as that row: never as a terminator, an error or a
  different split of columns.\<close>
theorem mysql_row_survives:
  assumes "mc_state c = ReadingRows" "mc_pending_large c = None" "mc_column_count c = length vs"
    and "vs \<noteq> []" "\<forall>v. Some v \<in> set vs \<longrightarrow> fits v"
  shows "my_decode c (encode_result_row \<lparr>rr_sequence_id = seq, rr_values = vs\<rparr> @ rest)
    = (Ok (Some (MResultRow \<lparr>rr_sequence_id = seq, rr_values = vs\<rparr>)), c, rest)"
  using assms by (intro decode_row) (simp_all add: reading_rows_def)

theorem mysql_row_survives_witness:
  "let c = new_client\<lparr>mc_state := ReadingRows, mc_column_count := 2\<rparr>;
       r = \<lparr>rr_sequence_id = 9, rr_values = [Some (replicate 0x1000000 0x61), None]\<rparr> in
   my_decode c (encode_result_row r @ [1]) = (Ok (Some (MResultRow r)), c, [1])"
  unfolding Let_def
  by (rule mysql_row_survives) (simp_all add: new_client_def fits_def)

text \<open>C27: a packet of a kind the proxy passes through (a generic packet, a column definition, OK, ERR or
  EOF; not a query, a handshake, a handshake response or a row) that arrived in the canonical chunks of a
  payload, of any size, is forwarded byte for byte, whatever capabilities the other leg negotiated. (A
  query is framed anew, without chunks, so one of 16 MiB or more is not: see the findings.)\<close>
theorem mysql_forwards_verbatim:
  assumes "mc_pending_large c = None"
    and "my_decode c (write_packet_chunked payload seq @ rest) = (Ok (Some m), c', rest')"
    and "passthrough m"
  shows "rest' = rest \<and> snd (my_encode other_leg m) = write_packet_chunked payload seq"
  using assms by (rule forward_verbatim)

theorem mysql_forwards_verbatim_witness:
  "snd (my_encode new_server (MOk \<lparr>ok_sequence_id = 1, ok_affected_rows = 1, ok_last_insert_id = 0,
     ok_status_flags = 0, ok_warnings = 0, ok_info = [2, 0, 0, 0], ok_raw = [0, 1, 0, 2, 0, 0, 0]\<rparr>))
   = write_packet_chunked [0, 1, 0, 2, 0, 0, 0] 1"
proof -
  have d: "my_decode (set_command_state new_client) (write_packet_chunked [0, 1, 0, 2, 0, 0, 0] 1 @ []) =
    (Ok (Some (MOk \<lparr>ok_sequence_id = 1, ok_affected_rows = 1, ok_last_insert_id = 0,
     ok_status_flags = 0, ok_warnings = 0, ok_info = [2, 0, 0, 0], ok_raw = [0, 1, 0, 2, 0, 0, 0]\<rparr>)),
     set_command_state new_client, [])"
    by (subst my_decode_chunked, simp add: set_command_state_def new_client_def)
       (simp add: set_command_state_def new_client_def dispatch_def dispatch_command_def command_reply_def
         parse_ok_packet_def take_lenenc_def read_lenenc_int_def advance_def has_def CLIENT_PROTOCOL_41_def)
  from mysql_forwards_verbatim [OF _ d] show ?thesis
    by (simp add: set_command_state_def new_client_def)
qed

text \<open>Inside a result set the codec faces the server and the columns left to read are between one
  and the announced count, itself below 4096; decoding a stream, encoding a message and the
  session's resets keep it so, from every constructor.\<close>
theorem mysql_codec_invariant:
  "(codec_inv c \<longrightarrow> drain_all my_decode c b = (ms, st, c', b') \<longrightarrow> codec_inv c')
   \<and> (codec_inv c \<longrightarrow> codec_inv (fst (my_encode c m)) \<and> codec_inv (set_capability_flags caps c))
   \<and> codec_inv (set_command_state c) \<and> codec_inv (set_auth_response_state c)
   \<and> codec_inv new_server \<and> codec_inv new_client \<and> codec_inv new_server_awaiting_command
   \<and> codec_inv (new_server_awaiting_handshake_response caps) \<and> codec_inv (new_client_awaiting_auth caps)"
  unfolding drain_all_def by (simp del: drain.simps) (blast intro: my_drain_inv my_encode_inv)

theorem mysql_codec_invariant_witness:
  "codec_inv (new_client\<lparr>mc_state := ReadingColumns 2, mc_column_count := 3\<rparr>)
   \<and> codec_inv (fst (my_encode (new_client\<lparr>mc_state := ReadingColumns 2, mc_column_count := 3\<rparr>) (MEof example_eof)))"
  using mysql_codec_invariant [of "new_client\<lparr>mc_state := ReadingColumns 2, mc_column_count := 3\<rparr>" "[]"]
  by (simp add: codec_inv_def new_client_def)

text \<open>While a client authenticates, its reply is handed on as it is, whatever its bytes: a
  scramble that starts like a query, an OK or an error is not interpreted as one.\<close>
theorem mysql_auth_reply_is_opaque:
  assumes "\<not> mc_is_client_side c" "mc_pending_large c = None"
  shows "my_decode (set_auth_response_state c) (write_packet_chunked reply seq @ rest) =
    (Ok (Some (MGeneric \<lparr>gp_sequence_id = seq, gp_payload = reply\<rparr>)), set_auth_response_state c, rest)"
  using assms
  by (simp add: my_decode_chunked set_auth_response_state_def dispatch_def dispatch_auth_response_def)

theorem mysql_auth_reply_is_opaque_witness:
  "my_decode (set_auth_response_state new_server) (write_packet_chunked [3, 0x53] 1 @ []) =
    (Ok (Some (MGeneric \<lparr>gp_sequence_id = 1, gp_payload = [3, 0x53]\<rparr>)), set_auth_response_state new_server, [])"
  by (rule mysql_auth_reply_is_opaque) (simp_all add: new_server_def)

lemma decode_encoded_query:
  assumes "mc_state c = Command" "\<not> mc_is_client_side c" "mc_pending_large c = None"
    and "1 + length (qp_query q) < 0xffffff"
  shows "my_decode c (encode_query q @ rest) = (Ok (Some (MQuery q)), c, rest)"
proof -
  have "encode_query q = write_packet_chunked (0x03 # qp_query q) (qp_sequence_id q)"
    using assms(4) by (simp add: write_chunk_last encode_query_def)
  with assms show ?thesis
    by (simp add: my_decode_chunked dispatch_def dispatch_command_def)
qed

text \<open>A query is forwarded whole as long as it fits one frame. At 0xFFFFFE bytes it does not: the
  client's two frames are reassembled, but \<^verbatim>\<open>encode_query\<close> writes one frame whose header
  announces a continuation that never comes, so the receiver waits.\<close>
theorem mysql_query_forwarding:
  assumes "mc_state c = Command" "\<not> mc_is_client_side c" "mc_pending_large c = None"
  shows "(1 + length (qp_query q) < 0xffffff \<longrightarrow>
      my_decode c (encode_query q @ rest) = (Ok (Some (MQuery q)), c, rest))
    \<and> (1 + length (qp_query q) = 0xffffff \<longrightarrow>
      my_decode c (write_packet_chunked (0x03 # qp_query q) (qp_sequence_id q)) = (Ok (Some (MQuery q)), c, [])
      \<and> fst (my_decode c (encode_query q)) = Ok None)"
proof (intro conjI impI)
  assume "1 + length (qp_query q) < 0xffffff"
  with assms show "my_decode c (encode_query q @ rest) = (Ok (Some (MQuery q)), c, rest)"
    by (rule decode_encoded_query)
next
  assume "1 + length (qp_query q) = 0xffffff"
  show "my_decode c (write_packet_chunked (0x03 # qp_query q) (qp_sequence_id q)) = (Ok (Some (MQuery q)), c, [])"
    using my_decode_chunked [OF assms(3), of "0x03 # qp_query q" "qp_sequence_id q" "[]"] assms(1,2)
    by (simp add: dispatch_def dispatch_command_def)
next
  assume len: "1 + length (qp_query q) = 0xffffff"
  then have len': "length (0x03 # qp_query q) = 0xffffff" by simp
  have "encode_query q = write_packet_header 0xffffff (qp_sequence_id q) @ (0x03 # qp_query q) @ []"
    using len by (simp add: encode_query_def)
  then show "fst (my_decode c (encode_query q)) = Ok None"
    by (simp only: my_decode_chunk [OF len']) (simp add: my_decode_short short_def)
qed

theorem mysql_query_forwarding_witness:
  "my_decode new_server_awaiting_command (encode_query \<lparr>qp_sequence_id = 0, qp_query = [0x53]\<rparr> @ []) =
     (Ok (Some (MQuery \<lparr>qp_sequence_id = 0, qp_query = [0x53]\<rparr>)), new_server_awaiting_command, [])
   \<and> fst (my_decode new_server_awaiting_command
       (encode_query \<lparr>qp_sequence_id = 0, qp_query = replicate 0xfffffe 0x20\<rparr>)) = Ok None"
proof -
  have "mc_state new_server_awaiting_command = Command" "\<not> mc_is_client_side new_server_awaiting_command"
    "mc_pending_large new_server_awaiting_command = None"
    by (simp_all add: new_server_awaiting_command_def)
  note facts = mysql_query_forwarding [OF this]
  show ?thesis
    using facts [of "\<lparr>qp_sequence_id = 0, qp_query = [0x53]\<rparr>" "[]"]
      facts [of "\<lparr>qp_sequence_id = 0, qp_query = replicate 0xfffffe 0x20\<rparr>" "[]"]
    by simp
qed

end
