(* ===== verification/Session_Util.thy ===== *)
theory Session_Util
  imports State Pg_Stream MySql_Stream
begin

text \<open>
  What the two session handlers of \<^verbatim>\<open>src/src/main.rs\<close> share: a leg of a connection (a \<^verbatim>\<open>Framed\<close>
  socket), the deadline on a step of the login, the redaction of logged SQL, the timeouts and
  the error packets the proxy writes itself.

  A leg is the codec, the bytes read and not yet decoded, and the reads still to come, the end of
  that list being the end of the stream. \<open>lg_out\<close> is what has been written, in order, each write
  with the message it encodes and whether the leg was under TLS. A write that fails ends the
  session there, so a run of the code is a prefix of the run here.
\<close>

section \<open>Legs\<close>

text \<open>\<^verbatim>\<open>Framed::next\<close>: decode what is buffered, read on while the codec waits; at the end of the
  stream left-over bytes are an error.\<close>

fun next_read :: "('s, 'm) decoder \<Rightarrow> 's \<Rightarrow> byte list \<Rightarrow> byte list list
    \<Rightarrow> 'm option result \<times> 's \<times> byte list \<times> byte list list" where
  "next_read dec s b [] =
     (case dec s b of
        (Ok None, s', b') \<Rightarrow> (if b' = [] then Ok None else bail ''bytes remaining on stream'', s', b', [])
      | (r, s', b') \<Rightarrow> (r, s', b', []))"
| "next_read dec s b (c # cs) =
     (case dec s b of
        (Ok None, s', b') \<Rightarrow> next_read dec s' (b' @ c) cs
      | (r, s', b') \<Rightarrow> (r, s', b', c # cs))"

datatype 'm sent = Msg 'm "byte list" | Raw "byte list"

fun sent_bytes :: "'m sent \<Rightarrow> byte list" where
  "sent_bytes (Msg m bs) = bs"
| "sent_bytes (Raw bs) = bs"

record ('s, 'm) leg =
  lg_codec :: 's
  lg_buf :: "byte list"
  lg_in :: "byte list list"
  lg_tls :: bool
  lg_out :: "(bool \<times> 'm sent) list"

definition new_leg :: "'s \<Rightarrow> byte list list \<Rightarrow> bool \<Rightarrow> ('s, 'm) leg" where
  "new_leg codec reads tls =
     \<lparr>lg_codec = codec, lg_buf = [], lg_in = reads, lg_tls = tls, lg_out = []\<rparr>"

definition leg_next :: "('s, 'm) decoder \<Rightarrow> ('s, 'm) leg \<Rightarrow> 'm option result \<times> ('s, 'm) leg" where
  "leg_next dec l =
     (case next_read dec (lg_codec l) (lg_buf l) (lg_in l) of
        (r, s, b, cs) \<Rightarrow> (r, l\<lparr>lg_codec := s, lg_buf := b, lg_in := cs\<rparr>))"

text \<open>The bytes that have yet to be decoded, and the messages in them.\<close>

definition leg_rest :: "('s, 'm) leg \<Rightarrow> byte list" where
  "leg_rest l = lg_buf l @ concat (lg_in l)"

definition leg_messages :: "('s, 'm) decoder \<Rightarrow> ('s, 'm) leg \<Rightarrow> 'm list" where
  "leg_messages dec l = fst (drain_all dec (lg_codec l) (leg_rest l))"

definition write_sent :: "'m sent \<Rightarrow> ('s, 'm) leg \<Rightarrow> ('s, 'm) leg" where
  "write_sent w l = l\<lparr>lg_out := lg_out l @ [(lg_tls l, w)]\<rparr>"

definition written :: "('s, 'm) leg \<Rightarrow> byte list" where
  "written l = concat (map (\<lambda>(_, w). sent_bytes w) (lg_out l))"

type_synonym pg_leg = "(pg_codec, pg_msg) leg"
type_synonym my_leg = "(my_codec, my_msg) leg"

definition pg_send :: "pg_msg \<Rightarrow> pg_leg \<Rightarrow> pg_leg" where
  "pg_send m l = write_sent (Msg m (pg_encode m)) l"

lemma write_frame [simp]:
  "lg_codec (write_sent w l) = lg_codec l" "leg_rest (write_sent w l) = leg_rest l"
  "lg_tls (write_sent w l) = lg_tls l" "lg_out (write_sent w l) = lg_out l @ [(lg_tls l, w)]"
  "leg_messages dec (write_sent w l) = leg_messages dec l"
  by (simp_all add: write_sent_def leg_rest_def leg_messages_def)

definition my_send :: "my_msg \<Rightarrow> my_leg \<Rightarrow> my_leg" where
  "my_send m l =
     (case my_encode (lg_codec l) m of (c, bs) \<Rightarrow> write_sent (Msg m bs) (l\<lparr>lg_codec := c\<rparr>))"

text \<open>The messages among the writes.\<close>

fun sent_messages :: "(bool \<times> 'm sent) list \<Rightarrow> 'm list" where
  "sent_messages [] = []"
| "sent_messages ((tls, Msg m bs) # ws) = m # sent_messages ws"
| "sent_messages ((tls, Raw bs) # ws) = sent_messages ws"

lemma sent_messages_append [simp]: "sent_messages (xs @ ys) = sent_messages xs @ sent_messages ys"
  by (induction xs rule: sent_messages.induct) simp_all

text \<open>Whatever is written to a leg later is written under the same protection.\<close>

definition writes_on :: "('s, 'm) leg \<Rightarrow> ('s, 'm) leg \<Rightarrow> bool" where
  "writes_on l l' \<longleftrightarrow> lg_tls l' = lg_tls l
     \<and> (\<exists>ws. lg_out l' = lg_out l @ ws \<and> (\<forall>(tls, w) \<in> set ws. tls = lg_tls l))"

lemma writes_on_refl [simp]: "writes_on l l" "writes_on l (l\<lparr>lg_codec := c\<rparr>)"
  "lg_tls l' = lg_tls l \<and> lg_out l' = lg_out l \<Longrightarrow> writes_on l l'"
  by (simp_all add: writes_on_def)

lemma writes_on_trans: "writes_on a b \<Longrightarrow> writes_on b c \<Longrightarrow> writes_on a c"
  by (force simp: writes_on_def)

lemma writes_on_write [simp]: "writes_on l (write_sent w l)" "writes_on k (pg_send m k)" "writes_on j (my_send n j)"
  by (simp_all add: writes_on_def pg_send_def my_send_def split: prod.split)

text \<open>How the reads cut the stream does not matter to what \<^verbatim>\<open>next\<close> returns.\<close>

context stream_decoder
begin

lemma next_read_concat:
  "next_read dec s b cs = (r, s', b', cs') \<Longrightarrow>
   next_read dec s (b @ concat cs) [] = (r, s', b' @ concat cs', [])"
proof (induction cs arbitrary: s b)
  case Nil
  then show ?case by (auto split: prod.splits result.splits option.splits if_splits)
next
  case (Cons c cs)
  show ?case
  proof (cases rule: dec_cases [of s b])
    case (wait t d)
    with Cons.prems have "next_read dec t (d @ c) cs = (r, s', b', cs')" by simp
    then have "next_read dec t ((d @ c) @ concat cs) [] = (r, s', b' @ concat cs', [])" by (rule Cons.IH)
    with dec_waits [OF wait, of "c @ concat cs"] show ?thesis by simp
  next
    case (item m t d)
    from dec_item [OF this, of "c @ concat cs"] item Cons.prems show ?thesis by auto
  next
    case (fail e t d)
    from dec_fails [OF this, of "c @ concat cs"] fail Cons.prems show ?thesis by auto
  qed
qed

lemma next_read_Some:
  "next_read dec s b [] = (Ok (Some m), s', b', cs') \<longleftrightarrow> dec s b = (Ok (Some m), s', b') \<and> cs' = []"
  by (cases rule: dec_cases [of s b]) (auto split: if_splits)

lemma next_read_rest:
  assumes "next_read dec s b cs = (Ok (Some m), s', b', cs')"
  shows "dec s (b @ concat cs) = (Ok (Some m), s', b' @ concat cs')"
  using next_read_concat [OF assms] by (simp only: next_read_Some)

lemma next_read_item:
  assumes "dec s (b @ concat cs) = (Ok (Some m), s', x)"
  obtains b' cs' where "next_read dec s b cs = (Ok (Some m), s', b', cs')" "b' @ concat cs' = x"
proof -
  obtain r t b' cs' where n: "next_read dec s b cs = (r, t, b', cs')" by (metis prod_cases4)
  from next_read_concat [OF this] assms have "r = Ok (Some m)" "t = s'" "b' @ concat cs' = x" by auto
  with n that show ?thesis by blast
qed

lemma next_read_no_panic: "fst (next_read dec s b cs) \<noteq> Panic"
  by (induction cs arbitrary: s b)
     (use never_panics in \<open>auto split: prod.splits result.splits option.splits; metis fst_conv\<close>)+

lemma leg_next_rest:
  assumes "leg_next dec l = (Ok (Some m), l')"
  shows "dec (lg_codec l) (leg_rest l) = (Ok (Some m), lg_codec l', leg_rest l')"
    and "lg_tls l' = lg_tls l" "lg_out l' = lg_out l"
  using assms next_read_rest by (auto simp: leg_next_def leg_rest_def split: prod.splits)

lemma leg_next_item:
  assumes "dec (lg_codec l) (leg_rest l) = (Ok (Some m), s', x)"
  obtains l' where "leg_next dec l = (Ok (Some m), l')" "lg_codec l' = s'" "leg_rest l' = x"
    "lg_tls l' = lg_tls l" "lg_out l' = lg_out l"
proof -
  from assms obtain b' cs' where "next_read dec (lg_codec l) (lg_buf l) (lg_in l) = (Ok (Some m), s', b', cs')"
    "b' @ concat cs' = x" unfolding leg_rest_def by (rule next_read_item)
  then show ?thesis
    by (intro that [of "l\<lparr>lg_codec := s', lg_buf := b', lg_in := cs'\<rparr>"])
       (simp_all add: leg_next_def leg_rest_def)
qed

lemma leg_next_shrinks: "leg_next dec l = (Ok (Some m), l') \<Longrightarrow> length (leg_rest l') < length (leg_rest l)"
  using leg_next_rest(1) item_shrinks by blast

lemma leg_next_drain:
  "leg_next dec l = (Ok (Some m), l') \<Longrightarrow> leg_messages dec l = m # leg_messages dec l'"
  using leg_next_rest(1) [of l m l']
  by (simp add: leg_messages_def drain_all_unfold [of "lg_codec l"] prepend_def)

text \<open>What is there to be read is read message by message.\<close>

lemma leg_messages_next:
  assumes "leg_messages dec l = m # ms"
  obtains l' where "leg_next dec l = (Ok (Some m), l')" "leg_messages dec l' = ms"
    "lg_tls l' = lg_tls l" "lg_out l' = lg_out l"
proof (cases rule: dec_cases [of "lg_codec l" "leg_rest l"])
  case (item n s' x)
  from leg_next_item [OF this] obtain l' where l': "leg_next dec l = (Ok (Some n), l')"
    "lg_tls l' = lg_tls l" "lg_out l' = lg_out l" by metis
  from leg_next_drain [OF l'(1)] assms have "n = m" "leg_messages dec l' = ms" by simp_all
  with l' that show ?thesis by blast
qed (use assms in \<open>simp_all add: leg_messages_def drain_all_unfold [of "lg_codec l"]\<close>)

lemma leg_next_frame:
  "leg_next dec l = (r, l') \<Longrightarrow> lg_tls l' = lg_tls l \<and> lg_out l' = lg_out l"
  by (auto simp: leg_next_def split: prod.splits)

lemma leg_next_writes: "leg_next dec l = (r, l') \<Longrightarrow> writes_on l l'"
  using leg_next_frame by (simp add: writes_on_def)

lemma leg_next_no_panic: "fst (leg_next dec l) \<noteq> Panic"
  using next_read_no_panic [of "lg_codec l" "lg_buf l" "lg_in l"]
  by (auto simp: leg_next_def split: prod.splits)

end

section \<open>Steps of the login\<close>

text \<open>How waiting for a step can end: with its result, at \<^verbatim>\<open>HANDSHAKE_DEADLINE\<close>, or because the
  proxy is shutting down.\<close>

datatype wait_end = Done | Deadline | Shutdown

definition HANDSHAKE_DEADLINE :: nat where "HANDSHAKE_DEADLINE = 15"

definition auth_step :: "wait_end \<Rightarrow> string \<Rightarrow> 'a \<Rightarrow> 'a result" where
  "auth_step w what fut =
     (case w of
        Shutdown \<Rightarrow> bail (''proxy is shutting down while waiting for '' @ what)
      | Done \<Rightarrow> Ok fut
      | Deadline \<Rightarrow> bail (what @ '' timed out''))"

section \<open>Redaction of logged SQL\<close>

text \<open>The loop over the characters of a literal after its opening quote: what is left behind it.\<close>

fun skip_literal :: "char \<Rightarrow> bool \<Rightarrow> string \<Rightarrow> string" where
  "skip_literal q escaped [] = []"
| "skip_literal q True (n # cs) = skip_literal q False cs"
| "skip_literal q False (n # cs) =
     (if n = CHR 0x5C then skip_literal q True cs
      else if n = q then
        (case cs of
           c # cs' \<Rightarrow> if c = q then skip_literal q False cs' else cs
         | [] \<Rightarrow> [])
      else skip_literal q False cs)"

lemma length_skip_literal: "length (skip_literal q e s) \<le> length s"
proof (induction q e s rule: skip_literal.induct)
  case (3 q n cs)
  then show ?case by (cases cs; cases "n = CHR 0x5C") (auto simp: le_Suc_eq)
qed simp_all

function redact_sql_literals :: "string \<Rightarrow> bool \<Rightarrow> string" where
  "redact_sql_literals [] double_quoted_is_string = []"
| "redact_sql_literals (c # cs) double_quoted_is_string =
     (if c = CHR 0x27 \<or> (double_quoted_is_string \<and> c = CHR 0x22)
      then [c, CHR ''?'', c] @ redact_sql_literals (skip_literal c False cs) double_quoted_is_string
      else c # redact_sql_literals cs double_quoted_is_string)"
  by pat_completeness auto
termination
  by (relation "measure (\<lambda>(s, _). length s)") (auto simp: length_skip_literal le_imp_less_Suc)

section \<open>Timeouts\<close>

definition resolve_timeout_limits :: "limits_config option \<Rightarrow> u64 \<times> u64 \<times> u64" where
  "resolve_timeout_limits limits =
     (case limits of
        None \<Rightarrow> (30, 300, 5)
      | Some l \<Rightarrow> (lc_connect_timeout_secs l, lc_idle_timeout_secs l, lc_upstream_pool_wait_timeout_secs l))"

text \<open>What connecting to the upstream came to; the error of a refused connection is the socket's.\<close>

datatype 'c connect_end = Connected 'c | Refused error | Timed_Out

definition connect_upstream_with_timeout :: "u64 \<Rightarrow> 'c connect_end \<Rightarrow> 'c result \<times> metric_call list" where
  "connect_upstream_with_timeout connect_timeout r =
     (case r of
        Connected socket \<Rightarrow> (Ok socket, [])
      | Refused e \<Rightarrow> (Err e, [])
      | Timed_Out \<Rightarrow> (Err (Bail ''Upstream connection timeout after {:?}'' [unat connect_timeout]), record_upstream_timeout))"

section \<open>Error packets\<close>

definition push_field :: "byte \<Rightarrow> string \<Rightarrow> byte list" where
  "push_field key value = [key] @ bytes_of_str value @ [0]"

definition build_postgres_fatal_error_packet :: "string \<Rightarrow> string \<Rightarrow> byte list" where
  "build_postgres_fatal_error_packet sqlstate message =
     (let payload = push_field 0x53 ''FATAL'' @ push_field 0x56 ''FATAL'' @ push_field 0x43 sqlstate
            @ push_field 0x4D message @ [0]
      in [0x45] @ put_u32 (of_nat (length payload + 4)) @ payload)"

definition build_postgres_fatal_regular_message :: "string \<Rightarrow> string \<Rightarrow> pg_regular" where
  "build_postgres_fatal_regular_message sqlstate message =
     \<lparr>pr_message_type = 0x45,
      pr_payload = concat (map (\<lambda>(key, value). [key] @ bytes_of_str value @ [0])
          [(0x53, ''FATAL''), (0x56, ''FATAL''), (0x43, sqlstate), (0x4D, message)]) @ [0]\<rparr>"

definition build_mysql_err_packet :: "u16 \<Rightarrow> string \<Rightarrow> string \<Rightarrow> byte list" where
  "build_mysql_err_packet error_code sql_state message =
     (let provided = bytes_of_str sql_state;
          state = (if length provided = 5 then provided else bytes_of_str ''HY000'');
          payload = [0xFF] @ put_u16_le error_code @ [0x23] @ state @ bytes_of_str message;
          len = length payload
      in [of_nat (len AND 0xFF), of_nat (drop_bit 8 len AND 0xFF), of_nat (drop_bit 16 len AND 0xFF), 0]
         @ payload)"

section \<open>Redaction, against the grammar of literals\<close>

text \<open>
  A statement as its lexer sees it: text without quotes, and literals made of ordinary
  characters, backslash escapes and doubled quotes. \<open>no_quote_next\<close> says that a literal is not
  followed at once by its own quote, which would read as a doubled one.
\<close>

datatype lit_unit = Ordinary char | Backslashed char | Doubled

datatype sql_part = Plain string | Literal char "lit_unit list"

fun unit_text :: "char \<Rightarrow> lit_unit \<Rightarrow> string" where
  "unit_text q (Ordinary c) = [c]"
| "unit_text q (Backslashed c) = [CHR 0x5C, c]"
| "unit_text q Doubled = [q, q]"

definition body_text :: "char \<Rightarrow> lit_unit list \<Rightarrow> string" where
  "body_text q us = concat (map (unit_text q) us)"

fun part_text :: "sql_part \<Rightarrow> string" where
  "part_text (Plain s) = s"
| "part_text (Literal q us) = q # body_text q us @ [q]"

definition sql_text :: "sql_part list \<Rightarrow> string" where
  "sql_text ps = concat (map part_text ps)"

fun redacted_part :: "sql_part \<Rightarrow> string" where
  "redacted_part (Plain s) = s"
| "redacted_part (Literal q us) = [q, CHR ''?'', q]"

definition is_quote :: "bool \<Rightarrow> char \<Rightarrow> bool" where
  "is_quote dq q \<longleftrightarrow> q = CHR 0x27 \<or> (dq \<and> q = CHR 0x22)"

fun unit_ok :: "char \<Rightarrow> lit_unit \<Rightarrow> bool" where
  "unit_ok q (Ordinary c) \<longleftrightarrow> c \<noteq> q \<and> c \<noteq> CHR 0x5C"
| "unit_ok q u \<longleftrightarrow> True"

fun part_ok :: "bool \<Rightarrow> sql_part \<Rightarrow> bool" where
  "part_ok dq (Plain s) \<longleftrightarrow> list_all (\<lambda>c. \<not> is_quote dq c) s"
| "part_ok dq (Literal q us) \<longleftrightarrow> is_quote dq q \<and> list_all (unit_ok q) us"

fun no_quote_next :: "sql_part list \<Rightarrow> string \<Rightarrow> bool" where
  "no_quote_next [] end = True"
| "no_quote_next (Plain s # ps) end = no_quote_next ps end"
| "no_quote_next (Literal q us # ps) end \<longleftrightarrow>
     take 1 (sql_text ps @ end) \<noteq> [q] \<and> no_quote_next ps end"

text \<open>A literal that is never closed, up to the end of the statement.\<close>

fun open_literal :: "bool \<Rightarrow> string \<Rightarrow> bool" where
  "open_literal dq [] = False"
| "open_literal dq (q # s) \<longleftrightarrow> is_quote dq q \<and> (\<exists>us. s = body_text q us \<and> list_all (unit_ok q) us)"

lemma backslash_no_quote: "is_quote dq q \<Longrightarrow> q \<noteq> CHR 0x5C"
  by (auto simp: is_quote_def)

lemma skip_body:
  assumes "q \<noteq> CHR 0x5C" "list_all (unit_ok q) us"
  shows "skip_literal q False (body_text q us @ r) = skip_literal q False r"
  using assms(2)
proof (induction us)
  case (Cons u us)
  then show ?case using assms(1) by (cases u) (simp_all add: body_text_def)
qed (simp add: body_text_def)

lemma skip_closed:
  "q \<noteq> CHR 0x5C \<Longrightarrow> list_all (unit_ok q) us \<Longrightarrow> take 1 r \<noteq> [q] \<Longrightarrow>
   skip_literal q False (body_text q us @ q # r) = r"
  by (cases r) (auto simp: skip_body)

lemma redact_plain:
  "list_all (\<lambda>c. \<not> is_quote dq c) s \<Longrightarrow> redact_sql_literals (s @ r) dq = s @ redact_sql_literals r dq"
  by (induction s) (auto simp: is_quote_def)

lemma redact_open: "open_literal dq s \<Longrightarrow> redact_sql_literals s dq = [hd s, CHR ''?'', hd s]"
  using skip_body [of "hd s" _ "[]"]
  by (cases s) (auto simp: is_quote_def)

lemma redact_parts:
  "list_all (part_ok dq) ps \<Longrightarrow> no_quote_next ps tail \<Longrightarrow>
   redact_sql_literals (sql_text ps @ tail) dq = concat (map redacted_part ps) @ redact_sql_literals tail dq"
proof (induction ps)
  case (Cons p ps)
  show ?case
  proof (cases p)
    case (Plain s)
    with Cons show ?thesis by (simp add: sql_text_def redact_plain)
  next
    case (Literal q us)
    with Cons.prems have "is_quote dq q" "list_all (unit_ok q) us" "take 1 (sql_text ps @ tail) \<noteq> [q]" by simp_all
    then have "skip_literal q False (body_text q us @ q # sql_text ps @ tail) = sql_text ps @ tail"
      using backslash_no_quote skip_closed by blast
    with Cons Literal \<open>is_quote dq q\<close> show ?thesis by (simp add: sql_text_def is_quote_def)
  qed
qed (simp add: sql_text_def)

text \<open>C39: The log entry of a statement holds no character of a string literal: every literal, with
  its backslash escapes and doubled quotes, is replaced by a quoted question mark, the text
  between literals is kept, and a literal left open swallows the rest of the statement. Double
  quotes open a literal exactly when the caller says so.\<close>

theorem redaction_hides_literals:
  assumes "list_all (part_ok dq) ps" "no_quote_next ps tail" "tail = [] \<or> open_literal dq tail"
  shows "redact_sql_literals (sql_text ps @ tail) dq =
     concat (map redacted_part ps) @ (if tail = [] then [] else [hd tail, CHR ''?'', hd tail])"
  using assms redact_parts [of dq ps tail] redact_open [of dq tail] by auto

theorem redaction_hides_literals_witness:
  "redact_sql_literals (''SELECT '' @ [CHR 0x22] @ ''a'' @ [CHR 0x5C, CHR 0x22] @ ''b'' @ [CHR 0x22] @ '', '' @ [CHR 0x27] @ ''x'') True
   = ''SELECT '' @ [CHR 0x22, CHR ''?'', CHR 0x22] @ '', '' @ [CHR 0x27, CHR ''?'', CHR 0x27]"
proof -
  have "open_literal True ([CHR 0x27] @ ''x'')"
    by (simp add: is_quote_def body_text_def) (rule exI [of _ "[Ordinary (CHR ''x'')]"], simp)
  then show ?thesis
    using redaction_hides_literals [of True
        "[Plain ''SELECT '', Literal (CHR 0x22) [Ordinary (CHR ''a''), Backslashed (CHR 0x22), Ordinary (CHR ''b'')], Plain '', '']"
        "[CHR 0x27] @ ''x''"]
    by (simp add: is_quote_def sql_text_def body_text_def)
qed

text \<open>Where a backslash is an ordinary character, as in a standard-conforming PostgreSQL string, the
  literal ends earlier than the redaction believes, and the next one is logged in clear; so is
  the body of a dollar-quoted string.\<close>

theorem postgres_literals_logged:
  "redact_sql_literals ([CHR 0x27] @ ''a'' @ [CHR 0x5C, CHR 0x27] @ '', '' @ [CHR 0x27] @ ''secret'' @ [CHR 0x27]) False
     = [CHR 0x27, CHR ''?'', CHR 0x27] @ ''secret'' @ [CHR 0x27, CHR ''?'', CHR 0x27]
   \<and> redact_sql_literals ''$$secret$$'' False = ''$$secret$$''"
  by simp

section \<open>Before the codec\<close>

text \<open>\<^verbatim>\<open>read_exact\<close> on a socket that has no codec yet.\<close>

definition read_exact :: "nat \<Rightarrow> byte list list \<Rightarrow> (byte list \<times> byte list list) result" where
  "read_exact n reads =
     (if n \<le> length (concat reads) then Ok (take n (concat reads), [drop n (concat reads)])
      else bail ''early eof'')"

datatype upstream_pool_acquire_error = Closed | Timeout

text \<open>The message both protocols send when no upstream slot came free.\<close>

definition pool_timeout_message :: "u64 \<Rightarrow> string" where
  "pool_timeout_message wait_timeout =
     ''upstream pool is at capacity; timed out after '' @ show_nat (unat wait_timeout)
     @ ''s waiting for an available slot''"

section \<open>Turns and statements\<close>

text \<open>A ready leg comes with the log id and the time its message is stamped with.\<close>

type_synonym stamp = "string \<times> nat"

datatype turn =
    Client_Ready stamp
  | Upstream_Ready stamp
  | Cancelled
  | Idle_Timeout
  | Elsewhere app_state

text \<open>What a session does to the shared state for a statement: a redacted log entry and a count.
\<close>

definition query_type :: "string \<Rightarrow> string" where
  "query_type query = to_uppercase (case first_token query of Some t \<Rightarrow> t | None \<Rightarrow> ''OTHER'')"

definition log_statement :: "stamp \<Rightarrow> nat \<Rightarrow> string \<Rightarrow> byte list \<Rightarrow> bool \<Rightarrow> app_state \<Rightarrow> app_state" where
  "log_statement stamp connection_id event_type query dq s =
     (let query_str = from_utf8_lossy query in
      record_query (query_type query_str)
        (add_log \<lparr>le_id = fst stamp, le_timestamp = snd stamp, le_connection_id = connection_id,
           le_event_type = event_type, le_content = redact_sql_literals query_str dq,
           le_details = None\<rparr> s))"

lemma log_statement_config [simp]: "as_config (log_statement st c k q dq s) = as_config s"
  by (simp add: log_statement_def Let_def record_query_def)

text \<open>The two ways to write a fatal PostgreSQL error agree, on an open socket and through the codec.\<close>

lemma fatal_error_encodings:
  "build_postgres_fatal_error_packet sqlstate message = pg_encode (PRegular (build_postgres_fatal_regular_message sqlstate message))"
  by (simp add: build_postgres_fatal_error_packet_def build_postgres_fatal_regular_message_def push_field_def Let_def)

section \<open>The loop of a session\<close>

text \<open>Both sessions end in a loop of turns that goes on until a turn returns a result. What every turn
  keeps, the loop keeps, and a result of the loop is one of a turn.\<close>

locale session_loop =
  fixes turn :: "'t \<Rightarrow> 's \<Rightarrow> 'r option \<times> 's" and run :: "'t list \<Rightarrow> 's \<Rightarrow> 'r option \<times> 's"
  assumes run_Nil: "run [] s = (None, s)"
    and run_Cons: "run (t # ts) s = (case turn t s of (None, s') \<Rightarrow> run ts s' | (Some r, s') \<Rightarrow> (Some r, s'))"
begin

lemma run_preserves:
  assumes "run ts s = (q, s')"
    and step: "\<And>t a q b. turn t a = (q, b) \<Longrightarrow> R a b"
    and refl: "\<And>a. R a a" and trans: "\<And>a b c. R a b \<Longrightarrow> R b c \<Longrightarrow> R a c"
  shows "R s s'"
  using assms(1)
proof (induction ts arbitrary: s)
  case (Cons t ts)
  obtain p b where b: "turn t s = (p, b)" by fastforce
  have "R b s'" using Cons b refl by (cases p) (auto simp: run_Cons)
  with step [OF b] show ?case by (rule trans)
qed (simp add: run_Nil refl)

lemma run_ends_in_turn:
  "run ts s = (Some r, s') \<Longrightarrow> \<exists>t b. turn t b = (Some r, s')"
  by (induction ts arbitrary: s) (auto simp: run_Nil run_Cons split: prod.splits option.splits)

lemma run_append:
  "run (xs @ ys) s = (case run xs s of (None, s') \<Rightarrow> run ys s' | (Some r, s') \<Rightarrow> (Some r, s'))"
  by (induction xs arbitrary: s) (auto simp: run_Nil run_Cons split: prod.splits option.splits)

end

end
