(* ===== verification/Auth.thy ===== *)
theory Auth
  imports MySql_Types
begin

text \<open>
  MySQL authentication, \<^verbatim>\<open>src/src/auth.rs\<close>: the scrambles of the two plugins and their
  verification, nonces, the packets of the exchange and the encrypted password of full
  authentication. The digests (sha1, sha2), RSA-OAEP and the PEM reader (aws-lc-rs,
  rustls-pemfile) and the random generator are parameters; of the digests the lemmas use their
  length only, of RSA that decryption inverts encryption.
\<close>

section \<open>Plugins\<close>

definition NONCE_LEN :: nat where "NONCE_LEN = 20"

datatype auth_plugin = CachingSha2Password | MysqlNativePassword

fun plugin_name :: "auth_plugin \<Rightarrow> string" where
  "plugin_name CachingSha2Password = ''caching_sha2_password''"
| "plugin_name MysqlNativePassword = ''mysql_native_password''"

definition plugin_from_name :: "string \<Rightarrow> auth_plugin option" where
  "plugin_from_name name =
     (if name = ''caching_sha2_password'' then Some CachingSha2Password
      else if name = ''mysql_native_password'' then Some MysqlNativePassword else None)"

fun scramble_len :: "auth_plugin \<Rightarrow> nat" where
  "scramble_len CachingSha2Password = 32"
| "scramble_len MysqlNativePassword = 20"

section \<open>Scrambles\<close>

text \<open>The comparison looks at every byte, whatever it has found so far.\<close>

definition constant_time_eq :: "byte list \<Rightarrow> byte list \<Rightarrow> bool" where
  "constant_time_eq a b =
     (if length a \<noteq> length b then False
      else fold (\<lambda>(x, y) diff. diff OR (x XOR y)) (zip a b) 0 = 0)"

definition xor_bytes :: "byte list \<Rightarrow> byte list \<Rightarrow> byte list" where
  "xor_bytes a b = map2 (XOR) a b"

text \<open>The digests of the sha1 and sha2 crates, on the concatenation of the parts.\<close>

record digests =
  dg_sha256 :: "byte list \<Rightarrow> byte list"
  dg_sha1 :: "byte list \<Rightarrow> byte list"

definition sha256_parts :: "digests \<Rightarrow> byte list list \<Rightarrow> byte list" where
  "sha256_parts dg parts = dg_sha256 dg (concat parts)"

definition sha1_parts :: "digests \<Rightarrow> byte list list \<Rightarrow> byte list" where
  "sha1_parts dg parts = dg_sha1 dg (concat parts)"

definition scramble :: "digests \<Rightarrow> auth_plugin \<Rightarrow> string \<Rightarrow> byte list \<Rightarrow> byte list" where
  "scramble dg plugin password nonce =
     (if password = [] then []
      else case plugin of
        CachingSha2Password \<Rightarrow>
          (let stage1 = sha256_parts dg [bytes_of_str password];
               stage2 = sha256_parts dg [stage1];
               token = sha256_parts dg [stage2, nonce]
           in xor_bytes stage1 token)
      | MysqlNativePassword \<Rightarrow>
          (let stage1 = sha1_parts dg [bytes_of_str password];
               stage2 = sha1_parts dg [stage1];
               token = sha1_parts dg [nonce, stage2]
           in xor_bytes stage1 token))"

definition verify_scramble :: "digests \<Rightarrow> auth_plugin \<Rightarrow> string \<Rightarrow> byte list \<Rightarrow> byte list \<Rightarrow> bool" where
  "verify_scramble dg plugin password nonce response =
     (if password = [] then response = []
      else if length response \<noteq> scramble_len plugin then False
      else case plugin of
        CachingSha2Password \<Rightarrow>
          (let stage2 = sha256_parts dg [sha256_parts dg [bytes_of_str password]];
               token = sha256_parts dg [stage2, nonce];
               stage1 = xor_bytes response token
           in constant_time_eq (sha256_parts dg [stage1]) stage2)
      | MysqlNativePassword \<Rightarrow>
          (let stage2 = sha1_parts dg [sha1_parts dg [bytes_of_str password]];
               token = sha1_parts dg [nonce, stage2];
               stage1 = xor_bytes response token
           in constant_time_eq (sha1_parts dg [stage1]) stage2))"

section \<open>Nonces and packets\<close>

text \<open>\<open>draw\<close> gives the random numbers, each in the range the code asks for.\<close>

definition generate_nonce :: "(nat \<Rightarrow> byte) \<Rightarrow> byte list" where
  "generate_nonce draw = map draw [0..<NONCE_LEN]"

text \<open>The loop that pops trailing zero bytes.\<close>

definition pop_nuls :: "byte list \<Rightarrow> byte list" where
  "pop_nuls b = rev (dropWhile (\<lambda>x. x = 0) (rev b))"

definition nonce_from_handshake :: "byte list \<Rightarrow> byte list \<Rightarrow> byte list" where
  "nonce_from_handshake part1 part2 = take NONCE_LEN (pop_nuls (part1 @ part2))"

definition parse_auth_switch_request :: "byte list \<Rightarrow> (string \<times> byte list) result" where
  "parse_auth_switch_request payload =
     (if payload = [] \<or> hd payload \<noteq> 0xfe then bail ''not an AuthSwitchRequest packet''
      else
        let rest = tl payload in
        case find_nul rest of
          None \<Rightarrow> bail ''AuthSwitchRequest has no plugin name terminator''
        | Some nul \<Rightarrow>
            Ok (from_utf8_lossy (take nul rest), take NONCE_LEN (pop_nuls (drop (nul + 1) rest))))"

definition build_auth_switch_request :: "auth_plugin \<Rightarrow> byte list \<Rightarrow> byte list" where
  "build_auth_switch_request plugin nonce = [0xfe] @ bytes_of_str (plugin_name plugin) @ [0] @ nonce @ [0]"

definition build_fast_auth_success :: "byte list" where
  "build_fast_auth_success = [0x01, AUTH_MORE_DATA_FAST_AUTH_SUCCESS]"

definition build_cleartext_password :: "string \<Rightarrow> byte list" where
  "build_cleartext_password password = bytes_of_str password @ [0]"

datatype auth_more_data = FastAuthSuccess | FullAuthRequired | OtherMoreData

definition classify_auth_more_data :: "byte list \<Rightarrow> auth_more_data option" where
  "classify_auth_more_data payload =
     (if payload = [] \<or> hd payload \<noteq> 0x01 then None
      else Some (case tl payload of
          [] \<Rightarrow> OtherMoreData
        | b # _ \<Rightarrow> if b = AUTH_MORE_DATA_FAST_AUTH_SUCCESS then FastAuthSuccess
                   else if b = AUTH_MORE_DATA_FULL_AUTH_REQUIRED then FullAuthRequired
                   else OtherMoreData))"

section \<open>The RSA path\<close>

text \<open>What the code uses of an OAEP public key of aws-lc-rs, and of the readers that build one.\<close>

record oaep_key =
  ok_max_plaintext_size :: nat
  ok_encrypt :: "byte list \<Rightarrow> byte list option"

record rsa_lib =
  rs_public_keys :: "string \<Rightarrow> byte list result option"
  rs_from_der :: "byte list \<Rightarrow> oaep_key result"

record pinned_rsa_key =
  pk_der :: "byte list"

definition parse_rsa_public_key :: "rsa_lib \<Rightarrow> string \<Rightarrow> pinned_rsa_key result" where
  "parse_rsa_public_key lib pem =
     (case rs_public_keys lib pem of
        None \<Rightarrow> bail ''no '-----BEGIN PUBLIC KEY-----' block found''
      | Some (Ok der) \<Rightarrow> rbind (rs_from_der lib der) (\<lambda>_. Ok \<lparr>pk_der = der\<rparr>)
      | Some (Err e) \<Rightarrow> bail ''invalid PEM''
      | Some Panic \<Rightarrow> Panic)"

definition xor_with_nonce :: "byte list \<Rightarrow> byte list \<Rightarrow> byte list" where
  "xor_with_nonce nonce bs = map (\<lambda>(i, b). b XOR nonce ! (i mod length nonce)) (enumerate 0 bs)"

definition build_rsa_encrypted_password :: "rsa_lib \<Rightarrow> pinned_rsa_key \<Rightarrow> string \<Rightarrow> byte list \<Rightarrow> byte list result" where
  "build_rsa_encrypted_password lib pinned password nonce =
     rbind (rs_from_der lib (pk_der pinned)) (\<lambda>key.
       if nonce = [] then bail ''the server sent an empty auth nonce''
       else
         let plaintext = xor_with_nonce nonce (build_cleartext_password password) in
         if ok_max_plaintext_size key < length plaintext then
           bail ''the upstream password is too long for the server's RSA key''
         else case ok_encrypt key plaintext of
           Some ciphertext \<Rightarrow> Ok ciphertext
         | None \<Rightarrow> bail ''RSA encryption of the upstream password failed'')"

section \<open>Lemmas\<close>

lemma word_or_eq_0_iff: "(a :: 'a::len word) OR b = 0 \<longleftrightarrow> a = 0 \<and> b = 0"
  by (auto simp: bit_eq_iff bit_simps)

lemma word_xor_eq_0_iff: "(a :: 'a::len word) XOR b = 0 \<longleftrightarrow> a = b"
  by (auto simp: bit_eq_iff bit_simps)

lemma xor_cancel [simp]: "((a :: 'a::len word) XOR b) XOR b = a"
  by (simp add: xor.assoc)

lemma constant_time_eq_iff [simp]: "constant_time_eq a b \<longleftrightarrow> a = b"
proof -
  have "fold (\<lambda>(x, y) diff. diff OR (x XOR y)) (zip a b) d = 0 \<longleftrightarrow> d = 0 \<and> a = b" if "length a = length b" for d
    using that by (induction a b arbitrary: d rule: list_induct2) (auto simp: word_or_eq_0_iff word_xor_eq_0_iff)
  then show ?thesis by (auto simp: constant_time_eq_def)
qed

lemma length_xor_bytes [simp]: "length (xor_bytes a b) = min (length a) (length b)"
  by (simp add: xor_bytes_def)

lemma xor_bytes_cancel: "length a \<le> length b \<Longrightarrow> xor_bytes (xor_bytes a b) b = a"
proof (induction a arbitrary: b)
  case (Cons x a)
  then show ?case by (cases b) (auto simp: xor_bytes_def)
qed (simp add: xor_bytes_def)

lemma plugin_from_name_name [simp]: "plugin_from_name (plugin_name p) = Some p"
  by (cases p) (simp_all add: plugin_from_name_def)

text \<open>Both plugins are one scheme: a digest, and a token that the digest makes of the nonce and the
  twice digested password. Of the digests only their length is used.\<close>

definition digests_ok :: "digests \<Rightarrow> bool" where
  "digests_ok dg \<longleftrightarrow> (\<forall>x. length (dg_sha256 dg x) = 32) \<and> (\<forall>x. length (dg_sha1 dg x) = 20)"

fun digest_of :: "digests \<Rightarrow> auth_plugin \<Rightarrow> byte list \<Rightarrow> byte list" where
  "digest_of dg CachingSha2Password = dg_sha256 dg"
| "digest_of dg MysqlNativePassword = dg_sha1 dg"

fun token_of :: "digests \<Rightarrow> auth_plugin \<Rightarrow> string \<Rightarrow> byte list \<Rightarrow> byte list" where
  "token_of dg CachingSha2Password pw nonce =
     dg_sha256 dg (dg_sha256 dg (dg_sha256 dg (bytes_of_str pw)) @ nonce)"
| "token_of dg MysqlNativePassword pw nonce =
     dg_sha1 dg (nonce @ dg_sha1 dg (dg_sha1 dg (bytes_of_str pw)))"

lemma scheme_lengths [simp]:
  "digests_ok dg \<Longrightarrow> length (digest_of dg p x) = scramble_len p"
  "digests_ok dg \<Longrightarrow> length (token_of dg p pw nonce) = scramble_len p"
  by (cases p; simp add: digests_ok_def)+

lemma scramble_scheme:
  "pw \<noteq> [] \<Longrightarrow> scramble dg p pw nonce = xor_bytes (digest_of dg p (bytes_of_str pw)) (token_of dg p pw nonce)"
  by (cases p) (simp_all add: scramble_def sha256_parts_def sha1_parts_def Let_def)

lemma verify_scheme:
  "pw \<noteq> [] \<Longrightarrow> verify_scramble dg p pw nonce resp \<longleftrightarrow> length resp = scramble_len p \<and>
     digest_of dg p (xor_bytes resp (token_of dg p pw nonce)) = digest_of dg p (digest_of dg p (bytes_of_str pw))"
  by (cases p) (simp_all add: verify_scramble_def sha256_parts_def sha1_parts_def Let_def)

text \<open>A second preimage of the stored digest: what forging a response amounts to.\<close>

definition second_preimage :: "digests \<Rightarrow> auth_plugin \<Rightarrow> string \<Rightarrow> byte list \<Rightarrow> bool" where
  "second_preimage dg p pw x \<longleftrightarrow> x \<noteq> digest_of dg p (bytes_of_str pw) \<and> length x = scramble_len p
     \<and> digest_of dg p x = digest_of dg p (digest_of dg p (bytes_of_str pw))"

lemma verify_scramble_accepts:
  "digests_ok dg \<Longrightarrow> verify_scramble dg p pw nonce (scramble dg p pw nonce)"
  by (cases "pw = []") (simp add: verify_scramble_def scramble_def, simp add: verify_scheme scramble_scheme xor_bytes_cancel)

lemma verify_scramble_sound:
  assumes "digests_ok dg" "pw \<noteq> []" "verify_scramble dg p pw nonce resp"
  shows "resp = scramble dg p pw nonce
    \<or> second_preimage dg p pw (xor_bytes resp (token_of dg p pw nonce))"
proof -
  let ?x = "xor_bytes resp (token_of dg p pw nonce)"
  have "length resp = scramble_len p" using assms by (simp add: verify_scheme)
  moreover then have "xor_bytes ?x (token_of dg p pw nonce) = resp" using assms(1) by (simp add: xor_bytes_cancel)
  ultimately show ?thesis
    using assms by (auto simp: verify_scheme scramble_scheme second_preimage_def)
qed

lemma xor_bytes_inject:
  assumes "xor_bytes a b = xor_bytes a c" "length b = length a" "length c = length a"
  shows "b = c"
proof -
  have comm: "xor_bytes x y = xor_bytes y x" for x y
    by (induction x y rule: list_induct2') (simp_all add: xor_bytes_def xor.commute)
  have b: "xor_bytes (xor_bytes a b) a = b"
    unfolding comm [of a b] using assms(2) by (intro xor_bytes_cancel) simp
  have c: "xor_bytes (xor_bytes a c) a = c"
    unfolding comm [of a c] using assms(3) by (intro xor_bytes_cancel) simp
  show ?thesis using b unfolding assms(1) c by (rule sym)
qed

lemma pop_nuls_append_nul [simp]: "pop_nuls (b @ [0]) = pop_nuls b"
  by (simp add: pop_nuls_def)

lemma pop_nuls_halves: "pop_nuls (take n b @ drop n b @ [0]) = pop_nuls b"
  using pop_nuls_append_nul [of b] by (metis append.assoc append_take_drop_id)

lemma pop_nuls_id: "0 \<notin> set b \<Longrightarrow> pop_nuls b = b"
  by (cases b rule: rev_cases) (auto simp: pop_nuls_def)

lemma find_nul_prefix: "0 \<notin> set b \<Longrightarrow> find_nul (b @ 0 # r) = Some (length b)"
  by (induction b) auto

lemma plugin_name_bytes:
  "0 \<notin> set (bytes_of_str (plugin_name p))" "ascii (bytes_of_str (plugin_name p))"
  by (cases p; simp add: bytes_of_str_def ascii_def)+

lemma find_nul_plugin_name [simp]:
  "find_nul (bytes_of_str (plugin_name p) @ 0 # r) = Some (length (plugin_name p))"
  using find_nul_prefix [OF plugin_name_bytes(1)] by simp

lemma lossy_plugin_name [simp]: "from_utf8_lossy (bytes_of_str (plugin_name p)) = plugin_name p"
  using from_utf8_lossy_valid [OF utf8_valid_ascii [OF plugin_name_bytes(2)]] by simp

lemma generate_nonce_props:
  assumes "\<forall>i. 0x21 \<le> draw i \<and> draw i \<le> 0x7e"
  shows "length (generate_nonce draw) = NONCE_LEN" "0 \<notin> set (generate_nonce draw)"
proof -
  have "draw i \<noteq> 0" for i
  proof
    assume "draw i = 0"
    with assms [rule_format, of i] show False by (simp add: word_le_nat_alt)
  qed
  then have "0 \<notin> range draw" by (metis imageE)
  then show "length (generate_nonce draw) = NONCE_LEN" "0 \<notin> set (generate_nonce draw)"
    by (auto simp: generate_nonce_def)
qed

lemma length_xor_with_nonce [simp]: "length (xor_with_nonce nonce bs) = length bs"
  by (simp add: xor_with_nonce_def)

lemma xor_with_nonce_twice [simp]: "xor_with_nonce nonce (xor_with_nonce nonce bs) = bs"
  by (rule nth_equalityI) (simp_all add: xor_with_nonce_def nth_enumerate_eq)

section \<open>Properties\<close>

text \<open>C13: a client that knows the password is accepted under either plugin, and whoever is accepted
  either sent exactly the scramble of the password for this connection's nonce or exhibits a
  second preimage of the stored digest. An empty response never passes for an account with a
  password, and an account without one accepts nothing else.\<close>
theorem client_authentication:
  assumes "digests_ok dg" "pw \<noteq> []"
  shows "verify_scramble dg p pw nonce (scramble dg p pw nonce)
    \<and> (verify_scramble dg p pw nonce resp \<longrightarrow>
        resp = scramble dg p pw nonce \<or> (\<exists>x. second_preimage dg p pw x))
    \<and> \<not> verify_scramble dg p pw nonce []
    \<and> (verify_scramble dg p [] nonce resp \<longleftrightarrow> resp = [])"
proof (intro conjI impI)
  show "verify_scramble dg p pw nonce (scramble dg p pw nonce)" by (rule verify_scramble_accepts [OF assms(1)])
  show "verify_scramble dg p [] nonce resp \<longleftrightarrow> resp = []" by (simp add: verify_scramble_def)
  show "\<not> verify_scramble dg p pw nonce []" by (cases p) (simp_all add: verify_scheme [OF assms(2)])
qed (use verify_scramble_sound [OF assms] in blast)

text \<open>Digests of the right length that are easy to compute with.\<close>

definition test_digests :: digests where
  "test_digests = \<lparr>dg_sha256 = (\<lambda>b. take 32 (b @ replicate 32 1)), dg_sha1 = (\<lambda>b. take 20 (b @ replicate 20 1))\<rparr>"

lemma test_digests_ok: "digests_ok test_digests"
  by (auto simp: digests_ok_def test_digests_def min_def)

theorem client_authentication_witness:
  "verify_scramble test_digests CachingSha2Password ''pw'' [1, 2] (scramble test_digests CachingSha2Password ''pw'' [1, 2])"
  using client_authentication [OF test_digests_ok, of "''pw''"] by simp

text \<open>A captured scramble is worthless on another connection. A response made for one nonce that is
  accepted for another means that the digest maps both to the same token, or a second preimage of
  the stored digest.\<close>
theorem replay_needs_collision:
  assumes "digests_ok dg" "pw \<noteq> []" "verify_scramble dg p pw nonce' (scramble dg p pw nonce)"
  shows "token_of dg p pw nonce = token_of dg p pw nonce' \<or> (\<exists>x. second_preimage dg p pw x)"
proof -
  have "token_of dg p pw nonce = token_of dg p pw nonce'" if "scramble dg p pw nonce = scramble dg p pw nonce'"
    using that unfolding scramble_scheme [OF assms(2)] by (rule xor_bytes_inject) (simp_all add: assms(1))
  with verify_scramble_sound [OF assms] show ?thesis by blast
qed

theorem replay_needs_collision_witness:
  "token_of test_digests MysqlNativePassword ''pw'' (replicate 20 5) = token_of test_digests MysqlNativePassword ''pw'' (replicate 21 5)
   \<or> (\<exists>x. second_preimage test_digests MysqlNativePassword ''pw'' x)"
proof (rule replay_needs_collision [OF test_digests_ok])
  show "verify_scramble test_digests MysqlNativePassword ''pw'' (replicate 21 5)
      (scramble test_digests MysqlNativePassword ''pw'' (replicate 20 5))"
    by code_simp
qed simp

text \<open>An AuthSwitchRequest that the proxy builds is read back by its own parser as the plugin and the
  nonce, for every nonce it generates; the two halves of that nonce in a handshake, with or
  without MySQL's trailing NUL, read back as the nonce, too.\<close>
theorem auth_switch_roundtrip:
  assumes "\<forall>i. 0x21 \<le> draw i \<and> draw i \<le> 0x7e"
  shows "(let nonce = generate_nonce draw in
      parse_auth_switch_request (build_auth_switch_request p nonce) = Ok (plugin_name p, nonce)
      \<and> nonce_from_handshake (take 8 nonce) (drop 8 nonce) = nonce
      \<and> nonce_from_handshake (take 8 nonce) (drop 8 nonce @ [0]) = nonce)"
proof -
  let ?nonce = "generate_nonce draw"
  have "pop_nuls ?nonce = ?nonce" using generate_nonce_props [OF assms] by (simp add: pop_nuls_id)
  then show ?thesis
    using generate_nonce_props(1) [OF assms]
    by (simp add: parse_auth_switch_request_def build_auth_switch_request_def nonce_from_handshake_def Let_def pop_nuls_halves)
qed

theorem auth_switch_roundtrip_witness:
  "parse_auth_switch_request (build_auth_switch_request CachingSha2Password (generate_nonce (\<lambda>i. 0x41)))
     = Ok (''caching_sha2_password'', replicate 20 0x41)"
  using auth_switch_roundtrip [of "\<lambda>i. 0x41" CachingSha2Password]
  by (simp add: Let_def generate_nonce_def NONCE_LEN_def map_replicate_const del: upt_Suc replicate.simps)

text \<open>Full authentication without TLS. The reply is an encryption whose decryption, unmasked with the
  connection's nonce, is the NUL-terminated password, which is what the server does to it; it is
  refused for an empty nonce or a password too long for the key, and never panics.\<close>
theorem rsa_password_recovered:
  assumes "rs_from_der lib (pk_der pinned) = Ok key"
    and "\<forall>m c. ok_encrypt key m = Some c \<longrightarrow> decrypt c = m"
  shows "(build_rsa_encrypted_password lib pinned pw nonce = Ok c \<longrightarrow>
      xor_with_nonce nonce (decrypt c) = bytes_of_str pw @ [0] \<and> nonce \<noteq> [] \<and> length pw < ok_max_plaintext_size key)
    \<and> (nonce \<noteq> [] \<longrightarrow> length pw < ok_max_plaintext_size key \<longrightarrow>
        ok_encrypt key (xor_with_nonce nonce (bytes_of_str pw @ [0])) = Some c \<longrightarrow>
        build_rsa_encrypted_password lib pinned pw nonce = Ok c)
    \<and> build_rsa_encrypted_password lib pinned pw nonce \<noteq> Panic"
  using assms
  by (auto simp: build_rsa_encrypted_password_def build_cleartext_password_def Let_def split: if_splits option.splits)

theorem rsa_password_recovered_witness:
  "let lib = \<lparr>rs_public_keys = (\<lambda>_. None), rs_from_der = (\<lambda>_. Ok \<lparr>ok_max_plaintext_size = 214, ok_encrypt = (\<lambda>m. Some (rev m))\<rparr>)\<rparr>
   in \<exists>c. build_rsa_encrypted_password lib \<lparr>pk_der = []\<rparr> ''pw'' [1, 2] = Ok c
        \<and> xor_with_nonce [1, 2] (rev c) = bytes_of_str ''pw'' @ [0]"
proof -
  let ?key = "\<lparr>ok_max_plaintext_size = 214, ok_encrypt = (\<lambda>m. Some (rev m))\<rparr>"
  let ?lib = "\<lparr>rs_public_keys = (\<lambda>_. None), rs_from_der = (\<lambda>_. Ok ?key)\<rparr>"
  let ?c = "rev (xor_with_nonce [1, 2] (bytes_of_str ''pw'' @ [0]))"
  have "rs_from_der ?lib (pk_der \<lparr>pk_der = []\<rparr>) = Ok ?key" "\<forall>m c. ok_encrypt ?key m = Some c \<longrightarrow> rev c = m"
    by simp_all
  from rsa_password_recovered [OF this, of "''pw''" "[1, 2]" ?c] show ?thesis by auto
qed

end
