(* ===== verification/MySql_Login.thy ===== *)
theory MySql_Login
  imports Session_Util Auth
begin

text \<open>
  The login of \<^verbatim>\<open>auth.mode: terminate\<close> in \<^verbatim>\<open>src/src/main.rs\<close>: the credentials, the negotiated
  capabilities, \<^verbatim>\<open>authenticate_client\<close> and \<^verbatim>\<open>authenticate_upstream\<close>. The digests and RSA are
  those of \<open>Auth\<close>; how each wait ends (its result, the deadline, a shutdown) is an argument, by
  the name of the step and the round.
\<close>

section \<open>Credentials and capabilities\<close>

record terminating_auth =
  ta_client_username :: string
  ta_client_password :: string
  ta_client_plugin :: auth_plugin
  ta_upstream_username :: string
  ta_upstream_password :: string
  ta_upstream_database :: "string option"
  ta_upstream_rsa_public_key :: "pinned_rsa_key option"

definition from_resolved :: "rsa_lib \<Rightarrow> resolved_auth \<Rightarrow> terminating_auth result" where
  "from_resolved lib resolved =
     rbind (ok_or (plugin_from_name (ra_client_auth_plugin resolved))
       (''unsupported auth.client_auth_plugin '' @ ra_client_auth_plugin resolved)) (\<lambda>client_plugin.
     rbind (case ra_upstream_rsa_public_key resolved of
         None \<Rightarrow> Ok None
       | Some pem \<Rightarrow> rbind (parse_rsa_public_key lib pem) (\<lambda>key. Ok (Some key))) (\<lambda>upstream_rsa_public_key.
     Ok \<lparr>ta_client_username = ra_client_username resolved,
         ta_client_password = ra_client_password resolved,
         ta_client_plugin = client_plugin,
         ta_upstream_username = ra_upstream_username resolved,
         ta_upstream_password = ra_upstream_password resolved,
         ta_upstream_database = ra_upstream_database resolved,
         ta_upstream_rsa_public_key = upstream_rsa_public_key\<rparr>))"

definition negotiate_upstream_capabilities :: "u32 \<Rightarrow> u32 \<Rightarrow> bool \<Rightarrow> bool \<Rightarrow> u32" where
  "negotiate_upstream_capabilities client_caps server_caps with_database tls =
     (let caps = client_caps AND server_caps;
          caps = caps AND NOT (CLIENT_SSL OR CLIENT_COMPRESS OR CLIENT_CONNECT_WITH_DB OR CLIENT_CONNECT_ATTRS);
          proxy_caps = CLIENT_PROTOCOL_41 OR CLIENT_SECURE_CONNECTION OR CLIENT_PLUGIN_AUTH;
          proxy_caps = (if with_database then proxy_caps OR CLIENT_CONNECT_WITH_DB else proxy_caps);
          proxy_caps = (if tls then proxy_caps OR CLIENT_SSL else proxy_caps)
      in caps OR (proxy_caps AND server_caps))"

section \<open>The client\<close>

type_synonym waits = "string \<Rightarrow> nat \<Rightarrow> wait_end"

definition on_codec :: "(my_codec \<Rightarrow> my_codec) \<Rightarrow> my_leg \<Rightarrow> my_leg" where
  "on_codec f l = l\<lparr>lg_codec := f (lg_codec l)\<rparr>"

text \<open>The scramble and its sequence number: that of the handshake response, or of the answer to an
  auth switch when the client offered another plugin. \<open>Ok None\<close> is a client that went away.\<close>

definition client_scramble :: "waits \<Rightarrow> terminating_auth \<Rightarrow> handshake_response \<Rightarrow> byte list \<Rightarrow> byte \<Rightarrow> my_leg
    \<Rightarrow> (byte \<times> byte list) option result \<times> my_leg" where
  "client_scramble w auth response nonce first_seq l =
     (let offered = (case hr_auth_plugin_name response of Some p \<Rightarrow> p | None \<Rightarrow> []) in
      if offered \<noteq> plugin_name (ta_client_plugin auth) then
        let seq = first_seq + 1;
            l = my_send (generic seq (build_auth_switch_request (ta_client_plugin auth) nonce))
                  (on_codec set_auth_response_state l) in
        case auth_step (w ''the client auth-switch response'' 0) ''the client auth-switch response'' () of
          Ok _ \<Rightarrow>
            (case leg_next my_decode l of
               (r, l) \<Rightarrow>
                 (case r of
                    Ok (Some (MGeneric g)) \<Rightarrow> (Ok (Some (gp_sequence_id g, gp_payload g)), l)
                  | Ok (Some other) \<Rightarrow> (bail ''expected an auth-switch response'', l)
                  | Ok None \<Rightarrow> (Ok None, l)
                  | Err e \<Rightarrow> (Err e, l)
                  | Panic \<Rightarrow> (Panic, l)))
        | Err e \<Rightarrow> (Err e, l)
        | Panic \<Rightarrow> (Panic, l)
      else (Ok (Some (first_seq, hr_auth_response response)), l))"

definition access_denied :: "byte \<Rightarrow> string \<Rightarrow> my_msg" where
  "access_denied seq username =
     MErr (proxy_error seq 1045 (bytes_of_str ''28000'')
       (''Access denied for user '' @ [CHR 0x27] @ username @ [CHR 0x27] @ '' (iron-veil)''))"

definition authenticate_client :: "digests \<Rightarrow> waits \<Rightarrow> terminating_auth \<Rightarrow> handshake_response \<Rightarrow> byte list \<Rightarrow> byte
    \<Rightarrow> my_leg \<Rightarrow> byte option result \<times> my_leg \<times> metric_call list" where
  "authenticate_client dg w auth response nonce first_seq l =
     (case client_scramble w auth response nonce first_seq l of
        (Ok (Some (seq, scr)), l) \<Rightarrow>
          (let username_ok = (hr_username response = ta_client_username auth);
               password_ok = verify_scramble dg (ta_client_plugin auth) (ta_client_password auth) nonce scr in
           if \<not> username_ok \<or> \<not> password_ok then
             (Ok None, my_send (access_denied (seq + 1) (hr_username response)) l, record_client_auth False)
           else (Ok (Some seq), l, record_client_auth True))
      | (Ok None, l) \<Rightarrow> (Ok None, l, [])
      | (Err e, l) \<Rightarrow> (Err e, l, [])
      | (Panic, l) \<Rightarrow> (Panic, l, []))"

section \<open>The upstream\<close>

text \<open>The answer to an AuthMoreData that asks for full authentication; the flag says that the
  password went RSA-encrypted.\<close>

definition full_auth_reply :: "rsa_lib \<Rightarrow> terminating_auth \<Rightarrow> bool \<Rightarrow> byte list \<Rightarrow> bool \<Rightarrow> (byte list \<times> bool) result" where
  "full_auth_reply lib auth tls nonce sent_rsa =
     (if tls then Ok (build_cleartext_password (ta_upstream_password auth), sent_rsa)
      else case ta_upstream_rsa_public_key auth of
        Some key \<Rightarrow> rbind (build_rsa_encrypted_password lib key (ta_upstream_password auth) nonce)
          (\<lambda>payload. Ok (payload, True))
      | None \<Rightarrow> bail (''upstream requires full authentication for user '' @ ta_upstream_username auth
          @ '' but upstream_tls is false and no RSA key is pinned''))"

definition upstream_rejection :: "terminating_auth \<Rightarrow> err_packet \<Rightarrow> bool \<Rightarrow> error" where
  "upstream_rejection auth e sent_rsa =
     Bail (''upstream rejected the proxy credential for user '' @ ta_upstream_username auth @ '': ''
       @ err_error_message e @ (if sent_rsa then '' (sent via RSA full auth)'' else []))
       [unat (err_error_code e)]"

text \<open>What the proxy does with a packet of the exchange: send a reply (the nonce it answers, and
  whether RSA was used, for the next rounds), wait for the next packet, or give up.\<close>

datatype auth_move = Reply "byte list" "byte list" bool | Await | Give_Up error | Crash

definition answer_auth_packet :: "digests \<Rightarrow> rsa_lib \<Rightarrow> terminating_auth \<Rightarrow> bool \<Rightarrow> byte list \<Rightarrow> bool \<Rightarrow> byte list
    \<Rightarrow> auth_move" where
  "answer_auth_packet dg lib auth tls nonce sent_rsa payload =
     (case parse_auth_switch_request payload of
        Ok (name, new_nonce) \<Rightarrow>
          (case plugin_from_name name of
             Some plugin \<Rightarrow>
               Reply (scramble dg plugin (ta_upstream_password auth) new_nonce) new_nonce sent_rsa
           | None \<Rightarrow> Give_Up (Bail (''upstream asked for auth plugin '' @ name
               @ '', which iron-veil does not implement'') []))
      | Panic \<Rightarrow> Crash
      | Err _ \<Rightarrow>
          (case classify_auth_more_data payload of
             Some FastAuthSuccess \<Rightarrow> Await
           | Some FullAuthRequired \<Rightarrow>
               (case full_auth_reply lib auth tls nonce sent_rsa of
                  Ok (reply, rsa) \<Rightarrow> Reply reply nonce rsa
                | Err e \<Rightarrow> Give_Up e
                | Panic \<Rightarrow> Crash)
           | _ \<Rightarrow> Give_Up (Bail ''unexpected packet during upstream authentication (first byte {})''
               [case payload of [] \<Rightarrow> 0 | b # _ \<Rightarrow> unat b])))"

definition MAX_AUTH_ROUNDS :: nat where "MAX_AUTH_ROUNDS = 20"

function upstream_auth_loop :: "digests \<Rightarrow> rsa_lib \<Rightarrow> waits \<Rightarrow> terminating_auth \<Rightarrow> bool \<Rightarrow> nat \<Rightarrow> byte list \<Rightarrow> bool
    \<Rightarrow> my_leg \<Rightarrow> unit result \<times> my_leg" where
  "upstream_auth_loop dg lib w auth tls rounds nonce sent_rsa l =
     (let rounds' = rounds + 1 in
      if MAX_AUTH_ROUNDS < rounds' then (bail ''upstream authentication exceeded 20 round trips'', l)
      else
        (case auth_step (w ''the upstream auth response'' rounds') ''the upstream auth response'' () of
           Ok _ \<Rightarrow>
             (case leg_next my_decode l of
                (Ok (Some (MOk _)), l) \<Rightarrow> (Ok (), l)
              | (Ok (Some (MErr e)), l) \<Rightarrow> (Err (upstream_rejection auth e sent_rsa), l)
              | (Ok (Some (MGeneric g)), l) \<Rightarrow>
                  (case answer_auth_packet dg lib auth tls nonce sent_rsa (gp_payload g) of
                     Reply payload nonce' sent_rsa' \<Rightarrow>
                       upstream_auth_loop dg lib w auth tls rounds' nonce' sent_rsa'
                         (my_send (generic (gp_sequence_id g + 1) payload) l)
                   | Await \<Rightarrow> upstream_auth_loop dg lib w auth tls rounds' nonce sent_rsa l
                   | Give_Up e \<Rightarrow> (Err e, l)
                   | Crash \<Rightarrow> (Panic, l))
              | (Ok (Some other), l) \<Rightarrow> (bail ''unexpected message during upstream auth'', l)
              | (Ok None, l) \<Rightarrow> (bail ''upstream closed the connection during authentication'', l)
              | (Err e, l) \<Rightarrow> (Err e, l)
              | (Panic, l) \<Rightarrow> (Panic, l))
         | Err e \<Rightarrow> (Err e, l)
         | Panic \<Rightarrow> (Panic, l)))"
  by pat_completeness auto
termination
  by (relation "measure (\<lambda>(_, _, _, _, _, rounds, _). MAX_AUTH_ROUNDS - rounds)") auto

declare upstream_auth_loop.simps [simp del]

definition upstream_handshake_response :: "digests \<Rightarrow> terminating_auth \<Rightarrow> auth_plugin \<Rightarrow> byte list \<Rightarrow> u32
    \<Rightarrow> string option \<Rightarrow> byte \<Rightarrow> u32 \<Rightarrow> handshake_response" where
  "upstream_handshake_response dg auth plugin nonce capabilities database character_set max_packet_size =
     \<lparr>hr_capability_flags = capabilities, hr_max_packet_size = max_packet_size,
      hr_character_set = character_set, hr_username = ta_upstream_username auth,
      hr_auth_response = scramble dg plugin (ta_upstream_password auth) nonce, hr_database = database,
      hr_auth_plugin_name = Some (plugin_name plugin), hr_raw = []\<rparr>"

definition authenticate_upstream :: "digests \<Rightarrow> rsa_lib \<Rightarrow> waits \<Rightarrow> terminating_auth \<Rightarrow> handshake_v10 \<Rightarrow> u32
    \<Rightarrow> string option \<Rightarrow> byte \<Rightarrow> u32 \<Rightarrow> byte \<Rightarrow> bool \<Rightarrow> my_leg \<Rightarrow> unit result \<times> my_leg" where
  "authenticate_upstream dg lib w auth handshake capabilities database character_set max_packet_size
     response_seq tls l =
     (let nonce = nonce_from_handshake (hs_auth_plugin_data_part1 handshake) (hs_auth_plugin_data_part2 handshake);
          plugin = (case plugin_from_name (hs_auth_plugin_name handshake) of
                      Some p \<Rightarrow> p | None \<Rightarrow> CachingSha2Password);
          payload = build_handshake_response_payload (upstream_handshake_response dg auth plugin nonce
            capabilities database character_set max_packet_size)
      in upstream_auth_loop dg lib w auth tls 0 nonce False
           (my_send (generic response_seq payload) (on_codec set_auth_response_state l)))"

end
