(* ===== verification/Scanner.thy ===== *)
theory Scanner
  imports Strings
begin

text \<open>
  \<^verbatim>\<open>src/src/scanner.rs\<close>: the PII types, the Luhn check, whole-value detection and the masking
  of spans in free text. The regular-expression engine is a crate: \<open>pii_scanner\<close> holds, for
  each compiled pattern, the function the engine provides (whether a text matches; where the
  matches of an unanchored pattern lie).
\<close>

datatype pii_type = Email | CreditCard | Ssn | Phone | IpAddress | DateOfBirth | Passport

definition from_config_name :: "string \<Rightarrow> pii_type option" where
  "from_config_name name =
     (if name = ''email'' then Some Email
      else if name = ''credit_card'' then Some CreditCard
      else if name = ''ssn'' then Some Ssn
      else if name = ''phone'' then Some Phone
      else if name = ''ip'' then Some IpAddress
      else if name = ''dob'' then Some DateOfBirth
      else if name = ''passport'' then Some Passport
      else None)"

definition all_pii_types :: "pii_type set" where
  "all_pii_types = {Email, CreditCard, Ssn, Phone, IpAddress, DateOfBirth, Passport}"

text \<open>\<open>email_spans\<close>: start and end of every match of \<^verbatim>\<open>email_span_regex\<close>, in order;
  \<open>phone_spans\<close>: of capture group 2 of every match of \<^verbatim>\<open>phone_span_regex\<close>.\<close>

record pii_scanner =
  email_regex :: "string \<Rightarrow> bool"
  cc_regex :: "string \<Rightarrow> bool"
  ssn_regex :: "string \<Rightarrow> bool"
  phone_regex :: "string \<Rightarrow> bool"
  ip_regex :: "string \<Rightarrow> bool"
  dob_regex :: "string \<Rightarrow> bool"
  passport_regex :: "string \<Rightarrow> bool"
  email_spans :: "string \<Rightarrow> (nat \<times> nat) list"
  phone_spans :: "string \<Rightarrow> (nat \<times> nat) list"

section \<open>Whole-value detection\<close>

definition is_ascii_digit :: "char \<Rightarrow> bool" where
  "is_ascii_digit c \<longleftrightarrow> 48 \<le> char_code c \<and> char_code c \<le> 57"

definition to_digit :: "char \<Rightarrow> nat option" where
  "to_digit c = (if is_ascii_digit c then Some (char_code c - 48) else None)"

text \<open>The loop of \<^verbatim>\<open>luhn_valid\<close> over the reversed text, with its two local variables.\<close>

fun luhn_loop :: "string \<Rightarrow> nat \<Rightarrow> bool \<Rightarrow> nat option" where
  "luhn_loop [] acc alternate = Some acc"
| "luhn_loop (c # cs) acc alternate =
     (case to_digit c of
        None \<Rightarrow> None
      | Some d \<Rightarrow>
          (let d = (if alternate then (let doubled = d * 2 in if doubled > 9 then doubled - 9 else doubled)
                    else d)
           in luhn_loop cs (acc + d) (\<not> alternate)))"

definition luhn_valid :: "string \<Rightarrow> bool" where
  "luhn_valid digits =
     (case luhn_loop (rev digits) 0 False of None \<Rightarrow> False | Some acc \<Rightarrow> acc mod 10 = 0)"

definition credit_card_candidate :: "string \<Rightarrow> bool" where
  "credit_card_candidate text =
     (let digits = filter is_ascii_digit text in
      13 \<le> length digits \<and> length digits \<le> 19 \<and> luhn_valid digits)"

definition scan_allowed :: "pii_scanner \<Rightarrow> string \<Rightarrow> pii_type set \<Rightarrow> pii_type option" where
  "scan_allowed sc text allowed =
     (if Email \<in> allowed \<and> email_regex sc text then Some Email
      else if CreditCard \<in> allowed \<and> cc_regex sc text \<and> credit_card_candidate text then Some CreditCard
      else if Ssn \<in> allowed \<and> ssn_regex sc text then Some Ssn
      else if IpAddress \<in> allowed \<and> ip_regex sc text then Some IpAddress
      else if DateOfBirth \<in> allowed \<and> dob_regex sc text then Some DateOfBirth
      else if Phone \<in> allowed \<and> phone_regex sc text then Some Phone
      else if Passport \<in> allowed \<and> passport_regex sc text then Some Passport
      else None)"

definition scan :: "pii_scanner \<Rightarrow> string \<Rightarrow> pii_type option" where
  "scan sc text = scan_allowed sc text all_pii_types"

section \<open>Spans in free text\<close>

definition slice :: "string \<Rightarrow> nat \<Rightarrow> nat \<Rightarrow> string" where
  "slice s i j = drop i (take j s)"

text \<open>The text with every span replaced: what \<^verbatim>\<open>replace_all\<close> gives for the e-mail pattern, and
  what the phone loop assembles by hand.\<close>

fun assemble :: "(string \<Rightarrow> string) \<Rightarrow> string \<Rightarrow> nat \<Rightarrow> (nat \<times> nat) list \<Rightarrow> string" where
  "assemble f text last_end [] = drop last_end text"
| "assemble f text last_end ((i, j) # spans) =
     slice text last_end i @ f (slice text i j) @ assemble f text j spans"

text \<open>
  Returns the masked text, if any, and the types the callback \<open>repl\<close> was called for, in
  order: the callers record them.
\<close>

definition mask_text_spans ::
  "pii_scanner \<Rightarrow> string \<Rightarrow> pii_type set \<Rightarrow> (pii_type \<Rightarrow> string \<Rightarrow> string) \<Rightarrow> string option \<times> pii_type list" where
  "mask_text_spans sc text allowed repl =
     (let emails = (if Email \<in> allowed then email_spans sc text else []);
          masked = assemble (repl Email) text 0 emails;
          changed = (emails \<noteq> [] \<and> masked \<noteq> text);
          current = (if changed then masked else text);
          phones = (if Phone \<in> allowed then phone_spans sc current else []);
          any = (phones \<noteq> []);
          current = (if any then assemble (repl Phone) current 0 phones else current)
      in (if changed \<or> any then Some current else None,
          replicate (length emails) Email @ replicate (length phones) Phone))"

text \<open>What the engine documents of an iteration over matches: they lie in the text, in order,
  and do not overlap.\<close>

fun spans_from :: "nat \<Rightarrow> nat \<Rightarrow> (nat \<times> nat) list \<Rightarrow> bool" where
  "spans_from k n [] \<longleftrightarrow> k \<le> n"
| "spans_from k n ((i, j) # spans) \<longleftrightarrow> k \<le> i \<and> i \<le> j \<and> spans_from j n spans"

section \<open>Lemmas\<close>

lemma scan_allowed_in: "scan_allowed sc text allowed = Some t \<Longrightarrow> t \<in> allowed"
  by (auto simp: scan_allowed_def split: if_splits)

lemma scan_allowed_empty [simp]: "scan_allowed sc text {} = None"
  by (simp add: scan_allowed_def)

lemma mask_text_spans_none [simp]: "mask_text_spans sc text {} repl = (None, [])"
  by (simp add: mask_text_spans_def)

lemma slice_append_drop: "k \<le> i \<Longrightarrow> slice t k i @ drop i t = drop k t"
  unfolding slice_def by (metis append_take_drop_id drop_drop drop_take le_add_diff_inverse2)

lemma assemble_id: "spans_from k (length t) spans \<Longrightarrow> assemble (\<lambda>s. s) t k spans = drop k t"
proof (induction spans arbitrary: k)
  case (Cons p spans)
  then show ?case by (cases p) (simp add: slice_append_drop)
qed (simp add: slice_def)

text \<open>A reference for the Luhn check: from the right, every second digit doubled, digits of the
  products added.\<close>

definition digit_sum :: "nat \<Rightarrow> nat" where
  "digit_sum d = d div 10 + d mod 10"

definition luhn_sum :: "nat list \<Rightarrow> nat" where
  "luhn_sum ds = sum_list (map (\<lambda>(i, d). if odd i then digit_sum (2 * d) else d) (enumerate 0 (rev ds)))"

lemma luhn_loop_spec:
  "list_all is_ascii_digit cs \<Longrightarrow>
   luhn_loop cs s (odd k) =
     Some (s + sum_list (map (\<lambda>(i, d). if odd i then digit_sum (2 * d) else d)
       (enumerate k (map (\<lambda>c. char_code c - 48) cs))))"
proof (induction cs arbitrary: s k)
  case (Cons c cs)
  let ?d = "char_code c - 48"
  have d: "?d \<le> 9" "to_digit c = Some ?d" using Cons.prems by (auto simp: to_digit_def is_ascii_digit_def)
  have a: "(if ?d * 2 > 9 then ?d * 2 - 9 else ?d * 2) = digit_sum (2 * ?d)"
  proof -
    have "x \<le> 9 \<Longrightarrow> (if x * 2 > 9 then x * 2 - 9 else x * 2) = digit_sum (2 * x)" for x :: nat
    proof -
      assume "x \<le> 9"
      then have "x \<in> {0, 1, 2, 3, 4, 5, 6, 7, 8, 9}" by auto
      then show ?thesis by (auto simp: digit_sum_def)
    qed
    with d(1) show ?thesis by blast
  qed
  have ih: "luhn_loop cs s' (odd (Suc k)) =
     Some (s' + sum_list (map (\<lambda>(i, d). if odd i then digit_sum (2 * d) else d)
       (enumerate (Suc k) (map (\<lambda>c. char_code c - 48) cs))))" for s'
    using Cons.prems by (intro Cons.IH) simp
  show ?case
    using a ih by (cases "odd k") (simp_all only: luhn_loop.simps d(2) option.case Let_def if_True if_False list.map
        enumerate_simps sum_list.Cons prod.case even_Suc not_not simp_thms add.assoc)
qed simp

lemma luhn_valid_spec:
  "list_all is_ascii_digit s \<Longrightarrow>
   luhn_valid s \<longleftrightarrow> luhn_sum (map (\<lambda>c. char_code c - 48) s) mod 10 = 0"
  using luhn_loop_spec [of "rev s" 0 0] by (simp add: luhn_valid_def luhn_sum_def rev_map)

end
