(* ===== verification/Masking.thy ===== *)
theory Masking
  imports Scanner State
begin

text \<open>
  The masking of one value, first half of \<^verbatim>\<open>src/src/interceptor.rs\<close>: pseudonyms, keyed seeds,
  JSON documents, PostgreSQL arrays, previews and \<^verbatim>\<open>mask_cell\<close>, which both protocols share.
  The crates appear as the parameters of a \<open>crates\<close> record: the random generator and the fakers
  of \<^verbatim>\<open>fake\<close>, SHA-256, and the JSON parser and printer. A Rust \<^verbatim>\<open>u64\<close> seed is a 64-bit word.

  A function whose name ends in \<open>_run\<close> is the code with its slices \<^verbatim>\<open>&s[i..j]\<close>, which may panic; the
  sessions run these. The function without the ending is its value, written without the slices,
  and a lemma says that the run always returns it (for arrays: on text that is UTF-8).
  The offsets of the regex crate's matches are taken to be usable as they come.
\<close>

record 'r crates =
  seed_from_u64 :: "u64 \<Rightarrow> 'r"
  fake_safe_email :: "'r \<Rightarrow> string \<times> 'r"
  fake_phone_number :: "'r \<Rightarrow> string \<times> 'r"
  fake_street_name :: "'r \<Rightarrow> string \<times> 'r"
  fake_first_name :: "'r \<Rightarrow> string \<times> 'r"
  fake_last_name :: "'r \<Rightarrow> string \<times> 'r"
  fake_company_name :: "'r \<Rightarrow> string \<times> 'r"
  fake_sentence :: "'r \<Rightarrow> string \<times> 'r"
  fake_credit_card_number :: "'r \<Rightarrow> string \<times> 'r"
  sha256 :: "byte list \<Rightarrow> byte list"
  json_from_str :: "string \<Rightarrow> json option"
  json_to_string :: "json \<Rightarrow> string option"

definition MASK_FAILED_SENTINEL :: "byte list" where
  "MASK_FAILED_SENTINEL = bytes_of_str ''MASKED''"

definition generate_fake_data :: "'r crates \<Rightarrow> string \<Rightarrow> u64 \<Rightarrow> string" where
  "generate_fake_data cr strategy seed =
     (let rng = seed_from_u64 cr seed; n = unat seed in
      if strategy = ''email'' then fst (fake_safe_email cr rng)
      else if strategy = ''phone'' then fst (fake_phone_number cr rng)
      else if strategy = ''address'' then
        show_nat (unat (100 + seed mod 9900)) @ '' '' @ fst (fake_street_name cr rng)
      else if strategy = ''name'' then
        (let (first, rng) = fake_first_name cr rng; (last, rng) = fake_last_name cr rng in
         first @ '' '' @ last)
      else if strategy = ''first_name'' then fst (fake_first_name cr rng)
      else if strategy = ''last_name'' then fst (fake_last_name cr rng)
      else if strategy = ''company'' then fst (fake_company_name cr rng)
      else if strategy = ''text'' then fst (fake_sentence cr rng)
      else if strategy = ''credit_card'' then fst (fake_credit_card_number cr rng)
      else if strategy = ''ssn'' then ''XXX-XX-'' @ show_padded 4 (n mod 10000)
      else if strategy = ''ip'' then ''203.0.113.'' @ show_nat (n mod 256)
      else if strategy = ''dob'' then
        ''19'' @ show_padded 2 (n mod 100) @ ''-'' @ show_padded 2 (1 + n mod 12) @ ''-'' @ show_padded 2 (1 + n mod 28)
      else if strategy = ''passport'' then ''X'' @ show_padded 8 (n mod 100000000)
      else ''MASKED'')"

definition masking_seed :: "'r crates \<Rightarrow> byte list \<Rightarrow> byte list \<Rightarrow> u64" where
  "masking_seed cr key val = of_nat (le_nat (take 8 (sha256 cr (key @ val))))"

definition hash_value :: "'r crates \<Rightarrow> byte list \<Rightarrow> byte list \<Rightarrow> string" where
  "hash_value cr key val = ''sha256:'' @ show_hex (sha256 cr (key @ val))"

fun pii_type_to_strategy :: "pii_type \<Rightarrow> string" where
  "pii_type_to_strategy Email = ''email''"
| "pii_type_to_strategy CreditCard = ''credit_card''"
| "pii_type_to_strategy Ssn = ''ssn''"
| "pii_type_to_strategy Phone = ''phone''"
| "pii_type_to_strategy IpAddress = ''ip''"
| "pii_type_to_strategy DateOfBirth = ''dob''"
| "pii_type_to_strategy Passport = ''passport''"

definition normalize_identifier :: "string \<Rightarrow> string" where
  "normalize_identifier input = to_ascii_lowercase (trim input)"

record heuristic_settings =
  he_enabled :: bool
  he_allowed :: "pii_type set"

definition heuristic_settings_from_config :: "heuristics_config option \<Rightarrow> heuristic_settings" where
  "heuristic_settings_from_config config =
     (let resolved = (case config of Some c \<Rightarrow> c | None \<Rightarrow> default_heuristics_config) in
      \<lparr>he_enabled = hc_enabled resolved,
       he_allowed = set (List.map_filter from_config_name (hc_types resolved))\<rparr>)"

record 'r mask_context =
  mx_scanner :: pii_scanner
  mx_heuristics :: heuristic_settings
  mx_key :: "byte list"
  mx_crates :: "'r crates"

text \<open>The pseudonym of a text of a PII type under the context's key.\<close>

definition pseudonym :: "'r mask_context \<Rightarrow> pii_type \<Rightarrow> string \<Rightarrow> string" where
  "pseudonym ctx pii_type s =
     generate_fake_data (mx_crates ctx) (pii_type_to_strategy pii_type)
       (masking_seed (mx_crates ctx) (mx_key ctx) (bytes_of_str s))"

section \<open>JSON documents\<close>

definition mask_json_string :: "'r mask_context \<Rightarrow> string \<Rightarrow> string \<times> bool" where
  "mask_json_string ctx s =
     (let allowed = he_allowed (mx_heuristics ctx) in
      case scan_allowed (mx_scanner ctx) s allowed of
        Some pii_type \<Rightarrow> (pseudonym ctx pii_type s, True)
      | None \<Rightarrow>
          (case fst (mask_text_spans (mx_scanner ctx) s allowed (pseudonym ctx)) of
             Some masked \<Rightarrow> (masked, True)
           | None \<Rightarrow> (s, False)))"

fun mask_json_recursively :: "'r mask_context \<Rightarrow> json \<Rightarrow> json \<times> bool" where
  "mask_json_recursively ctx (JString s) =
     (let (s', changed) = mask_json_string ctx s in (JString s', changed))"
| "mask_json_recursively ctx (JArray arr) =
     (let rs = map (mask_json_recursively ctx) arr in (JArray (map fst rs), \<exists>r \<in> set rs. snd r))"
| "mask_json_recursively ctx (JObject kvs) =
     (let rs = map (\<lambda>(k, v). (k, mask_json_recursively ctx v)) kvs in
      (JObject (map (\<lambda>(k, r). (k, fst r)) rs), \<exists>r \<in> set rs. snd (snd r)))"
| "mask_json_recursively ctx v = (v, False)"

section \<open>PostgreSQL arrays\<close>

text \<open>The character loop: the element being read, whether inside quotes, whether just after a
  backslash. The characters it looks at are ASCII, so it may run over bytes.\<close>

fun split_elements :: "string \<Rightarrow> string \<Rightarrow> bool \<Rightarrow> bool \<Rightarrow> string list" where
  "split_elements [] current in_quotes escaped = [current]"
| "split_elements (c # cs) current in_quotes escaped =
     (if escaped then split_elements cs (current @ [c]) in_quotes False
      else if c = CHR 0x5C then split_elements cs (current @ [c]) in_quotes True
      else if c = CHR 0x22 then split_elements cs (current @ [c]) (\<not> in_quotes) False
      else if c = CHR '','' \<and> \<not> in_quotes then current # split_elements cs [] in_quotes False
      else split_elements cs (current @ [c]) in_quotes False)"

definition unescape_element :: "string \<Rightarrow> string" where
  "unescape_element val =
     replace2 (CHR 0x5C) (CHR 0x5C) [CHR 0x5C] (replace2 (CHR 0x5C) (CHR 0x22) [CHR 0x22] val)"

definition clean_element_run :: "string \<Rightarrow> string result" where
  "clean_element_run elem =
     (let trimmed = trim elem in
      rbind
        (if starts_with trimmed (CHR 0x22) \<and> ends_with trimmed (CHR 0x22) \<and> 2 \<le> length trimmed
         then slice_str trimmed 1 (length trimmed - 1) else Ok trimmed)
        (\<lambda>val. Ok (unescape_element val)))"

definition clean_element :: "string \<Rightarrow> string" where
  "clean_element elem =
     (let trimmed = trim elem;
          val = (if starts_with trimmed (CHR 0x22) \<and> ends_with trimmed (CHR 0x22) \<and> 2 \<le> length trimmed
                 then butlast (tl trimmed) else trimmed)
      in unescape_element val)"

text \<open>An element, and its text without quotes and escapes.\<close>

definition mask_cleaned :: "'r mask_context \<Rightarrow> string \<Rightarrow> string \<Rightarrow> string \<times> bool" where
  "mask_cleaned ctx elem clean_val =
     (case scan_allowed (mx_scanner ctx) clean_val (he_allowed (mx_heuristics ctx)) of
        Some pii_type \<Rightarrow> ([CHR 0x22] @ pseudonym ctx pii_type clean_val @ [CHR 0x22], True)
      | None \<Rightarrow> (elem, False))"

definition mask_element_run :: "'r mask_context \<Rightarrow> string \<Rightarrow> (string \<times> bool) result" where
  "mask_element_run ctx elem = rbind (clean_element_run elem) (\<lambda>clean_val. Ok (mask_cleaned ctx elem clean_val))"

definition mask_element :: "'r mask_context \<Rightarrow> string \<Rightarrow> string \<times> bool" where
  "mask_element ctx elem = mask_cleaned ctx elem (clean_element elem)"

fun join_comma :: "string list \<Rightarrow> string" where
  "join_comma [] = []"
| "join_comma [s] = s"
| "join_comma (s # t # ss) = s @ '','' @ join_comma (t # ss)"

definition joined_elements :: "(string \<times> bool) list \<Rightarrow> string option" where
  "joined_elements rs =
     (if \<exists>r \<in> set rs. snd r then Some (''{'' @ join_comma (map fst rs) @ ''}'') else None)"

definition mask_postgres_array_run :: "'r mask_context \<Rightarrow> string \<Rightarrow> string option result" where
  "mask_postgres_array_run ctx raw =
     (if \<not> starts_with raw (CHR ''{'') \<or> \<not> ends_with raw (CHR ''}'') then Ok None
      else
        rbind (slice_str raw 1 (length raw - 1)) (\<lambda>content.
        rbind (rmap (mask_element_run ctx) (split_elements content [] False False)) (\<lambda>rs.
        Ok (joined_elements rs))))"

definition mask_postgres_array :: "'r mask_context \<Rightarrow> string \<Rightarrow> string option" where
  "mask_postgres_array ctx raw =
     (if \<not> starts_with raw (CHR ''{'') \<or> \<not> ends_with raw (CHR ''}'') then None
      else
        let content = butlast (tl raw)
        in joined_elements (map (mask_element ctx) (split_elements content [] False False)))"

section \<open>One cell\<close>

record cell_change =
  cc_strategies :: "string list"
  cc_log :: json

text \<open>The boundary search steps back from byte 50 to the start of a character.\<close>

fun boundary_before :: "string \<Rightarrow> nat \<Rightarrow> nat" where
  "boundary_before s n = (if is_char_boundary s n \<or> n = 0 then n else boundary_before s (n - 1))"

declare boundary_before.simps [simp del]

definition preview_run :: "string \<Rightarrow> string result" where
  "preview_run v =
     (if 50 < length v then rbind (slice_str v 0 (boundary_before v 50)) (\<lambda>s. Ok (s @ ''...'')) else Ok v)"

definition preview :: "string \<Rightarrow> string" where
  "preview v = (if 50 < length v then take (boundary_before v 50) v @ ''...'' else v)"

definition change_record :: "nat \<Rightarrow> string option \<Rightarrow> nat \<Rightarrow> string \<Rightarrow> string \<Rightarrow> json" where
  "change_record column_idx column_name original_len strategy masked =
     JObject [(''column_idx'', jnat column_idx), (''column_name'', jopt column_name),
       (''strategy'', JString strategy), (''original_len'', jnat original_len),
       (''masked'', JString masked)]"

text \<open>The explicit \<open>json\<close> strategy: mask inside the document, or replace the whole value.\<close>

text \<open>The document of an explicit \<^verbatim>\<open>json\<close> rule, masked and as text again, and whether it changed; \<open>None\<close> is
  a failure, which is counted and closes the cell.\<close>

definition masked_document :: "'r mask_context \<Rightarrow> byte list \<Rightarrow> (string \<times> bool) option" where
  "masked_document ctx val =
     (case Option.bind (from_utf8 val) (json_from_str (mx_crates ctx)) of
        Some json_val \<Rightarrow>
          (let (json_val, changed) = mask_json_recursively ctx json_val
           in map_option (\<lambda>new_json. (new_json, changed)) (json_to_string (mx_crates ctx) json_val))
      | None \<Rightarrow> None)"

definition masking_errors :: "'r mask_context \<Rightarrow> byte list \<Rightarrow> string option \<Rightarrow> metric_call list" where
  "masking_errors ctx val explicit =
     (if explicit = Some ''json'' \<and> masked_document ctx val = None then record_masking_error else [])"

definition mask_cell_json ::
  "'r mask_context \<Rightarrow> byte list \<Rightarrow> nat \<Rightarrow> string option \<Rightarrow> byte list \<times> cell_change option" where
  "mask_cell_json ctx val idx name =
     (let record = change_record idx name (length val);
          failed_closed = (MASK_FAILED_SENTINEL,
            Some \<lparr>cc_strategies = [''json''], cc_log = record ''json (failed closed)'' ''MASKED''\<rparr>) in
      case masked_document ctx val of
        Some (new_json, changed) \<Rightarrow>
          (if changed \<and> bytes_of_str new_json \<noteq> val
           then (bytes_of_str new_json,
                 Some \<lparr>cc_strategies = [''json''], cc_log = record ''json'' ''(JSON Masked)''\<rparr>)
           else (val, None))
      | None \<Rightarrow> failed_closed)"

definition mask_cell_explicit ::
  "'r mask_context \<Rightarrow> byte list \<Rightarrow> nat \<Rightarrow> string option \<Rightarrow> string \<Rightarrow> byte list \<times> cell_change option" where
  "mask_cell_explicit ctx val idx name strat =
     (let cr = mx_crates ctx; key = mx_key ctx;
          fake_val = (if strat = ''hash'' then hash_value cr key val
                      else generate_fake_data cr strat (masking_seed cr key val))
      in (bytes_of_str fake_val,
          Some \<lparr>cc_strategies = [strat],
                cc_log = change_record idx name (length val) strat (preview fake_val)\<rparr>))"

definition mask_cell_explicit_run ::
  "'r mask_context \<Rightarrow> byte list \<Rightarrow> nat \<Rightarrow> string option \<Rightarrow> string \<Rightarrow> (byte list \<times> cell_change option) result" where
  "mask_cell_explicit_run ctx val idx name strat =
     (let cr = mx_crates ctx; key = mx_key ctx;
          fake_val = (if strat = ''hash'' then hash_value cr key val
                      else generate_fake_data cr strat (masking_seed cr key val))
      in rbind (preview_run fake_val) (\<lambda>shown. Ok
         (bytes_of_str fake_val,
          Some \<lparr>cc_strategies = [strat], cc_log = change_record idx name (length val) strat shown\<rparr>)))"

text \<open>Whole-value detection, then spans, for a value \<open>s\<close> that is UTF-8.\<close>

definition mask_cell_text ::
  "'r mask_context \<Rightarrow> byte list \<Rightarrow> string \<Rightarrow> nat \<Rightarrow> string option \<Rightarrow> byte list \<times> cell_change option" where
  "mask_cell_text ctx val s idx name =
     (let allowed = he_allowed (mx_heuristics ctx);
          record = change_record idx name (length val) in
      case scan_allowed (mx_scanner ctx) s allowed of
        Some pii_type \<Rightarrow>
          (let strat = pii_type_to_strategy pii_type;
               fake_val = generate_fake_data (mx_crates ctx) strat
                 (masking_seed (mx_crates ctx) (mx_key ctx) val)
           in (bytes_of_str fake_val,
               Some \<lparr>cc_strategies = [strat], cc_log = record strat (preview fake_val)\<rparr>))
      | None \<Rightarrow>
          (let (masked, types) = mask_text_spans (mx_scanner ctx) s allowed (pseudonym ctx) in
           case masked of
             Some masked \<Rightarrow>
               (bytes_of_str masked,
                Some \<lparr>cc_strategies = map pii_type_to_strategy types,
                      cc_log = record ''span (heuristic)'' ''(spans masked)''\<rparr>)
           | None \<Rightarrow> (val, None)))"

definition mask_cell_text_run ::
  "'r mask_context \<Rightarrow> byte list \<Rightarrow> string \<Rightarrow> nat \<Rightarrow> string option \<Rightarrow> (byte list \<times> cell_change option) result" where
  "mask_cell_text_run ctx val s idx name =
     (let allowed = he_allowed (mx_heuristics ctx);
          record = change_record idx name (length val) in
      case scan_allowed (mx_scanner ctx) s allowed of
        Some pii_type \<Rightarrow>
          (let strat = pii_type_to_strategy pii_type;
               fake_val = generate_fake_data (mx_crates ctx) strat
                 (masking_seed (mx_crates ctx) (mx_key ctx) val)
           in rbind (preview_run fake_val) (\<lambda>shown. Ok
                (bytes_of_str fake_val, Some \<lparr>cc_strategies = [strat], cc_log = record strat shown\<rparr>)))
      | None \<Rightarrow>
          (let (masked, types) = mask_text_spans (mx_scanner ctx) s allowed (pseudonym ctx) in
           case masked of
             Some masked \<Rightarrow> Ok
               (bytes_of_str masked,
                Some \<lparr>cc_strategies = map pii_type_to_strategy types,
                      cc_log = record ''span (heuristic)'' ''(spans masked)''\<rparr>)
           | None \<Rightarrow> Ok (val, None)))"

text \<open>The heuristic path: structured values first.\<close>

definition mask_cell_heuristic ::
  "'r mask_context \<Rightarrow> byte list \<Rightarrow> nat \<Rightarrow> string option \<Rightarrow> byte list \<times> cell_change option" where
  "mask_cell_heuristic ctx val idx name =
     (if \<not> he_enabled (mx_heuristics ctx) then (val, None)
      else case from_utf8 val of
        None \<Rightarrow> (val, None)
      | Some s \<Rightarrow>
          (let trimmed = trim s; record = change_record idx name (length val);
               braces = (starts_with trimmed (CHR ''{'') \<and> ends_with trimmed (CHR ''}''));
               brackets = (starts_with trimmed (CHR ''['') \<and> ends_with trimmed (CHR '']'')) in
           if braces \<or> brackets then
             (case json_from_str (mx_crates ctx) s of
                Some json_val \<Rightarrow>
                  (let (json_val, changed) = mask_json_recursively ctx json_val in
                   case json_to_string (mx_crates ctx) json_val of
                     Some new_json \<Rightarrow>
                       (if changed \<and> bytes_of_str new_json \<noteq> val
                        then (bytes_of_str new_json,
                              Some \<lparr>cc_strategies = [''json''],
                                    cc_log = record ''json (heuristic)'' ''(JSON Masked)''\<rparr>)
                        else (val, None))
                   | None \<Rightarrow> (val, None))
              | None \<Rightarrow>
                  (case (if braces then mask_postgres_array ctx s else None) of
                     Some masked_array \<Rightarrow>
                       (bytes_of_str masked_array,
                        Some \<lparr>cc_strategies = [''other''],
                              cc_log = record ''array (heuristic)'' ''(array masked)''\<rparr>)
                   | None \<Rightarrow> mask_cell_text ctx val s idx name))
           else mask_cell_text ctx val s idx name))"

definition mask_cell_heuristic_run ::
  "'r mask_context \<Rightarrow> byte list \<Rightarrow> nat \<Rightarrow> string option \<Rightarrow> (byte list \<times> cell_change option) result" where
  "mask_cell_heuristic_run ctx val idx name =
     (if \<not> he_enabled (mx_heuristics ctx) then Ok (val, None)
      else case from_utf8 val of
        None \<Rightarrow> Ok (val, None)
      | Some s \<Rightarrow>
          (let trimmed = trim s; record = change_record idx name (length val);
               braces = (starts_with trimmed (CHR ''{'') \<and> ends_with trimmed (CHR ''}''));
               brackets = (starts_with trimmed (CHR ''['') \<and> ends_with trimmed (CHR '']'')) in
           if braces \<or> brackets then
             (case json_from_str (mx_crates ctx) s of
                Some json_val \<Rightarrow>
                  (let (json_val, changed) = mask_json_recursively ctx json_val in
                   case json_to_string (mx_crates ctx) json_val of
                     Some new_json \<Rightarrow>
                       (if changed \<and> bytes_of_str new_json \<noteq> val
                        then Ok (bytes_of_str new_json,
                              Some \<lparr>cc_strategies = [''json''],
                                    cc_log = record ''json (heuristic)'' ''(JSON Masked)''\<rparr>)
                        else Ok (val, None))
                   | None \<Rightarrow> Ok (val, None))
              | None \<Rightarrow>
                  rbind (if braces then mask_postgres_array_run ctx s else Ok None)
                    (\<lambda>array. case array of
                       Some masked_array \<Rightarrow> Ok
                         (bytes_of_str masked_array,
                          Some \<lparr>cc_strategies = [''other''],
                                cc_log = record ''array (heuristic)'' ''(array masked)''\<rparr>)
                     | None \<Rightarrow> mask_cell_text_run ctx val s idx name))
           else mask_cell_text_run ctx val s idx name))"

definition mask_cell_run ::
  "'r mask_context \<Rightarrow> byte list \<Rightarrow> nat \<Rightarrow> string option \<Rightarrow> string option
    \<Rightarrow> (byte list \<times> cell_change option) result" where
  "mask_cell_run ctx val column_idx column_name explicit_strategy =
     (case explicit_strategy of
        Some strat \<Rightarrow>
          (if strat = ''json'' then Ok (mask_cell_json ctx val column_idx column_name)
           else mask_cell_explicit_run ctx val column_idx column_name strat)
      | None \<Rightarrow> mask_cell_heuristic_run ctx val column_idx column_name)"

definition mask_cell ::
  "'r mask_context \<Rightarrow> byte list \<Rightarrow> nat \<Rightarrow> string option \<Rightarrow> string option
    \<Rightarrow> byte list \<times> cell_change option" where
  "mask_cell ctx val column_idx column_name explicit_strategy =
     (case explicit_strategy of
        Some strat \<Rightarrow>
          (if strat = ''json'' then mask_cell_json ctx val column_idx column_name
           else mask_cell_explicit ctx val column_idx column_name strat)
      | None \<Rightarrow> mask_cell_heuristic ctx val column_idx column_name)"

section \<open>Lemmas\<close>

lemma normalize_identifier_idem: "normalize_identifier (normalize_identifier s) = normalize_identifier s"
  by (simp add: normalize_identifier_def to_ascii_lowercase_def trim_lower trim_idem)

text \<open>Documents: what may change is the text of strings.\<close>

fun json_shape :: "json \<Rightarrow> json" where
  "json_shape (JString s) = JString []"
| "json_shape (JArray vs) = JArray (map json_shape vs)"
| "json_shape (JObject kvs) = JObject (map (\<lambda>(k, v). (k, json_shape v)) kvs)"
| "json_shape v = v"

lemma mask_json_shape: "json_shape (fst (mask_json_recursively ctx v)) = json_shape v"
  by (induction ctx v rule: mask_json_recursively.induct)
     (auto simp: mask_json_string_def Let_def split: prod.splits)

lemma map_pair_snd_id: "(\<And>k v. (k, v) \<in> set kvs \<Longrightarrow> f v = v) \<Longrightarrow> map (\<lambda>(k, v). (k, f v)) kvs = kvs"
  by (induction kvs) auto

lemma mask_json_string_unchanged: "snd (mask_json_string ctx s) \<or> fst (mask_json_string ctx s) = s"
  by (auto simp: mask_json_string_def Let_def split: option.split)

lemma mask_json_unchanged: "\<not> snd (mask_json_recursively ctx v) \<Longrightarrow> fst (mask_json_recursively ctx v) = v"
proof (induction ctx v rule: mask_json_recursively.induct)
  case (1 ctx s)
  then show ?case using mask_json_string_unchanged [of ctx s] by (cases "mask_json_string ctx s") auto
next
  case (2 ctx arr)
  then show ?case by (auto simp: Let_def intro!: map_idI)
next
  case (3 ctx kvs)
  then have "(k, v) \<in> set kvs \<Longrightarrow> fst (mask_json_recursively ctx v) = v" for k v
    by (fastforce simp: Let_def)
  then have "map (\<lambda>(k, v). (k, fst (mask_json_recursively ctx v))) kvs = kvs"
    by (rule map_pair_snd_id)
  moreover have "map ((\<lambda>(k, r). (k, fst r)) \<circ> (\<lambda>(k, v). (k, mask_json_recursively ctx v))) kvs
      = map (\<lambda>(k, v). (k, fst (mask_json_recursively ctx v))) kvs"
    by (intro map_cong) auto
  ultimately show ?case by (simp add: Let_def)
qed auto

lemma mask_json_none_allowed: "he_allowed (mx_heuristics ctx) = {} \<Longrightarrow> \<not> snd (mask_json_recursively ctx v)"
  by (induction ctx v rule: mask_json_recursively.induct)
     (auto simp: mask_json_string_def Let_def split: prod.splits)

text \<open>Arrays: splitting loses nothing, so an element that is not masked is written back as it was.\<close>

lemma split_elements_nonempty [simp]: "split_elements s cur q e \<noteq> []"
  by (induction s cur q e rule: split_elements.induct) auto

lemma join_comma_Cons: "ss \<noteq> [] \<Longrightarrow> join_comma (s # ss) = s @ '','' @ join_comma ss"
  by (cases ss) auto

lemma join_split_elements: "join_comma (split_elements s cur q e) = cur @ s"
  by (induction s cur q e rule: split_elements.induct) (auto simp: join_comma_Cons)

lemma mask_element_unchanged: "\<not> snd (mask_element ctx e) \<Longrightarrow> fst (mask_element ctx e) = e"
  by (auto simp: mask_element_def mask_cleaned_def split: option.splits)

lemma join_comma_part: "s \<in> set ss \<Longrightarrow> \<exists>p q. join_comma ss = p @ s @ q"
proof (induction ss rule: join_comma.induct)
  case (2 a)
  then have "join_comma [a] = [] @ s @ []" by simp
  then show ?case by blast
next
  case (3 a b ss)
  show ?case
  proof (cases "s = a")
    case True
    then have "join_comma (a # b # ss) = [] @ s @ ('','' @ join_comma (b # ss))" by simp
    then show ?thesis by blast
  next
    case False
    with 3 obtain p q where "join_comma (b # ss) = p @ s @ q" by auto
    then have "join_comma (a # b # ss) = (a @ '','' @ p) @ s @ q" by simp
    then show ?thesis by blast
  qed
qed simp

text \<open>On UTF-8 text the slices of the array code are in range and on character boundaries.\<close>

lemma clean_element_returns: "text_ok e \<Longrightarrow> clean_element_run e = Ok (clean_element e)"
  using slice_str_inner [of "trim e" "CHR 0x22" "CHR 0x22"]
  by (simp add: clean_element_run_def clean_element_def text_ok_trim char_code_def Let_def)

lemma mask_element_returns: "text_ok e \<Longrightarrow> mask_element_run ctx e = Ok (mask_element ctx e)"
  by (simp add: mask_element_run_def mask_element_def clean_element_returns)

lemma mask_postgres_array_returns:
  assumes "text_ok raw"
  shows "mask_postgres_array_run ctx raw = Ok (mask_postgres_array ctx raw)"
proof (cases "starts_with raw (CHR ''{'') \<and> ends_with raw (CHR ''}'')")
  case True
  let ?content = "butlast (tl raw)"
  obtain t where raw: "raw = CHR ''{'' # t" "t \<noteq> []"
    using True by (cases raw) (auto simp: starts_with_def ends_with_def split: if_splits)
  have s: "slice_str raw 1 (length raw - 1) = Ok ?content"
    using True raw by (intro slice_str_inner [OF assms]) (auto simp: char_code_def Suc_le_eq)
  have "raw = [CHR ''{''] @ ?content @ [last raw]" using raw by simp
  with assms have c: "text_ok ?content" by (metis text_ok_parts)
  have "text_ok e" if "e \<in> set (split_elements ?content [] False False)" for e
    using join_comma_part [OF that] c by (metis join_split_elements append_Nil text_ok_parts)
  then have "rmap (mask_element_run ctx) (split_elements ?content [] False False)
      = Ok (map (mask_element ctx) (split_elements ?content [] False False))"
    by (intro rmap_Ok mask_element_returns)
  with True s show ?thesis by (simp add: mask_postgres_array_run_def mask_postgres_array_def)
next
  case False
  then show ?thesis by (auto simp: mask_postgres_array_run_def mask_postgres_array_def)
qed

text \<open>Previews.\<close>

lemma boundary_before_le: "boundary_before s n \<le> n \<and> is_char_boundary s (boundary_before s n)"
proof (induction s n rule: boundary_before.induct)
  case (1 s n)
  then show ?case
    by (subst (1 2) boundary_before.simps) (auto simp: is_char_boundary_def)
qed

lemma preview_returns [simp]: "preview_run v = Ok (preview v)"
  using boundary_before_le [of v 50] by (simp add: preview_run_def preview_def slice_str_start)

text \<open>Masking a cell returns.\<close>

lemma mask_cell_explicit_returns [simp]:
  "mask_cell_explicit_run ctx val idx name strat = Ok (mask_cell_explicit ctx val idx name strat)"
  by (simp add: mask_cell_explicit_run_def mask_cell_explicit_def Let_def)

lemma mask_cell_text_returns [simp]: "mask_cell_text_run ctx val s idx name = Ok (mask_cell_text ctx val s idx name)"
  by (simp add: mask_cell_text_run_def mask_cell_text_def Let_def split: option.split prod.split)

lemma mask_cell_heuristic_returns [simp]:
  "mask_cell_heuristic_run ctx val idx name = Ok (mask_cell_heuristic ctx val idx name)"
proof (cases "from_utf8 val")
  case (Some s)
  from mask_postgres_array_returns [OF from_utf8_ok [OF Some], of ctx] Some show ?thesis
    by (auto simp: mask_cell_heuristic_run_def mask_cell_heuristic_def Let_def split: option.split prod.split)
qed (simp add: mask_cell_heuristic_run_def mask_cell_heuristic_def)

lemma mask_cell_returns [simp]: "mask_cell_run ctx val i name strategy = Ok (mask_cell ctx val i name strategy)"
  by (simp add: mask_cell_run_def mask_cell_def split: option.split)

lemma length_preview: "length (preview v) \<le> 53"
  using boundary_before_le [of v 50] by (simp add: preview_def)

text \<open>Generated data.\<close>

lemma length_show_padded: "n < 10 ^ w \<Longrightarrow> 0 < w \<Longrightarrow> length (show_padded w n) = w"
proof -
  assume n: "n < 10 ^ w" "0 < w"
  have "k < 10 ^ v \<Longrightarrow> 0 < v \<Longrightarrow> length (show_nat k) \<le> v" for k v
  proof (induction k arbitrary: v rule: show_nat.induct)
    case (1 k)
    show ?case
    proof (cases "k < 10")
      case True
      with 1 show ?thesis by (simp add: show_nat.simps [of k])
    next
      case False
      with 1 obtain u where u: "v = Suc u" "0 < u" by (cases v; cases "v - 1") auto
      with 1(2) have "k div 10 < 10 ^ u" by (simp add: less_mult_imp_div_less mult.commute)
      with 1 False u have "length (show_nat (k div 10)) \<le> u" by blast
      with False u show ?thesis by (simp add: show_nat.simps [of k])
    qed
  qed
  from this [OF n] show ?thesis by (simp add: show_padded_def Let_def)
qed

lemma digits_value_zeros: "digits_value (replicate k (CHR ''0'') @ s) = digits_value s"
proof -
  have "foldl (\<lambda>n c. 10 * n + (char_code c - 48)) 0 (replicate k (CHR ''0'')) = (0 :: nat)"
    by (induction k) (simp_all add: char_code_def)
  then show ?thesis by (simp add: digits_value_def)
qed

lemma digits_value_show_padded [simp]: "digits_value (show_padded w n) = n"
  by (simp add: show_padded_def Let_def digits_value_zeros)

text \<open>What replaces a cell under a rule.\<close>

definition generated :: "'r mask_context \<Rightarrow> byte list \<Rightarrow> string set" where
  "generated ctx val =
     insert (hash_value (mx_crates ctx) (mx_key ctx) val)
       ((\<lambda>strat. generate_fake_data (mx_crates ctx) strat (masking_seed (mx_crates ctx) (mx_key ctx) val)) ` UNIV)"

definition replacement :: "'r mask_context \<Rightarrow> string \<Rightarrow> byte list \<Rightarrow> string" where
  "replacement ctx strat val =
     (if strat = ''hash'' then hash_value (mx_crates ctx) (mx_key ctx) val
      else generate_fake_data (mx_crates ctx) strat (masking_seed (mx_crates ctx) (mx_key ctx) val))"

lemma replacement_generated: "replacement ctx strat val \<in> generated ctx val"
  by (simp add: replacement_def generated_def)

text \<open>What a cell's log record may hold: a label with its fixed marker, or the strategy that was
  applied with a preview of the value it generated.\<close>

definition markers :: "(string \<times> string) set" where
  "markers = {(''json'', ''(JSON Masked)''), (''json (failed closed)'', ''MASKED''),
     (''json (heuristic)'', ''(JSON Masked)''), (''array (heuristic)'', ''(array masked)''),
     (''span (heuristic)'', ''(spans masked)'')}"

text \<open>The strategies a cell can be masked with: its rule's, or one of the seven detected types'.\<close>

definition applicable :: "string option \<Rightarrow> string set" where
  "applicable strategy = (case strategy of Some strat \<Rightarrow> {strat} | None \<Rightarrow> range pii_type_to_strategy)"

definition log_ok :: "'r mask_context \<Rightarrow> byte list \<Rightarrow> nat \<Rightarrow> string option \<Rightarrow> string option \<Rightarrow> byte list \<Rightarrow> cell_change \<Rightarrow> bool" where
  "log_ok ctx val idx name strategy val' ch \<longleftrightarrow>
     set (cc_strategies ch) \<subseteq> applicable strategy \<union> {''json'', ''other''}
     \<and> (\<exists>label masked. cc_log ch = change_record idx name (length val) label masked
        \<and> ((label, masked) \<in> markers
           \<or> label \<in> applicable strategy \<and> val' = bytes_of_str (replacement ctx label val)
             \<and> masked = preview (replacement ctx label val)))"

lemma log_ok_marker:
  "(l, m) \<in> markers \<Longrightarrow> set ss \<subseteq> applicable strategy \<union> {''json'', ''other''} \<Longrightarrow>
   log_ok ctx val idx name strategy val' \<lparr>cc_strategies = ss, cc_log = change_record idx name (length val) l m\<rparr>"
  by (auto simp: log_ok_def)

lemma log_ok_replacement:
  "strat \<in> applicable strategy \<Longrightarrow> log_ok ctx val idx name strategy (bytes_of_str (replacement ctx strat val))
     \<lparr>cc_strategies = [strat], cc_log = change_record idx name (length val) strat (preview (replacement ctx strat val))\<rparr>"
  by (auto simp: log_ok_def)

lemma in_markers [simp]:
  "(''json'', ''(JSON Masked)'') \<in> markers" "(''json (failed closed)'', ''MASKED'') \<in> markers"
  "(''json (heuristic)'', ''(JSON Masked)'') \<in> markers" "(''array (heuristic)'', ''(array masked)'') \<in> markers"
  "(''span (heuristic)'', ''(spans masked)'') \<in> markers"
  by (simp_all add: markers_def)

lemma in_applicable [simp]: "strat \<in> applicable (Some strat)" "pii_type_to_strategy t \<in> applicable None"
  by (simp_all add: applicable_def)

lemma mask_cell_json_log:
  "mask_cell_json ctx val idx name = (val', Some ch) \<Longrightarrow> log_ok ctx val idx name strategy val' ch"
  by (auto simp: mask_cell_json_def masked_document_def Let_def intro!: log_ok_marker split: option.splits prod.splits if_splits)

lemma mask_cell_explicit_log:
  "mask_cell_explicit ctx val idx name strat = (val', Some ch) \<Longrightarrow> log_ok ctx val idx name (Some strat) val' ch"
  using log_ok_replacement [of strat "Some strat" ctx val idx name]
  by (auto simp: mask_cell_explicit_def replacement_def Let_def split: if_splits)

lemma detected_replacement:
  "generate_fake_data (mx_crates ctx) (pii_type_to_strategy t) (masking_seed (mx_crates ctx) (mx_key ctx) val)
     = replacement ctx (pii_type_to_strategy t) val"
  by (cases t) (simp_all add: replacement_def)

lemma mask_cell_text_log:
  "mask_cell_text ctx val s idx name = (val', Some ch) \<Longrightarrow> log_ok ctx val idx name None val' ch"
  by (auto simp: mask_cell_text_def detected_replacement Let_def
      intro!: log_ok_replacement log_ok_marker split: option.splits prod.splits)

lemma mask_cell_heuristic_log:
  "mask_cell_heuristic ctx val idx name = (val', Some ch) \<Longrightarrow> log_ok ctx val idx name None val' ch"
  by (auto simp: mask_cell_heuristic_def Let_def split: option.splits prod.splits if_splits
      dest!: mask_cell_text_log intro!: log_ok_marker)

lemma mask_cell_log:
  "mask_cell ctx val idx name strategy = (val', Some ch) \<Longrightarrow> log_ok ctx val idx name strategy val' ch"
  by (auto simp: mask_cell_def split: option.splits if_splits
      dest: mask_cell_json_log mask_cell_explicit_log mask_cell_heuristic_log)

lemma mask_cell_unchanged:
  "mask_cell ctx val idx name strategy = (val', None) \<Longrightarrow> val' = val"
  by (auto simp: mask_cell_def mask_cell_json_def mask_cell_explicit_def mask_cell_heuristic_def
      mask_cell_text_def Let_def split: option.splits prod.splits if_splits)

lemma mask_cell_none_allowed:
  assumes "he_allowed (mx_heuristics ctx) = {}"
  shows "mask_cell ctx val idx name None = (val, None)"
proof -
  have "\<not> snd (mask_element ctx e)" for e by (simp add: mask_element_def mask_cleaned_def assms)
  then have a: "mask_postgres_array ctx s = None" for s
    by (auto simp: mask_postgres_array_def joined_elements_def Let_def)
  show ?thesis
    using mask_json_none_allowed [OF assms]
    by (auto simp: mask_cell_def mask_cell_heuristic_def mask_cell_text_def assms a Let_def
        split: option.splits prod.splits) (metis snd_conv)+
qed

section \<open>Properties\<close>

lemma replacement_digest:
  "sha256 (mx_crates ctx) (mx_key ctx @ val) = sha256 (mx_crates ctx) (mx_key ctx @ other) \<Longrightarrow>
   replacement ctx strat val = replacement ctx strat other"
  by (simp add: replacement_def masking_seed_def hash_value_def)

lemma mask_cell_rule:
  "strat \<noteq> ''json'' \<Longrightarrow> mask_cell ctx val i name (Some strat) =
     (bytes_of_str (replacement ctx strat val),
      Some \<lparr>cc_strategies = [strat],
            cc_log = change_record i name (length val) strat (preview (replacement ctx strat val))\<rparr>)"
  by (simp add: mask_cell_def mask_cell_explicit_def replacement_def Let_def)

lemma mask_cell_json_rule:
  "fst (mask_cell ctx val i name (Some ''json'')) =
     (case Option.bind (from_utf8 val) (json_from_str (mx_crates ctx)) of
        None \<Rightarrow> bytes_of_str ''MASKED''
      | Some doc \<Rightarrow>
          (case json_to_string (mx_crates ctx) (fst (mask_json_recursively ctx doc)) of
             None \<Rightarrow> bytes_of_str ''MASKED''
           | Some printed \<Rightarrow> if snd (mask_json_recursively ctx doc) then bytes_of_str printed else val))"
  by (auto simp: mask_cell_def mask_cell_json_def masked_document_def MASK_FAILED_SENTINEL_def Let_def
      split: option.split prod.split)

text \<open>C4: a column under an explicit rule is never forwarded as it came. Any strategy but \<open>json\<close>
  replaces the whole value by a generated one, recorded, that depends on the value only through
  the keyed hash; \<open>json\<close> replaces a value that does not parse, or whose masked document does
  not print, by the sentinel, and otherwise prints the masked document, leaving the value alone
  only when no string of the document was masked.\<close>
theorem explicit_rule_fails_closed:
  "(strat \<noteq> ''json'' \<longrightarrow>
      (\<exists>f \<in> generated ctx val. fst (mask_cell ctx val i name (Some strat)) = bytes_of_str f)
      \<and> snd (mask_cell ctx val i name (Some strat)) \<noteq> None
      \<and> (sha256 (mx_crates ctx) (mx_key ctx @ val) = sha256 (mx_crates ctx) (mx_key ctx @ other) \<longrightarrow>
         fst (mask_cell ctx val i name (Some strat)) = fst (mask_cell ctx other i name (Some strat))))
   \<and> fst (mask_cell ctx val i name (Some ''json'')) =
     (case Option.bind (from_utf8 val) (json_from_str (mx_crates ctx)) of
        None \<Rightarrow> bytes_of_str ''MASKED''
      | Some doc \<Rightarrow>
          (case json_to_string (mx_crates ctx) (fst (mask_json_recursively ctx doc)) of
             None \<Rightarrow> bytes_of_str ''MASKED''
           | Some printed \<Rightarrow> if snd (mask_json_recursively ctx doc) then bytes_of_str printed else val))"
proof (intro conjI impI mask_cell_json_rule)
  assume ne: "strat \<noteq> ''json''"
  show "\<exists>f \<in> generated ctx val. fst (mask_cell ctx val i name (Some strat)) = bytes_of_str f"
    unfolding mask_cell_rule [OF ne] using replacement_generated by auto
  show "snd (mask_cell ctx val i name (Some strat)) \<noteq> None"
    unfolding mask_cell_rule [OF ne] by simp
  assume "sha256 (mx_crates ctx) (mx_key ctx @ val) = sha256 (mx_crates ctx) (mx_key ctx @ other)"
  then show "fst (mask_cell ctx val i name (Some strat)) = fst (mask_cell ctx other i name (Some strat))"
    unfolding mask_cell_rule [OF ne] fst_conv by (rule arg_cong [OF replacement_digest])
qed

text \<open>Crates and a scanner small enough to compute with.\<close>

definition test_crates :: "u64 crates" where
  "test_crates =
     \<lparr>seed_from_u64 = (\<lambda>s. s), fake_safe_email = (\<lambda>r. (''a@example.com'', r)),
      fake_phone_number = (\<lambda>r. (''555-0100'', r)), fake_street_name = (\<lambda>r. (''Street'', r)),
      fake_first_name = (\<lambda>r. (''Ann'', r)), fake_last_name = (\<lambda>r. (''Lee'', r)),
      fake_company_name = (\<lambda>r. (''Acme'', r)), fake_sentence = (\<lambda>r. (''Lorem.'', r)),
      fake_credit_card_number = (\<lambda>r. (''4111'', r)), sha256 = (\<lambda>b. replicate 32 0),
      json_from_str = (\<lambda>s. None), json_to_string = (\<lambda>j. None)\<rparr>"

definition test_scanner :: pii_scanner where
  "test_scanner =
     \<lparr>email_regex = (\<lambda>s. s = ''joe@corp.com''), cc_regex = (\<lambda>s. False), ssn_regex = (\<lambda>s. False),
      phone_regex = (\<lambda>s. False), ip_regex = (\<lambda>s. False), dob_regex = (\<lambda>s. False),
      passport_regex = (\<lambda>s. False), email_spans = (\<lambda>s. []), phone_spans = (\<lambda>s. [])\<rparr>"

definition test_context :: "u64 mask_context" where
  "test_context = \<lparr>mx_scanner = test_scanner, mx_heuristics = heuristic_settings_from_config None,
     mx_key = replicate 32 7, mx_crates = test_crates\<rparr>"

theorem explicit_rule_fails_closed_witness:
  "snd (mask_cell test_context [0x6A] 0 None (Some ''ssn'')) \<noteq> None"
  using explicit_rule_fails_closed [of "''ssn''" test_context "[0x6A]" 0 None "[]"] by simp

text \<open>C14: the record a masked cell leaves in the event log is made of the column's index and name, the
  length of the original, and one of two pairs of texts: a fixed label with its fixed marker; or the
  strategy that was applied (the rule's own, or that of one of the seven PII types when there was no
  rule) with a preview, of at most 53 bytes, of the value which that strategy generated and which
  replaced the cell. Nothing else of the original's content is in it, and the strategies counted in
  the statistics are the rule's, those of the types, \<open>json\<close> and \<open>other\<close>.\<close>
theorem masking_log_holds_no_original:
  assumes "mask_cell ctx val i name strategy = (val', Some change)"
  shows "set (cc_strategies change) \<subseteq> applicable strategy \<union> {''json'', ''other''}
    \<and> (\<exists>label masked. cc_log change = change_record i name (length val) label masked
      \<and> ((label, masked) \<in> markers
         \<or> label \<in> applicable strategy \<and> length masked \<le> 53
           \<and> val' = bytes_of_str (replacement ctx label val) \<and> masked = preview (replacement ctx label val)))"
  using mask_cell_log [OF assms] length_preview unfolding log_ok_def by blast

text \<open>An address in a column without a rule.\<close>

theorem masking_log_holds_no_original_witness:
  "\<exists>label masked. cc_log (the (snd (mask_cell test_context (bytes_of_str ''joe@corp.com'') 3 None None)))
      = change_record 3 None (length (bytes_of_str ''joe@corp.com'')) label masked
    \<and> ((label, masked) \<in> markers \<or> label \<in> range pii_type_to_strategy \<and> length masked \<le> 53
      \<and> fst (mask_cell test_context (bytes_of_str ''joe@corp.com'') 3 None None)
          = bytes_of_str (replacement test_context label (bytes_of_str ''joe@corp.com''))
      \<and> masked = preview (replacement test_context label (bytes_of_str ''joe@corp.com'')))"
proof -
  have "snd (mask_cell test_context (bytes_of_str ''joe@corp.com'') 3 None None) \<noteq> None" by code_simp
  then have m: "mask_cell test_context (bytes_of_str ''joe@corp.com'') 3 None None
      = (fst (mask_cell test_context (bytes_of_str ''joe@corp.com'') 3 None None),
         Some (the (snd (mask_cell test_context (bytes_of_str ''joe@corp.com'') 3 None None))))"
    by (simp add: prod_eq_iff)
  from masking_log_holds_no_original [OF m] show ?thesis unfolding applicable_def option.case by blast
qed

text \<open>C33: masking a JSON document keeps its structure: the same keys, array lengths, numbers, booleans
  and nulls, only strings differing, and a document reported as unchanged is unchanged.\<close>
theorem json_masking_keeps_structure:
  "json_shape (fst (mask_json_recursively ctx doc)) = json_shape doc
   \<and> (\<not> snd (mask_json_recursively ctx doc) \<longrightarrow> fst (mask_json_recursively ctx doc) = doc)"
  using mask_json_shape mask_json_unchanged by blast

theorem json_masking_keeps_structure_witness:
  "fst (mask_json_recursively test_context (JArray [JNull, JString ''plain''])) = JArray [JNull, JString ''plain'']"
proof -
  have "\<not> snd (mask_json_recursively test_context (JArray [JNull, JString ''plain'']))" by code_simp
  with json_masking_keeps_structure [of test_context "JArray [JNull, JString ''plain'']"] show ?thesis by blast
qed

text \<open>Masking a PostgreSQL array literal splits it into elements whose concatenation is the literal,
  replaces exactly the elements detected as PII by a quoted pseudonym of their unquoted text,
  and writes every other element back byte for byte; without a detection there is no result.\<close>
theorem array_masking_is_elementwise:
  "let es = split_elements (butlast (tl raw)) [] False False;
       detected = (\<lambda>e. scan_allowed (mx_scanner ctx) (clean_element e) (he_allowed (mx_heuristics ctx)))
   in butlast (tl raw) = join_comma es
      \<and> mask_postgres_array ctx raw =
        (if starts_with raw (CHR ''{'') \<and> ends_with raw (CHR ''}'') \<and> (\<exists>e \<in> set es. detected e \<noteq> None)
         then Some (''{'' @ join_comma (map (\<lambda>e.
             case detected e of
               Some t \<Rightarrow> [CHR 0x22] @ pseudonym ctx t (clean_element e) @ [CHR 0x22] | None \<Rightarrow> e) es) @ ''}'')
         else None)"
proof -
  let ?es = "split_elements (butlast (tl raw)) [] False False"
  have "butlast (tl raw) = join_comma ?es" by (simp add: join_split_elements)
  moreover have "fst \<circ> mask_element ctx = (\<lambda>e.
      case scan_allowed (mx_scanner ctx) (clean_element e) (he_allowed (mx_heuristics ctx)) of
        Some t \<Rightarrow> [CHR 0x22] @ pseudonym ctx t (clean_element e) @ [CHR 0x22] | None \<Rightarrow> e)"
    by (intro ext) (simp add: mask_element_def mask_cleaned_def split: option.split)
  moreover have "snd (mask_element ctx e) \<longleftrightarrow>
      scan_allowed (mx_scanner ctx) (clean_element e) (he_allowed (mx_heuristics ctx)) \<noteq> None" for e
    by (auto simp: mask_element_def mask_cleaned_def split: option.split)
  ultimately show ?thesis by (auto simp: mask_postgres_array_def joined_elements_def Let_def)
qed

text \<open>The same value gets the same pseudonym wherever it is met: under an explicit rule of its
  type, detected as a whole value in an unruled column of either protocol, or as a string of a
  JSON document.\<close>
theorem pseudonyms_are_consistent:
  assumes "from_utf8 val = Some s" "he_enabled (mx_heuristics ctx)"
    and "scan_allowed (mx_scanner ctx) s (he_allowed (mx_heuristics ctx)) = Some t"
    and "\<not> starts_with (trim s) (CHR ''{'')" "\<not> starts_with (trim s) (CHR ''['')"
  shows "fst (mask_cell ctx val i name None) = bytes_of_str (pseudonym ctx t s)
    \<and> fst (mask_cell ctx val j name' (Some (pii_type_to_strategy t))) = bytes_of_str (pseudonym ctx t s)
    \<and> fst (mask_json_recursively ctx (JString s)) = JString (pseudonym ctx t s)"
proof -
  have v: "val = bytes_of_str s" using assms(1) by (auto simp: from_utf8_def split: if_splits)
  have "pii_type_to_strategy t \<noteq> ''json'' \<and> pii_type_to_strategy t \<noteq> ''hash''" by (cases t) auto
  then show ?thesis
    using assms
    by (simp add: mask_cell_rule replacement_def pseudonym_def v mask_json_string_def)
       (simp add: mask_cell_def mask_cell_heuristic_def mask_cell_text_def Let_def v)
qed

theorem pseudonyms_are_consistent_witness:
  "fst (mask_cell test_context (bytes_of_str ''joe@corp.com'') 1 None None)
     = bytes_of_str (pseudonym test_context Email ''joe@corp.com'')"
proof -
  have "from_utf8 (bytes_of_str ''joe@corp.com'') = Some ''joe@corp.com''" by code_simp
  moreover have "he_enabled (mx_heuristics test_context)" by code_simp
  moreover have "scan_allowed (mx_scanner test_context) ''joe@corp.com'' (he_allowed (mx_heuristics test_context)) = Some Email"
    by code_simp
  moreover have "\<not> starts_with (trim ''joe@corp.com'') (CHR ''{'')" "\<not> starts_with (trim ''joe@corp.com'') (CHR ''['')"
    by code_simp+
  ultimately show ?thesis using pseudonyms_are_consistent by blast
qed

text \<open>The generated stand-ins are well formed whatever the seed: an IP address lies in 203.0.113.0/24,
  a date of birth is a calendar date, an SSN and a passport number have their fixed lengths.\<close>
theorem stand_ins_well_formed:
  "(\<exists>n < 256. generate_fake_data cr ''ip'' seed = ''203.0.113.'' @ show_nat n)
   \<and> (\<exists>y m d. length y = 2 \<and> length m = 2 \<and> length d = 2
        \<and> digits_value m \<in> {1..12} \<and> digits_value d \<in> {1..28}
        \<and> generate_fake_data cr ''dob'' seed = ''19'' @ y @ ''-'' @ m @ ''-'' @ d)
   \<and> length (generate_fake_data cr ''ssn'' seed) = 11
   \<and> length (generate_fake_data cr ''passport'' seed) = 9"
proof (intro conjI)
  show "\<exists>n < 256. generate_fake_data cr ''ip'' seed = ''203.0.113.'' @ show_nat n"
    by (rule exI [of _ "unat seed mod 256"]) (simp add: generate_fake_data_def Let_def)
  have l: "length (show_padded 2 (unat seed mod 100)) = 2" "length (show_padded 2 (1 + unat seed mod 12)) = 2"
    "length (show_padded 2 (1 + unat seed mod 28)) = 2"
  proof -
    have "unat seed mod 100 < 100" "1 + unat seed mod 12 < 100" "1 + unat seed mod 28 < 100"
      using mod_less_divisor [of 12 "unat seed"] mod_less_divisor [of 28 "unat seed"] by linarith+
    then show "length (show_padded 2 (unat seed mod 100)) = 2" "length (show_padded 2 (1 + unat seed mod 12)) = 2"
      "length (show_padded 2 (1 + unat seed mod 28)) = 2"
      by (simp_all add: length_show_padded)
  qed
  have r: "1 + unat seed mod 12 \<in> {1..12}" "1 + unat seed mod 28 \<in> {1..28}"
    using mod_less_divisor [of 12 "unat seed"] mod_less_divisor [of 28 "unat seed"] by simp_all
  show "\<exists>y m d. length y = 2 \<and> length m = 2 \<and> length d = 2
        \<and> digits_value m \<in> {1..12} \<and> digits_value d \<in> {1..28}
        \<and> generate_fake_data cr ''dob'' seed = ''19'' @ y @ ''-'' @ m @ ''-'' @ d"
    using l r
    by (intro exI [of _ "show_padded 2 (unat seed mod 100)"] exI [of _ "show_padded 2 (1 + unat seed mod 12)"]
        exI [of _ "show_padded 2 (1 + unat seed mod 28)"])
       (simp add: generate_fake_data_def Let_def)
  show "length (generate_fake_data cr ''ssn'' seed) = 11"
    using length_show_padded [of "unat seed mod 10000" 4] by (simp add: generate_fake_data_def Let_def)
  show "length (generate_fake_data cr ''passport'' seed) = 9"
    using length_show_padded [of "unat seed mod 100000000" 8] by (simp add: generate_fake_data_def Let_def)
qed

end
