(* ===== verification/Interceptor.thy ===== *)
theory Interceptor
  imports Masking Pg_Codec MySql_Types
begin

text \<open>
  The interceptors, second half of \<^verbatim>\<open>src/src/interceptor.rs\<close>: \<^verbatim>\<open>Anonymizer\<close> for PostgreSQL and
  \<^verbatim>\<open>MySqlAnonymizer\<close> for MySQL, the columns they track, how rules select columns, and how
  rows are masked and recorded in the shared state. A random log id and a time are arguments.
  The functions that end in \<open>_run\<close> are the ones the sessions call: they can panic where the masking of
  a cell can, and are shown to return the value of the function without the ending.
\<close>

section \<open>Rows\<close>

text \<open>The loop over the values of a row that both interceptors run: index, label and first target
  of the column, \<open>mask_cell\<close> on what is not NULL.\<close>

definition explicit_strategy :: "(nat \<times> string) list \<Rightarrow> nat \<Rightarrow> string option" where
  "explicit_strategy target_cols i = map_option snd (find (\<lambda>(col_idx, _). col_idx = i) target_cols)"

definition label_at :: "string list \<Rightarrow> nat \<Rightarrow> string option" where
  "label_at labels i = (if i < length labels then Some (labels ! i) else None)"

fun mask_values :: "'r mask_context \<Rightarrow> (nat \<times> string) list \<Rightarrow> string list \<Rightarrow> nat \<Rightarrow> byte list option list
    \<Rightarrow> byte list option list \<times> cell_change list" where
  "mask_values ctx targets labels i [] = ([], [])"
| "mask_values ctx targets labels i (None # vs) =
     (let (vs', chs) = mask_values ctx targets labels (Suc i) vs in (None # vs', chs))"
| "mask_values ctx targets labels i (Some val # vs) =
     (let (val', ch) = mask_cell ctx val i (label_at labels i) (explicit_strategy targets i);
          (vs', chs) = mask_values ctx targets labels (Suc i) vs
      in (Some val' # vs', (case ch of Some c \<Rightarrow> [c] | None \<Rightarrow> []) @ chs))"

fun mask_values_run :: "'r mask_context \<Rightarrow> (nat \<times> string) list \<Rightarrow> string list \<Rightarrow> nat \<Rightarrow> byte list option list
    \<Rightarrow> (byte list option list \<times> cell_change list) result" where
  "mask_values_run ctx targets labels i [] = Ok ([], [])"
| "mask_values_run ctx targets labels i (None # vs) =
     rbind (mask_values_run ctx targets labels (Suc i) vs) (\<lambda>(vs', chs). Ok (None # vs', chs))"
| "mask_values_run ctx targets labels i (Some val # vs) =
     rbind (mask_cell_run ctx val i (label_at labels i) (explicit_strategy targets i)) (\<lambda>(val', ch).
     rbind (mask_values_run ctx targets labels (Suc i) vs) (\<lambda>(vs', chs).
     Ok (Some val' # vs', (case ch of Some c \<Rightarrow> [c] | None \<Rightarrow> []) @ chs)))"

lemma mask_values_returns [simp]:
  "mask_values_run ctx targets labels i vs = Ok (mask_values ctx targets labels i vs)"
  by (induction ctx targets labels i vs rule: mask_values.induct) (simp_all add: Let_def split: prod.split)

text \<open>The failures that masking the values of a row tells the metrics.\<close>

fun row_errors :: "'r mask_context \<Rightarrow> (nat \<times> string) list \<Rightarrow> nat \<Rightarrow> byte list option list \<Rightarrow> metric_call list" where
  "row_errors ctx targets i [] = []"
| "row_errors ctx targets i (None # vs) = row_errors ctx targets (Suc i) vs"
| "row_errors ctx targets i (Some val # vs) =
     masking_errors ctx val (explicit_strategy targets i) @ row_errors ctx targets (Suc i) vs"

text \<open>What a masked row leaves in the shared state: the counters, and one log entry.\<close>

definition record_changes :: "string \<times> nat \<Rightarrow> nat \<Rightarrow> string \<Rightarrow> string \<Rightarrow> cell_change list \<Rightarrow> app_state \<Rightarrow> app_state" where
  "record_changes stamp connection_id event_type row_kind chs s =
     (let strategies_used = concat (map cc_strategies chs);
          s = (if strategies_used \<noteq> [] then record_masking_batch strategies_used s else s)
      in if chs \<noteq> [] then
           add_log \<lparr>le_id = fst stamp, le_timestamp = snd stamp, le_connection_id = connection_id,
             le_event_type = event_type,
             le_content = ''Masked '' @ show_nat (length chs) @ '' fields in '' @ row_kind,
             le_details = Some (JArray (map cc_log chs))\<rparr> s
         else s)"

definition row_context :: "'r crates \<Rightarrow> pii_scanner \<Rightarrow> app_state \<Rightarrow> 'r mask_context" where
  "row_context cr sc s =
     \<lparr>mx_scanner = sc, mx_heuristics = heuristic_settings_from_config (cf_heuristics (as_config s)),
      mx_key = as_masking_key s, mx_crates = cr\<rparr>"

section \<open>PostgreSQL\<close>

record anonymizer =
  an_target_cols :: "(nat \<times> string) list"
  an_column_labels :: "string list"
  an_table_names_by_oid :: "u32 \<Rightarrow> string list"
  an_column_names_by_oid :: "u32 \<times> u16 \<Rightarrow> string option"
  an_connection_id :: nat

definition anonymizer_new :: "nat \<Rightarrow> anonymizer" where
  "anonymizer_new connection_id =
     \<lparr>an_target_cols = [], an_column_labels = [], an_table_names_by_oid = (\<lambda>_. []),
      an_column_names_by_oid = (\<lambda>_. None), an_connection_id = connection_id\<rparr>"

definition reset_columns :: "anonymizer \<Rightarrow> anonymizer" where
  "reset_columns a = a\<lparr>an_target_cols := [], an_column_labels := []\<rparr>"

definition register_postgres_table_oid :: "u32 \<Rightarrow> string \<Rightarrow> string \<Rightarrow> anonymizer \<Rightarrow> anonymizer" where
  "register_postgres_table_oid oid schema table a =
     (if oid = 0 then a
      else a\<lparr>an_table_names_by_oid := (an_table_names_by_oid a)
        (oid := an_table_names_by_oid a oid
           @ [normalize_identifier table, normalize_identifier (schema @ ''.'' @ table)])\<rparr>)"

text \<open>\<open>attnum\<close> is an \<^verbatim>\<open>i16\<close>, so its sign is that of \<open>sint\<close>.\<close>

definition register_postgres_column :: "u32 \<Rightarrow> u16 \<Rightarrow> string \<Rightarrow> anonymizer \<Rightarrow> anonymizer" where
  "register_postgres_column oid attnum column a =
     (if oid = 0 \<or> sint attnum \<le> 0 then a
      else a\<lparr>an_column_names_by_oid := (an_column_names_by_oid a)
        ((oid, attnum) := Some (normalize_identifier column))\<rparr>)"

definition postgres_rule_matches_table :: "anonymizer \<Rightarrow> u32 \<Rightarrow> string \<Rightarrow> bool" where
  "postgres_rule_matches_table a table_oid rule_table =
     (if table_oid = 0 then False
      else normalize_identifier rule_table \<in> set (an_table_names_by_oid a table_oid))"

definition field_label :: "field_description \<Rightarrow> string" where
  "field_label f = normalize_identifier (case from_utf8 (fd_name f) of Some s \<Rightarrow> s | None \<Rightarrow> '''')"

definition source_column :: "anonymizer \<Rightarrow> field_description \<Rightarrow> string option" where
  "source_column a f =
     (if fd_table_oid f \<noteq> 0 \<and> 0 < fd_column_index f
      then an_column_names_by_oid a (fd_table_oid f, fd_column_index f) else None)"

definition pg_rule_matches :: "anonymizer \<Rightarrow> field_description \<Rightarrow> masking_rule \<Rightarrow> bool" where
  "pg_rule_matches a f r =
     (let table_match = (case mr_table r of
            None \<Rightarrow> True
          | Some rule_table \<Rightarrow> postgres_rule_matches_table a (fd_table_oid f) rule_table);
          rule_column = normalize_identifier (mr_column r);
          column_match = (rule_column = field_label f \<or> source_column a f = Some rule_column)
      in table_match \<and> column_match)"

text \<open>The loop over the fields, \<open>i\<close> counting up; the rules are tried in order, the first match wins.\<close>

fun describe_fields :: "masking_rule list \<Rightarrow> nat \<Rightarrow> field_description list \<Rightarrow> anonymizer \<Rightarrow> anonymizer" where
  "describe_fields rules i [] a = a"
| "describe_fields rules i (f # fs) a =
     (let a = a\<lparr>an_column_labels := an_column_labels a @ [field_label f]\<rparr>;
          a = (case find (pg_rule_matches a f) rules of
                 Some rule \<Rightarrow> a\<lparr>an_target_cols := an_target_cols a @ [(i, mr_strategy rule)]\<rparr>
               | None \<Rightarrow> a)
      in describe_fields rules (Suc i) fs a)"

definition on_row_description :: "app_state \<Rightarrow> row_description \<Rightarrow> anonymizer \<Rightarrow> anonymizer" where
  "on_row_description s msg a = describe_fields (cf_rules (as_config s)) 0 (rd_fields msg) (reset_columns a)"

definition on_data_row :: "'r crates \<Rightarrow> pii_scanner \<Rightarrow> string \<times> nat \<Rightarrow> anonymizer \<Rightarrow> data_row \<Rightarrow> app_state
    \<Rightarrow> data_row \<times> app_state" where
  "on_data_row cr sc stamp a msg s =
     (if \<not> cf_masking_enabled (as_config s) then (msg, s)
      else
        let ctx = row_context cr sc s;
            (values, chs) = mask_values ctx (an_target_cols a) (an_column_labels a) 0 (dr_values msg)
        in (\<lparr>dr_values = values\<rparr>,
            record_changes stamp (an_connection_id a) ''DataMasked'' ''DataRow'' chs
              (metered (row_errors ctx (an_target_cols a) 0 (dr_values msg)) s)))"

definition on_data_row_run :: "'r crates \<Rightarrow> pii_scanner \<Rightarrow> string \<times> nat \<Rightarrow> anonymizer \<Rightarrow> data_row \<Rightarrow> app_state
    \<Rightarrow> (data_row \<times> app_state) result" where
  "on_data_row_run cr sc stamp a msg s =
     (if \<not> cf_masking_enabled (as_config s) then Ok (msg, s)
      else
        let ctx = row_context cr sc s in
        rbind (mask_values_run ctx (an_target_cols a) (an_column_labels a) 0 (dr_values msg)) (\<lambda>(values, chs).
        Ok (\<lparr>dr_values = values\<rparr>,
            record_changes stamp (an_connection_id a) ''DataMasked'' ''DataRow'' chs
              (metered (row_errors ctx (an_target_cols a) 0 (dr_values msg)) s))))"

lemma on_data_row_returns [simp]: "on_data_row_run cr sc stamp a msg s = Ok (on_data_row cr sc stamp a msg s)"
  by (simp add: on_data_row_run_def on_data_row_def Let_def split: prod.split)

section \<open>MySQL\<close>

record my_anonymizer =
  ma_target_cols :: "(nat \<times> string) list"
  ma_column_names :: "string list"
  ma_connection_id :: nat

definition my_anonymizer_new :: "nat \<Rightarrow> my_anonymizer" where
  "my_anonymizer_new connection_id =
     \<lparr>ma_target_cols = [], ma_column_names = [], ma_connection_id = connection_id\<rparr>"

definition my_reset_columns :: "my_anonymizer \<Rightarrow> my_anonymizer" where
  "my_reset_columns a = a\<lparr>ma_target_cols := [], ma_column_names := []\<rparr>"

definition my_label :: "byte list \<Rightarrow> string" where
  "my_label b = normalize_identifier (from_utf8_lossy b)"

definition my_rule_matches :: "column_definition \<Rightarrow> masking_rule \<Rightarrow> bool" where
  "my_rule_matches col r =
     (let label = my_label (cd_name col); src_column = my_label (cd_org_name col);
          label_table = my_label (cd_table col); source_table = my_label (cd_org_table col);
          table_match = (case mr_table r of
              None \<Rightarrow> True
            | Some t \<Rightarrow>
                (let rule_table = normalize_identifier t in
                 rule_table = label_table \<or> (source_table \<noteq> [] \<and> rule_table = source_table)));
          rule_column = normalize_identifier (mr_column r);
          column_match = (rule_column = label \<or> (src_column \<noteq> [] \<and> rule_column = src_column))
      in table_match \<and> column_match)"

definition on_column_definition :: "app_state \<Rightarrow> column_definition \<Rightarrow> my_anonymizer \<Rightarrow> my_anonymizer" where
  "on_column_definition s col a =
     (let col_idx = length (ma_column_names a);
          a = a\<lparr>ma_column_names := ma_column_names a @ [my_label (cd_name col)]\<rparr>
      in case find (my_rule_matches col) (cf_rules (as_config s)) of
           Some rule \<Rightarrow> a\<lparr>ma_target_cols := ma_target_cols a @ [(col_idx, mr_strategy rule)]\<rparr>
         | None \<Rightarrow> a)"

definition on_result_row :: "'r crates \<Rightarrow> pii_scanner \<Rightarrow> string \<times> nat \<Rightarrow> my_anonymizer \<Rightarrow> result_row \<Rightarrow> app_state
    \<Rightarrow> result_row \<times> app_state" where
  "on_result_row cr sc stamp a row s =
     (if \<not> cf_masking_enabled (as_config s) then (row, s)
      else
        let ctx = row_context cr sc s;
            (values, chs) = mask_values ctx (ma_target_cols a) (ma_column_names a) 0 (rr_values row)
        in (row\<lparr>rr_values := values\<rparr>,
            record_changes stamp (ma_connection_id a) ''MySqlDataMasked'' ''MySQL ResultRow'' chs
              (metered (row_errors ctx (ma_target_cols a) 0 (rr_values row)) s)))"

definition on_result_row_run :: "'r crates \<Rightarrow> pii_scanner \<Rightarrow> string \<times> nat \<Rightarrow> my_anonymizer \<Rightarrow> result_row \<Rightarrow> app_state
    \<Rightarrow> (result_row \<times> app_state) result" where
  "on_result_row_run cr sc stamp a row s =
     (if \<not> cf_masking_enabled (as_config s) then Ok (row, s)
      else
        let ctx = row_context cr sc s in
        rbind (mask_values_run ctx (ma_target_cols a) (ma_column_names a) 0 (rr_values row)) (\<lambda>(values, chs).
        Ok (row\<lparr>rr_values := values\<rparr>,
            record_changes stamp (ma_connection_id a) ''MySqlDataMasked'' ''MySQL ResultRow'' chs
              (metered (row_errors ctx (ma_target_cols a) 0 (rr_values row)) s))))"

lemma on_result_row_returns [simp]:
  "on_result_row_run cr sc stamp a row s = Ok (on_result_row cr sc stamp a row s)"
  by (simp add: on_result_row_run_def on_result_row_def Let_def split: prod.split)

section \<open>Lemmas\<close>

lemma mask_values_shape:
  "length (fst (mask_values ctx targets labels i vs)) = length vs
   \<and> (\<forall>k < length vs. (fst (mask_values ctx targets labels i vs) ! k = None) = (vs ! k = None))"
proof (induction ctx targets labels i vs rule: mask_values.induct)
  case (2 ctx targets labels i vs)
  then show ?case by (auto simp: Let_def nth_Cons split: prod.splits nat.splits)
next
  case (3 ctx targets labels i val vs)
  then show ?case by (auto simp: Let_def nth_Cons split: prod.splits nat.splits)
qed auto

lemma mask_values_nth:
  "k < length vs \<Longrightarrow> vs ! k = Some val \<Longrightarrow>
   fst (mask_values ctx targets labels i vs) ! k =
     Some (fst (mask_cell ctx val (i + k) (label_at labels (i + k)) (explicit_strategy targets (i + k))))"
proof (induction vs arbitrary: i k)
  case (Cons v vs)
  show ?case
  proof (cases k)
    case 0
    with Cons.prems show ?thesis by (auto simp: Let_def split: prod.splits)
  next
    case (Suc j)
    with Cons.prems Cons.IH [of j "Suc i"] show ?thesis
      by (cases v) (auto simp: Let_def split: prod.splits)
  qed
qed simp

lemma mask_values_changes:
  "ch \<in> set (snd (mask_values ctx targets labels i vs)) \<Longrightarrow>
   \<exists>k val val' strat. vs ! k = Some val \<and> k < length vs
     \<and> mask_cell ctx val (i + k) (label_at labels (i + k)) strat = (val', Some ch)"
proof (induction vs arbitrary: i)
  case (Cons v vs)
  show ?case
  proof (cases "ch \<in> set (snd (mask_values ctx targets labels (Suc i) vs))")
    case True
    from Cons.IH [OF this] obtain k val val' strat where "vs ! k = Some val" "k < length vs"
      "mask_cell ctx val (Suc i + k) (label_at labels (Suc i + k)) strat = (val', Some ch)" by blast
    then show ?thesis by (intro exI [of _ "Suc k"]) auto
  next
    case False
    with Cons.prems obtain val where v: "v = Some val"
      "snd (mask_cell ctx val i (label_at labels i) (explicit_strategy targets i)) = Some ch"
      by (cases v) (auto simp: Let_def split: prod.splits option.splits)
    then show ?thesis
      by (intro exI [of _ 0] exI [of _ val] exI [of _ "fst (mask_cell ctx val i (label_at labels i) (explicit_strategy targets i))"]
          exI [of _ "explicit_strategy targets i"]) (auto simp: prod_eq_iff)
  qed
qed simp

text \<open>Describing fields pairs every index with the strategy of the first matching rule.\<close>

lemma pg_tables_frame [simp]:
  "postgres_rule_matches_table (a\<lparr>an_column_labels := l\<rparr>) = postgres_rule_matches_table a"
  "postgres_rule_matches_table (a\<lparr>an_target_cols := t\<rparr>) = postgres_rule_matches_table a"
  "source_column (a\<lparr>an_column_labels := l\<rparr>) = source_column a"
  "source_column (a\<lparr>an_target_cols := t\<rparr>) = source_column a"
  by (intro ext; simp add: postgres_rule_matches_table_def source_column_def)+

lemma pg_rule_matches_frame [simp]:
  "pg_rule_matches (a\<lparr>an_column_labels := l\<rparr>) = pg_rule_matches a"
  "pg_rule_matches (a\<lparr>an_target_cols := t\<rparr>) = pg_rule_matches a"
  by (intro ext; simp only: pg_rule_matches_def pg_tables_frame)+

lemma explicit_strategy_append:
  "explicit_strategy (xs @ ys) i =
     (case explicit_strategy xs i of Some s \<Rightarrow> Some s | None \<Rightarrow> explicit_strategy ys i)"
  by (induction xs) (auto simp: explicit_strategy_def)

lemma explicit_strategy_simps [simp]:
  "explicit_strategy [] i = None" "explicit_strategy [(j, s)] i = (if j = i then Some s else None)"
  by (auto simp: explicit_strategy_def)

lemma explicit_strategy_above: "\<forall>(j, s) \<in> set xs. j < k \<Longrightarrow> k \<le> i \<Longrightarrow> explicit_strategy xs i = None"
  by (auto simp: explicit_strategy_def find_None_iff)

lemma describe_fields_spec:
  "\<forall>(j, s) \<in> set (an_target_cols a). j < i \<Longrightarrow> length (an_column_labels a) = i \<Longrightarrow>
   an_column_labels (describe_fields rules i fs a) = an_column_labels a @ map field_label fs
   \<and> (\<forall>k. explicit_strategy (an_target_cols (describe_fields rules i fs a)) k =
        (if k < i then explicit_strategy (an_target_cols a) k
         else if k - i < length fs then map_option mr_strategy (find (pg_rule_matches a (fs ! (k - i))) rules)
         else None))"
proof (induction fs arbitrary: i a)
  case Nil
  then show ?case using explicit_strategy_above [of "an_target_cols a" i] by auto
next
  case (Cons f fs)
  let ?a = "a\<lparr>an_column_labels := an_column_labels a @ [field_label f]\<rparr>"
  define b where "b = (case find (pg_rule_matches ?a f) rules of
      Some rule \<Rightarrow> ?a\<lparr>an_target_cols := an_target_cols ?a @ [(i, mr_strategy rule)]\<rparr> | None \<Rightarrow> ?a)"
  have step: "describe_fields rules i (f # fs) a = describe_fields rules (Suc i) fs b"
    by (simp only: describe_fields.simps Let_def b_def)
  have b: "\<forall>(j, s) \<in> set (an_target_cols b). j < Suc i" "length (an_column_labels b) = Suc i"
    "an_column_labels b = an_column_labels a @ [field_label f]" "pg_rule_matches b = pg_rule_matches a"
    using Cons.prems by (auto simp: b_def split: option.splits)
  have t: "explicit_strategy (an_target_cols b) k =
      (if k = i then map_option mr_strategy (find (pg_rule_matches a f) rules) else explicit_strategy (an_target_cols a) k)"
    if "k < Suc i" for k
    using Cons.prems explicit_strategy_above [of "an_target_cols a" i i]
    by (auto simp: b_def explicit_strategy_append split: option.splits)
  show ?case
    unfolding step using Cons.IH [OF b(1,2)] b(3,4) t
    by (auto simp: nth_Cons' less_Suc_eq_le not_le)
qed

definition describe_columns :: "app_state \<Rightarrow> column_definition list \<Rightarrow> my_anonymizer \<Rightarrow> my_anonymizer" where
  "describe_columns s cols a = fold (on_column_definition s) cols a"

lemma describe_columns_spec:
  "\<forall>(j, st) \<in> set (ma_target_cols a). j < length (ma_column_names a) \<Longrightarrow>
   ma_column_names (describe_columns s cols a) = ma_column_names a @ map (\<lambda>c. my_label (cd_name c)) cols
   \<and> (\<forall>(j, st) \<in> set (ma_target_cols (describe_columns s cols a)). j < length (ma_column_names (describe_columns s cols a)))
   \<and> (\<forall>k. explicit_strategy (ma_target_cols (describe_columns s cols a)) k =
        (if k < length (ma_column_names a) then explicit_strategy (ma_target_cols a) k
         else if k - length (ma_column_names a) < length cols
         then map_option mr_strategy (find (my_rule_matches (cols ! (k - length (ma_column_names a)))) (cf_rules (as_config s)))
         else None))"
proof (induction cols arbitrary: a)
  case Nil
  then show ?case
    using explicit_strategy_above [of "ma_target_cols a" "length (ma_column_names a)"]
    by (auto simp: describe_columns_def)
next
  case (Cons c cs)
  let ?n = "length (ma_column_names a)"
  define b where "b = on_column_definition s c a"
  have step: "describe_columns s (c # cs) a = describe_columns s cs b"
    by (simp add: describe_columns_def b_def)
  have b: "\<forall>(j, st) \<in> set (ma_target_cols b). j < length (ma_column_names b)"
    "ma_column_names b = ma_column_names a @ [my_label (cd_name c)]"
    using Cons.prems by (auto simp: b_def on_column_definition_def Let_def split: option.splits)
  have t: "explicit_strategy (ma_target_cols b) k =
      (if k = ?n then map_option mr_strategy (find (my_rule_matches c) (cf_rules (as_config s)))
       else explicit_strategy (ma_target_cols a) k)" for k
    using explicit_strategy_above [of "ma_target_cols a" ?n ?n] Cons.prems
    by (auto simp: b_def on_column_definition_def Let_def explicit_strategy_append split: option.splits)
  show ?case
    unfolding step using Cons.IH [OF b(1)] b(2) t
    by (auto simp: nth_Cons' less_Suc_eq_le not_le)
qed

lemma record_changes_frame [simp]:
  "as_config (record_changes st c t k chs s) = as_config s"
  "as_masking_key (record_changes st c t k chs s) = as_masking_key s"
  by (simp_all add: record_changes_def Let_def)

lemma record_changes_none [simp]: "record_changes st c t k [] s = s"
  by (simp add: record_changes_def)

lemma mask_values_map:
  "fst (mask_values ctx targets labels i vs) =
     map (\<lambda>(k, v). map_option (\<lambda>val. fst (mask_cell ctx val k (label_at labels k) (explicit_strategy targets k))) v)
       (enumerate i vs)"
proof (rule nth_equalityI)
  show "length (fst (mask_values ctx targets labels i vs)) = length (map (\<lambda>(k, v). map_option
      (\<lambda>val. fst (mask_cell ctx val k (label_at labels k) (explicit_strategy targets k))) v) (enumerate i vs))"
    using mask_values_shape [of ctx targets labels i vs] by simp
next
  fix k assume "k < length (fst (mask_values ctx targets labels i vs))"
  with mask_values_shape [of ctx targets labels i vs] have k: "k < length vs" by simp
  show "fst (mask_values ctx targets labels i vs) ! k = map (\<lambda>(k, v). map_option
      (\<lambda>val. fst (mask_cell ctx val k (label_at labels k) (explicit_strategy targets k))) v) (enumerate i vs) ! k"
  proof (cases "vs ! k")
    case None
    with mask_values_shape [of ctx targets labels i vs] k show ?thesis by (simp add: nth_enumerate_eq)
  next
    case (Some val)
    from mask_values_nth [OF k this] Some k show ?thesis by (simp add: nth_enumerate_eq)
  qed
qed

lemma row_context_cong:
  "as_config s' = as_config s \<Longrightarrow> as_masking_key s' = as_masking_key s \<Longrightarrow> row_context cr sc s' = row_context cr sc s"
  by (simp add: row_context_def)

section \<open>Properties\<close>

text \<open>With \<open>masking_enabled\<close> off a row passes through either interceptor as it came, and leaves no
  trace in the statistics or the log.\<close>
theorem kill_switch_is_identity:
  assumes "\<not> cf_masking_enabled (as_config s)"
  shows "on_data_row cr sc stamp a msg s = (msg, s) \<and> on_result_row cr sc stamp b row s = (row, s)"
  using assms by (simp add: on_data_row_def on_result_row_def)

definition test_state :: "masking_rule list \<Rightarrow> bool \<Rightarrow> app_state" where
  "test_state rules enabled = app_state_new (\<lambda>b. b) (replicate 32 7)
     (default_app_config\<lparr>cf_rules := rules, cf_masking_enabled := enabled\<rparr>) ''proxy.yaml'' ''db'' 5432 Postgres"

theorem kill_switch_is_identity_witness:
  "on_data_row test_crates test_scanner (''id'', 1) (anonymizer_new 1) \<lparr>dr_values = [Some [0x6A]]\<rparr> (test_state [] False)
     = (\<lparr>dr_values = [Some [0x6A]]\<rparr>, test_state [] False)"
  by (rule conjunct1 [OF kill_switch_is_identity]) (simp add: test_state_def app_state_new_def)

text \<open>C3: masking a row keeps its shape in both protocols: the same number of values, NULL exactly where
  NULL was, the sequence number of a MySQL row; the configuration and the key are not touched.\<close>
theorem masked_row_keeps_shape:
  "(let (out, s') = on_data_row cr sc stamp a msg s in
      length (dr_values out) = length (dr_values msg)
      \<and> (\<forall>k < length (dr_values msg). (dr_values out ! k = None) = (dr_values msg ! k = None))
      \<and> as_config s' = as_config s \<and> as_masking_key s' = as_masking_key s)
   \<and> (let (out, s') = on_result_row cr sc stamp b row s in
      length (rr_values out) = length (rr_values row) \<and> rr_sequence_id out = rr_sequence_id row
      \<and> (\<forall>k < length (rr_values row). (rr_values out ! k = None) = (rr_values row ! k = None))
      \<and> as_config s' = as_config s \<and> as_masking_key s' = as_masking_key s)"
  using mask_values_shape [of "row_context cr sc s" "an_target_cols a" "an_column_labels a" 0 "dr_values msg"]
    mask_values_shape [of "row_context cr sc s" "ma_target_cols b" "ma_column_names b" 0 "rr_values row"]
  by (auto simp: on_data_row_def on_result_row_def Let_def split: prod.split)

theorem masked_row_keeps_shape_witness:
  "length (dr_values (fst (on_data_row test_crates test_scanner (''id'', 1) (anonymizer_new 1)
     \<lparr>dr_values = [None, Some [0x6A]]\<rparr> (test_state [] True)))) = 2"
  using conjunct1 [OF masked_row_keeps_shape [of test_crates test_scanner "(''id'', 1)" "anonymizer_new 1"
      "\<lparr>dr_values = [None, Some [0x6A]]\<rparr>" "test_state [] True" "my_anonymizer_new 1"
      "\<lparr>rr_sequence_id = 0, rr_values = []\<rparr>"]]
  by (cases "on_data_row test_crates test_scanner (''id'', 1) (anonymizer_new 1)
      \<lparr>dr_values = [None, Some [0x6A]]\<rparr> (test_state [] True)") (simp only: prod.case Let_def fst_conv, simp)

text \<open>A PostgreSQL row is masked column by column. Value \<open>k\<close> is masked with the strategy of the first
  rule that matches field \<open>k\<close> of the last row description, or by the heuristics when none
  matches (or there is no such field), whatever was described before.\<close>
theorem postgres_row_masking:
  assumes "cf_masking_enabled (as_config s)" "k < length (dr_values msg)" "dr_values msg ! k = Some val"
  shows "dr_values (fst (on_data_row cr sc stamp (on_row_description s0 desc a) msg s)) ! k =
    Some (fst (mask_cell (row_context cr sc s) val k
      (if k < length (rd_fields desc) then Some (field_label (rd_fields desc ! k)) else None)
      (if k < length (rd_fields desc)
       then map_option mr_strategy (find (pg_rule_matches a (rd_fields desc ! k)) (cf_rules (as_config s0)))
       else None)))"
proof -
  let ?a = "on_row_description s0 desc a"
  have m: "pg_rule_matches (reset_columns a) = pg_rule_matches a" by (simp add: reset_columns_def)
  have "an_column_labels ?a = map field_label (rd_fields desc)"
    "explicit_strategy (an_target_cols ?a) k =
       (if k < length (rd_fields desc)
        then map_option mr_strategy (find (pg_rule_matches a (rd_fields desc ! k)) (cf_rules (as_config s0))) else None)"
    using describe_fields_spec [of "reset_columns a" 0 "cf_rules (as_config s0)" "rd_fields desc"]
    by (simp_all add: on_row_description_def m reset_columns_def)
  with mask_values_nth [of k "dr_values msg" val "row_context cr sc s" "an_target_cols ?a" "an_column_labels ?a" 0] assms
  show ?thesis
    by (cases "k < length (rd_fields desc)") (simp_all add: on_data_row_def Let_def label_at_def split_beta)
qed

definition test_field :: field_description where
  "test_field = \<lparr>fd_name = bytes_of_str ''SSN '', fd_table_oid = 0, fd_column_index = 0, fd_type_oid = 25,
     fd_type_len = 0, fd_type_modifier = 0, fd_format_code = 0\<rparr>"

definition test_rule :: masking_rule where
  "test_rule = \<lparr>mr_table = None, mr_column = ''ssn'', mr_strategy = ''ip''\<rparr>"

theorem postgres_row_masking_witness:
  "dr_values (fst (on_data_row test_crates test_scanner (''id'', 1)
      (on_row_description (test_state [test_rule] True) \<lparr>rd_fields = [test_field]\<rparr> (anonymizer_new 1))
      \<lparr>dr_values = [Some [0x6A]]\<rparr> (test_state [test_rule] True))) ! 0 = Some (bytes_of_str ''203.0.113.0'')"
proof -
  have e: "cf_masking_enabled (as_config (test_state [test_rule] True))" by (simp add: test_state_def app_state_new_def)
  have r: "cf_rules (as_config (test_state [test_rule] True)) = [test_rule]" by (simp add: test_state_def app_state_new_def)
  have st: "mr_strategy test_rule = ''ip''" by (simp add: test_rule_def)
  have "pg_rule_matches (anonymizer_new 1) test_field test_rule" by code_simp
  moreover have "replacement (row_context test_crates test_scanner (test_state [test_rule] True)) ''ip'' [0x6A] = ''203.0.113.0''"
    by code_simp
  ultimately show ?thesis
    using postgres_row_masking [OF e, of 0 "\<lparr>dr_values = [Some [0x6A]]\<rparr>" "[0x6A]" test_crates test_scanner "(''id'', 1)"
        "test_state [test_rule] True" "\<lparr>rd_fields = [test_field]\<rparr>" "anonymizer_new 1"]
    by (simp add: r mask_cell_rule st)
qed

text \<open>A MySQL row is masked column by column in the same way, from the column definitions of its
  result set, provided the columns were reset before them.\<close>
theorem mysql_row_masking:
  assumes "cf_masking_enabled (as_config s)" "k < length (rr_values row)" "rr_values row ! k = Some val"
  shows "rr_values (fst (on_result_row cr sc stamp (describe_columns s0 cols (my_reset_columns a)) row s)) ! k =
    Some (fst (mask_cell (row_context cr sc s) val k
      (if k < length cols then Some (my_label (cd_name (cols ! k))) else None)
      (if k < length cols
       then map_option mr_strategy (find (my_rule_matches (cols ! k)) (cf_rules (as_config s0))) else None)))"
proof -
  let ?a = "describe_columns s0 cols (my_reset_columns a)"
  have "ma_column_names ?a = map (\<lambda>c. my_label (cd_name c)) cols"
    "explicit_strategy (ma_target_cols ?a) k =
       (if k < length cols
        then map_option mr_strategy (find (my_rule_matches (cols ! k)) (cf_rules (as_config s0))) else None)"
    using describe_columns_spec [of "my_reset_columns a" s0 cols] by (simp_all add: my_reset_columns_def)
  with mask_values_nth [of k "rr_values row" val "row_context cr sc s" "ma_target_cols ?a" "ma_column_names ?a" 0] assms
  show ?thesis
    by (cases "k < length cols") (simp_all add: on_result_row_def Let_def label_at_def split_beta)
qed

definition test_column :: column_definition where
  "test_column = \<lparr>cd_sequence_id = 1, cd_catalog = [], cd_schema = [], cd_table = [], cd_org_table = [],
     cd_name = bytes_of_str ''x'', cd_org_name = bytes_of_str ''SSN'', cd_character_set = 33, cd_column_length = 0,
     cd_column_type = 0xfd, cd_flags = 0, cd_decimals = 0, cd_raw = []\<rparr>"

theorem mysql_row_masking_witness:
  "rr_values (fst (on_result_row test_crates test_scanner (''id'', 1)
      (describe_columns (test_state [test_rule] True) [test_column] (my_reset_columns (my_anonymizer_new 1)))
      \<lparr>rr_sequence_id = 5, rr_values = [Some [0x6A]]\<rparr> (test_state [test_rule] True))) ! 0 = Some (bytes_of_str ''203.0.113.0'')"
proof -
  have e: "cf_masking_enabled (as_config (test_state [test_rule] True))" by (simp add: test_state_def app_state_new_def)
  have r: "cf_rules (as_config (test_state [test_rule] True)) = [test_rule]" by (simp add: test_state_def app_state_new_def)
  have st: "mr_strategy test_rule = ''ip''" by (simp add: test_rule_def)
  have "my_rule_matches test_column test_rule" by code_simp
  moreover have "replacement (row_context test_crates test_scanner (test_state [test_rule] True)) ''ip'' [0x6A] = ''203.0.113.0''"
    by code_simp
  ultimately show ?thesis
    using mysql_row_masking [OF e, of 0 "\<lparr>rr_sequence_id = 5, rr_values = [Some [0x6A]]\<rparr>" "[0x6A]" test_crates test_scanner
        "(''id'', 1)" "test_state [test_rule] True" "[test_column]" "my_anonymizer_new 1"]
    by (simp add: r mask_cell_rule st)
qed

text \<open>Without a reset between two result sets of one MySQL command the second one is masked by the
  columns of the first: a column that a rule covers in the second result set goes unruled when
  the column at its position in the first was not covered.\<close>
theorem mysql_second_result_set:
  assumes "k < length cols1"
  shows "explicit_strategy (ma_target_cols
      (describe_columns s cols2 (describe_columns s cols1 (my_reset_columns a)))) k =
    map_option mr_strategy (find (my_rule_matches (cols1 ! k)) (cf_rules (as_config s)))"
proof -
  define b where "b = describe_columns s cols1 (my_reset_columns a)"
  have "ma_column_names b = map (\<lambda>c. my_label (cd_name c)) cols1"
    "\<forall>(j, st) \<in> set (ma_target_cols b). j < length (ma_column_names b)"
    "explicit_strategy (ma_target_cols b) k =
       map_option mr_strategy (find (my_rule_matches (cols1 ! k)) (cf_rules (as_config s)))"
    using describe_columns_spec [of "my_reset_columns a" s cols1, folded b_def] assms
    unfolding my_reset_columns_def by auto
  with describe_columns_spec [of b s cols2] assms show ?thesis
    unfolding b_def [symmetric] by simp
qed

theorem mysql_second_result_set_witness:
  "let plain = test_column\<lparr>cd_org_name := bytes_of_str ''id''\<rparr>; s = test_state [test_rule] True in
   my_rule_matches test_column test_rule
   \<and> explicit_strategy (ma_target_cols
        (describe_columns s [test_column] (describe_columns s [plain] (my_reset_columns (my_anonymizer_new 1))))) 0 = None"
proof -
  let ?plain = "test_column\<lparr>cd_org_name := bytes_of_str ''id''\<rparr>" and ?s = "test_state [test_rule] True"
  have r: "cf_rules (as_config ?s) = [test_rule]" by (simp add: test_state_def app_state_new_def)
  have "my_rule_matches test_column test_rule" "\<not> my_rule_matches ?plain test_rule" by code_simp+
  with mysql_second_result_set [of 0 "[?plain]" ?s "[test_column]" "my_anonymizer_new 1"] show ?thesis
    by (simp add: r Let_def)
qed

text \<open>A column alias cannot hide a protected column. Once a table and one of its columns are
  registered, every field that comes from that column is matched by a rule on the table (plain
  or schema-qualified, in any case and spacing) and column, whatever the field is called; in
  MySQL the original names in the column definition do the same.\<close>
theorem alias_cannot_bypass_rule:
  assumes "fd_table_oid f \<noteq> 0" "0 < sint (fd_column_index f)"
    and "normalize_identifier (mr_column r) = normalize_identifier column"
    and "mr_table r = None \<or> (\<exists>t. mr_table r = Some t \<and>
      normalize_identifier t \<in> {normalize_identifier table, normalize_identifier (schema @ ''.'' @ table)})"
    and "normalize_identifier (mr_column r) = my_label (cd_org_name col)" "my_label (cd_org_name col) \<noteq> []"
    and "\<forall>t. mr_table r = Some t \<longrightarrow> normalize_identifier t = my_label (cd_org_table col) \<and> my_label (cd_org_table col) \<noteq> []"
  shows "pg_rule_matches (register_postgres_column (fd_table_oid f) (fd_column_index f) column
      (register_postgres_table_oid (fd_table_oid f) schema table a)) (f\<lparr>fd_name := alias\<rparr>) r
    \<and> my_rule_matches (col\<lparr>cd_name := alias, cd_table := alias'\<rparr>) r"
proof
  have pos: "0 < fd_column_index f" using assms(2) by (metis sint_0 word_gt_0 less_irrefl)
  have src: "source_column (register_postgres_column (fd_table_oid f) (fd_column_index f) column
      (register_postgres_table_oid (fd_table_oid f) schema table a)) (f\<lparr>fd_name := alias\<rparr>) = Some (normalize_identifier column)"
    using assms(1,2) pos by (simp add: source_column_def register_postgres_column_def)
  show "pg_rule_matches (register_postgres_column (fd_table_oid f) (fd_column_index f) column
      (register_postgres_table_oid (fd_table_oid f) schema table a)) (f\<lparr>fd_name := alias\<rparr>) r"
    unfolding pg_rule_matches_def src
    using assms(1-4) by (auto simp: Let_def postgres_rule_matches_table_def register_postgres_column_def
        register_postgres_table_oid_def split: option.split)
  show "my_rule_matches (col\<lparr>cd_name := alias, cd_table := alias'\<rparr>) r"
    using assms(5-7) by (auto simp: my_rule_matches_def Let_def split: option.split)
qed

theorem alias_cannot_bypass_rule_witness:
  "pg_rule_matches (register_postgres_column 7 2 ''SSN'' (register_postgres_table_oid 7 ''hr'' ''staff'' (anonymizer_new 1)))
     (test_field\<lparr>fd_table_oid := 7, fd_column_index := 2, fd_name := bytes_of_str ''y''\<rparr>) test_rule"
proof -
  let ?f = "test_field\<lparr>fd_table_oid := 7, fd_column_index := 2\<rparr>"
  have "normalize_identifier (mr_column test_rule) = normalize_identifier ''SSN''" "mr_table test_rule = None"
    "normalize_identifier (mr_column test_rule) = my_label (cd_org_name test_column)" "my_label (cd_org_name test_column) \<noteq> []"
    by code_simp+
  then have "pg_rule_matches (register_postgres_column (fd_table_oid ?f) (fd_column_index ?f) ''SSN''
      (register_postgres_table_oid (fd_table_oid ?f) ''hr'' ''staff'' (anonymizer_new 1))) (?f\<lparr>fd_name := bytes_of_str ''y''\<rparr>) test_rule"
    using alias_cannot_bypass_rule [of ?f test_rule "''SSN''" "''staff''" "''hr''" test_column "anonymizer_new 1" "bytes_of_str ''y''"]
    by simp
  then show ?thesis by simp
qed

end
