(* ===== verification/MySql_Session.thy ===== *)
theory MySql_Session
  imports MySql_Login Interceptor
begin

text \<open>
  A MySQL connection, \<^verbatim>\<open>process_mysql_connection\<close> and \<^verbatim>\<open>handle_mysql_protocol\<close> of
  \<^verbatim>\<open>src/src/main.rs\<close>: the handshake the client sees, its response with the upgrade to TLS, the
  upstream leg, the login relayed or terminated, and the command phase as a run of \<open>turn\<close>s. A
  phase returns \<open>Ok None\<close> where the code returns from the session without an error.
\<close>

section \<open>The world of a connection\<close>

text \<open>The TLS acceptor gets what \<^verbatim>\<open>Framed\<close> had buffered before the reads to come
  (\<^verbatim>\<open>PrefixedStream\<close>) and gives the reads of the secured stream; \<open>mw_draw\<close> are random bytes.\<close>

record my_world =
  mw_digests :: digests
  mw_rsa :: rsa_lib
  mw_waits :: waits
  mw_tls_acceptor :: "(byte list list \<Rightarrow> byte list list result) option"
  mw_tls_connect :: "string \<Rightarrow> byte list list \<Rightarrow> byte list list result"
  mw_terminating_auth :: "terminating_auth option"
  mw_draw :: "nat \<Rightarrow> byte"
  mw_connection_id :: nat

definition prefixed_stream :: "byte list \<Rightarrow> byte list list \<Rightarrow> byte list list" where
  "prefixed_stream prefix inner = (if prefix = [] then inner else prefix # inner)"

text \<open>One step under the handshake deadline that reads a message.\<close>

definition auth_next :: "my_world \<Rightarrow> string \<Rightarrow> nat \<Rightarrow> my_leg \<Rightarrow> my_msg option result \<times> my_leg" where
  "auth_next w what round l =
     (case auth_step (mw_waits w what round) what () of
        Ok _ \<Rightarrow> leg_next my_decode l
      | Err e \<Rightarrow> (Err e, l)
      | Panic \<Rightarrow> (Panic, l))"

section \<open>Phase 1: the handshake\<close>

definition client_handshake :: "my_world \<Rightarrow> handshake_v10 \<Rightarrow> handshake_v10 \<times> byte list option" where
  "client_handshake w h =
     (let h = h\<lparr>hs_capability_flags := hs_capability_flags h AND NOT CLIENT_COMPRESS\<rparr>;
          h = (if mw_tls_acceptor w \<noteq> None
               then h\<lparr>hs_capability_flags := hs_capability_flags h OR CLIENT_SSL\<rparr>
               else h\<lparr>hs_capability_flags := hs_capability_flags h AND NOT CLIENT_SSL\<rparr>)
      in case mw_terminating_auth w of
           Some auth \<Rightarrow>
             (let nonce = generate_nonce (mw_draw w) in
              (h\<lparr>hs_auth_plugin_data_part1 := take 8 nonce, hs_auth_plugin_data_part2 := drop 8 nonce,
                 hs_auth_plugin_name := plugin_name (ta_client_plugin auth),
                 hs_capability_flags := hs_capability_flags h OR (CLIENT_PLUGIN_AUTH
                    OR CLIENT_SECURE_CONNECTION OR CLIENT_PROTOCOL_41),
                 hs_raw := []\<rparr>, Some nonce))
         | None \<Rightarrow> (h, None))"

type_synonym 'a phase = "'a option result \<times> my_leg \<times> my_leg"

definition phase_handshake :: "my_world \<Rightarrow> my_leg \<Rightarrow> my_leg \<Rightarrow> (handshake_v10 \<times> byte list option) phase" where
  "phase_handshake w c u =
     (case leg_next my_decode u of
        (Ok (Some (MHandshake h)), u) \<Rightarrow>
          (case client_handshake w h of
             (ch, nonce) \<Rightarrow>
               (Ok (Some (h, nonce)),
                on_codec (set_capability_flags (hs_capability_flags h)) (my_send (MHandshake ch) c),
                on_codec (set_capability_flags (hs_capability_flags h)) u))
      | (Ok (Some other), u) \<Rightarrow> (bail ''Protocol error: expected handshake'', c, u)
      | (Ok None, u) \<Rightarrow> (Ok None, c, u)
      | (Err e, u) \<Rightarrow> (Err e, c, u)
      | (Panic, u) \<Rightarrow> (Panic, c, u))"

section \<open>Phase 2: the response of the client\<close>

definition read_response :: "my_world \<Rightarrow> string \<Rightarrow> string \<Rightarrow> my_leg \<Rightarrow> handshake_response option result \<times> my_leg" where
  "read_response w what otherwise c =
     (case auth_next w what 0 c of
        (Ok (Some (MHandshakeResponse r)), c) \<Rightarrow> (Ok (Some r), c)
      | (Ok (Some other), c) \<Rightarrow> (bail otherwise, c)
      | (Ok None, c) \<Rightarrow> (Ok None, c)
      | (Err e, c) \<Rightarrow> (Err e, c)
      | (Panic, c) \<Rightarrow> (Panic, c))"

definition upgrade_client :: "my_world \<Rightarrow> u32 \<Rightarrow> my_leg \<Rightarrow> my_leg result" where
  "upgrade_client w caps c =
     (case mw_tls_acceptor w of
        None \<Rightarrow> bail ''client requested TLS but no TLS acceptor is configured''
      | Some accept \<Rightarrow>
          rbind (auth_step (mw_waits w ''the client TLS handshake'' 0) ''the client TLS handshake''
            (accept (prefixed_stream (lg_buf c) (lg_in c)))) (\<lambda>accepted.
          rbind accepted (\<lambda>plain.
          Ok (c\<lparr>lg_codec := new_server_awaiting_handshake_response caps, lg_buf := [], lg_in := plain,
                lg_tls := True\<rparr>))))"

definition phase_response :: "my_world \<Rightarrow> my_leg \<Rightarrow> (handshake_response \<times> bool) option result \<times> my_leg" where
  "phase_response w c =
     (case read_response w ''the client handshake response'' ''Protocol error: expected handshake response'' c of
        (Ok (Some r), c) \<Rightarrow>
          if is_ssl_request r then
            (case upgrade_client w (hr_capability_flags r) c of
               Ok c \<Rightarrow>
                 (case read_response w ''the client handshake response after TLS''
                    ''expected handshake response after TLS'' c of
                    (res, c) \<Rightarrow> (rbind res (\<lambda>r. Ok (map_option (\<lambda>r. (r, True)) r)), c))
             | Err e \<Rightarrow> (Err e, c)
             | Panic \<Rightarrow> (Panic, c))
          else (Ok (Some (r, False)), c)
      | (Ok None, c) \<Rightarrow> (Ok None, c)
      | (Err e, c) \<Rightarrow> (Err e, c)
      | (Panic, c) \<Rightarrow> (Panic, c))"

text \<open>In terminating mode the client is verified here, before the upstream hears anything.\<close>

definition phase_client_auth :: "my_world \<Rightarrow> handshake_response \<Rightarrow> byte list option \<Rightarrow> bool \<Rightarrow> my_leg
    \<Rightarrow> byte option option result \<times> my_leg \<times> metric_call list" where
  "phase_client_auth w response client_nonce client_used_tls c =
     (case mw_terminating_auth w of
        None \<Rightarrow> (Ok (Some None), c, [])
      | Some auth \<Rightarrow>
          (let c = on_codec (set_capability_flags (hr_capability_flags response)) c in
           case client_nonce of
             None \<Rightarrow> (Panic, c, [])
           | Some nonce \<Rightarrow>
               (case authenticate_client (mw_digests w) (mw_waits w) auth response nonce
                       (if client_used_tls then 2 else 1) c of
                  (Ok (Some seq), c, calls) \<Rightarrow> (Ok (Some (Some seq)), c, calls)
                | (Ok None, c, calls) \<Rightarrow> (Ok None, c, calls)
                | (Err e, c, calls) \<Rightarrow> (Err e, c, calls)
                | (Panic, c, calls) \<Rightarrow> (Panic, c, calls))))"

section \<open>The upstream leg\<close>

definition phase_upstream_tls :: "my_world \<Rightarrow> bool \<Rightarrow> string \<Rightarrow> handshake_v10 \<Rightarrow> handshake_response \<Rightarrow> my_leg
    \<Rightarrow> unit result \<times> my_leg" where
  "phase_upstream_tls w required host handshake response u =
     (if \<not> required then (Ok (), u)
      else if hs_capability_flags handshake AND CLIENT_SSL = 0 then
        (bail ''upstream_tls is enabled but the upstream does not offer CLIENT_SSL'', u)
      else
        let u = my_send (MGeneric (build_ssl_request (hr_capability_flags response)
                  (hr_max_packet_size response) (hr_character_set response))) u in
        if lg_buf u \<noteq> [] then (bail ''upstream sent data before the TLS handshake'', u)
        else
          case mw_tls_connect w host (lg_in u) of
            Ok plain \<Rightarrow>
              (Ok (), u\<lparr>lg_codec := new_client_awaiting_auth (hr_capability_flags response),
                        lg_buf := [], lg_in := plain, lg_tls := True\<rparr>)
          | Err e \<Rightarrow> (Err e, u)
          | Panic \<Rightarrow> (Panic, u))"

section \<open>Phase 3: the login\<close>

definition ok_message :: "byte \<Rightarrow> my_msg" where
  "ok_message seq =
     MOk \<lparr>ok_sequence_id = seq, ok_affected_rows = 0, ok_last_insert_id = 0,
       ok_status_flags = SERVER_STATUS_AUTOCOMMIT, ok_warnings = 0, ok_info = [], ok_raw = []\<rparr>"

definition welcome_client :: "terminating_auth \<Rightarrow> byte \<Rightarrow> my_leg \<Rightarrow> my_leg" where
  "welcome_client auth seq c =
     (if ta_client_plugin auth = CachingSha2Password
      then my_send (ok_message (seq + 1)) (my_send (generic seq build_fast_auth_success) c)
      else my_send (ok_message seq) c)"

definition upstream_database :: "terminating_auth \<Rightarrow> handshake_response \<Rightarrow> string option" where
  "upstream_database auth response =
     opt_or (opt_filter (\<lambda>db. db \<noteq> []) (hr_database response)) (ta_upstream_database auth)"

definition phase_terminate :: "my_world \<Rightarrow> bool \<Rightarrow> terminating_auth \<Rightarrow> handshake_v10 \<Rightarrow> handshake_response
    \<Rightarrow> byte option \<Rightarrow> my_leg \<Rightarrow> my_leg \<Rightarrow> unit phase" where
  "phase_terminate w tls auth handshake response client_auth_seq c u =
     (let database = upstream_database auth response;
          upstream_caps = negotiate_upstream_capabilities (hr_capability_flags response)
            (hs_capability_flags handshake) (database \<noteq> None) tls;
          u = on_codec (set_capability_flags upstream_caps) u;
          seq = (case client_auth_seq of Some s \<Rightarrow> s | None \<Rightarrow> 1) + 1 in
      case authenticate_upstream (mw_digests w) (mw_rsa w) (mw_waits w) auth handshake upstream_caps database
             (hr_character_set response) (hr_max_packet_size response) (if tls then 2 else 1) tls u of
        (Ok _, u) \<Rightarrow> (Ok (Some ()), welcome_client auth seq c, u)
      | (Err e, u) \<Rightarrow>
          (Err e, my_send (MErr (proxy_error seq 1045 (bytes_of_str ''28000'')
             ''iron-veil could not authenticate to the upstream database'')) c, u)
      | (Panic, u) \<Rightarrow> (Panic, c, u))"

text \<open>Passthrough: every packet of the exchange is relayed, for at most 20 rounds.\<close>

definition expects_reply :: "my_msg \<Rightarrow> bool" where
  "expects_reply m = (case m of MGeneric g \<Rightarrow> auth_packet_expects_client_reply (gp_payload g) | _ \<Rightarrow> True)"

text \<open>One round; \<open>None\<close> goes on with the next one.\<close>

definition passthrough_round :: "my_world \<Rightarrow> nat \<Rightarrow> my_leg \<Rightarrow> my_leg \<Rightarrow> unit option result option \<times> my_leg \<times> my_leg" where
  "passthrough_round w rounds c u =
     (case auth_next w ''the upstream auth response'' rounds u of
        (Ok (Some (MOk p)), u) \<Rightarrow> (Some (Ok (Some ())), my_send (MOk p) c, u)
      | (Ok (Some (MErr e)), u) \<Rightarrow> (Some (Ok None), my_send (MErr e) c, u)
      | (Ok (Some other), u) \<Rightarrow>
          (let c = my_send other c in
           if expects_reply other then
             (case auth_next w ''the client auth response'' rounds c of
                (Ok (Some reply), c) \<Rightarrow> (None, c, my_send reply u)
              | (Ok None, c) \<Rightarrow> (Some (Ok None), c, u)
              | (Err e, c) \<Rightarrow> (Some (Err e), c, u)
              | (Panic, c) \<Rightarrow> (Some Panic, c, u))
           else (None, c, u))
      | (Ok None, u) \<Rightarrow> (Some (Ok None), c, u)
      | (Err e, u) \<Rightarrow> (Some (Err e), c, u)
      | (Panic, u) \<Rightarrow> (Some Panic, c, u))"

function passthrough_loop :: "my_world \<Rightarrow> nat \<Rightarrow> my_leg \<Rightarrow> my_leg \<Rightarrow> unit phase" where
  "passthrough_loop w auth_rounds c u =
     (let rounds = auth_rounds + 1 in
      if MAX_AUTH_ROUNDS < rounds then (bail ''MySQL authentication exceeded 20 round trips'', c, u)
      else
        (case passthrough_round w rounds c u of
           (None, c, u) \<Rightarrow> passthrough_loop w rounds c u
         | (Some r, c, u) \<Rightarrow> (r, c, u)))"
  by pat_completeness auto
termination
  by (relation "measure (\<lambda>(_, rounds, _). MAX_AUTH_ROUNDS - rounds)") auto

declare passthrough_loop.simps [simp del]

definition phase_passthrough :: "my_world \<Rightarrow> bool \<Rightarrow> handshake_response \<Rightarrow> my_leg \<Rightarrow> my_leg \<Rightarrow> unit phase" where
  "phase_passthrough w tls response c u =
     passthrough_loop w 0 c
       (my_send (generic (if tls then 2 else 1) (hr_raw response))
         (on_codec (set_capability_flags (hr_capability_flags response)) u))"

section \<open>Phase 4: commands\<close>

record my_session =
  mq_client :: my_leg
  mq_upstream :: my_leg
  mq_state :: app_state
  mq_connection_id :: nat
  mq_interceptor :: my_anonymizer
  mq_query_started_at :: "nat option"

definition binary_command :: "byte list \<Rightarrow> bool" where
  "binary_command payload =
     (case payload of [] \<Rightarrow> False | cmd # _ \<Rightarrow> cmd = 0x16 \<or> cmd = 0x17 \<or> cmd = 0x1c)"

definition unsupported_ps :: my_msg where
  "unsupported_ps =
     MErr (proxy_error 1 1295 (bytes_of_str ''HY000'')
       ''iron-veil: server-side prepared statements (binary protocol) are not supported; use the text protocol'')"

definition my_client_msg :: "stamp \<Rightarrow> my_msg \<Rightarrow> my_session \<Rightarrow> my_session" where
  "my_client_msg st m ses =
     (case m of
        MQuery q \<Rightarrow>
          ses\<lparr>mq_state := log_statement st (mq_connection_id ses) ''MySqlQuery'' (qp_query q) True (mq_state ses),
              mq_query_started_at := Some (snd st),
              mq_interceptor := my_reset_columns (mq_interceptor ses),
              mq_upstream := my_send m (on_codec set_command_state (mq_upstream ses))\<rparr>
      | MGeneric g \<Rightarrow>
          if binary_command (gp_payload g)
          then ses\<lparr>mq_state := metered record_binary_protocol_rejected (mq_state ses),
                   mq_client := my_send unsupported_ps (mq_client ses)\<rparr>
          else ses\<lparr>mq_upstream := my_send m (on_codec set_command_state (mq_upstream ses))\<rparr>
      | _ \<Rightarrow> ses\<lparr>mq_upstream := my_send m (mq_upstream ses)\<rparr>)"

text \<open>The messages that end the time of a query, in the eyes of the code.\<close>

definition ends_query :: "my_msg \<Rightarrow> bool" where
  "ends_query m = (case m of MOk _ \<Rightarrow> True | MErr _ \<Rightarrow> True | MGeneric _ \<Rightarrow> True | _ \<Rightarrow> False)"

definition my_end_of_query :: "stamp \<Rightarrow> my_msg \<Rightarrow> my_session \<Rightarrow> my_session" where
  "my_end_of_query st m ses =
     (case mq_query_started_at ses of
        Some started \<Rightarrow>
          if ends_query m then ses\<lparr>mq_state := record_query_latency (snd st - started) (mq_state ses),
                                   mq_query_started_at := None\<rparr> else ses
      | None \<Rightarrow> ses)"

lemma my_end_of_query_frame [simp]:
  "mq_client (my_end_of_query st m ses) = mq_client ses" "mq_upstream (my_end_of_query st m ses) = mq_upstream ses"
  "mq_connection_id (my_end_of_query st m ses) = mq_connection_id ses"
  "mq_interceptor (my_end_of_query st m ses) = mq_interceptor ses"
  "as_config (mq_state (my_end_of_query st m ses)) = as_config (mq_state ses)"
  "as_masking_key (mq_state (my_end_of_query st m ses)) = as_masking_key (mq_state ses)"
  "as_stats (mq_state (my_end_of_query st m ses)) = as_stats (mq_state ses)"
  by (simp_all add: my_end_of_query_def record_query_latency_def split: option.split)

lemma my_end_of_query_data [simp]:
  "my_end_of_query st (MColumnDefinition col) ses = ses" "my_end_of_query st (MResultRow row) ses = ses"
  "my_end_of_query st (MEof e) ses = ses"
  "my_end_of_query st m (ses\<lparr>mq_upstream := l\<rparr>) = (my_end_of_query st m ses)\<lparr>mq_upstream := l\<rparr>"
  by (simp_all add: my_end_of_query_def ends_query_def split: option.split)

definition my_upstream_msg :: "'r crates \<Rightarrow> pii_scanner \<Rightarrow> stamp \<Rightarrow> my_msg \<Rightarrow> my_session \<Rightarrow> my_session" where
  "my_upstream_msg cr sc st m ses =
     (let ses = my_end_of_query st m ses in
      case m of
        MColumnDefinition col \<Rightarrow>
          ses\<lparr>mq_interceptor := on_column_definition (mq_state ses) col (mq_interceptor ses),
              mq_client := my_send m (mq_client ses)\<rparr>
      | MResultRow row \<Rightarrow>
          (case on_result_row cr sc st (mq_interceptor ses) row (mq_state ses) of
             (new_row, s) \<Rightarrow> ses\<lparr>mq_state := s, mq_client := my_send (MResultRow new_row) (mq_client ses)\<rparr>)
      | _ \<Rightarrow> ses\<lparr>mq_client := my_send m (mq_client ses)\<rparr>)"

text \<open>The same with the row masking that can panic, as the loop runs it.\<close>

definition my_upstream_run :: "'r crates \<Rightarrow> pii_scanner \<Rightarrow> stamp \<Rightarrow> my_msg \<Rightarrow> my_session \<Rightarrow> my_session result" where
  "my_upstream_run cr sc st m ses =
     (case m of
        MResultRow row \<Rightarrow>
          (let ses = my_end_of_query st m ses in
           rbind (on_result_row_run cr sc st (mq_interceptor ses) row (mq_state ses)) (\<lambda>(new_row, s).
           Ok (ses\<lparr>mq_state := s, mq_client := my_send (MResultRow new_row) (mq_client ses)\<rparr>)))
      | _ \<Rightarrow> Ok (my_upstream_msg cr sc st m ses))"

lemma my_upstream_returns [simp]: "my_upstream_run cr sc st m ses = Ok (my_upstream_msg cr sc st m ses)"
  by (cases m) (simp_all add: my_upstream_run_def my_upstream_msg_def Let_def split: prod.split)

definition shutdown_message :: my_msg where
  "shutdown_message = MErr (proxy_error 0 1053 (bytes_of_str ''08S01'') ''proxy is shutting down'')"

definition my_turn :: "'r crates \<Rightarrow> pii_scanner \<Rightarrow> turn \<Rightarrow> my_session \<Rightarrow> unit result option \<times> my_session" where
  "my_turn cr sc t ses =
     (case t of
        Client_Ready st \<Rightarrow>
          (case leg_next my_decode (mq_client ses) of
             (r, l) \<Rightarrow>
               let ses = ses\<lparr>mq_client := l\<rparr> in
               case r of
                 Ok (Some m) \<Rightarrow> (None, my_client_msg st m ses)
               | Ok None \<Rightarrow> (Some (Ok ()), ses)
               | Err e \<Rightarrow> (Some (Err e), ses)
               | Panic \<Rightarrow> (Some Panic, ses))
      | Upstream_Ready st \<Rightarrow>
          (case leg_next my_decode (mq_upstream ses) of
             (r, l) \<Rightarrow>
               let ses = ses\<lparr>mq_upstream := l\<rparr> in
               case r of
                 Ok (Some m) \<Rightarrow>
                   (case my_upstream_run cr sc st m ses of
                      Ok ses' \<Rightarrow> (None, ses')
                    | Err e \<Rightarrow> (Some (Err e), ses)
                    | Panic \<Rightarrow> (Some Panic, ses))
               | Ok None \<Rightarrow> (Some (Ok ()), ses)
               | Err e \<Rightarrow> (Some (Err e), ses)
               | Panic \<Rightarrow> (Some Panic, ses))
      | Cancelled \<Rightarrow> (Some (Ok ()), ses\<lparr>mq_client := my_send shutdown_message (mq_client ses)\<rparr>)
      | Idle_Timeout \<Rightarrow> (Some (Ok ()), ses\<lparr>mq_state := metered record_idle_timeout (mq_state ses)\<rparr>)
      | Elsewhere s \<Rightarrow> (None, ses\<lparr>mq_state := s\<rparr>))"

fun my_run :: "'r crates \<Rightarrow> pii_scanner \<Rightarrow> turn list \<Rightarrow> my_session \<Rightarrow> unit result option \<times> my_session" where
  "my_run cr sc [] ses = (None, ses)"
| "my_run cr sc (t # ts) ses =
     (case my_turn cr sc t ses of
        (None, ses') \<Rightarrow> my_run cr sc ts ses'
      | (Some r, ses') \<Rightarrow> (Some r, ses'))"

interpretation my_loop: session_loop "my_turn cr sc" "my_run cr sc" for cr sc
  by unfold_locales simp_all

section \<open>The connection\<close>

type_synonym my_outcome = "unit result option \<times> my_leg \<times> my_leg \<times> app_state"

text \<open>A phase that did not go on ends the session.\<close>

fun ended :: "'a option result \<Rightarrow> unit result option" where
  "ended (Ok _) = Some (Ok ())"
| "ended (Err e) = Some (Err e)"
| "ended Panic = Some Panic"

text \<open>From the client's accepted response on: the upstream leg, the login and the commands.\<close>

definition login_and_commands :: "'r crates \<Rightarrow> pii_scanner \<Rightarrow> my_world \<Rightarrow> string \<Rightarrow> app_state \<Rightarrow> handshake_v10
    \<Rightarrow> handshake_response \<Rightarrow> byte option \<Rightarrow> my_leg \<Rightarrow> my_leg \<Rightarrow> turn list \<Rightarrow> my_outcome" where
  "login_and_commands cr sc w host s handshake response client_auth_seq c u ts =
     (let tls = cf_upstream_tls (as_config s) in
      case phase_upstream_tls w tls host handshake response u of
        (Err e, u) \<Rightarrow> (Some (Err e), c, u, s)
      | (Panic, u) \<Rightarrow> (Some Panic, c, u, s)
      | (Ok _, u) \<Rightarrow>
          (let c = on_codec (set_capability_flags (hr_capability_flags response)) c in
           case (case mw_terminating_auth w of
                   Some auth \<Rightarrow> phase_terminate w tls auth handshake response client_auth_seq c u
                 | None \<Rightarrow> phase_passthrough w tls response c u) of
             (Ok (Some _), c, u) \<Rightarrow>
               (case my_run cr sc ts \<lparr>mq_client = on_codec set_command_state c,
                       mq_upstream = on_codec set_command_state u, mq_state = s,
                       mq_connection_id = mw_connection_id w,
                       mq_interceptor = my_anonymizer_new (mw_connection_id w), mq_query_started_at = None\<rparr> of
                  (r, ses) \<Rightarrow> (r, mq_client ses, mq_upstream ses, mq_state ses))
           | (r, c, u) \<Rightarrow> (ended r, c, u, s)))"

definition handle_mysql_protocol :: "'r crates \<Rightarrow> pii_scanner \<Rightarrow> my_world \<Rightarrow> string \<Rightarrow> app_state
    \<Rightarrow> byte list list \<Rightarrow> byte list list \<Rightarrow> turn list \<Rightarrow> my_outcome" where
  "handle_mysql_protocol cr sc w host s client_reads upstream_reads ts =
     (let c = new_leg new_server client_reads False; u = new_leg new_client upstream_reads False in
      case phase_handshake w c u of
        (Ok (Some (handshake, client_nonce)), c, u) \<Rightarrow>
          (case phase_response w c of
             (Ok (Some (response, client_used_tls)), c) \<Rightarrow>
               (case phase_client_auth w response client_nonce client_used_tls c of
                  (Ok (Some client_auth_seq), c, calls) \<Rightarrow>
                    login_and_commands cr sc w host (metered calls s) handshake response client_auth_seq c u ts
                | (r, c, calls) \<Rightarrow> (ended r, c, u, metered calls s))
           | (r, c) \<Rightarrow> (ended r, c, u, s))
      | (r, c, u) \<Rightarrow> (ended r, c, u, s))"

definition process_mysql_connection :: "'r crates \<Rightarrow> pii_scanner \<Rightarrow> my_world \<Rightarrow> string \<Rightarrow> app_state
    \<Rightarrow> byte list list connect_end \<Rightarrow> byte list list \<Rightarrow> turn list
    \<Rightarrow> unit result option \<times> (my_leg \<times> my_leg) option \<times> app_state" where
  "process_mysql_connection cr sc w host s connected client_reads ts =
     (let (connect_timeout, idle_timeout, pool_wait_timeout) = resolve_timeout_limits (cf_limits (as_config s)) in
      case connect_upstream_with_timeout connect_timeout connected of
        (Ok upstream_reads, calls) \<Rightarrow>
          (case handle_mysql_protocol cr sc w host (metered calls s) client_reads upstream_reads ts of
             (r, c, u, s) \<Rightarrow> (r, Some (c, u), s))
      | (Err e, calls) \<Rightarrow> (Some (Err e), None, metered calls s)
      | (Panic, calls) \<Rightarrow> (Some Panic, None, metered calls s))"

end
