(* ===== verification/MySql_Relay.thy ===== *)
theory MySql_Relay
  imports MySql_Session
begin

text \<open>
  What a MySQL connection promises, over \<open>MySql_Login\<close> and \<open>MySql_Session\<close>: the capabilities it
  negotiates, who is let in when the proxy terminates the login, the packets of the login towards the
  server, what the command phase relays, and that result sets reach the client masked.
\<close>

section \<open>Capabilities\<close>

lemma bit_single: "k < 32 \<Longrightarrow> bit (push_bit k (1 :: u32)) n \<longleftrightarrow> n = k"
  by (auto simp: bit_simps)

lemma caps_bit [simp]:
  "bit CLIENT_SSL n \<longleftrightarrow> n = 11" "bit CLIENT_COMPRESS n \<longleftrightarrow> n = 5" "bit CLIENT_PROTOCOL_41 n \<longleftrightarrow> n = 9"
  "bit CLIENT_CONNECT_WITH_DB n \<longleftrightarrow> n = 3" "bit CLIENT_SECURE_CONNECTION n \<longleftrightarrow> n = 15"
  "bit CLIENT_PLUGIN_AUTH n \<longleftrightarrow> n = 19" "bit CLIENT_CONNECT_ATTRS n \<longleftrightarrow> n = 20" "bit CLIENT_DEPRECATE_EOF n \<longleftrightarrow> n = 24"
  unfolding caps_defs by (rule bit_single; simp)+

lemma word32_eq_iff: "(a :: u32) = b \<longleftrightarrow> (\<forall>n. bit a n = bit b n)"
  by (auto intro: bit_word_eqI)

lemma has_bit: "(\<And>n. bit f n \<longleftrightarrow> n = k) \<Longrightarrow> has caps f \<longleftrightarrow> bit caps k"
  by (simp add: has_def word32_eq_iff bit_and_iff)

lemma has_bits:
  "has x CLIENT_COMPRESS = bit x 5" "has x CLIENT_CONNECT_ATTRS = bit x 20" "has x CLIENT_SSL = bit x 11"
  "has x CLIENT_CONNECT_WITH_DB = bit x 3" "has x CLIENT_DEPRECATE_EOF = bit x 24" "has x CLIENT_PROTOCOL_41 = bit x 9"
  by (rule has_bit; simp)+

lemma negotiated_bit:
  "bit (negotiate_upstream_capabilities client server db tls) n \<longleftrightarrow>
     bit server n \<and> (if n \<in> {9, 15, 19} then True else if n = 3 then db else if n = 11 then tls
       else n \<notin> {5, 20} \<and> bit client n)"
proof (cases "n < 32")
  case True
  have k: "bit (NOT (a :: u32)) n \<longleftrightarrow> \<not> bit a n" for a using True by (simp add: bit_not_iff)
  show ?thesis
    by (auto simp: negotiate_upstream_capabilities_def Let_def bit_and_iff bit_or_iff k)
next
  case False
  then have "\<not> bit (x :: u32) n" for x using bit_imp_le_length [of x n] by auto
  then show ?thesis by simp
qed

text \<open>The capabilities the proxy asks of the upstream are a subset of the server's; compression and
  connection attributes are never among them, TLS and a database exactly when the proxy uses them; and
  every other bit, the one that drops EOF packets included, is set exactly when client and server both
  have it, save the three of the authentication protocol the proxy itself speaks.\<close>

theorem negotiated_capabilities:
  "let caps = negotiate_upstream_capabilities client server db tls in
   caps AND server = caps
   \<and> \<not> has caps CLIENT_COMPRESS \<and> \<not> has caps CLIENT_CONNECT_ATTRS
   \<and> (has caps CLIENT_SSL \<longleftrightarrow> tls \<and> has server CLIENT_SSL)
   \<and> (has caps CLIENT_CONNECT_WITH_DB \<longleftrightarrow> db \<and> has server CLIENT_CONNECT_WITH_DB)
   \<and> (has caps CLIENT_DEPRECATE_EOF \<longleftrightarrow> has client CLIENT_DEPRECATE_EOF \<and> has server CLIENT_DEPRECATE_EOF)
   \<and> (has caps CLIENT_PROTOCOL_41 \<longleftrightarrow> has server CLIENT_PROTOCOL_41)
   \<and> (\<forall>n. n \<in> {3, 5, 9, 11, 15, 19, 20} \<or> bit caps n = (bit client n \<and> bit server n))"
  unfolding Let_def has_bits negotiated_bit word32_eq_iff bit_and_iff by auto

section \<open>A login to try the theorems on\<close>


definition packet :: "byte \<Rightarrow> byte list \<Rightarrow> byte list" where
  "packet seq p = write_packet_header (length p) seq @ p"


lemma leg_next_packet:
  assumes "length p < 0xffffff" "mc_pending_large (lg_codec l) = None" "lg_buf l = []" "lg_in l = [packet seq p @ x]"
  shows "leg_next my_decode l =
     (case dispatch (lg_codec l) seq p False of (r, c') \<Rightarrow> (r, l\<lparr>lg_codec := c', lg_buf := x, lg_in := []\<rparr>))"
proof -
  obtain r c' where d: "dispatch (lg_codec l) seq p False = (r, c')" by fastforce
  with dispatch_result [of "lg_codec l" seq p False] have "r \<noteq> Ok None" by auto
  with my_decode_frame [OF assms(1), of "lg_codec l" seq x] d assms(2-4) show ?thesis
    by (cases r) (auto simp: leg_next_def packet_def deliver_def my.empty_waits split: option.splits)
qed

definition demo_handshake :: "byte list" where
  "demo_handshake = handshake_bytes 10 (bytes_of_str ''8'') [42, 0, 0, 0] (replicate 8 7) 0 0xff 0xff 0x21 2 0 0xff 0xc1
     21 (replicate 10 0) (replicate 13 9 @ bytes_of_str ''mysql_native_password'' @ [0])"

definition demo_server :: handshake_v10 where
  "demo_server = \<lparr>hs_protocol_version = 10, hs_server_version = ''8'', hs_connection_id = 42,
     hs_auth_plugin_data_part1 = replicate 8 7, hs_capability_flags = caps_of 0xff 0xff 0xff 0xc1,
     hs_character_set = 0x21, hs_status_flags = 2, hs_auth_plugin_data_part2 = replicate 13 9,
     hs_auth_plugin_name = ''mysql_native_password'', hs_raw = demo_handshake\<rparr>"

lemma demo_strings: "c_str ''mysql_native_password''" "c_str ''app''" "c_str ''8''"
  by (simp_all add: c_str_def bytes_of_str_def utf8_valid_ascii ascii_def)

lemma parse_demo_handshake: "parse_handshake_v10 demo_handshake = Ok demo_server"
proof -
  have c: "has (caps_of 0xff 0xff 0xff 0xc1) CLIENT_SECURE_CONNECTION" "has (caps_of 0xff 0xff 0xff 0xc1) CLIENT_PLUGIN_AUTH"
    by (simp_all add: has_def caps_defs caps_of_def)
  have "parse_handshake_auth_tail (caps_of 0xff 0xff 0xff 0xc1) 21
      (replicate 13 9 @ bytes_of_str ''mysql_native_password'' @ [0]) = Ok (replicate 13 9, ''mysql_native_password'')"
    using read_c_str [OF demo_strings(1), of "[]"] by (simp add: parse_handshake_auth_tail_def c split_to_def)
  moreover have "0 \<notin> set (bytes_of_str ''8'')" "utf8_valid (bytes_of_str ''8'')"
    using demo_strings(3) unfolding c_str_def by blast+
  ultimately show ?thesis
    by (simp add: demo_handshake_def parse_handshake_bytes demo_server_def)
qed


definition demo_client :: "byte list \<Rightarrow> handshake_response" where
  "demo_client scr = \<lparr>hr_capability_flags = CLIENT_PROTOCOL_41 OR CLIENT_SECURE_CONNECTION OR CLIENT_PLUGIN_AUTH,
      hr_max_packet_size = 0x1000000, hr_character_set = 0x21, hr_username = ''app'',
      hr_auth_response = scr, hr_database = None, hr_auth_plugin_name = Some ''mysql_native_password'', hr_raw = []\<rparr>"

definition demo_response :: "byte list \<Rightarrow> byte list" where
  "demo_response scr = build_handshake_response_payload (demo_client scr)"

lemma parse_demo_response:
  assumes "length scr < 256"
  shows "parse_handshake_response (demo_response scr) = Ok ((demo_client scr)\<lparr>hr_raw := demo_response scr\<rparr>)"
proof -
  have "\<not> has (hr_capability_flags (demo_client scr)) CLIENT_CONNECT_WITH_DB"
    "has (hr_capability_flags (demo_client scr)) CLIENT_SECURE_CONNECTION"
    "has (hr_capability_flags (demo_client scr)) CLIENT_PLUGIN_AUTH"
    by (simp_all add: demo_client_def has_def caps_defs)
  then have "response_ok (demo_client scr)"
    using assms demo_strings by (simp add: response_ok_def demo_client_def)
  then show ?thesis unfolding demo_response_def by (rule parse_built_response)
qed

definition demo_auth :: terminating_auth where
  "demo_auth = \<lparr>ta_client_username = ''app'', ta_client_password = ''pw'', ta_client_plugin = MysqlNativePassword,
     ta_upstream_username = ''root'', ta_upstream_password = ''secret'', ta_upstream_database = None,
     ta_upstream_rsa_public_key = None\<rparr>"

definition demo_world :: "terminating_auth option \<Rightarrow> my_world" where
  "demo_world auth = \<lparr>mw_digests = test_digests, mw_rsa = \<lparr>rs_public_keys = (\<lambda>_. None), rs_from_der = (\<lambda>_. bail ''der'')\<rparr>,
     mw_waits = (\<lambda>_ _. Done), mw_tls_acceptor = None, mw_tls_connect = (\<lambda>_ r. Ok r), mw_terminating_auth = auth,
     mw_draw = (\<lambda>_. 5), mw_connection_id = 1\<rparr>"

text \<open>The handshake and the client's response, up to the login.\<close>

lemma demo_phases:
  assumes "length scr < 256"
  obtains c1 u1 c2 where
    "phase_handshake (demo_world auth) (new_leg new_server [packet 1 (demo_response scr) @ x] False)
       (new_leg new_client [packet 0 demo_handshake @ y] False)
     = (Ok (Some (demo_server, snd (client_handshake (demo_world auth) demo_server))), c1, u1)"
    "phase_response (demo_world auth) c1 = (Ok (Some ((demo_client scr)\<lparr>hr_raw := demo_response scr\<rparr>, False)), c2)"
    "lg_out u1 = []" "lg_buf c2 = x" "lg_in c2 = []" "lg_buf u1 = y" "lg_in u1 = []" "lg_tls c2 = False" "lg_tls u1 = False"
    "lg_codec u1 = new_client\<lparr>mc_state := WaitingHandshakeResponse, mc_capability_flags := hs_capability_flags demo_server\<rparr>"
    "lg_codec c2 = new_server\<lparr>mc_state := Command, mc_capability_flags := hr_capability_flags (demo_client scr)\<rparr>"
    "lg_out c2 = [(False, Msg (MHandshake (fst (client_handshake (demo_world auth) demo_server)))
       (encode_handshake_v10 (fst (client_handshake (demo_world auth) demo_server))))]"
proof -
  define u0 :: my_leg where "u0 = new_leg new_client [packet 0 demo_handshake @ y] False"
  define c0 :: my_leg where "c0 = new_leg new_server [packet 1 (demo_response scr) @ x] False"
  have lens: "length demo_handshake < 0xffffff" "length (demo_response scr) < 0xffffff"
    using assms by (simp_all add: demo_handshake_def handshake_bytes_def bytes_of_str_def demo_response_def
        build_handshake_response_payload_def demo_client_def Let_def)
  define u1 where "u1 = u0\<lparr>lg_codec := new_client\<lparr>mc_state := WaitingHandshakeResponse\<rparr>, lg_buf := y, lg_in := []\<rparr>"
  have n1: "leg_next my_decode u0 = (Ok (Some (MHandshake demo_server)), u1)"
    using leg_next_packet [OF lens(1), of u0 0 y]
    by (simp add: u0_def u1_def new_leg_def new_client_def dispatch_def dispatch_handshake_def parse_demo_handshake)
  obtain ch n where ch: "client_handshake (demo_world auth) demo_server = (ch, n)" by fastforce
  define c1 where "c1 = on_codec (set_capability_flags (hs_capability_flags demo_server)) (my_send (MHandshake ch) c0)"
  have c1: "c1 = \<lparr>lg_codec = new_server\<lparr>mc_state := WaitingHandshakeResponse, mc_capability_flags := hs_capability_flags demo_server\<rparr>,
      lg_buf = [], lg_in = [packet 1 (demo_response scr) @ x], lg_tls = False,
      lg_out = [(False, Msg (MHandshake ch) (encode_handshake_v10 ch))]\<rparr>"
    by (simp add: c1_def c0_def on_codec_def my_send_def new_leg_def new_server_def write_sent_def set_capability_flags_def)
  define r where "r = (demo_client scr)\<lparr>hr_raw := demo_response scr\<rparr>"
  define c2 where "c2 = c1\<lparr>lg_codec := new_server\<lparr>mc_state := Command, mc_capability_flags := hr_capability_flags (demo_client scr)\<rparr>, lg_buf := x, lg_in := []\<rparr>"
  have n2: "leg_next my_decode c1 = (Ok (Some (MHandshakeResponse r)), c2)"
    using leg_next_packet [OF lens(2), of c1 1 x] assms
    by (simp add: c1 c2_def r_def new_server_def dispatch_def dispatch_handshake_response_def parse_demo_response)
  have s: "\<not> is_ssl_request r" by (simp add: r_def is_ssl_request_def demo_client_def has_def caps_defs)
  have w: "mw_waits (demo_world auth) a b = Done" for a b by (simp add: demo_world_def)
  have "phase_handshake (demo_world auth) c0 u0 = (Ok (Some (demo_server, n)), c1,
      on_codec (set_capability_flags (hs_capability_flags demo_server)) u1)"
    by (simp add: phase_handshake_def n1 ch c1_def)
  moreover have "phase_response (demo_world auth) c1 = (Ok (Some (r, False)), c2)"
    by (simp add: phase_response_def read_response_def auth_next_def w auth_step_def n2 s)
  ultimately show ?thesis
    by (rule that [of c1 "on_codec (set_capability_flags (hs_capability_flags demo_server)) u1" c2,
          unfolded ch fst_conv snd_conv, folded c0_def u0_def r_def])
       (simp_all add: c2_def c1 on_codec_def u1_def u0_def new_leg_def set_capability_flags_def new_client_def)
qed




section \<open>Admission\<close>

lemma phase_handshake_upstream:
  "phase_handshake w c u = (r, c', u') \<Longrightarrow> lg_out u' = lg_out u"
  by (auto simp: phase_handshake_def on_codec_def dest!: my.leg_next_frame
      split: prod.splits result.splits option.splits my_msg.splits)

lemma phase_handshake_nonce:
  "phase_handshake w c u = (Ok (Some (h, nonce)), c', u') \<Longrightarrow> mw_terminating_auth w = Some auth \<Longrightarrow>
   nonce = Some (generate_nonce (mw_draw w))"
  by (auto simp: phase_handshake_def client_handshake_def Let_def
      split: prod.splits result.splits option.splits my_msg.splits)

lemma authenticate_client_Some:
  "authenticate_client dg w auth response nonce first_seq l = (Ok (Some seq), l', calls) \<Longrightarrow>
   \<exists>scr. client_scramble w auth response nonce first_seq l = (Ok (Some (seq, scr)), l')
     \<and> hr_username response = ta_client_username auth
     \<and> verify_scramble dg (ta_client_plugin auth) (ta_client_password auth) nonce scr"
  by (auto simp: authenticate_client_def Let_def split: prod.splits result.splits option.splits if_splits)

lemma phase_client_auth_Some:
  "phase_client_auth w response (Some nonce) tls c = (Ok (Some seq), c', calls) \<Longrightarrow> mw_terminating_auth w = Some auth \<Longrightarrow>
   \<exists>seq. authenticate_client (mw_digests w) (mw_waits w) auth response nonce (if tls then 2 else 1)
     (on_codec (set_capability_flags (hr_capability_flags response)) c) = (Ok (Some seq), c', calls)"
  by (auto simp: phase_client_auth_def Let_def split: prod.splits result.splits option.splits)

text \<open>What the client of a session proved: it sent the response, and with it or after an auth switch
  the scramble, that verify against the local credential under the nonce of this connection.\<close>

definition proved_password :: "my_world \<Rightarrow> terminating_auth \<Rightarrow> my_leg \<Rightarrow> my_leg \<Rightarrow> bool" where
  "proved_password w auth c0 u0 \<longleftrightarrow> (\<exists>h c1 u1 response tls c2 seq scr c3.
     phase_handshake w c0 u0 = (Ok (Some (h, Some (generate_nonce (mw_draw w)))), c1, u1)
     \<and> phase_response w c1 = (Ok (Some (response, tls)), c2)
     \<and> client_scramble (mw_waits w) auth response (generate_nonce (mw_draw w)) (if tls then 2 else 1)
          (on_codec (set_capability_flags (hr_capability_flags response)) c2) = (Ok (Some (seq, scr)), c3)
     \<and> hr_username response = ta_client_username auth
     \<and> verify_scramble (mw_digests w) (ta_client_plugin auth) (ta_client_password auth)
          (generate_nonce (mw_draw w)) scr)"

text \<open>C7: With \<open>auth.mode: terminate\<close> not a byte is sent to the upstream on behalf of a client that has not
  proved the local password: whatever the client and the server send, either nothing was written to
  the upstream, or the client's response names the configured user and its scramble verifies under the
  nonce this connection drew.\<close>

theorem unproved_client_reaches_nothing:
  assumes t: "mw_terminating_auth w = Some auth"
    and h: "handle_mysql_protocol cr sc w host s cin uin ts = (r, c, u, s')"
  shows "lg_out u = [] \<or> proved_password w auth (new_leg new_server cin False) (new_leg new_client uin False)"
proof -
  let ?c0 = "new_leg new_server cin False" and ?u0 = "new_leg new_client uin False"
  obtain q1 c1 u1 where 1: "phase_handshake w ?c0 ?u0 = (q1, c1, u1)" by (metis prod_cases3)
  have u1: "lg_out u1 = []" using phase_handshake_upstream [OF 1] by (simp add: new_leg_def)
  show ?thesis
  proof (cases q1)
    case ok1: (Ok x)
    show ?thesis
    proof (cases x)
      case (Some hn)
      obtain hs nonce where hn: "hn = (hs, nonce)" by fastforce
      with 1 ok1 Some t have nonce: "nonce = Some (generate_nonce (mw_draw w))" using phase_handshake_nonce by blast
      obtain q2 c2 where 2: "phase_response w c1 = (q2, c2)" by fastforce
      show ?thesis
      proof (cases "\<exists>response tls. q2 = Ok (Some (response, tls))")
        case True
        then obtain response tls where q2: "q2 = Ok (Some (response, tls))" by blast
        obtain q3 c3 calls where 3: "phase_client_auth w response nonce tls c2 = (q3, c3, calls)" by (metis prod_cases3)
        show ?thesis
        proof (cases "\<exists>seq. q3 = Ok (Some seq)")
          case True
          with 3 nonce t obtain seq where "authenticate_client (mw_digests w) (mw_waits w) auth response
              (generate_nonce (mw_draw w)) (if tls then 2 else 1)
              (on_codec (set_capability_flags (hr_capability_flags response)) c2) = (Ok (Some seq), c3, calls)"
            using phase_client_auth_Some by blast
          from authenticate_client_Some [OF this] 1 2 show ?thesis
            unfolding proved_password_def using ok1 Some hn nonce q2 by blast
        next
          case False
          with h 1 2 3 ok1 Some hn q2 have "u = u1"
            by (cases q3) (auto simp: handle_mysql_protocol_def Let_def split: option.splits)
          with u1 show ?thesis by simp
        qed
      next
        case False
        with h 1 2 ok1 Some hn have "u = u1"
          by (cases q2) (auto simp: handle_mysql_protocol_def Let_def split: option.splits)
        with u1 show ?thesis by simp
      qed
    qed (use h 1 u1 ok1 in \<open>simp add: handle_mysql_protocol_def Let_def\<close>)
  qed (use h 1 u1 in \<open>simp_all add: handle_mysql_protocol_def Let_def\<close>)
qed


theorem unproved_client_reaches_nothing_witness:
  "\<exists>c u. handle_mysql_protocol test_crates test_scanner (demo_world (Some demo_auth)) ''db'' (test_state [] True)
       [packet 1 (demo_response (replicate 20 1))] [packet 0 demo_handshake] [] = (Some (Ok ()), c, u, metered (record_client_auth False) (test_state [] True))
     \<and> (lg_out u = [] \<or> proved_password (demo_world (Some demo_auth)) demo_auth
          (new_leg new_server [packet 1 (demo_response (replicate 20 1))] False) (new_leg new_client [packet 0 demo_handshake] False))"
proof -
  let ?w = "demo_world (Some demo_auth)" and ?scr = "replicate 20 1 :: byte list"
  let ?r = "(demo_client ?scr)\<lparr>hr_raw := demo_response ?scr\<rparr>"
  have n: "snd (client_handshake ?w demo_server) = Some (replicate 20 5)"
    by (simp add: client_handshake_def Let_def demo_world_def generate_nonce_def NONCE_LEN_def map_replicate_const)
  have v: "\<not> verify_scramble test_digests MysqlNativePassword ''pw'' (replicate 20 5) ?scr"
  proof -
    have r: "replicate 20 a = a # replicate 19 a" for a :: byte by (simp add: eval_nat_numeral)
    show ?thesis unfolding r
      by (simp add: verify_scramble_def test_digests_def sha1_parts_def bytes_of_str_def xor_bytes_def Let_def)
  qed
  obtain c1 u1 c2 where p: "phase_handshake ?w (new_leg new_server [packet 1 (demo_response ?scr)] False)
       (new_leg new_client [packet 0 demo_handshake] False) = (Ok (Some (demo_server, Some (replicate 20 5))), c1, u1)"
    "phase_response ?w c1 = (Ok (Some (?r, False)), c2)"
    using demo_phases [of ?scr "Some demo_auth" "[]" "[]", unfolded n append_Nil2] by (metis length_replicate numeral_less_iff rel_simps)
  have t: "mw_terminating_auth ?w = Some demo_auth" "mw_digests ?w = test_digests" by (simp_all add: demo_world_def)
  have a: "ta_client_username demo_auth = ''app''" "ta_client_password demo_auth = ''pw''"
    "ta_client_plugin demo_auth = MysqlNativePassword" by (simp_all add: demo_auth_def)
  have r: "hr_username (demo_client s) = ''app''" "hr_auth_response (demo_client s) = s"
    "hr_auth_plugin_name (demo_client s) = Some ''mysql_native_password''" for s by (simp_all add: demo_client_def)
  let ?c3 = "my_send (access_denied 2 ''app'') (on_codec (set_capability_flags (hr_capability_flags ?r)) c2)"
  have "phase_client_auth ?w ?r (Some (replicate 20 5)) False c2 = (Ok None, ?c3, record_client_auth False)"
    using v by (simp add: phase_client_auth_def t authenticate_client_def client_scramble_def Let_def a r)
  with p have h: "handle_mysql_protocol test_crates test_scanner ?w ''db'' (test_state [] True)
       [packet 1 (demo_response ?scr)] [packet 0 demo_handshake] [] = (Some (Ok ()), ?c3, u1, metered (record_client_auth False) (test_state [] True))"
    by (simp add: handle_mysql_protocol_def)
  from unproved_client_reaches_nothing [OF t(1) h] h show ?thesis by blast
qed

section \<open>The upstream credential\<close>

lemma my_send_frame [simp]:
  "leg_rest (my_send m l) = leg_rest l" "lg_tls (my_send m l) = lg_tls l"
  "sent_messages (lg_out (my_send m l)) = sent_messages (lg_out l) @ [m]"
  "length (lg_out (my_send m l)) = Suc (length (lg_out l))" "lg_buf (my_send m l) = lg_buf l" "lg_in (my_send m l) = lg_in l"
  by (simp_all add: my_send_def write_sent_def leg_rest_def split: prod.split)

lemma my_send_generic_codec [simp]: "lg_codec (my_send (MGeneric g) l) = lg_codec l"
  by (simp add: my_send_def)

lemma on_codec_frame [simp]:
  "leg_rest (on_codec f l) = leg_rest l" "lg_tls (on_codec f l) = lg_tls l" "lg_out (on_codec f l) = lg_out l"
  "lg_codec (on_codec f l) = f (lg_codec l)" "lg_buf (on_codec f l) = lg_buf l" "lg_in (on_codec f l) = lg_in l"
  by (simp_all add: on_codec_def leg_rest_def)

text \<open>What may be made of the upstream password on the wire.\<close>

definition permitted_reply :: "digests \<Rightarrow> rsa_lib \<Rightarrow> terminating_auth \<Rightarrow> bool \<Rightarrow> byte list \<Rightarrow> bool" where
  "permitted_reply dg lib auth tls p \<longleftrightarrow>
     (\<exists>plugin nonce. p = scramble dg plugin (ta_upstream_password auth) nonce)
     \<or> (tls \<and> p = build_cleartext_password (ta_upstream_password auth))
     \<or> (\<not> tls \<and> (\<exists>key nonce. ta_upstream_rsa_public_key auth = Some key
          \<and> build_rsa_encrypted_password lib key (ta_upstream_password auth) nonce = Ok p))"

lemma answer_permitted:
  "answer_auth_packet dg lib auth tls nonce sent_rsa payload = Reply p nonce' rsa \<Longrightarrow> permitted_reply dg lib auth tls p"
  by (auto simp: answer_auth_packet_def full_auth_reply_def permitted_reply_def rbind_eq_Ok_iff
      split: result.splits option.splits prod.splits auth_more_data.splits if_splits)

text \<open>The replies of the exchange, and how many there can be.\<close>

definition replies_ok :: "digests \<Rightarrow> rsa_lib \<Rightarrow> terminating_auth \<Rightarrow> bool \<Rightarrow> nat \<Rightarrow> my_leg \<Rightarrow> my_leg \<Rightarrow> bool" where
  "replies_ok dg lib auth tls n l l' \<longleftrightarrow> (\<exists>rs.
     sent_messages (lg_out l') = sent_messages (lg_out l) @ map (\<lambda>(seq, p). generic seq p) rs
     \<and> length (lg_out l') = length (lg_out l) + length rs \<and> length rs \<le> n \<and> writes_on l l'
     \<and> (\<forall>(seq, p) \<in> set rs. permitted_reply dg lib auth tls p))"

lemma replies_ok_refl: "lg_out l' = lg_out l \<Longrightarrow> lg_tls l' = lg_tls l \<Longrightarrow> replies_ok dg lib auth tls n l l'"
  by (auto simp: replies_ok_def)

lemma replies_ok_step:
  assumes "permitted_reply dg lib auth tls p" "replies_ok dg lib auth tls n (my_send (generic seq p) l) l'"
  shows "replies_ok dg lib auth tls (Suc n) l l'"
proof -
  from assms(2) obtain rs where "sent_messages (lg_out l') = sent_messages (lg_out l) @ map (\<lambda>(seq, p). generic seq p) ((seq, p) # rs)"
    "length (lg_out l') = length (lg_out l) + length ((seq, p) # rs)" "length ((seq, p) # rs) \<le> Suc n"
    "writes_on (my_send (generic seq p) l) l'" "\<forall>(seq, p) \<in> set rs. permitted_reply dg lib auth tls p"
    by (auto simp: replies_ok_def)
  with assms(1) writes_on_trans [OF writes_on_write(3)] show ?thesis unfolding replies_ok_def by fastforce
qed

lemma replies_ok_mono: "replies_ok dg lib auth tls n l l' \<Longrightarrow> n \<le> m \<Longrightarrow> replies_ok dg lib auth tls m l l'"
  by (force simp: replies_ok_def)

lemma replies_ok_after_next:
  "leg_next my_decode l = (r, k) \<Longrightarrow> replies_ok dg lib auth tls n k l' \<Longrightarrow> replies_ok dg lib auth tls n l l'"
  using my.leg_next_frame [of l r k] by (simp add: replies_ok_def writes_on_def)

lemma upstream_auth_loop_replies:
  "upstream_auth_loop dg lib w auth tls rounds nonce sent_rsa l = (r, l') \<Longrightarrow>
   replies_ok dg lib auth tls (MAX_AUTH_ROUNDS - rounds) l l'"
proof (induction dg lib w auth tls rounds nonce sent_rsa l arbitrary: r l' rule: upstream_auth_loop.induct)
  case (1 dg lib w auth tls rounds nonce sent_rsa l)
  note loop = "1.prems" [unfolded upstream_auth_loop.simps [of dg lib w auth tls rounds nonce sent_rsa l], unfolded Let_def]
  show ?case
  proof (cases "MAX_AUTH_ROUNDS < rounds + 1 \<or> auth_step (w ''the upstream auth response'' (rounds + 1)) ''the upstream auth response'' () \<noteq> Ok ()")
    case True
    with loop have "l' = l" by (auto split: if_splits result.splits)
    then show ?thesis by (simp add: replies_ok_refl)
  next
    case False
    then have b: "\<not> MAX_AUTH_ROUNDS < rounds + 1"
      and w: "auth_step (w ''the upstream auth response'' (rounds + 1)) ''the upstream auth response'' () = Ok ()" by auto
    obtain q k where n: "leg_next my_decode l = (q, k)" by fastforce
    have s: "MAX_AUTH_ROUNDS - rounds = Suc (MAX_AUTH_ROUNDS - (rounds + 1))" using b by simp
    show ?thesis
    proof (cases "\<exists>g. q = Ok (Some (MGeneric g))")
      case True
      then obtain g where q: "q = Ok (Some (MGeneric g))" by blast
      show ?thesis
      proof (cases "answer_auth_packet dg lib auth tls nonce sent_rsa (gp_payload g)")
        case (Reply p nonce' rsa)
        with loop b w n q have "upstream_auth_loop dg lib w auth tls (rounds + 1) nonce' rsa
            (my_send (generic (gp_sequence_id g + 1) p) k) = (r, l')" by simp
        from "1.IH" (1) [OF refl b w _ _ _ _ Reply this] n q
        have "replies_ok dg lib auth tls (MAX_AUTH_ROUNDS - (rounds + 1)) (my_send (generic (gp_sequence_id g + 1) p) k) l'" by simp
        from replies_ok_step [OF answer_permitted [OF Reply] this] n show ?thesis
          unfolding s by (rule replies_ok_after_next [rotated])
      next
        case Await
        with loop b w n q have "upstream_auth_loop dg lib w auth tls (rounds + 1) nonce sent_rsa k = (r, l')" by simp
        from "1.IH" (2) [OF refl b w _ _ _ _ Await this] n q
        have "replies_ok dg lib auth tls (MAX_AUTH_ROUNDS - (rounds + 1)) k l'" by simp
        from replies_ok_after_next [OF n replies_ok_mono [OF this]] s show ?thesis by simp
      qed (use loop b w n q my.leg_next_frame [OF n] in \<open>auto intro: replies_ok_refl\<close>)
    next
      case False
      with loop b w n have "l' = k" by (auto split: result.splits option.splits my_msg.splits)
      with my.leg_next_frame [OF n] show ?thesis by (simp add: replies_ok_refl)
    qed
  qed
qed


lemma auth_next_frame: "auth_next w what k l = (r, l') \<Longrightarrow> lg_out l' = lg_out l \<and> lg_tls l' = lg_tls l"
  using my.leg_next_frame by (fastforce simp: auth_next_def split: result.splits)

lemma auth_next_Some: "auth_next w what k l = (Ok (Some m), l') \<Longrightarrow> leg_next my_decode l = (Ok (Some m), l')"
  by (auto simp: auth_next_def split: result.splits)

lemma passthrough_round_bound:
  assumes "passthrough_round w rounds c u = (r, c', u')"
  shows "length (lg_out c') \<le> Suc (length (lg_out c)) \<and> length (lg_out u') \<le> Suc (length (lg_out u))"
proof -
  obtain q u1 where n: "auth_next w ''the upstream auth response'' rounds u = (q, u1)" by fastforce
  have u1: "lg_out u1 = lg_out u" using auth_next_frame [OF n] ..
  have "length (lg_out c1) = Suc (length (lg_out c))"
    if "auth_next w ''the client auth response'' rounds (my_send m c) = (q2, c1)" for m q2 c1
    using auth_next_frame [OF that] by simp
  with assms n u1 show ?thesis
    by (cases q) (auto simp: passthrough_round_def Let_def
        split: result.splits option.splits my_msg.splits prod.splits if_splits)
qed

lemma passthrough_loop_bound:
  "passthrough_loop w rounds c u = (r, c', u') \<Longrightarrow>
   length (lg_out c') \<le> length (lg_out c) + (MAX_AUTH_ROUNDS - rounds)
   \<and> length (lg_out u') \<le> length (lg_out u) + (MAX_AUTH_ROUNDS - rounds)"
proof (induction w rounds c u arbitrary: r c' u' rule: passthrough_loop.induct)
  case (1 w rounds c u)
  note loop = "1.prems" [unfolded passthrough_loop.simps [of w rounds c u], unfolded Let_def]
  obtain q c1 u1 where n: "passthrough_round w (rounds + 1) c u = (q, c1, u1)" by (metis prod_cases3)
  note bound = passthrough_round_bound [OF n]
  show ?case
  proof (cases "MAX_AUTH_ROUNDS < rounds + 1")
    case True
    with loop show ?thesis by simp
  next
    case b: False
    show ?thesis
    proof (cases q)
      case None
      with loop b n have "passthrough_loop w (rounds + 1) c1 u1 = (r, c', u')" by simp
      from "1.IH" [OF refl b n [symmetric] None refl this] bound b show ?thesis by linarith
    qed (use loop b n bound in auto)
  qed
qed

text \<open>The packets of a terminated login: the handshake response, then at most 20 replies.\<close>

lemma authenticate_upstream_packets:
  assumes "authenticate_upstream dg lib w auth h caps db cs mps seq tls l = (r, l')"
  shows "\<exists>plugin rs. sent_messages (lg_out l') = sent_messages (lg_out l)
       @ generic seq (build_handshake_response_payload (upstream_handshake_response dg auth plugin
           (nonce_from_handshake (hs_auth_plugin_data_part1 h) (hs_auth_plugin_data_part2 h)) caps db cs mps))
       # map (\<lambda>(seq, p). generic seq p) rs
     \<and> (\<forall>(seq, p) \<in> set rs. permitted_reply dg lib auth tls p)
     \<and> length rs \<le> 20 \<and> length (lg_out l') = length (lg_out l) + Suc (length rs) \<and> writes_on l l'"
proof -
  define m where "m plugin = generic seq (build_handshake_response_payload (upstream_handshake_response dg auth plugin
     (nonce_from_handshake (hs_auth_plugin_data_part1 h) (hs_auth_plugin_data_part2 h)) caps db cs mps))" for plugin
  from assms upstream_auth_loop_replies obtain plugin where
    "replies_ok dg lib auth tls (MAX_AUTH_ROUNDS - 0) (my_send (m plugin) (on_codec set_auth_response_state l)) l'"
    unfolding authenticate_upstream_def Let_def m_def by blast
  then obtain rs where "sent_messages (lg_out l') = sent_messages (lg_out l) @ m plugin # map (\<lambda>(seq, p). generic seq p) rs"
    "\<forall>(seq, p) \<in> set rs. permitted_reply dg lib auth tls p" "length rs \<le> 20"
    "length (lg_out l') = length (lg_out l) + Suc (length rs)"
    "writes_on (my_send (m plugin) (on_codec set_auth_response_state l)) l'"
    by (auto simp: replies_ok_def MAX_AUTH_ROUNDS_def)
  moreover have "writes_on l (my_send x (on_codec set_auth_response_state l))" for x
    using writes_on_write(3) [of "on_codec set_auth_response_state l" x] by (simp add: writes_on_def)
  ultimately show ?thesis using writes_on_trans unfolding m_def by blast
qed

section \<open>The command phase\<close>

definition refused :: "my_msg \<Rightarrow> bool" where
  "refused m \<longleftrightarrow> (case m of MGeneric g \<Rightarrow> binary_command (gp_payload g) | _ \<Rightarrow> False)"

text \<open>A message of the server and what the client gets for it.\<close>

fun my_relayed_as :: "my_msg \<Rightarrow> my_msg \<Rightarrow> bool" where
  "my_relayed_as (MResultRow row) (MResultRow row') \<longleftrightarrow> rr_sequence_id row' = rr_sequence_id row
     \<and> list_all2 (\<lambda>v v'. (v = None) = (v' = None)) (rr_values row) (rr_values row')"
| "my_relayed_as m m' \<longleftrightarrow> m' = m"

text \<open>The messages a run reads, in order, each with the leg it is read from (\<open>True\<close>: the client).\<close>

definition turn_read :: "turn \<Rightarrow> my_session \<Rightarrow> (bool \<times> my_msg) list" where
  "turn_read t ses =
     (case t of
        Client_Ready st \<Rightarrow> (case leg_next my_decode (mq_client ses) of (Ok (Some m), _) \<Rightarrow> [(True, m)] | _ \<Rightarrow> [])
      | Upstream_Ready st \<Rightarrow> (case leg_next my_decode (mq_upstream ses) of (Ok (Some m), _) \<Rightarrow> [(False, m)] | _ \<Rightarrow> [])
      | _ \<Rightarrow> [])"

fun run_reads :: "'r crates \<Rightarrow> pii_scanner \<Rightarrow> turn list \<Rightarrow> my_session \<Rightarrow> (bool \<times> my_msg) list" where
  "run_reads cr sc [] ses = []"
| "run_reads cr sc (t # ts) ses =
     turn_read t ses @ (case my_turn cr sc t ses of (None, ses') \<Rightarrow> run_reads cr sc ts ses' | _ \<Rightarrow> [])"

definition to_upstream :: "(bool \<times> my_msg) list \<Rightarrow> my_msg list" where
  "to_upstream reads = map snd (filter (\<lambda>(client, m). client \<and> \<not> refused m) reads)"

definition to_client :: "(bool \<times> my_msg) list \<Rightarrow> (bool \<times> my_msg) list" where
  "to_client reads = filter (\<lambda>(client, m). client \<longrightarrow> refused m) reads"

text \<open>\<open>R\<close> relates a message of the server to what the client gets for it.\<close>

fun client_gets :: "(my_msg \<Rightarrow> my_msg \<Rightarrow> bool) \<Rightarrow> bool \<times> my_msg \<Rightarrow> my_msg \<Rightarrow> bool" where
  "client_gets R (True, m) m' \<longleftrightarrow> m' = unsupported_ps"
| "client_gets R (False, m) m' \<longleftrightarrow> R m m'"

lemma on_result_row_relayed: "my_relayed_as (MResultRow row) (MResultRow (fst (on_result_row cr sc st a row s)))"
  using mask_values_shape [of "row_context cr sc s" "ma_target_cols a" "ma_column_names a" 0 "rr_values row"]
  by (auto simp: on_result_row_def Let_def list_all2_conv_all_nth split: prod.split)

lemma my_client_msg_sent:
  "sent_messages (lg_out (mq_upstream (my_client_msg st m ses))) =
     sent_messages (lg_out (mq_upstream ses)) @ (if refused m then [] else [m])"
  "sent_messages (lg_out (mq_client (my_client_msg st m ses))) =
     sent_messages (lg_out (mq_client ses)) @ (if refused m then [unsupported_ps] else [])"
  by (simp_all add: my_client_msg_def refused_def split: my_msg.split)

definition relays :: "(my_msg \<Rightarrow> my_msg \<Rightarrow> bool) \<Rightarrow> (bool \<times> my_msg) list \<Rightarrow> my_session \<Rightarrow> my_session \<Rightarrow> bool" where
  "relays R reads ses ses' \<longleftrightarrow>
     sent_messages (lg_out (mq_upstream ses')) = sent_messages (lg_out (mq_upstream ses)) @ to_upstream reads
     \<and> (\<exists>out. sent_messages (lg_out (mq_client ses')) = sent_messages (lg_out (mq_client ses)) @ out
          \<and> list_all2 (client_gets R) (to_client reads) out)"

lemma relays_Nil [simp]: "relays R [] ses ses" "relays R [] ses (ses\<lparr>mq_state := s\<rparr>)"
  by (simp_all add: relays_def to_upstream_def to_client_def)

lemma relays_append: "relays R xs a b \<Longrightarrow> relays R ys b c \<Longrightarrow> relays R (xs @ ys) a c"
  unfolding relays_def to_upstream_def to_client_def
  by (elim conjE exE, intro conjI exI) (assumption | simp add: list_all2_appendI)+

text \<open>A session that is watched: its configuration, now and whatever other tasks make of it, and its
  columns have a property. What masking does to every row under these, the session does to all that it
  relays.\<close>

definition my_watched :: "(app_config \<Rightarrow> bool) \<Rightarrow> (my_anonymizer \<Rightarrow> bool) \<Rightarrow> turn list \<Rightarrow> my_session \<Rightarrow> bool" where
  "my_watched fit tame ts ses \<longleftrightarrow> fit (as_config (mq_state ses)) \<and> tame (mq_interceptor ses)
     \<and> (\<forall>s. Elsewhere s \<in> set ts \<longrightarrow> fit (as_config s))"

lemma my_watched_frame [simp]:
  "my_watched fit tame ts (ses\<lparr>mq_client := l\<rparr>) = my_watched fit tame ts ses"
  "my_watched fit tame ts (ses\<lparr>mq_upstream := l\<rparr>) = my_watched fit tame ts ses"
  by (simp_all add: my_watched_def)

lemma my_watched_Cons: "my_watched fit tame (t # ts) ses \<Longrightarrow> my_watched fit tame ts ses"
  by (simp add: my_watched_def)

lemma on_result_row_config:
  "on_result_row cr sc st a row s = (row', s') \<Longrightarrow> as_config s' = as_config s \<and> as_masking_key s' = as_masking_key s"
  by (auto simp: on_result_row_def Let_def split: prod.splits if_splits)

locale my_watch =
  fixes cr :: "'r crates" and sc :: pii_scanner
    and fit :: "app_config \<Rightarrow> bool" and tame :: "my_anonymizer \<Rightarrow> bool" and R :: "my_msg \<Rightarrow> my_msg \<Rightarrow> bool"
  assumes row_ok: "fit (as_config s) \<Longrightarrow> tame a \<Longrightarrow> R (MResultRow row) (MResultRow (fst (on_result_row cr sc st a row s)))"
    and other_ok: "(\<And>row. m \<noteq> MResultRow row) \<Longrightarrow> R m m"
    and described: "fit (as_config s) \<Longrightarrow> tame a \<Longrightarrow> tame (on_column_definition s col a)"
    and emptied: "tame a \<Longrightarrow> tame (my_reset_columns a)"
begin

lemma client_msg_watched: "my_watched fit tame ts ses \<Longrightarrow> my_watched fit tame ts (my_client_msg st m ses)"
  by (auto simp: my_watched_def my_client_msg_def emptied split: my_msg.split)

lemma upstream_msg_watched:
  assumes "my_watched fit tame ts ses"
  shows "my_watched fit tame ts (my_upstream_msg cr sc st m ses)"
    and "mq_upstream (my_upstream_msg cr sc st m ses) = mq_upstream ses"
    and "\<exists>m'. sent_messages (lg_out (mq_client (my_upstream_msg cr sc st m ses))) =
       sent_messages (lg_out (mq_client ses)) @ [m'] \<and> R m m'"
proof -
  show "mq_upstream (my_upstream_msg cr sc st m ses) = mq_upstream ses"
    by (simp add: my_upstream_msg_def Let_def split: my_msg.split prod.split)
  show "my_watched fit tame ts (my_upstream_msg cr sc st m ses)"
    using assms by (auto simp: my_watched_def my_upstream_msg_def Let_def described dest: on_result_row_config
        split: my_msg.split prod.split)
  show "\<exists>m'. sent_messages (lg_out (mq_client (my_upstream_msg cr sc st m ses))) =
     sent_messages (lg_out (mq_client ses)) @ [m'] \<and> R m m'"
  proof (cases "\<exists>row. m = MResultRow row")
    case True
    then obtain row where "m = MResultRow row" by blast
    with assms row_ok [of "mq_state ses" "mq_interceptor ses" row st] show ?thesis
      by (auto simp: my_upstream_msg_def Let_def my_watched_def split: prod.split)
  next
    case False
    then have "R m m" by (intro other_ok) blast
    with False show ?thesis by (cases m) (auto simp: my_upstream_msg_def Let_def)
  qed
qed

lemma turn_watched:
  assumes "my_watched fit tame (t # ts) ses" "my_turn cr sc t ses = (None, ses')"
  shows "my_watched fit tame ts ses' \<and> relays R (turn_read t ses) ses ses'"
proof (cases t)
  case (Client_Ready st)
  with assms obtain m l where n: "leg_next my_decode (mq_client ses) = (Ok (Some m), l)"
    and s: "ses' = my_client_msg st m (ses\<lparr>mq_client := l\<rparr>)"
    by (auto simp: my_turn_def Let_def split: prod.splits result.splits option.splits)
  from my.leg_next_frame [OF n] my_client_msg_sent [of st m "ses\<lparr>mq_client := l\<rparr>"]
    client_msg_watched [of ts "ses\<lparr>mq_client := l\<rparr>" st m] my_watched_Cons [OF assms(1)] show ?thesis
    by (auto simp: relays_def s turn_read_def Client_Ready n to_upstream_def to_client_def)
next
  case (Upstream_Ready st)
  with assms obtain m l where n: "leg_next my_decode (mq_upstream ses) = (Ok (Some m), l)"
    and s: "ses' = my_upstream_msg cr sc st m (ses\<lparr>mq_upstream := l\<rparr>)"
    by (auto simp: my_turn_def Let_def split: prod.splits result.splits option.splits)
  have w: "my_watched fit tame ts (ses\<lparr>mq_upstream := l\<rparr>)" using my_watched_Cons [OF assms(1)] by simp
  obtain m' where m': "sent_messages (lg_out (mq_client ses')) = sent_messages (lg_out (mq_client ses)) @ [m']"
    "R m m'" using upstream_msg_watched(3) [OF w, of st m] by (auto simp: s)
  with my.leg_next_frame [OF n] upstream_msg_watched(1,2) [OF w, of st m] show ?thesis
    by (auto simp: relays_def s turn_read_def Upstream_Ready n to_upstream_def to_client_def)
next
  case (Elsewhere s)
  with assms show ?thesis by (auto simp: my_turn_def my_watched_def turn_read_def)
qed (use assms(2) in \<open>simp_all add: my_turn_def\<close>)

lemma run_watched:
  "my_watched fit tame ts ses \<Longrightarrow> my_run cr sc ts ses = (None, ses') \<Longrightarrow> relays R (run_reads cr sc ts ses) ses ses'"
proof (induction ts arbitrary: ses)
  case (Cons t ts)
  then obtain b where b: "my_turn cr sc t ses = (None, b)" "my_run cr sc ts b = (None, ses')"
    by (auto split: prod.splits option.splits)
  from turn_watched [OF Cons.prems(1) b(1)] Cons.IH [OF _ b(2)] b(1) show ?case
    using relays_append by fastforce
qed simp

end

interpretation my_any: my_watch cr sc "\<lambda>_. True" "\<lambda>_. True" my_relayed_as for cr sc
proof unfold_locales
  show "my_relayed_as m m" if "\<And>row. m \<noteq> MResultRow row" for m
    using that by (cases m) auto
qed (simp_all add: on_result_row_relayed del: my_relayed_as.simps)

text \<open>C10: In the command phase every message is passed on in order, whatever the interleaving and the
  configuration: the server is sent what the client sends, save the commands of the binary protocol,
  which never reach it and are each answered with error 1295; the client is sent what the server
  sends, rows as rows with the same columns and NULLs; and nothing else.\<close>

theorem mysql_session_relays:
  "my_run cr sc ts ses = (None, ses') \<Longrightarrow> relays my_relayed_as (run_reads cr sc ts ses) ses ses'"
  by (rule my_any.run_watched) (simp_all add: my_watched_def)


lemma leg_next_buffered_packet:
  assumes "length p < 0xffffff" "mc_pending_large (lg_codec l) = None" "lg_buf l = packet seq p @ x" "lg_in l = []"
  shows "leg_next my_decode l =
     (case dispatch (lg_codec l) seq p False of (r, c') \<Rightarrow> (r, l\<lparr>lg_codec := c', lg_buf := x, lg_in := []\<rparr>))"
proof -
  obtain r c' where d: "dispatch (lg_codec l) seq p False = (r, c')" by fastforce
  with dispatch_result [of "lg_codec l" seq p False] have "r \<noteq> Ok None" by auto
  with my_decode_frame [OF assms(1), of "lg_codec l" seq x] d assms(2-4) show ?thesis
    by (cases r) (auto simp: leg_next_def packet_def deliver_def split: option.splits)
qed

definition demo_my_leg :: "my_codec \<Rightarrow> byte list \<Rightarrow> my_leg" where
  "demo_my_leg c buf = \<lparr>lg_codec = c, lg_buf = buf, lg_in = [], lg_tls = False, lg_out = []\<rparr>"

definition demo_my_session :: "app_state \<Rightarrow> byte list \<Rightarrow> byte list \<Rightarrow> my_session" where
  "demo_my_session s from_client from_upstream =
     \<lparr>mq_client = demo_my_leg new_server_awaiting_command from_client,
      mq_upstream = demo_my_leg (set_command_state new_client) from_upstream, mq_state = s,
      mq_connection_id = 1, mq_interceptor = my_anonymizer_new 1, mq_query_started_at = None\<rparr>"

theorem mysql_session_relays_witness:
  "let ses = demo_my_session (test_state [] True) (packet 0 [0x16, 0x41] @ packet 0 [3, 0x41]) [];
       ts = [Client_Ready (''i'', 1), Client_Ready (''j'', 2)];
       ses' = snd (my_run test_crates test_scanner ts ses) in
   relays my_relayed_as (run_reads test_crates test_scanner ts ses) ses ses'
   \<and> sent_messages (lg_out (mq_upstream ses')) = [MQuery \<lparr>qp_sequence_id = 0, qp_query = [0x41]\<rparr>]
   \<and> sent_messages (lg_out (mq_client ses')) = [unsupported_ps]"
proof -
  let ?ts = "[Client_Ready (''i'', 1), Client_Ready (''j'', 2)]"
  define ses where "ses = demo_my_session (test_state [] True) (packet 0 [0x16, 0x41] @ packet 0 [3, 0x41]) []"
  define c where "c = (mq_client ses)\<lparr>lg_buf := packet 0 [3, 0x41]\<rparr>"
  have n1: "leg_next my_decode (mq_client ses) = (Ok (Some (generic 0 [0x16, 0x41])), c)"
    using leg_next_buffered_packet [of "[0x16, 0x41]" "mq_client ses" 0 "packet 0 [3, 0x41]"]
    by (simp add: ses_def c_def demo_my_session_def demo_my_leg_def new_server_awaiting_command_def dispatch_def
        dispatch_command_def command_reply_def)
  have n2: "leg_next my_decode (my_send unsupported_ps c) =
      (Ok (Some (MQuery \<lparr>qp_sequence_id = 0, qp_query = [0x41]\<rparr>)), (my_send unsupported_ps c)\<lparr>lg_buf := []\<rparr>)"
    using leg_next_buffered_packet [of "[3, 0x41]" "my_send unsupported_ps c" 0 "[]"]
    by (simp add: ses_def c_def demo_my_session_def demo_my_leg_def new_server_awaiting_command_def dispatch_def
        dispatch_command_def my_send_def unsupported_ps_def write_sent_def)
  let ?ses1 = "ses\<lparr>mq_state := metered record_binary_protocol_rejected (mq_state ses), mq_client := my_send unsupported_ps c\<rparr>"
  have t1: "my_turn test_crates test_scanner (Client_Ready (''i'', 1)) ses = (None, ?ses1)"
    by (simp add: my_turn_def n1 my_client_msg_def binary_command_def Let_def)
  obtain b where t2: "my_turn test_crates test_scanner (Client_Ready (''j'', 2)) ?ses1 = (None, b)"
    and b: "sent_messages (lg_out (mq_upstream b)) = [MQuery \<lparr>qp_sequence_id = 0, qp_query = [0x41]\<rparr>]"
      "sent_messages (lg_out (mq_client b)) = [unsupported_ps]"
    by (simp add: my_turn_def n2 my_client_msg_def Let_def) (simp add: ses_def demo_my_session_def demo_my_leg_def c_def)
  have "my_run test_crates test_scanner ?ts ses = (None, b)" by (simp add: t1 t2 del: One_nat_def)
  with mysql_session_relays [OF this] b show ?thesis
    unfolding Let_def ses_def [symmetric] by simp
qed

section \<open>Masked result sets\<close>

definition column_rule :: "app_state \<Rightarrow> column_definition list \<Rightarrow> nat \<Rightarrow> string option" where
  "column_rule s cols k =
     (if k < length cols
      then map_option mr_strategy (find (my_rule_matches (cols ! k)) (cf_rules (as_config s))) else None)"

definition my_masked_cells :: "'r mask_context \<Rightarrow> (nat \<Rightarrow> string option) \<Rightarrow> column_definition list \<Rightarrow> result_row \<Rightarrow> result_row" where
  "my_masked_cells ctx rule cols row =
     row\<lparr>rr_values := map (\<lambda>(k, v). map_option (\<lambda>val. fst (mask_cell ctx val k
        (if k < length cols then Some (my_label (cd_name (cols ! k))) else None) (rule k))) v)
        (enumerate 0 (rr_values row))\<rparr>"

text \<open>A run that only reads the upstream is a fold over the messages there.\<close>

definition upstream_fold :: "'r crates \<Rightarrow> pii_scanner \<Rightarrow> (stamp \<times> my_msg) list \<Rightarrow> my_session \<Rightarrow> my_session" where
  "upstream_fold cr sc sms ses = fold (\<lambda>(st, m) ses. my_upstream_msg cr sc st m ses) sms ses"

lemma my_upstream_msg_commutes:
  "my_upstream_msg cr sc st m (ses\<lparr>mq_upstream := l\<rparr>) = (my_upstream_msg cr sc st m ses)\<lparr>mq_upstream := l\<rparr>"
  by (simp add: my_upstream_msg_def Let_def split: my_msg.split prod.split)

lemma my_run_upstream:
  "leg_messages my_decode (mq_upstream ses) = ms @ later \<Longrightarrow> length sts = length ms \<Longrightarrow>
   \<exists>l. my_run cr sc (map Upstream_Ready sts) ses = (None, (upstream_fold cr sc (zip sts ms) ses)\<lparr>mq_upstream := l\<rparr>)
     \<and> leg_messages my_decode l = later"
proof (induction ms arbitrary: sts ses)
  case Nil
  then show ?case by (intro exI [of _ "mq_upstream ses"]) (simp add: upstream_fold_def)
next
  case (Cons m ms)
  from Cons.prems(2) obtain st sts' where sts: "sts = st # sts'" "length sts' = length ms" by (cases sts) auto
  from Cons.prems(1) obtain k where k: "leg_next my_decode (mq_upstream ses) = (Ok (Some m), k)"
    "leg_messages my_decode k = ms @ later"
    using my.leg_messages_next [of "mq_upstream ses" m "ms @ later"] by auto
  let ?b = "(my_upstream_msg cr sc st m ses)\<lparr>mq_upstream := k\<rparr>"
  have t: "my_turn cr sc (Upstream_Ready st) ses = (None, ?b)"
    by (simp add: my_turn_def k(1) my_upstream_msg_commutes)
  have f: "upstream_fold cr sc sms (s\<lparr>mq_upstream := l\<rparr>) = (upstream_fold cr sc sms s)\<lparr>mq_upstream := l\<rparr>" for sms s l
    by (induction sms arbitrary: s) (auto simp: upstream_fold_def my_upstream_msg_commutes split: prod.split)
  from Cons.IH [OF _ sts(2), of ?b] k(2) show ?case
    by (auto simp: sts t f) (auto simp: upstream_fold_def)
qed

text \<open>What a session keeps while it masks a result set.\<close>

definition masks_with :: "app_state \<Rightarrow> my_anonymizer \<Rightarrow> my_msg list \<Rightarrow> my_session \<Rightarrow> bool" where
  "masks_with s a sent ses \<longleftrightarrow> mq_interceptor ses = a \<and> sent_messages (lg_out (mq_client ses)) = sent
     \<and> as_config (mq_state ses) = as_config s \<and> as_masking_key (mq_state ses) = as_masking_key s"

lemma upstream_fold_append: "upstream_fold cr sc (xs @ ys) ses = upstream_fold cr sc ys (upstream_fold cr sc xs ses)"
  by (simp add: upstream_fold_def)

lemma fold_plain:
  assumes "\<forall>m \<in> set ms. (\<forall>c. m \<noteq> MColumnDefinition c) \<and> (\<forall>r. m \<noteq> MResultRow r)" "length sts = length ms"
  shows "masks_with s a sent ses \<Longrightarrow> masks_with s a (sent @ ms) (upstream_fold cr sc (zip sts ms) ses)"
  using assms
proof (induction ms arbitrary: sts ses sent)
  case (Cons m ms)
  then obtain st sts' where sts: "sts = st # sts'" "length sts' = length ms" by (cases sts) auto
  have "masks_with s a (sent @ [m]) (my_upstream_msg cr sc st m ses)"
    using Cons.prems by (auto simp: masks_with_def my_upstream_msg_def Let_def split: my_msg.split)
  from Cons.IH [OF this _ sts(2)] Cons.prems(2) show ?case by (simp add: sts upstream_fold_def)
qed (simp add: upstream_fold_def)

lemma column_definition_cong:
  "as_config s' = as_config s \<Longrightarrow> on_column_definition s' col a = on_column_definition s col a"
  by (simp add: on_column_definition_def)

lemma fold_columns:
  "length sts = length cols \<Longrightarrow> masks_with s a sent ses \<Longrightarrow>
   masks_with s (describe_columns s cols a) (sent @ map MColumnDefinition cols)
     (upstream_fold cr sc (zip sts (map MColumnDefinition cols)) ses)"
proof (induction cols arbitrary: sts ses sent a)
  case (Cons col cols)
  then obtain st sts' where sts: "sts = st # sts'" "length sts' = length cols" by (cases sts) auto
  have "masks_with s (on_column_definition s col a) (sent @ [MColumnDefinition col])
      (my_upstream_msg cr sc st (MColumnDefinition col) ses)"
    using Cons.prems(2) by (simp add: masks_with_def my_upstream_msg_def Let_def column_definition_cong [of "mq_state ses" s])
  from Cons.IH [OF sts(2) this] show ?case by (simp add: sts upstream_fold_def describe_columns_def)
qed (simp add: upstream_fold_def describe_columns_def)

lemma described_result_row:
  assumes "ma_column_names a = map (\<lambda>c. my_label (cd_name c)) cols" "explicit_strategy (ma_target_cols a) = rule"
    and "cf_masking_enabled (as_config s)"
  shows "fst (on_result_row cr sc st a row s) = my_masked_cells (row_context cr sc s) rule cols row"
proof -
  have l: "label_at (ma_column_names a) = (\<lambda>k. if k < length cols then Some (my_label (cd_name (cols ! k))) else None)"
    using assms(1) by (auto simp: label_at_def)
  have "fst (on_result_row cr sc st a row s)
      = row\<lparr>rr_values := fst (mask_values (row_context cr sc s) (ma_target_cols a) (ma_column_names a) 0 (rr_values row))\<rparr>"
    using assms(3) by (simp add: on_result_row_def Let_def split: prod.split)
  then show ?thesis unfolding mask_values_map l assms(2) my_masked_cells_def .
qed

lemma fold_rows:
  assumes a: "ma_column_names a = map (\<lambda>c. my_label (cd_name c)) cols" "explicit_strategy (ma_target_cols a) = rule"
    and e: "cf_masking_enabled (as_config s)"
  shows "length sts = length rows \<Longrightarrow> masks_with s a sent ses \<Longrightarrow>
   masks_with s a (sent @ map (\<lambda>r. MResultRow (my_masked_cells (row_context cr sc s) rule cols r)) rows)
     (upstream_fold cr sc (zip sts (map MResultRow rows)) ses)"
proof (induction rows arbitrary: sts ses sent)
  case (Cons row rows)
  then obtain st sts' where sts: "sts = st # sts'" "length sts' = length rows" by (cases sts) auto
  obtain row' s' where r: "on_result_row cr sc st a row (mq_state ses) = (row', s')" by fastforce
  have c: "as_config (mq_state ses) = as_config s" "as_masking_key (mq_state ses) = as_masking_key s" "mq_interceptor ses = a"
    using Cons.prems(2) by (simp_all add: masks_with_def)
  with described_result_row [OF a, of "mq_state ses" cr sc st row] e
  have "row' = my_masked_cells (row_context cr sc s) rule cols row" by (simp add: r row_context_cong [OF c(1,2)])
  with Cons.prems(2) c on_result_row_config [OF r]
  have "masks_with s a (sent @ [MResultRow (my_masked_cells (row_context cr sc s) rule cols row)])
      (my_upstream_msg cr sc st (MResultRow row) ses)"
    by (simp add: masks_with_def my_upstream_msg_def Let_def r)
  from Cons.IH [OF sts(2) this] show ?case by (simp add: sts upstream_fold_def)
qed (simp add: upstream_fold_def)


lemma fold_split:
  "upstream_fold cr sc (zip sts (xs @ ys)) ses =
     upstream_fold cr sc (zip (drop (length xs) sts) ys) (upstream_fold cr sc (zip (take (length xs) sts) xs) ses)"
  by (simp add: zip_append2 upstream_fold_append)

fun masked_message :: "'r mask_context \<Rightarrow> (nat \<Rightarrow> string option) \<Rightarrow> column_definition list \<Rightarrow> my_msg \<Rightarrow> my_msg" where
  "masked_message ctx rule cols (MResultRow row) = MResultRow (my_masked_cells ctx rule cols row)"
| "masked_message ctx rule cols m = m"

lemma masks_result_set:
  assumes e: "cf_masking_enabled (as_config (mq_state ses))"
    and a: "ma_target_cols (mq_interceptor ses) = []" "ma_column_names (mq_interceptor ses) = []"
    and l: "length sts = length (result_set_messages d seq cols eof rows t)"
  shows "sent_messages (lg_out (mq_client (upstream_fold cr sc (zip sts (result_set_messages d seq cols eof rows t)) ses)))
    = sent_messages (lg_out (mq_client ses)) @ map (masked_message (row_context cr sc (mq_state ses))
        (column_rule (mq_state ses) cols) cols) (result_set_messages d seq cols eof rows t)"
proof -
  let ?s = "mq_state ses" and ?a = "mq_interceptor ses"
  let ?b = "describe_columns ?s cols ?a"
  let ?m = "masked_message (row_context cr sc ?s) (column_rule ?s cols) cols"
  let ?sent = "sent_messages (lg_out (mq_client ses))"
  define head where "head = [generic seq (write_lenenc_int (of_nat (length cols)))]"
  define mid where "mid = (if d then [] else [MEof eof])"
  have msgs: "result_set_messages d seq cols eof rows t
      = head @ map MColumnDefinition cols @ mid @ map MResultRow rows @ [MGeneric t]"
    by (simp add: result_set_messages_def head_def mid_def)
  have b: "ma_column_names ?b = map (\<lambda>c. my_label (cd_name c)) cols" "explicit_strategy (ma_target_cols ?b) = column_rule ?s cols"
    using describe_columns_spec [of ?a ?s cols] a by (auto simp: column_rule_def)
  have len: "length sts = length head + (length cols + (length mid + (length rows + 1)))" using l by (simp add: msgs)
  have plain: "map ?m head = head" "map ?m mid = mid" "map ?m (map MColumnDefinition cols) = map MColumnDefinition cols"
    "map ?m (map MResultRow rows) = map (\<lambda>r. MResultRow (my_masked_cells (row_context cr sc ?s) (column_rule ?s cols) cols r)) rows"
    "map ?m [MGeneric t] = [MGeneric t]"
    "\<forall>m \<in> set head. (\<forall>c. m \<noteq> MColumnDefinition c) \<and> (\<forall>r. m \<noteq> MResultRow r)"
    "\<forall>m \<in> set mid. (\<forall>c. m \<noteq> MColumnDefinition c) \<and> (\<forall>r. m \<noteq> MResultRow r)"
    by (simp_all add: head_def mid_def)
  have "masks_with ?s ?b ((((?sent @ head) @ map MColumnDefinition cols) @ mid)
      @ map (\<lambda>r. MResultRow (my_masked_cells (row_context cr sc ?s) (column_rule ?s cols) cols r)) rows)
     (upstream_fold cr sc (zip (take (length rows) (drop (length mid) (drop (length cols) (drop (length head) sts)))) (map MResultRow rows))
       (upstream_fold cr sc (zip (take (length mid) (drop (length cols) (drop (length head) sts))) mid)
         (upstream_fold cr sc (zip (take (length cols) (drop (length head) sts)) (map MColumnDefinition cols))
           (upstream_fold cr sc (zip (take (length head) sts) head) ses))))"
    by (intro fold_rows [OF b e] fold_plain [OF plain(7)] fold_columns fold_plain [OF plain(6)])
       (simp_all add: len masks_with_def)
  from fold_plain [where cr = cr and sc = sc and ms = "[MGeneric t]"
      and sts = "drop (length rows) (drop (length mid) (drop (length cols) (drop (length head) sts)))", OF _ _ this]
  show ?thesis
    unfolding msgs fold_split map_append plain length_map by (simp add: len masks_with_def)
qed

text \<open>C2: A MySQL result set reaches the client masked, in both its forms (with EOF packets or without):
  the column count, definitions and terminator as they came, every row with each value replaced by what
  \<open>mask_cell\<close> makes of it under its column's label and the strategy of the first rule that matches the
  column by label, source column or table; from the bytes the server sent, however they were cut.\<close>

theorem mysql_session_masks_result_set:
  assumes "cf_masking_enabled (as_config (mq_state ses))"
    and "ma_target_cols (mq_interceptor ses) = []" "ma_column_names (mq_interceptor ses) = []"
    and "mc_state c = Command" "mc_is_client_side c" "mc_pending_large c = None" "c = lg_codec (mq_upstream ses)"
    and "0 < length cols" "length cols < 4096" "\<forall>d \<in> set cols. column_ok d" "eof_ok eof"
    and "\<forall>r \<in> set rows. row_ok (length cols) r" "terminator_ok t"
    and "leg_rest (mq_upstream ses) = result_set_bytes (uses_deprecate_eof c) seq cols eof rows t @ x"
    and "length sts = length (result_set_messages (uses_deprecate_eof c) seq cols eof rows t)"
  shows "\<exists>ses'. my_run cr sc (map Upstream_Ready sts) ses = (None, ses')
     \<and> sent_messages (lg_out (mq_client ses')) = sent_messages (lg_out (mq_client ses))
         @ map (masked_message (row_context cr sc (mq_state ses)) (column_rule (mq_state ses) cols) cols)
             (result_set_messages (uses_deprecate_eof c) seq cols eof rows t)"
proof -
  from drain_result_set [OF assms(4-6,8-13)] assms(7,14)
  have "leg_messages my_decode (mq_upstream ses) = result_set_messages (uses_deprecate_eof c) seq cols eof rows t
      @ fst (drain_all my_decode (c\<lparr>mc_column_count := length cols\<rparr>) x)"
    by (simp add: leg_messages_def prepend_def)
  from my_run_upstream [OF this assms(15)] masks_result_set [OF assms(1-3,15)] show ?thesis by fastforce
qed

definition demo_column :: column_definition where
  "demo_column = \<lparr>cd_sequence_id = 2, cd_catalog = [], cd_schema = [], cd_table = [], cd_org_table = [],
     cd_name = [0x78], cd_org_name = bytes_of_str ''ssn'', cd_character_set = 33,
     cd_column_length = 0, cd_column_type = 0xfd, cd_flags = 0, cd_decimals = 0,
     cd_raw = [0, 0, 0, 0, 1, 0x78, 3, 0x73, 0x73, 0x6e, 0x0c, 33, 0, 0, 0, 0, 0, 0xfd, 0, 0, 0, 0, 0]\<rparr>"

theorem mysql_session_masks_result_set_witness:
  "let row = \<lparr>rr_sequence_id = 4, rr_values = [Some [0x6A]]\<rparr>; t = \<lparr>gp_sequence_id = 5, gp_payload = [0xfe, 0, 0, 2, 0]\<rparr>;
       ses = demo_my_session (test_state [test_rule] True) [] (result_set_bytes False 1 [demo_column] example_eof [row] t) in
   \<exists>ses'. my_run test_crates test_scanner (map Upstream_Ready (replicate 5 (''i'', 1))) ses = (None, ses')
     \<and> sent_messages (lg_out (mq_client ses')) = [generic 1 (write_lenenc_int 1), MColumnDefinition demo_column, MEof example_eof,
         MResultRow (row\<lparr>rr_values := [Some (bytes_of_str ''203.0.113.0'')]\<rparr>), MGeneric t]"
proof -
  let ?row = "\<lparr>rr_sequence_id = 4, rr_values = [Some [0x6A]]\<rparr>" and ?t = "\<lparr>gp_sequence_id = 5, gp_payload = [0xfe, 0, 0, 2, 0]\<rparr>"
  let ?s = "test_state [test_rule] True" and ?c = "set_command_state new_client"
  define ses where "ses = demo_my_session ?s [] (result_set_bytes False 1 [demo_column] example_eof [?row] ?t)"
  have d: "uses_deprecate_eof ?c = False" by code_simp
  have f: "mq_state ses = ?s" "ma_target_cols (mq_interceptor ses) = []" "ma_column_names (mq_interceptor ses) = []"
    "mc_state ?c = Command" "mc_is_client_side ?c" "mc_pending_large ?c = None" "lg_codec (mq_upstream ses) = ?c"
    "sent_messages (lg_out (mq_client ses)) = []"
    "leg_rest (mq_upstream ses) = result_set_bytes False 1 [demo_column] example_eof [?row] ?t"
    by (simp_all add: ses_def demo_my_session_def demo_my_leg_def leg_rest_def my_anonymizer_new_def set_command_state_def new_client_def)
  have e: "cf_masking_enabled (as_config ?s)" "cf_rules (as_config ?s) = [test_rule]"
    by (simp_all add: test_state_def app_state_new_def)
  have st: "mr_strategy test_rule = ''ip''" by (simp add: test_rule_def)
  have m: "my_rule_matches demo_column test_rule" by code_simp
  have r: "replacement (row_context test_crates test_scanner ?s) ''ip'' [0x6A] = ''203.0.113.0''" by code_simp
  have c: "column_ok demo_column" by code_simp
  have k: "my_masked_cells (row_context test_crates test_scanner ?s) (column_rule ?s [demo_column]) [demo_column] ?row
      = ?row\<lparr>rr_values := [Some (bytes_of_str ''203.0.113.0'')]\<rparr>"
    using m r by (simp add: my_masked_cells_def column_rule_def e mask_cell_rule st)
  have msgs: "result_set_messages False 1 [demo_column] example_eof [?row] ?t = [generic 1 (write_lenenc_int 1),
      MColumnDefinition demo_column, MEof example_eof, MResultRow ?row, MGeneric ?t]"
    by (simp add: result_set_messages_def)
  have "\<exists>ses'. my_run test_crates test_scanner (map Upstream_Ready (replicate 5 (''i'', 1))) ses = (None, ses')
     \<and> sent_messages (lg_out (mq_client ses')) = sent_messages (lg_out (mq_client ses))
         @ map (masked_message (row_context test_crates test_scanner (mq_state ses)) (column_rule (mq_state ses) [demo_column]) [demo_column])
             (result_set_messages (uses_deprecate_eof ?c) 1 [demo_column] example_eof [?row] ?t)"
    by (rule mysql_session_masks_result_set [where x = "[]"])
       (use f e c example_packets in \<open>simp_all add: d msgs row_ok_def terminator_ok_def fits_def\<close>)
  then show ?thesis unfolding Let_def ses_def [symmetric] by (simp add: d msgs f k)
qed

section \<open>A relayed login with an auth switch\<close>

lemma leg_next_rest_packet:
  assumes "length p < 0xffffff" "mc_pending_large (lg_codec l) = None" "leg_rest l = packet seq p @ x"
    and "dispatch (lg_codec l) seq p False = (Ok (Some m), c')"
  obtains l' where "leg_next my_decode l = (Ok (Some m), l')" "lg_codec l' = c'" "leg_rest l' = x"
proof -
  have "my_decode (lg_codec l) (leg_rest l) = (Ok (Some m), c', x)"
    using my_decode_frame [OF assms(1), of "lg_codec l" seq x] assms(2-4) by (simp add: packet_def deliver_def)
  from my.leg_next_item [OF this] that show ?thesis by metis
qed

lemma leg_next_rest_failing:
  assumes "length p < 0xffffff" "mc_pending_large (lg_codec l) = None" "leg_rest l = packet seq p @ x"
    and "dispatch (lg_codec l) seq p False = (Err e, c')"
  shows "fst (leg_next my_decode l) = Err e"
proof -
  have d: "my_decode (lg_codec l) (leg_rest l) = (Err e, c', x)"
    using my_decode_frame [OF assms(1), of "lg_codec l" seq x] assms(2-4) by (simp add: packet_def deliver_def)
  obtain r s b cs where n: "next_read my_decode (lg_codec l) (lg_buf l) (lg_in l) = (r, s, b, cs)" by (metis prod_cases4)
  from my.next_read_concat [OF this] d show ?thesis by (simp add: leg_rest_def leg_next_def n)
qed

lemma my_send_client_codec: "mc_is_client_side (lg_codec l) \<Longrightarrow> lg_codec (my_send m l) = lg_codec l"
  by (cases m) (simp_all add: my_send_def)

lemma auth_next_done: "mw_waits w what k = Done \<Longrightarrow> auth_next w what k l = leg_next my_decode l"
  by (simp add: auth_next_def auth_step_def)

definition fast_auth_success :: "byte list" where "fast_auth_success = [0x01, 0x03]"
definition plain_ok :: "byte list" where "plain_ok = [0, 0, 0, 2, 0, 0, 0]"

text \<open>A relayed login that takes more than one packet from the server fails. After the first packet
  the upstream codec is in the command phase, so when an auth switch is followed by AuthMoreData,
  its first byte is read as the column count of a result set, and the OK that ends the login is an
  error, a malformed column definition: the client is not let in although the server accepted it.\<close>

theorem relayed_auth_switch_fails:
  assumes "\<forall>what k. mw_waits w what k = Done"
    and "mc_state (lg_codec u) = WaitingHandshakeResponse" "mc_is_client_side (lg_codec u)" "mc_pending_large (lg_codec u) = None"
    and "leg_rest u = packet s1 (0xfe # switch) @ packet s2 fast_auth_success @ packet s3 plain_ok @ x"
    and "length switch < 0xfffffe" "leg_messages my_decode c = reply # later"
  shows "\<exists>e c' u'. passthrough_loop w 0 c u = (Err e, c', u')"
proof -
  let ?g1 = "\<lparr>gp_sequence_id = s1, gp_payload = 0xfe # switch\<rparr>" and ?g2 = "\<lparr>gp_sequence_id = s2, gp_payload = fast_auth_success\<rparr>"
  have step: "passthrough_loop w k c u = passthrough_loop w (k + 1) c' u'"
    if "passthrough_round w (k + 1) c u = (None, c', u')" "k < MAX_AUTH_ROUNDS" for k c u c' u'
    using that by (simp add: passthrough_loop.simps [of w k])
  have "dispatch (lg_codec u) s1 (0xfe # switch) False = (Ok (Some (MGeneric ?g1)), (lg_codec u)\<lparr>mc_state := Command\<rparr>)"
    using assms(2,3) by (simp add: dispatch_def dispatch_handshake_response_def)
  with assms(4-6) obtain u1 where u1: "leg_next my_decode u = (Ok (Some (MGeneric ?g1)), u1)"
    "lg_codec u1 = (lg_codec u)\<lparr>mc_state := Command\<rparr>" "leg_rest u1 = packet s2 fast_auth_success @ packet s3 plain_ok @ x"
    using leg_next_rest_packet [of "0xfe # switch" u s1] by auto
  have "leg_messages my_decode (my_send (MGeneric ?g1) c) = reply # later"
    using assms(7) by (simp add: leg_messages_def)
  then obtain c1 where c1: "leg_next my_decode (my_send (MGeneric ?g1) c) = (Ok (Some reply), c1)"
    by (metis my.leg_messages_next)
  let ?u1 = "my_send reply u1"
  have "passthrough_round w (0 + 1) c u = (None, c1, ?u1)"
    using u1 c1 assms(1) by (simp add: passthrough_round_def auth_next_done expects_reply_def
        auth_packet_expects_client_reply_def)
  from step [OF this] have r1: "passthrough_loop w 0 c u = passthrough_loop w 1 c1 ?u1" by (simp add: MAX_AUTH_ROUNDS_def)
  have k1: "lg_codec ?u1 = (lg_codec u)\<lparr>mc_state := Command\<rparr>"
    using my_send_client_codec [of u1 reply] u1(2) assms(3) by simp
  have "dispatch (lg_codec ?u1) s2 fast_auth_success False
      = (Ok (Some (MGeneric ?g2)), (lg_codec u)\<lparr>mc_column_count := 1, mc_state := ReadingColumns 1\<rparr>)"
    unfolding k1 using assms(3)
    by (simp add: dispatch_def dispatch_command_def fast_auth_success_def read_lenenc_int_def)
  then obtain u2 where u2: "leg_next my_decode ?u1 = (Ok (Some (MGeneric ?g2)), u2)"
    "lg_codec u2 = (lg_codec u)\<lparr>mc_column_count := 1, mc_state := ReadingColumns 1\<rparr>" "leg_rest u2 = packet s3 plain_ok @ x"
    using leg_next_rest_packet [of fast_auth_success ?u1 s2] u1(3) k1 assms(4) by (auto simp: fast_auth_success_def)
  have "passthrough_round w (1 + 1) c1 ?u1 = (None, my_send (MGeneric ?g2) c1, u2)"
    using u2 assms(1) by (simp add: passthrough_round_def auth_next_done expects_reply_def
        auth_packet_expects_client_reply_def fast_auth_success_def AUTH_MORE_DATA_FAST_AUTH_SUCCESS_def)
  from step [OF this] have r2: "passthrough_loop w 1 c1 ?u1 = passthrough_loop w 2 (my_send (MGeneric ?g2) c1) u2"
    by (simp add: MAX_AUTH_ROUNDS_def numeral_2_eq_2)
  obtain e where "parse_column_definition plain_ok s3 = Err e"
    by (simp add: parse_column_definition_def plain_ok_def read_lenenc_string_def read_lenenc_int_from_buf_def
        read_lenenc_int_def advance_def split_to_def)
  then have "fst (dispatch (lg_codec u2) s3 plain_ok False) = Err e"
    by (simp add: u2(2) dispatch_def dispatch_columns_def dispatch_column_def plain_ok_def)
  then obtain k2 where "dispatch (lg_codec u2) s3 plain_ok False = (Err e, k2)" by (metis prod.collapse)
  with leg_next_rest_failing [of plain_ok u2 s3 x e] u2 assms(4) have "fst (leg_next my_decode u2) = Err e"
    by (simp add: plain_ok_def)
  then obtain u3 where "leg_next my_decode u2 = (Err e, u3)" by (metis prod.collapse)
  with assms(1) have "passthrough_loop w 2 (my_send (MGeneric ?g2) c1) u2 = (Err e, my_send (MGeneric ?g2) c1, u3)"
    by (simp add: passthrough_loop.simps [of w 2] passthrough_round_def auth_next_done MAX_AUTH_ROUNDS_def)
  with r1 r2 show ?thesis by auto
qed


theorem relayed_auth_switch_fails_witness:
  "\<exists>e c' u'. passthrough_loop (demo_world None) 0
       (demo_my_leg new_server_awaiting_command (packet 3 (replicate 32 9)))
       (demo_my_leg (new_client_awaiting_auth CLIENT_PROTOCOL_41)
          (packet 2 (build_auth_switch_request CachingSha2Password (replicate 20 7))
           @ packet 4 fast_auth_success @ packet 5 plain_ok)) = (Err e, c', u')"
proof -
  let ?c = "demo_my_leg new_server_awaiting_command (packet 3 (replicate 32 9))"
  have r: "replicate 32 9 = 9 # replicate 31 (9 :: byte)" by (simp add: eval_nat_numeral)
  obtain c' where "leg_next my_decode ?c = (Ok (Some (generic 3 (replicate 32 9))), c')"
    using leg_next_buffered_packet [of "replicate 32 9" ?c 3 "[]"]
    by (simp add: demo_my_leg_def new_server_awaiting_command_def dispatch_def dispatch_command_def command_reply_def r)
  from my.leg_next_drain [OF this] have m: "leg_messages my_decode ?c = generic 3 (replicate 32 9) # leg_messages my_decode c'" .
  show ?thesis
    by (rule relayed_auth_switch_fails [OF _ _ _ _ _ _ m, of _ _ 2 "tl (build_auth_switch_request CachingSha2Password (replicate 20 7))" 4 5 "[]"])
       (simp_all add: demo_world_def demo_my_leg_def new_client_awaiting_auth_def leg_rest_def build_auth_switch_request_def bytes_of_str_def)
qed

end
