(* ===== verification/MySql_Tls.thy ===== *)
theory MySql_Tls
  imports MySql_Relay
begin

text \<open>
  What a MySQL session writes in clear: every phase of \<^verbatim>\<open>handle_mysql_protocol\<close> writes to a leg under
  the protection the leg has, and only the two upgrades change it. From this, over the whole login:
  TLS is kept, the upstream password is confined, and the packets written are few.
\<close>

section \<open>Both legs\<close>

definition legs_write :: "my_leg \<times> my_leg \<Rightarrow> my_leg \<times> my_leg \<Rightarrow> bool" where
  "legs_write a b \<longleftrightarrow> writes_on (fst a) (fst b) \<and> writes_on (snd a) (snd b)"

lemma legs_write_refl [simp]: "legs_write a a"
  by (simp add: legs_write_def)

lemma legs_write_trans: "legs_write a b \<Longrightarrow> legs_write b c \<Longrightarrow> legs_write a c"
  unfolding legs_write_def using writes_on_trans by blast

lemma legs_writeI: "writes_on c c' \<Longrightarrow> writes_on u u' \<Longrightarrow> legs_write (c, u) (c', u')"
  by (simp add: legs_write_def)

lemma on_codec_writes [simp]: "writes_on l (on_codec f l)"
  by simp

lemma auth_next_writes: "auth_next w what k l = (r, l') \<Longrightarrow> writes_on l l'"
  using auth_next_frame by simp

section \<open>The login\<close>

lemma client_scramble_writes:
  assumes "client_scramble w auth response nonce seq l = (r, l')"
  shows "writes_on l l'"
proof -
  have s: "writes_on l (my_send m (on_codec f l))" for m f
    by (rule writes_on_trans [OF on_codec_writes writes_on_write(3)])
  have n: "leg_next my_decode (my_send m (on_codec f l)) = (q, k) \<Longrightarrow> writes_on l k" for m f q k
    by (rule writes_on_trans [OF s my.leg_next_writes])
  from assms s show ?thesis
    by (auto simp: client_scramble_def Let_def dest: n
        split: if_splits result.splits prod.splits option.splits my_msg.splits)
qed

lemma authenticate_client_writes:
  assumes "authenticate_client dg w auth response nonce seq l = (r, l', calls)"
  shows "writes_on l l'"
proof -
  obtain q k where k: "client_scramble w auth response nonce seq l = (q, k)" by fastforce
  note 1 = client_scramble_writes [OF k]
  from 1 have "writes_on l (my_send m k)" for m by (rule writes_on_trans [OF _ writes_on_write(3)])
  with 1 assms k show ?thesis
    by (auto simp: authenticate_client_def Let_def split: result.splits option.splits prod.splits if_splits)
qed

lemma phase_client_auth_writes:
  assumes "phase_client_auth w response nonce tls c = (r, c', calls)"
  shows "writes_on c c'"
proof -
  have "writes_on c k" if "authenticate_client dg ws auth response n seq (on_codec f c) = (q, k, calls)" for dg ws auth n seq f q k
    by (rule writes_on_trans [OF on_codec_writes authenticate_client_writes [OF that]])
  with assms show ?thesis
    by (auto simp: phase_client_auth_def Let_def split: option.splits result.splits prod.splits if_splits)
qed

lemma authenticate_upstream_writes:
  assumes "authenticate_upstream dg lib w auth h caps db cs mps seq tls l = (r, l')"
  shows "writes_on l l'"
proof -
  have s: "writes_on l (my_send m (on_codec f l))" for m f
    by (rule writes_on_trans [OF on_codec_writes writes_on_write(3)])
  have "writes_on l k" if "upstream_auth_loop dg lib w auth tls n nonce rsa (my_send m (on_codec f l)) = (q, k)"
    for n nonce rsa m f q k
    using writes_on_trans [OF s] upstream_auth_loop_replies [OF that] by (auto simp: replies_ok_def)
  with assms show ?thesis by (auto simp: authenticate_upstream_def Let_def)
qed

lemma phase_terminate_writes:
  assumes "phase_terminate w tls auth h response seq c u = (r, c', u')"
  shows "legs_write (c, u) (c', u')"
proof -
  have w: "writes_on c (welcome_client auth s c)" for s
    by (simp add: welcome_client_def writes_on_trans [OF writes_on_write(3) writes_on_write(3)])
  have "writes_on u k" if "authenticate_upstream dg lib ws auth h caps db cs mps sq tls (on_codec f u) = (q, k)"
    for dg lib ws caps db cs mps sq f q k
    by (rule writes_on_trans [OF on_codec_writes authenticate_upstream_writes [OF that]])
  with assms w show ?thesis
    by (auto simp: phase_terminate_def Let_def legs_write_def split: result.splits prod.splits)
qed

lemma passthrough_round_writes:
  assumes "passthrough_round w k c u = (r, c', u')"
  shows "legs_write (c, u) (c', u')"
proof -
  obtain q u1 where n: "auth_next w ''the upstream auth response'' k u = (q, u1)" by fastforce
  note u1 = auth_next_writes [OF n]
  have u2: "writes_on u (my_send m u1)" for m by (rule writes_on_trans [OF u1 writes_on_write(3)])
  have c2: "writes_on c c1" if "auth_next w ''the client auth response'' k (my_send m c) = (q2, c1)" for m q2 c1
    by (rule writes_on_trans [OF writes_on_write(3) auth_next_writes [OF that]])
  from assms n u1 u2 show ?thesis
    by (cases q) (auto simp: passthrough_round_def Let_def intro!: legs_writeI dest: c2
        split: result.splits option.splits my_msg.splits prod.splits if_splits)
qed

lemma passthrough_loop_writes:
  "passthrough_loop w k c u = (r, c', u') \<Longrightarrow> legs_write (c, u) (c', u')"
proof (induction w k c u arbitrary: r c' u' rule: passthrough_loop.induct)
  case (1 w k c u)
  note loop = "1.prems" [unfolded passthrough_loop.simps [of w k c u], unfolded Let_def]
  obtain q c1 u1 where n: "passthrough_round w (k + 1) c u = (q, c1, u1)" by (metis prod_cases3)
  note step = passthrough_round_writes [OF n]
  show ?case
  proof (cases "MAX_AUTH_ROUNDS < k + 1 \<or> q \<noteq> None")
    case True
    with loop n step show ?thesis by (cases "MAX_AUTH_ROUNDS < k + 1") auto
  next
    case False
    with loop n have "passthrough_loop w (k + 1) c1 u1 = (r, c', u')" by simp
    with False "1.IH" [OF refl _ n [symmetric] _ refl this] step show ?thesis
      by (blast intro: legs_write_trans)
  qed
qed

lemma phase_passthrough_writes:
  assumes "phase_passthrough w tls response c u = (r, c', u')"
  shows "legs_write (c, u) (c', u')"
proof -
  let ?u = "my_send (generic (if tls then 2 else 1) (hr_raw response))
         (on_codec (set_capability_flags (hr_capability_flags response)) u)"
  have "legs_write (c, u) (c, ?u)"
    by (intro legs_writeI writes_on_refl(1) writes_on_trans [OF on_codec_writes writes_on_write(3)])
  moreover have "legs_write (c, ?u) (c', u')"
    using assms unfolding phase_passthrough_def by (rule passthrough_loop_writes)
  ultimately show ?thesis by (rule legs_write_trans)
qed

section \<open>The command phase\<close>

definition session_legs :: "my_session \<Rightarrow> my_leg \<times> my_leg" where
  "session_legs ses = (mq_client ses, mq_upstream ses)"

lemma my_client_msg_writes: "legs_write (session_legs ses) (session_legs (my_client_msg st m ses))"
  by (cases m) (auto simp: my_client_msg_def session_legs_def
      intro!: legs_writeI writes_on_trans [OF on_codec_writes writes_on_write(3)])

lemma my_upstream_msg_writes: "legs_write (session_legs ses) (session_legs (my_upstream_msg cr sc st m ses))"
  by (cases m) (auto simp: my_upstream_msg_def Let_def session_legs_def intro!: legs_writeI split: prod.split)

lemma my_turn_writes:
  assumes "my_turn cr sc t ses = (q, ses')"
  shows "legs_write (session_legs ses) (session_legs ses')"
proof (cases t)
  case (Client_Ready st)
  obtain r l where n: "leg_next my_decode (mq_client ses) = (r, l)" by fastforce
  let ?b = "ses\<lparr>mq_client := l\<rparr>"
  have b: "legs_write (session_legs ses) (session_legs ?b)"
    using my.leg_next_writes [OF n] by (simp add: session_legs_def legs_write_def)
  with legs_write_trans [OF b my_client_msg_writes [of _ st]] assms Client_Ready n show ?thesis
    by (auto simp: my_turn_def Let_def split: result.splits option.splits)
next
  case (Upstream_Ready st)
  obtain r l where n: "leg_next my_decode (mq_upstream ses) = (r, l)" by fastforce
  let ?b = "ses\<lparr>mq_upstream := l\<rparr>"
  have b: "legs_write (session_legs ses) (session_legs ?b)"
    using my.leg_next_writes [OF n] by (simp add: session_legs_def legs_write_def)
  with legs_write_trans [OF b my_upstream_msg_writes [of _ cr sc st]] assms Upstream_Ready n show ?thesis
    by (auto simp: my_turn_def Let_def split: result.splits option.splits)
qed (use assms in \<open>auto simp: my_turn_def session_legs_def legs_write_def\<close>)

lemma my_run_writes: "my_run cr sc ts ses = (q, ses') \<Longrightarrow> legs_write (session_legs ses) (session_legs ses')"
  by (rule my_loop.run_preserves [where R = "\<lambda>a b. legs_write (session_legs a) (session_legs b)",
        OF _ my_turn_writes legs_write_refl legs_write_trans])

section \<open>The connection\<close>

text \<open>From the login on, what follows the upstream's upgrade.\<close>

lemma login_and_commands_writes:
  assumes "login_and_commands cr sc w host s h response seq c u ts = (r, c', u', s')"
    and "phase_upstream_tls w (cf_upstream_tls (as_config s)) host h response u = (q, u1)"
  shows "legs_write (c, u1) (c', u') \<and> (q \<noteq> Ok () \<longrightarrow> u' = u1)"
proof (cases q)
  case (Ok x)
  let ?c = "on_codec (set_capability_flags (hr_capability_flags response)) c"
  define login where "login = (case mw_terminating_auth w of
       Some auth \<Rightarrow> phase_terminate w (cf_upstream_tls (as_config s)) auth h response seq ?c u1
     | None \<Rightarrow> phase_passthrough w (cf_upstream_tls (as_config s)) response ?c u1)"
  obtain p c2 u2 where p: "login = (p, c2, u2)" by (metis prod_cases3)
  then have "legs_write (?c, u1) (c2, u2)"
    unfolding login_def by (auto split: option.splits dest: phase_terminate_writes phase_passthrough_writes)
  then have l: "legs_write (c, u1) (c2, u2)"
    by (rule legs_write_trans [OF legs_writeI [OF on_codec_writes writes_on_refl(1)]])
  have "legs_write (c2, u2) (c', u')"
  proof (cases "\<exists>x. p = Ok (Some x)")
    case True
    let ?ses = "\<lparr>mq_client = on_codec set_command_state c2, mq_upstream = on_codec set_command_state u2, mq_state = s,
       mq_connection_id = mw_connection_id w, mq_interceptor = my_anonymizer_new (mw_connection_id w), mq_query_started_at = None\<rparr>"
    from True obtain ses where "my_run cr sc ts ?ses = (r, ses)" "(c', u') = session_legs ses"
      using assms Ok p by (auto simp: login_and_commands_def login_def [symmetric] Let_def session_legs_def split: prod.splits)
    with my_run_writes [of cr sc ts ?ses r ses]
    have "legs_write (on_codec set_command_state c2, on_codec set_command_state u2) (c', u')"
      by (simp add: session_legs_def)
    then show ?thesis by (rule legs_write_trans [OF legs_writeI [OF on_codec_writes on_codec_writes]])
  next
    case False
    with assms Ok p have "c' = c2 \<and> u' = u2"
      by (auto simp: login_and_commands_def login_def [symmetric] Let_def split: result.splits option.splits)
    then show ?thesis by simp
  qed
  with legs_write_trans [OF l] Ok show ?thesis by simp
qed (use assms in \<open>auto simp: login_and_commands_def Let_def\<close>)

lemma phase_upstream_tls_writes:
  assumes "phase_upstream_tls w True host h response u = (q, u1)"
  shows "lg_out u1 = lg_out u \<and> lg_tls u1 = lg_tls u \<and> q \<noteq> Ok ()
     \<or> (\<exists>bs. lg_out u1 = lg_out u @ [(lg_tls u, Msg (MGeneric (build_ssl_request (hr_capability_flags response)
          (hr_max_packet_size response) (hr_character_set response))) bs)] \<and> (q = Ok () \<longrightarrow> lg_tls u1))"
  using assms
  by (auto simp: phase_upstream_tls_def my_send_def write_sent_def Let_def split: if_splits result.splits prod.splits)

section \<open>Before the login\<close>

definition greeting_only :: "my_leg \<Rightarrow> bool" where
  "greeting_only c \<longleftrightarrow> (\<forall>(tls, wr) \<in> set (lg_out c). \<not> tls \<and> (\<exists>h bs. wr = Msg (MHandshake h) bs))"

lemma greeting_writes:
  "greeting_only c \<Longrightarrow> writes_on c c' \<Longrightarrow> lg_tls c' \<Longrightarrow> (tls, wr) \<in> set (lg_out c') \<Longrightarrow>
   tls \<or> (\<exists>h bs. wr = Msg (MHandshake h) bs)"
  by (fastforce simp: greeting_only_def writes_on_def)

lemma phase_handshake_greets:
  assumes "phase_handshake w c u = (q, c', u')" "lg_out c = []" "\<not> lg_tls c" "lg_out u = []"
  shows "greeting_only c' \<and> \<not> lg_tls c' \<and> lg_out u' = []"
proof -
  obtain p k where n: "leg_next my_decode u = (p, k)" by fastforce
  with assms my.leg_next_frame [OF n] show ?thesis
    by (auto simp: phase_handshake_def greeting_only_def my_send_def write_sent_def on_codec_def
        split: result.splits option.splits my_msg.splits prod.splits)
qed

lemma phase_handshake_upstream_leg:
  "phase_handshake w c u = (r, c', u') \<Longrightarrow> lg_out u' = lg_out u \<and> lg_tls u' = lg_tls u"
  by (auto simp: phase_handshake_def dest!: my.leg_next_frame
      split: prod.splits result.splits option.splits my_msg.splits)

lemma read_response_frame: "read_response w what other c = (q, c') \<Longrightarrow> lg_out c' = lg_out c \<and> lg_tls c' = lg_tls c"
  by (auto simp: read_response_def dest!: auth_next_frame split: result.splits option.splits my_msg.splits prod.splits)

lemma upgrade_client_frame: "upgrade_client w caps c = Ok c' \<Longrightarrow> lg_out c' = lg_out c \<and> lg_tls c'"
  by (auto simp: upgrade_client_def rbind_eq_Ok_iff split: option.splits)

lemma phase_response_frame:
  assumes "phase_response w c = (q, c')"
  shows "lg_out c' = lg_out c"
proof -
  obtain p k where n: "read_response w ''the client handshake response''
    ''Protocol error: expected handshake response'' c = (p, k)" by fastforce
  from assms n read_response_frame [OF n] show ?thesis
    by (auto simp: phase_response_def dest!: upgrade_client_frame read_response_frame
        split: result.splits option.splits if_splits prod.splits)
qed

text \<open>The client's first message asks for TLS.\<close>

definition asked_for_tls :: "my_world \<Rightarrow> my_leg \<Rightarrow> my_leg \<Rightarrow> bool" where
  "asked_for_tls w c0 u0 \<longleftrightarrow> (\<exists>h nonce c1 u1 request c2.
     phase_handshake w c0 u0 = (Ok (Some (h, nonce)), c1, u1)
     \<and> read_response w ''the client handshake response'' ''Protocol error: expected handshake response'' c1
         = (Ok (Some request), c2)
     \<and> is_ssl_request request)"

lemma phase_response_upgrades:
  assumes "read_response w ''the client handshake response'' ''Protocol error: expected handshake response'' c = (Ok (Some req), c1)"
    "is_ssl_request req" "phase_response w c = (Ok (Some x), c')"
  shows "lg_tls c'"
  using assms
  by (auto simp: phase_response_def dest!: upgrade_client_frame read_response_frame split: result.splits prod.splits)

text \<open>Where a session can have got to when it ends.\<close>

lemma handle_mysql_cases:
  assumes "handle_mysql_protocol cr sc w host s cin uin ts = (r, c, u, s')"
    "phase_handshake w (new_leg new_server cin False) (new_leg new_client uin False) = (q1, c1, u1)"
    "phase_response w c1 = (q2, c2)"
  obtains (unread) "\<forall>x. q1 \<noteq> Ok (Some x)" "c = c1" "u = u1"
    | (unanswered) "\<forall>x. q2 \<noteq> Ok (Some x)" "c = c2" "u = u1"
    | (refused) h nonce resp tls q3 calls where "q1 = Ok (Some (h, nonce))" "q2 = Ok (Some (resp, tls))"
        "phase_client_auth w resp nonce tls c2 = (q3, c, calls)" "u = u1"
    | (login) h nonce resp tls c3 seq calls where "q1 = Ok (Some (h, nonce))" "q2 = Ok (Some (resp, tls))"
        "phase_client_auth w resp nonce tls c2 = (Ok (Some seq), c3, calls)"
        "login_and_commands cr sc w host (metered calls s) h resp seq c3 u1 ts = (r, c, u, s')"
  using assms
  by (auto simp: handle_mysql_protocol_def Let_def split: result.splits option.splits prod.splits)

section \<open>The login without commands\<close>

text \<open>Every one of the new writes is a message.\<close>

lemma all_messages:
  "length (sent_messages ws) = length ws \<Longrightarrow> (tls, wr) \<in> set ws \<Longrightarrow> \<exists>m bs. wr = Msg m bs \<and> m \<in> set (sent_messages ws)"
proof (induction ws rule: sent_messages.induct)
  case (3 t bs ws)
  have "length (sent_messages ws) \<le> length ws" by (induction ws rule: sent_messages.induct) auto
  with 3 show ?case by simp
qed auto

text \<open>A packet of the login to the server, on a leg that is under TLS or is not: the request for TLS, the
  handshake response with a scramble of the password, or a permitted reply.\<close>

definition login_packet :: "my_world \<Rightarrow> terminating_auth \<Rightarrow> bool \<Rightarrow> my_msg \<Rightarrow> bool" where
  "login_packet w auth tls m \<longleftrightarrow>
     (\<not> tls \<and> (\<exists>caps max_packet charset. m = MGeneric (build_ssl_request caps max_packet charset)))
     \<or> (\<exists>seq plugin nonce caps db cs mps. m = generic seq (build_handshake_response_payload
          (upstream_handshake_response (mw_digests w) auth plugin nonce caps db cs mps)))
     \<or> (\<exists>seq p. m = generic seq p \<and> permitted_reply (mw_digests w) (mw_rsa w) auth tls p)"

lemma login_packets:
  "login_packet w auth False (MGeneric (build_ssl_request caps max_packet charset))"
  "login_packet w auth tls (generic seq (build_handshake_response_payload
     (upstream_handshake_response (mw_digests w) auth plugin nonce caps db cs mps)))"
  "permitted_reply (mw_digests w) (mw_rsa w) auth tls p \<Longrightarrow> login_packet w auth tls (generic seq p)"
  unfolding login_packet_def by blast+

definition login_writes :: "my_world \<Rightarrow> terminating_auth \<Rightarrow> my_leg \<Rightarrow> bool" where
  "login_writes w auth u \<longleftrightarrow> (\<forall>(tls, wr) \<in> set (lg_out u). \<exists>m bs. wr = Msg m bs \<and> login_packet w auth tls m)"

lemma authenticate_upstream_login:
  assumes "authenticate_upstream (mw_digests w) (mw_rsa w) ws auth h caps db cs mps seq (lg_tls l) l = (r, l')"
    "login_writes w auth l"
  shows "login_writes w auth l'"
proof -
  obtain plugin rs where P: "sent_messages (lg_out l') = sent_messages (lg_out l)
       @ generic seq (build_handshake_response_payload (upstream_handshake_response (mw_digests w) auth plugin
           (nonce_from_handshake (hs_auth_plugin_data_part1 h) (hs_auth_plugin_data_part2 h)) caps db cs mps))
       # map (\<lambda>(seq, p). generic seq p) rs"
    "\<forall>(seq, p) \<in> set rs. permitted_reply (mw_digests w) (mw_rsa w) auth (lg_tls l) p"
    "length (lg_out l') = length (lg_out l) + Suc (length rs)" "writes_on l l'"
    using authenticate_upstream_packets [OF assms(1)] by blast
  obtain new where new: "lg_out l' = lg_out l @ new" "\<forall>(tls, wr) \<in> set new. tls = lg_tls l"
    using P(4) by (auto simp: writes_on_def)
  have m: "length (sent_messages new) = length new" "\<forall>m \<in> set (sent_messages new). login_packet w auth (lg_tls l) m"
    using P(1-3) new(1) by (auto intro: login_packets)
  have "\<exists>m bs. wr = Msg m bs \<and> login_packet w auth tls m" if "(tls, wr) \<in> set new" for tls wr
    using all_messages [OF m(1) that] m(2) new(2) that by fastforce
  with assms(2) new(1) show ?thesis by (auto simp: login_writes_def)
qed

lemma phase_upstream_tls_login:
  assumes "phase_upstream_tls w required host h response u = (q, u1)" "lg_out u = []" "\<not> lg_tls u"
  shows "login_writes w auth u1 \<and> length (lg_out u1) \<le> 1 \<and> (q = Ok () \<longrightarrow> lg_tls u1 = required)"
proof (cases required)
  case True
  with phase_upstream_tls_writes [of w host h response u q u1] assms show ?thesis
    by (auto simp: login_writes_def intro: login_packets)
next
  case False
  with assms show ?thesis by (simp add: phase_upstream_tls_def login_writes_def)
qed

lemma phase_terminate_login:
  assumes "phase_terminate w (lg_tls u) auth h response seq c u = (r, c', u')"
  shows "(login_writes w auth u \<longrightarrow> login_writes w auth u') \<and> length (lg_out u') \<le> length (lg_out u) + 21
    \<and> length (lg_out c') \<le> length (lg_out c) + 2"
proof -
  let ?u = "on_codec (set_capability_flags (negotiate_upstream_capabilities (hr_capability_flags response)
     (hs_capability_flags h) (upstream_database auth response \<noteq> None) (lg_tls u))) u"
  obtain q k where a: "authenticate_upstream (mw_digests w) (mw_rsa w) (mw_waits w) auth h
      (negotiate_upstream_capabilities (hr_capability_flags response) (hs_capability_flags h)
        (upstream_database auth response \<noteq> None) (lg_tls u)) (upstream_database auth response)
      (hr_character_set response) (hr_max_packet_size response) (if lg_tls u then 2 else 1) (lg_tls u) ?u = (q, k)"
    by fastforce
  have "u' = k" using assms a by (auto simp: phase_terminate_def Let_def split: result.splits)
  moreover have "login_writes w auth u \<longrightarrow> login_writes w auth k"
    using authenticate_upstream_login [of w "mw_waits w" auth h _ _ _ _ _ ?u q k] a by (simp add: login_writes_def)
  moreover have "length (lg_out k) \<le> length (lg_out u) + 21"
    using authenticate_upstream_packets [OF a] by auto
  moreover have "length (lg_out c') \<le> length (lg_out c) + 2"
    using assms a by (auto simp: phase_terminate_def welcome_client_def Let_def split: result.splits)
  ultimately show ?thesis by simp
qed

lemma phase_passthrough_bound:
  assumes "phase_passthrough w tls response c u = (r, c', u')"
  shows "length (lg_out c') \<le> length (lg_out c) + 20 \<and> length (lg_out u') \<le> length (lg_out u) + 21"
  using passthrough_loop_bound [OF assms [unfolded phase_passthrough_def]] by (simp add: MAX_AUTH_ROUNDS_def)

lemma login_without_commands:
  assumes "login_and_commands cr sc w host s h response seq c u [] = (r, c', u', s')" "lg_out u = []" "\<not> lg_tls u"
  shows "(mw_terminating_auth w = Some auth \<longrightarrow> login_writes w auth u') \<and> length (lg_out u') \<le> 22
    \<and> length (lg_out c') \<le> length (lg_out c) + (if mw_terminating_auth w = None then 20 else 2)"
proof -
  obtain q u1 where 1: "phase_upstream_tls w (cf_upstream_tls (as_config s)) host h response u = (q, u1)" by fastforce
  note U = phase_upstream_tls_login [OF 1 assms(2,3), of auth]
  show ?thesis
  proof (cases q)
    case (Ok x)
    then have tls: "lg_tls u1 = cf_upstream_tls (as_config s)" using U by simp
    let ?c = "on_codec (set_capability_flags (hr_capability_flags response)) c"
    show ?thesis
    proof (cases "mw_terminating_auth w")
      case None
      obtain p c2 u2 where p: "phase_passthrough w (cf_upstream_tls (as_config s)) response ?c u1 = (p, c2, u2)" by (metis prod_cases3)
      have "lg_out c' = lg_out c2 \<and> lg_out u' = lg_out u2"
        using assms(1) 1 Ok None p by (auto simp: login_and_commands_def Let_def split: result.splits option.splits)
      moreover have "length (lg_out u1) \<le> 1" using U by blast
      ultimately show ?thesis using phase_passthrough_bound [OF p] None by simp
    next
      case (Some auth')
      obtain p c2 u2 where p: "phase_terminate w (lg_tls u1) auth' h response seq ?c u1 = (p, c2, u2)" by (metis prod_cases3)
      have "lg_out c' = lg_out c2 \<and> lg_out u' = lg_out u2"
        using assms(1) 1 Ok Some p [unfolded tls] by (auto simp: login_and_commands_def Let_def split: result.splits option.splits)
      with phase_terminate_login [OF p] U Some show ?thesis
        by (auto simp: login_writes_def)
    qed
  next
    case (Err e)
    with assms(1) 1 U show ?thesis by (auto simp: login_and_commands_def Let_def)
  next
    case Panic
    with assms(1) 1 U show ?thesis by (auto simp: login_and_commands_def Let_def)
  qed
qed

text \<open>The commands come behind the login.\<close>

lemma commands_follow:
  assumes "login_and_commands cr sc w host s h response seq c u [] = (r, c1, u1, s1)"
    "login_and_commands cr sc w host s h response seq c u ts = (r', c2, u2, s2)"
  shows "\<exists>cmds. lg_out u2 = lg_out u1 @ cmds"
proof -
  have run: "\<exists>cmds. lg_out (mq_upstream ses') = lg_out (mq_upstream ses) @ cmds"
    if "my_run cr sc ts ses = (q, ses')" for q ses ses'
    using my_run_writes [OF that] by (auto simp: legs_write_def session_legs_def writes_on_def)
  show ?thesis
    using assms
    by (auto simp: login_and_commands_def Let_def split: result.splits prod.splits option.splits dest!: run)
qed

lemma handle_commands_follow:
  assumes "handle_mysql_protocol cr sc w host s cin uin [] = (r, c, u, s')"
    "handle_mysql_protocol cr sc w host s cin uin ts = (r', c', u', s'')"
  shows "\<exists>cmds. lg_out u' = lg_out u @ cmds"
  using assms
  by (auto simp: handle_mysql_protocol_def Let_def split: result.splits prod.splits option.splits dest: commands_follow)

lemma client_scramble_bound:
  "client_scramble w auth response nonce seq l = (r, l') \<Longrightarrow> length (lg_out l') \<le> Suc (length (lg_out l))"
  by (auto simp: client_scramble_def Let_def dest!: my.leg_next_frame
      split: if_splits result.splits prod.splits option.splits my_msg.splits)

lemma phase_client_auth_bound:
  assumes "phase_client_auth w response nonce tls c = (q, c', calls)"
  shows "length (lg_out c') \<le> length (lg_out c) + (if mw_terminating_auth w = None then 0 else if \<exists>x. q = Ok (Some x) then 1 else 2)"
proof -
  have "length (lg_out l') \<le> length (lg_out l) + (if \<exists>x. r = Ok (Some x) then 1 else 2)"
    if "authenticate_client dg ws auth response n seq l = (r, l', cs)" for dg ws auth n seq l r l' cs
  proof -
    obtain q k where k: "client_scramble ws auth response n seq l = (q, k)" by fastforce
    from client_scramble_bound [OF k] that k show ?thesis
      by (auto simp: authenticate_client_def Let_def split: result.splits option.splits prod.splits if_splits)
  qed
  with assms show ?thesis
    by (fastforce simp: phase_client_auth_def Let_def split: option.splits result.splits prod.splits)
qed

section \<open>Properties\<close>

text \<open>C8: The upstream password leaves the proxy only as the login needs it. Whatever client and server do,
  every packet a connection with \<open>auth.mode: terminate\<close> writes to the server before the command phase
  is the request for TLS, the proxy's handshake response with a scramble of the password, or a reply: a
  scramble under a nonce, or the password in full, in clear only when that packet itself is written
  under TLS, and otherwise encrypted under the pinned key. What later turns write comes behind it.\<close>

theorem upstream_password_confined:
  assumes auth: "mw_terminating_auth w = Some auth"
    and h: "handle_mysql_protocol cr sc w host s cin uin [] = (r, c, u, s')"
    and ts: "handle_mysql_protocol cr sc w host s cin uin ts = (r', c', u', s'')"
  shows "(\<forall>(tls, wr) \<in> set (lg_out u). \<exists>m bs. wr = Msg m bs \<and> login_packet w auth tls m)
     \<and> (\<exists>cmds. lg_out u' = lg_out u @ cmds)"
proof -
  obtain q1 c1 u1 where 1: "phase_handshake w (new_leg new_server cin False) (new_leg new_client uin False) = (q1, c1, u1)"
    by (metis prod_cases3)
  obtain q2 c2 where 2: "phase_response w c1 = (q2, c2)" by fastforce
  have u1: "lg_out u1 = []" "\<not> lg_tls u1"
    using phase_handshake_upstream_leg [OF 1] by (simp_all add: new_leg_def)
  have "login_writes w auth u"
  proof (rule handle_mysql_cases [OF h 1 2])
    fix h nonce resp tls c3 seq calls
    assume "login_and_commands cr sc w host (metered calls s) h resp seq c3 u1 [] = (r, c, u, s')"
    from login_without_commands [OF this u1] auth show "login_writes w auth u" by blast
  qed (simp_all add: login_writes_def u1)
  with handle_commands_follow [OF h ts] show ?thesis unfolding login_writes_def by blast
qed

text \<open>A client that proved itself, and a server that asks for the password in full on a leg without TLS:
  nothing follows the handshake response.\<close>

theorem upstream_password_confined_witness:
  "\<exists>scr r c u s'. handle_mysql_protocol test_crates test_scanner (demo_world (Some demo_auth)) ''db'' (test_state [] True)
       [packet 1 (demo_response scr)] [packet 0 demo_handshake @ packet 2 [1, 4]] [] = (r, c, u, s')
     \<and> length (lg_out u) = 1
     \<and> (\<forall>(tls, wr) \<in> set (lg_out u). \<exists>m bs. wr = Msg m bs \<and> login_packet (demo_world (Some demo_auth)) demo_auth tls m)"
proof -
  let ?w = "demo_world (Some demo_auth)" and ?s = "test_state [] True"
  define scr where "scr = scramble test_digests MysqlNativePassword ''pw'' (replicate 20 5)"
  let ?r = "(demo_client scr)\<lparr>hr_raw := demo_response scr\<rparr>"
  have n: "snd (client_handshake ?w demo_server) = Some (replicate 20 5)"
    by (simp add: client_handshake_def Let_def demo_world_def generate_nonce_def NONCE_LEN_def map_replicate_const)
  have "length scr = 20" unfolding scr_def by code_simp
  then have l: "length scr < 256" by simp
  have v: "verify_scramble test_digests MysqlNativePassword ''pw'' (replicate 20 5) scr"
    unfolding scr_def by (rule verify_scramble_accepts [OF test_digests_ok])
  obtain c1 u1 c2 where p: "phase_handshake ?w (new_leg new_server [packet 1 (demo_response scr)] False)
       (new_leg new_client [packet 0 demo_handshake @ packet 2 [1, 4]] False) = (Ok (Some (demo_server, Some (replicate 20 5))), c1, u1)"
    "phase_response ?w c1 = (Ok (Some (?r, False)), c2)" "lg_out u1 = []" "lg_buf u1 = packet 2 [1, 4]" "lg_in u1 = []"
    "lg_codec u1 = new_client\<lparr>mc_state := WaitingHandshakeResponse, mc_capability_flags := hs_capability_flags demo_server\<rparr>"
    using demo_phases [OF l, of "Some demo_auth" "[]" "packet 2 [1, 4]", unfolded n append_Nil2] by metis
  have t: "mw_terminating_auth ?w = Some demo_auth" "mw_digests ?w = test_digests" by (simp_all add: demo_world_def)
  have a: "ta_client_username demo_auth = ''app''" "ta_client_password demo_auth = ''pw''"
    "ta_client_plugin demo_auth = MysqlNativePassword" by (simp_all add: demo_auth_def)
  have r: "hr_username (demo_client s) = ''app''" "hr_auth_response (demo_client s) = s"
    "hr_auth_plugin_name (demo_client s) = Some ''mysql_native_password''" for s by (simp_all add: demo_client_def)
  obtain c3 calls seq where "phase_client_auth ?w ?r (Some (replicate 20 5)) False c2 = (Ok (Some seq), c3, calls)"
    using v by (simp add: phase_client_auth_def t authenticate_client_def client_scramble_def Let_def a r)
  then have handle: "handle_mysql_protocol test_crates test_scanner ?w ''db'' ?s
       [packet 1 (demo_response scr)] [packet 0 demo_handshake @ packet 2 [1, 4]] []
     = login_and_commands test_crates test_scanner ?w ''db'' (metered calls ?s) demo_server ?r seq c3 u1 []"
    using p(1,2) by (simp add: handle_mysql_protocol_def)
  obtain r c u s' where h: "handle_mysql_protocol test_crates test_scanner ?w ''db'' ?s
       [packet 1 (demo_response scr)] [packet 0 demo_handshake @ packet 2 [1, 4]] [] = (r, c, u, s')" by (metis prod_cases4)
  have plain: "\<not> cf_upstream_tls (as_config ?s)" by (simp add: test_state_def app_state_new_def default_app_config_def)
  define k where "k m f = my_send (MGeneric m) (on_codec set_auth_response_state (on_codec (set_capability_flags f) u1))" for m f
  have next1: "leg_next my_decode (k m f) = (Ok (Some (generic 2 [1, 4])), (k m f)\<lparr>lg_buf := [], lg_in := []\<rparr>)" for m f
  proof -
    have d: "my_decode (lg_codec (k m f)) (packet 2 [1, 4]) = (Ok (Some (generic 2 [1, 4])), lg_codec (k m f), [])"
      using my_decode_frame [of "[1, 4]" "lg_codec (k m f)" 2 "[]"]
      by (simp add: k_def p(6) packet_def new_client_def set_auth_response_state_def set_capability_flags_def on_codec_def
          dispatch_def dispatch_auth_response_def deliver_def)
    then show ?thesis by (simp add: leg_next_def k_def p(4,5) split: prod.split)
  qed
  have g: "answer_auth_packet test_digests lib demo_auth False nn sr [1, 4] = Give_Up e" if
    "e = Bail (''upstream requires full authentication for user '' @ ta_upstream_username demo_auth
          @ '' but upstream_tls is false and no RSA key is pinned'') []" for lib nn sr e
    using that by (simp add: answer_auth_packet_def parse_auth_switch_request_def classify_auth_more_data_def full_auth_reply_def
        AUTH_MORE_DATA_FAST_AUTH_SUCCESS_def AUTH_MORE_DATA_FULL_AUTH_REQUIRED_def demo_auth_def)
  have w: "mw_waits ?w x y = Done" for x y by (simp add: demo_world_def)
  have "length (lg_out u) = 1"
    using h handle plain p(3)
    by (auto simp: login_and_commands_def phase_upstream_tls_def t phase_terminate_def authenticate_upstream_def Let_def
        upstream_auth_loop.simps [of _ _ _ _ _ 0] MAX_AUTH_ROUNDS_def auth_step_def w k_def [symmetric] next1 g)
       (simp_all add: k_def)
  with upstream_password_confined [OF t(1) h h] h show ?thesis by blast
qed

text \<open>C36: A login writes few packets, whatever the peers keep sending. Up to the command phase a connection
  has written at most 22 packets to the server in either mode (the request for TLS, the handshake
  response, and one packet for each of 20 rounds); to the client at most 21 when the login is relayed
  (the greeting, and one packet for each of 20 rounds), and at most 4 when the proxy terminates it.\<close>

theorem login_rounds_bounded:
  assumes "handle_mysql_protocol cr sc w host s cin uin [] = (r, c, u, s')"
  shows "length (lg_out u) \<le> 22 \<and> length (lg_out c) \<le> (if mw_terminating_auth w = None then 21 else 4)"
proof -
  let ?c0 = "new_leg new_server cin False" and ?u0 = "new_leg new_client uin False"
  obtain q1 c1 u1 where 1: "phase_handshake w ?c0 ?u0 = (q1, c1, u1)" by (metis prod_cases3)
  obtain q2 c2 where 2: "phase_response w c1 = (q2, c2)" by fastforce
  have u1: "lg_out u1 = []" "\<not> lg_tls u1"
    using phase_handshake_upstream_leg [OF 1] by (simp_all add: new_leg_def)
  have c1: "length (lg_out c1) \<le> 1"
    using 1 by (auto simp: phase_handshake_def new_leg_def split: result.splits option.splits my_msg.splits prod.splits)
  have c2: "length (lg_out c2) \<le> 1" using c1 phase_response_frame [OF 2] by simp
  show ?thesis
  proof (rule handle_mysql_cases [OF assms 1 2])
    fix h nonce resp tls q3 calls
    assume "phase_client_auth w resp nonce tls c2 = (q3, c, calls)" "u = u1"
    with phase_client_auth_bound [OF this(1)] c2 u1 show ?thesis by (auto split: if_splits)
  next
    fix h nonce resp tls c3 seq calls
    assume a: "phase_client_auth w resp nonce tls c2 = (Ok (Some seq), c3, calls)"
      and l: "login_and_commands cr sc w host (metered calls s) h resp seq c3 u1 [] = (r, c, u, s')"
    have "length (lg_out u) \<le> 22 \<and> length (lg_out c) \<le> length (lg_out c3) + (if mw_terminating_auth w = None then 20 else 2)"
      using login_without_commands [OF l u1] by blast
    with phase_client_auth_bound [OF a] c2 show ?thesis by (auto split: if_splits)
  qed (use c1 c2 u1 in auto)
qed

theorem login_rounds_bounded_witness:
  "\<exists>r c u s'. handle_mysql_protocol test_crates test_scanner (demo_world None) ''db'' (test_state [] True)
       [packet 1 (demo_response [])] [packet 0 demo_handshake] [] = (r, c, u, s')
     \<and> length (lg_out u) \<le> 22 \<and> length (lg_out c) \<le> 21"
proof -
  obtain r c u s' where h: "handle_mysql_protocol test_crates test_scanner (demo_world None) ''db'' (test_state [] True)
       [packet 1 (demo_response [])] [packet 0 demo_handshake] [] = (r, c, u, s')" by (metis prod_cases4)
  have "mw_terminating_auth (demo_world None) = None" by (simp add: demo_world_def)
  with login_rounds_bounded [OF h] h show ?thesis by auto
qed

text \<open>C16: TLS is not given up on MySQL either. When the configuration requires it upstream, nothing but the
  request for it is ever written to the server in clear, in whichever phase the session ends and in
  both modes of authentication. And when the client's first message asks for TLS, nothing but the
  greeting that preceded its request is ever written to it in clear, whether the upgrade succeeds or
  not: without an acceptor, or when its handshake fails, the session ends without another byte.\<close>

theorem mysql_tls_is_kept:
  assumes "handle_mysql_protocol cr sc w host s cin uin ts = (r, c, u, s')"
  shows "(cf_upstream_tls (as_config s) \<longrightarrow> (\<forall>(tls, wr) \<in> set (lg_out u).
       tls \<or> (\<exists>caps max_packet charset bs. wr = Msg (MGeneric (build_ssl_request caps max_packet charset)) bs)))
     \<and> (lg_tls c \<or> asked_for_tls w (new_leg new_server cin False) (new_leg new_client uin False) \<longrightarrow>
        (\<forall>(tls, wr) \<in> set (lg_out c). tls \<or> (\<exists>h bs. wr = Msg (MHandshake h) bs)))"
proof -
  let ?c0 = "new_leg new_server cin False" and ?u0 = "new_leg new_client uin False"
  obtain q1 c1 u1 where 1: "phase_handshake w ?c0 ?u0 = (q1, c1, u1)" by (metis prod_cases3)
  have g1: "greeting_only c1" "lg_out u1 = []"
    using phase_handshake_greets [OF 1] by (simp_all add: new_leg_def)
  obtain q2 c2 where 2: "phase_response w c1 = (q2, c2)" by fastforce
  have g2: "greeting_only c2" using g1(1) phase_response_frame [OF 2] by (simp add: greeting_only_def)
  have asked: "lg_tls c2" if "asked_for_tls w ?c0 ?u0" "q2 = Ok (Some x)" for x
    using that 1 2 phase_response_upgrades unfolding asked_for_tls_def by fastforce
  show ?thesis
  proof (rule handle_mysql_cases [OF assms 1 2])
    assume "c = c1" "u = u1"
    with g1 show ?thesis by (auto simp: greeting_only_def)
  next
    assume "c = c2" "u = u1"
    with g1 g2 show ?thesis by (auto simp: greeting_only_def)
  next
    fix h nonce resp tls q3 calls
    assume q2: "q2 = Ok (Some (resp, tls))" and a: "phase_client_auth w resp nonce tls c2 = (q3, c, calls)" and u: "u = u1"
    note wr = phase_client_auth_writes [OF a]
    with greeting_writes [OF g2 wr] asked [OF _ q2] g1(2) u show ?thesis by (auto simp: writes_on_def)
  next
    fix h nonce resp tls c3 seq calls
    assume q2: "q2 = Ok (Some (resp, tls))" and a: "phase_client_auth w resp nonce tls c2 = (Ok (Some seq), c3, calls)"
      and login: "login_and_commands cr sc w host (metered calls s) h resp seq c3 u1 ts = (r, c, u, s')"
    obtain q4 u2 where 4: "phase_upstream_tls w (cf_upstream_tls (as_config s)) host h resp u1 = (q4, u2)" by fastforce
    from login_and_commands_writes [OF login, simplified, OF 4] have l: "legs_write (c3, u2) (c, u)" "q4 \<noteq> Ok () \<Longrightarrow> u = u2" by auto
    have wc: "writes_on c2 c"
      using phase_client_auth_writes [OF a] l(1) by (auto simp: legs_write_def intro: writes_on_trans)
    have cl: "lg_tls c \<or> asked_for_tls w ?c0 ?u0 \<Longrightarrow> lg_tls c"
      using asked [OF _ q2] wc by (auto simp: writes_on_def)
    have "tls \<or> (\<exists>caps mp cs bs. wr = Msg (MGeneric (build_ssl_request caps mp cs)) bs)"
      if "cf_upstream_tls (as_config s)" "(tls, wr) \<in> set (lg_out u)" for tls wr
      using phase_upstream_tls_writes [OF 4 [unfolded that(1) [THEN eqTrueI]]] that(2) l g1(2)
      by (cases "q4 = Ok ()") (auto simp: legs_write_def writes_on_def, blast+)
    with greeting_writes [OF g2 wc] cl show ?thesis by blast
  qed
qed

text \<open>A client that asks for TLS.\<close>

definition demo_ssl :: "byte list" where
  "demo_ssl = gp_payload (build_ssl_request CLIENT_PROTOCOL_41 0x1000000 0x21)"

lemma demo_asks:
  "asked_for_tls (demo_world auth) (new_leg new_server [packet 1 demo_ssl] False) (new_leg new_client [packet 0 demo_handshake] False)"
proof -
  let ?c0 = "new_leg new_server [packet 1 demo_ssl] False :: my_leg"
  define u0 :: my_leg where "u0 = new_leg new_client [packet 0 demo_handshake] False"
  have "length demo_handshake < 0xffffff" by (simp add: demo_handshake_def handshake_bytes_def bytes_of_str_def)
  from leg_next_packet [OF this, of u0 0 "[]"] obtain u1 where u1: "leg_next my_decode u0 = (Ok (Some (MHandshake demo_server)), u1)"
    by (simp add: u0_def new_leg_def new_client_def dispatch_def dispatch_handshake_def parse_demo_handshake)
  obtain ch nonce where ch: "client_handshake (demo_world auth) demo_server = (ch, nonce)" by fastforce
  define c1 where "c1 = on_codec (set_capability_flags (hs_capability_flags demo_server)) (my_send (MHandshake ch) ?c0)"
  have 1: "phase_handshake (demo_world auth) ?c0 u0 = (Ok (Some (demo_server, nonce)), c1,
      on_codec (set_capability_flags (hs_capability_flags demo_server)) u1)"
    by (simp add: phase_handshake_def u1 ch c1_def)
  define r where "r = \<lparr>hr_capability_flags = CLIENT_PROTOCOL_41 OR CLIENT_SSL, hr_max_packet_size = 0x1000000,
     hr_character_set = 0x21, hr_username = [], hr_auth_response = [], hr_database = None,
     hr_auth_plugin_name = None, hr_raw = demo_ssl\<rparr>"
  have ssl: "has (CLIENT_PROTOCOL_41 OR CLIENT_SSL) CLIENT_SSL" "length demo_ssl = 32"
    by (simp_all add: has_def caps_defs demo_ssl_def build_ssl_request_def)
  have "parse_handshake_response demo_ssl = Ok r"
    using ssl by (simp add: parse_handshake_response_def r_def) (simp add: demo_ssl_def build_ssl_request_def advance_def)
  then obtain c2 where c2: "leg_next my_decode c1 = (Ok (Some (MHandshakeResponse r)), c2)"
    using leg_next_packet [of demo_ssl c1 1 "[]"] ssl(2)
    by (simp add: c1_def on_codec_def my_send_def new_leg_def new_server_def write_sent_def set_capability_flags_def
        dispatch_def dispatch_handshake_response_def)
  have "mw_waits (demo_world auth) x y = Done" for x y by (simp add: demo_world_def)
  with c2 have "read_response (demo_world auth) ''the client handshake response'' ''Protocol error: expected handshake response'' c1
      = (Ok (Some r), c2)"
    by (simp add: read_response_def auth_next_def auth_step_def)
  moreover have "is_ssl_request r" using ssl by (simp add: is_ssl_request_def r_def)
  ultimately show ?thesis using 1 unfolding asked_for_tls_def u0_def by blast
qed

text \<open>An upstream that requires TLS; and a client that asks for TLS where there is no acceptor.\<close>

theorem mysql_tls_is_kept_witness:
  "(\<exists>r c u s'. handle_mysql_protocol test_crates test_scanner (demo_world None) ''db'' (test_state [] True)
       [packet 1 demo_ssl] [packet 0 demo_handshake] [] = (r, c, u, s')
     \<and> (\<forall>(tls, wr) \<in> set (lg_out c). tls \<or> (\<exists>h bs. wr = Msg (MHandshake h) bs)))
   \<and> (\<exists>r c u s'. handle_mysql_protocol test_crates test_scanner (demo_world None) ''db''
       ((test_state [] True)\<lparr>as_config := (as_config (test_state [] True))\<lparr>cf_upstream_tls := True\<rparr>\<rparr>)
       [packet 1 (demo_response [])] [packet 0 demo_handshake] [] = (r, c, u, s')
     \<and> lg_out u \<noteq> [] \<and> lg_tls u
     \<and> (\<forall>(tls, wr) \<in> set (lg_out u). tls \<or> (\<exists>caps mp cs bs. wr = Msg (MGeneric (build_ssl_request caps mp cs)) bs)))"
proof -
  obtain ra ca ua sa where asks: "handle_mysql_protocol test_crates test_scanner (demo_world None) ''db'' (test_state [] True)
       [packet 1 demo_ssl] [packet 0 demo_handshake] [] = (ra, ca, ua, sa)" by (metis prod_cases4)
  have client: "\<forall>(tls, wr) \<in> set (lg_out ca). tls \<or> (\<exists>h bs. wr = Msg (MHandshake h) bs)"
    using mysql_tls_is_kept [OF asks] demo_asks by blast
  let ?s = "(test_state [] True)\<lparr>as_config := (as_config (test_state [] True))\<lparr>cf_upstream_tls := True\<rparr>\<rparr>"
  let ?w = "demo_world None" and ?r = "(demo_client [])\<lparr>hr_raw := demo_response []\<rparr>"
  have n: "snd (client_handshake ?w demo_server) = None" by (simp add: client_handshake_def Let_def demo_world_def)
  obtain c1 u1 c2 where p: "phase_handshake ?w (new_leg new_server [packet 1 (demo_response [])] False)
       (new_leg new_client [packet 0 demo_handshake] False) = (Ok (Some (demo_server, None)), c1, u1)"
    "phase_response ?w c1 = (Ok (Some (?r, False)), c2)" "lg_buf u1 = []"
    using demo_phases [of "[]" None "[]" "[]", unfolded n append_Nil2] by (metis list.size(3) zero_less_numeral)
  have a: "phase_client_auth ?w ?r None False c2 = (Ok (Some None), c2, [])"
    by (simp add: phase_client_auth_def demo_world_def)
  have t: "cf_upstream_tls (as_config ?s)" by simp
  obtain r c u s' where l: "login_and_commands test_crates test_scanner ?w ''db'' ?s demo_server ?r None c2 u1 [] = (r, c, u, s')"
    by (metis prod_cases4)
  with p a have h: "handle_mysql_protocol test_crates test_scanner ?w ''db'' ?s
      [packet 1 (demo_response [])] [packet 0 demo_handshake] [] = (r, c, u, s')"
    by (simp add: handle_mysql_protocol_def Let_def)
  obtain q4 u2 where 4: "phase_upstream_tls ?w True ''db'' demo_server ?r u1 = (q4, u2)" by fastforce
  have "hs_capability_flags demo_server AND CLIENT_SSL \<noteq> 0" by (simp add: demo_server_def caps_defs caps_of_def)
  then have "q4 = Ok () \<and> lg_out u2 \<noteq> [] \<and> lg_tls u2"
    using 4 p(3) by (auto simp: phase_upstream_tls_def demo_world_def my_send_def write_sent_def Let_def split: if_splits)
  moreover have "phase_upstream_tls ?w (cf_upstream_tls (as_config ?s)) ''db'' demo_server ?r u1 = (q4, u2)"
    using 4 t by simp
  note login_and_commands_writes [OF l this]
  ultimately have "lg_out u \<noteq> [] \<and> lg_tls u"
    by (auto simp: legs_write_def writes_on_def)
  with h conjunct1 [OF mysql_tls_is_kept [OF h], rule_format, OF t] asks client show ?thesis by blast
qed

end
