(* ===== verification/Pg_Session.thy ===== *)
theory Pg_Session
  imports Session_Util Interceptor
begin

text \<open>
  A PostgreSQL connection, from \<^verbatim>\<open>process_postgres_connection\<close> to the loop of
  \<^verbatim>\<open>handle_postgres_protocol_inner\<close> in \<^verbatim>\<open>src/src/main.rs\<close>. The loop is a \<^verbatim>\<open>select!\<close>: which leg is
  read next, an idle timeout, a shutdown, and the changes other tasks make to the shared state
  are the \<open>turn\<close>s of a run. TLS, connecting and the pool of upstream slots are arguments.
\<close>

section \<open>State\<close>

record pg_session =
  ps_client :: pg_leg
  ps_upstream :: pg_leg
  ps_state :: app_state
  ps_connection_id :: nat
  ps_interceptor :: anonymizer
  ps_oid_bootstrap_done :: bool
  ps_query_started_at :: "nat option"

section \<open>Client to upstream\<close>

fun pg_client_msg :: "stamp \<Rightarrow> pg_msg \<Rightarrow> pg_session \<Rightarrow> pg_session" where
  "pg_client_msg st PSSLRequest ses = ses\<lparr>ps_client := write_sent (Raw [0x4E]) (ps_client ses)\<rparr>"
| "pg_client_msg st (PQuery q) ses =
     ses\<lparr>ps_state := log_statement st (ps_connection_id ses) ''Query'' (pq_query q) False (ps_state ses),
         ps_query_started_at := Some (snd st),
         ps_interceptor := reset_columns (ps_interceptor ses),
         ps_upstream := pg_send (PQuery q) (ps_upstream ses)\<rparr>"
| "pg_client_msg st (PParse p) ses =
     ses\<lparr>ps_state := log_statement st (ps_connection_id ses) ''Parse'' (pp_query p) False (ps_state ses),
         ps_query_started_at := Some (snd st),
         ps_interceptor := reset_columns (ps_interceptor ses),
         ps_upstream := pg_send (PParse p) (ps_upstream ses)\<rparr>"
| "pg_client_msg st m ses = ses\<lparr>ps_upstream := pg_send m (ps_upstream ses)\<rparr>"

section \<open>The table map\<close>

definition decode_postgres_data_row_text_value :: "data_row \<Rightarrow> nat \<Rightarrow> string option" where
  "decode_postgres_data_row_text_value row index =
     (if index < length (dr_values row) then
        (case dr_values row ! index of
           Some bytes \<Rightarrow> map_option trim (from_utf8 bytes)
         | None \<Rightarrow> None)
      else None)"

text \<open>\<^verbatim>\<open>parse::<u32>\<close> and \<^verbatim>\<open>parse::<i16>\<close>; only a signed number may start with a minus sign.\<close>

definition parse_u32 :: "string \<Rightarrow> u32 option" where
  "parse_u32 s = (case parse_nat s of
     Some n \<Rightarrow> if n < 2 ^ 32 then Some (of_nat n) else None | None \<Rightarrow> None)"

definition parse_i16 :: "string \<Rightarrow> u16 option" where
  "parse_i16 s =
     (case s of
        c # ds \<Rightarrow>
          if c = CHR ''-'' then
            (if ds \<noteq> [] \<and> list_all is_digit ds \<and> digits_value ds \<le> 2 ^ 15
             then Some (- of_nat (digits_value ds)) else None)
          else (case parse_nat s of
                  Some n \<Rightarrow> if n < 2 ^ 15 then Some (of_nat n) else None | None \<Rightarrow> None)
      | [] \<Rightarrow> None)"

definition OID_LOOKUP_QUERY :: string where
  "OID_LOOKUP_QUERY =
     (let nl = [CHR 0x0A] in
      nl @ ''        SELECT c.oid::text, n.nspname, c.relname, a.attnum::text, a.attname''
      @ nl @ ''        FROM pg_class c''
      @ nl @ ''        JOIN pg_namespace n ON n.oid = c.relnamespace''
      @ nl @ ''        LEFT JOIN pg_attribute a''
      @ nl @ ''          ON a.attrelid = c.oid AND a.attnum > 0 AND NOT a.attisdropped''
      @ nl @ ''        WHERE c.relkind IN ('r', 'p', 'v', 'm', 'f')''
      @ nl @ ''          AND n.nspname NOT IN ('pg_catalog', 'information_schema')''
      @ nl @ ''    '')"

definition bootstrap_row :: "data_row \<Rightarrow> anonymizer \<times> nat \<Rightarrow> anonymizer \<times> nat" where
  "bootstrap_row row al =
     (case al of (a, loaded) \<Rightarrow>
      let value = decode_postgres_data_row_text_value row;
          oid = Option.bind (value 0) parse_u32;
          schema = value 1;
          table = value 2;
          attnum = Option.bind (value 3) parse_i16;
          column = value 4
      in case (oid, schema, table) of
           (Some oid, Some schema, Some table) \<Rightarrow>
             (let a = register_postgres_table_oid oid schema table a;
                  a = (case (attnum, column) of
                         (Some attnum, Some column) \<Rightarrow> register_postgres_column oid attnum column a
                       | _ \<Rightarrow> a)
              in (a, loaded + 1))
         | _ \<Rightarrow> (a, loaded))"

text \<open>Every message takes bytes off the leg, so the loop ends.\<close>

function bootstrap_loop :: "pg_leg \<Rightarrow> anonymizer \<times> nat \<Rightarrow> nat result \<times> pg_leg \<times> anonymizer" where
  "bootstrap_loop l al =
     (case leg_next pg_decode l of
        (Ok (Some m), l') \<Rightarrow>
          (case m of
             PDataRow row \<Rightarrow> bootstrap_loop l' (bootstrap_row row al)
           | PRegular msg \<Rightarrow>
               if pr_message_type msg = 0x5A then (Ok (snd al), l', fst al) else bootstrap_loop l' al
           | _ \<Rightarrow> bootstrap_loop l' al)
      | (Ok None, l') \<Rightarrow> (bail ''Upstream disconnected during OID map bootstrap'', l', fst al)
      | (Err e, l') \<Rightarrow> (Err e, l', fst al)
      | (Panic, l') \<Rightarrow> (Panic, l', fst al))"
  by pat_completeness auto
termination
proof (relation "measure (\<lambda>(l, _). length (leg_rest l))")
qed (use pg.leg_next_shrinks [OF sym] in auto)

declare bootstrap_loop.simps [simp del]

definition bootstrap_postgres_table_oid_map :: "pg_leg \<Rightarrow> anonymizer \<Rightarrow> nat result \<times> pg_leg \<times> anonymizer" where
  "bootstrap_postgres_table_oid_map upstream a =
     bootstrap_loop (pg_send (PQuery \<lparr>pq_query = bytes_of_str OID_LOOKUP_QUERY\<rparr>) upstream) (a, 0)"

section \<open>Upstream to client\<close>

text \<open>Only a panic could end the session here; a failed bootstrap is tried again later.\<close>

definition pg_ready_for_query :: "pg_regular \<Rightarrow> pg_session \<Rightarrow> unit result option \<times> pg_session" where
  "pg_ready_for_query regular ses =
     (let ses = ses\<lparr>ps_client := pg_send (PRegular regular) (ps_client ses)\<rparr> in
      if cf_rules (as_config (ps_state ses)) = [] then (None, ses\<lparr>ps_oid_bootstrap_done := True\<rparr>)
      else
        (case bootstrap_postgres_table_oid_map (ps_upstream ses) (ps_interceptor ses) of
           (r, l, a) \<Rightarrow>
             let ses = ses\<lparr>ps_upstream := l, ps_interceptor := a\<rparr> in
             case r of
               Ok loaded \<Rightarrow> (None, ses\<lparr>ps_oid_bootstrap_done := True\<rparr>)
             | Err e \<Rightarrow> (None, ses)
             | Panic \<Rightarrow> (Some Panic, ses)))"

text \<open>A message that is passed on as it is: ReadyForQuery ends the time of a query, and the start of a
  COPY, whose data is not masked, is counted.\<close>

definition end_of_query :: "stamp \<Rightarrow> pg_session \<Rightarrow> pg_session" where
  "end_of_query st ses =
     (case ps_query_started_at ses of
        Some started \<Rightarrow>
          ses\<lparr>ps_state := record_query_latency (snd st - started) (ps_state ses), ps_query_started_at := None\<rparr>
      | None \<Rightarrow> ses)"

definition pg_pass_regular :: "stamp \<Rightarrow> pg_regular \<Rightarrow> pg_session \<Rightarrow> pg_session" where
  "pg_pass_regular st regular ses =
     (let ses = (if pr_message_type regular = 0x5A then end_of_query st ses else ses);
          ses = (if pr_message_type regular = 0x48
                 then ses\<lparr>ps_state := metered record_copy_passthrough (ps_state ses)\<rparr> else ses)
      in ses\<lparr>ps_client := pg_send (PRegular regular) (ps_client ses)\<rparr>)"

lemma end_of_query_frame [simp]:
  "ps_client (end_of_query st ses) = ps_client ses" "ps_upstream (end_of_query st ses) = ps_upstream ses"
  "ps_connection_id (end_of_query st ses) = ps_connection_id ses" "ps_interceptor (end_of_query st ses) = ps_interceptor ses"
  "ps_oid_bootstrap_done (end_of_query st ses) = ps_oid_bootstrap_done ses"
  "as_config (ps_state (end_of_query st ses)) = as_config (ps_state ses)"
  "as_masking_key (ps_state (end_of_query st ses)) = as_masking_key (ps_state ses)"
  "as_stats (ps_state (end_of_query st ses)) = as_stats (ps_state ses)"
  by (simp_all add: end_of_query_def record_query_latency_def split: option.split)

lemma pg_pass_regular_frame [simp]:
  "ps_client (pg_pass_regular st r ses) = pg_send (PRegular r) (ps_client ses)"
  "ps_upstream (pg_pass_regular st r ses) = ps_upstream ses"
  "ps_connection_id (pg_pass_regular st r ses) = ps_connection_id ses"
  "ps_interceptor (pg_pass_regular st r ses) = ps_interceptor ses"
  "ps_oid_bootstrap_done (pg_pass_regular st r ses) = ps_oid_bootstrap_done ses"
  "as_config (ps_state (pg_pass_regular st r ses)) = as_config (ps_state ses)"
  "as_masking_key (ps_state (pg_pass_regular st r ses)) = as_masking_key (ps_state ses)"
  "as_stats (ps_state (pg_pass_regular st r ses)) = as_stats (ps_state ses)"
  by (simp_all add: pg_pass_regular_def Let_def)

definition pg_upstream_msg :: "'r crates \<Rightarrow> pii_scanner \<Rightarrow> stamp \<Rightarrow> pg_msg \<Rightarrow> pg_session
    \<Rightarrow> unit result option \<times> pg_session" where
  "pg_upstream_msg cr sc st m ses =
     (case m of
        PRegular regular \<Rightarrow>
          if pr_message_type regular = 0x5A \<and> \<not> ps_oid_bootstrap_done ses
          then pg_ready_for_query regular ses
          else (None, pg_pass_regular st regular ses)
      | PRowDescription rd \<Rightarrow>
          (None, ses\<lparr>ps_interceptor := on_row_description (ps_state ses) rd (ps_interceptor ses),
                     ps_client := pg_send (PRowDescription rd) (ps_client ses)\<rparr>)
      | PDataRow dr \<Rightarrow>
          (case on_data_row_run cr sc st (ps_interceptor ses) dr (ps_state ses) of
             Ok (new_dr, s) \<Rightarrow>
               (None, ses\<lparr>ps_state := s, ps_client := pg_send (PDataRow new_dr) (ps_client ses)\<rparr>)
           | Err e \<Rightarrow> (Some (Err e), ses)
           | Panic \<Rightarrow> (Some Panic, ses))
      | other \<Rightarrow> (None, ses\<lparr>ps_client := pg_send other (ps_client ses)\<rparr>))"

section \<open>The loop\<close>

text \<open>\<open>None\<close> goes on; \<open>Some r\<close> ends the session with \<open>r\<close>.\<close>

definition pg_turn :: "'r crates \<Rightarrow> pii_scanner \<Rightarrow> turn \<Rightarrow> pg_session \<Rightarrow> unit result option \<times> pg_session" where
  "pg_turn cr sc t ses =
     (case t of
        Client_Ready st \<Rightarrow>
          (case leg_next pg_decode (ps_client ses) of
             (r, l) \<Rightarrow>
               let ses = ses\<lparr>ps_client := l\<rparr> in
               case r of
                 Ok (Some m) \<Rightarrow> (None, pg_client_msg st m ses)
               | Ok None \<Rightarrow> (Some (Ok ()), ses)
               | Err e \<Rightarrow> (Some (Err e), ses)
               | Panic \<Rightarrow> (Some Panic, ses))
      | Upstream_Ready st \<Rightarrow>
          (case leg_next pg_decode (ps_upstream ses) of
             (r, l) \<Rightarrow>
               let ses = ses\<lparr>ps_upstream := l\<rparr> in
               case r of
                 Ok (Some m) \<Rightarrow> pg_upstream_msg cr sc st m ses
               | Ok None \<Rightarrow> (Some (Ok ()), ses)
               | Err e \<Rightarrow> (Some (Err e), ses)
               | Panic \<Rightarrow> (Some Panic, ses))
      | Cancelled \<Rightarrow>
          (Some (Ok ()), ses\<lparr>ps_client := pg_send (PRegular (build_postgres_fatal_regular_message
             ''57P01'' ''proxy is shutting down'')) (ps_client ses)\<rparr>)
      | Idle_Timeout \<Rightarrow> (Some (Ok ()), ses\<lparr>ps_state := metered record_idle_timeout (ps_state ses)\<rparr>)
      | Elsewhere s \<Rightarrow> (None, ses\<lparr>ps_state := s\<rparr>))"

fun pg_run :: "'r crates \<Rightarrow> pii_scanner \<Rightarrow> turn list \<Rightarrow> pg_session \<Rightarrow> unit result option \<times> pg_session" where
  "pg_run cr sc [] ses = (None, ses)"
| "pg_run cr sc (t # ts) ses =
     (case pg_turn cr sc t ses of
        (None, ses') \<Rightarrow> pg_run cr sc ts ses'
      | (Some r, ses') \<Rightarrow> (Some r, ses'))"

interpretation pg_loop: session_loop "pg_turn cr sc" "pg_run cr sc" for cr sc
  by unfold_locales simp_all

definition handle_postgres_protocol_inner :: "'r crates \<Rightarrow> pii_scanner \<Rightarrow> nat \<Rightarrow> pg_leg \<Rightarrow> pg_leg \<Rightarrow> app_state
    \<Rightarrow> turn list \<Rightarrow> unit result option \<times> pg_session" where
  "handle_postgres_protocol_inner cr sc connection_id client upstream s ts =
     pg_run cr sc ts \<lparr>ps_client = client\<lparr>lg_codec := pg_new\<rparr>, ps_upstream = upstream\<lparr>lg_codec := pg_new_upstream\<rparr>,
       ps_state = s, ps_connection_id = connection_id, ps_interceptor = anonymizer_new connection_id,
       ps_oid_bootstrap_done = False, ps_query_started_at = None\<rparr>"

section \<open>Before the loop\<close>

text \<open>What a connection meets: whether the client's first bytes come in time, the TLS acceptor and
  connector (each turns the raw reads still to come into those of the secured stream), the pool,
  and the reads of the upstream once connected.\<close>

record pg_world =
  pw_peek :: wait_end
  pw_tls_acceptor :: "(byte list list \<Rightarrow> byte list list connect_end) option"
  pw_upstream_pool :: "upstream_pool_acquire_error option option"
  pw_connect :: "byte list list connect_end"
  pw_tls_connect :: "string \<Rightarrow> byte list list \<Rightarrow> byte list list result"
  pw_connection_id :: nat

type_synonym pg_outcome = "unit result option \<times> pg_leg \<times> pg_leg option \<times> app_state"

definition SSL_REQUEST :: "byte list" where
  "SSL_REQUEST = put_u32 8 @ put_u32 80877103"

definition secured :: "byte list list \<Rightarrow> pg_leg \<Rightarrow> pg_leg" where
  "secured reads l = l\<lparr>lg_in := reads, lg_tls := True\<rparr>"

definition run_inner :: "'r crates \<Rightarrow> pii_scanner \<Rightarrow> nat \<Rightarrow> pg_leg \<Rightarrow> pg_leg \<Rightarrow> app_state \<Rightarrow> turn list \<Rightarrow> pg_outcome" where
  "run_inner cr sc connection_id client upstream s ts =
     (case handle_postgres_protocol_inner cr sc connection_id client upstream s ts of
        (r, ses) \<Rightarrow> (r, ps_client ses, Some (ps_upstream ses), ps_state ses))"

text \<open>The upstream leg: TLS when the configuration asks for it, and never without when it does.\<close>

definition upstream_leg :: "'r crates \<Rightarrow> pii_scanner \<Rightarrow> pg_world \<Rightarrow> string \<Rightarrow> app_state \<Rightarrow> pg_leg \<Rightarrow> byte list list
    \<Rightarrow> turn list \<Rightarrow> pg_outcome" where
  "upstream_leg cr sc w host s client reads ts =
     (let upstream = new_leg pg_new_upstream reads False in
      if cf_upstream_tls (as_config s) then
        let upstream = write_sent (Raw SSL_REQUEST) upstream in
        case read_exact 1 (lg_in upstream) of
          Ok (response, reads) \<Rightarrow>
            let upstream = upstream\<lparr>lg_in := reads\<rparr> in
            if response = [0x53] then
              (case pw_tls_connect w host (lg_in upstream) of
                 Ok plain \<Rightarrow> run_inner cr sc (pw_connection_id w) client (secured plain upstream) s ts
               | Err e \<Rightarrow> (Some (Err e), client, Some upstream, s)
               | Panic \<Rightarrow> (Some Panic, client, Some upstream, s))
            else
              (Some (bail ''upstream denied SSLRequest while upstream_tls is enabled''),
               write_sent (Raw (build_postgres_fatal_error_packet ''08006''
                 ''upstream refused TLS but upstream_tls is required'')) client, Some upstream, s)
        | Err e \<Rightarrow> (Some (Err e), client, Some upstream, s)
        | Panic \<Rightarrow> (Some Panic, client, Some upstream, s)
      else run_inner cr sc (pw_connection_id w) client upstream s ts)"

definition handle_postgres_protocol :: "'r crates \<Rightarrow> pii_scanner \<Rightarrow> pg_world \<Rightarrow> string \<Rightarrow> app_state \<Rightarrow> pg_leg
    \<Rightarrow> turn list \<Rightarrow> pg_outcome" where
  "handle_postgres_protocol cr sc w host s client ts =
     (let (connect_timeout, idle_timeout, pool_wait_timeout) = resolve_timeout_limits (cf_limits (as_config s)) in
      case pw_upstream_pool w of
        Some (Some Closed) \<Rightarrow>
          (Some (Ok ()), write_sent (Raw (build_postgres_fatal_error_packet ''08006''
             ''upstream pool unavailable'')) client, None, s)
      | Some (Some Timeout) \<Rightarrow>
          (Some (Ok ()), write_sent (Raw (build_postgres_fatal_error_packet ''53300''
             (pool_timeout_message pool_wait_timeout))) client, None, s)
      | _ \<Rightarrow>
          (case connect_upstream_with_timeout connect_timeout (pw_connect w) of
             (Ok reads, calls) \<Rightarrow> upstream_leg cr sc w host (metered calls s) client reads ts
           | (Err e, calls) \<Rightarrow> (Some (Err e), client, None, metered calls s)
           | (Panic, calls) \<Rightarrow> (Some Panic, client, None, metered calls s)))"

text \<open>The peek waits for eight bytes or the end of the stream; a client that sends fewer and no
  more runs into the deadline.\<close>

definition process_postgres_connection :: "'r crates \<Rightarrow> pii_scanner \<Rightarrow> pg_world \<Rightarrow> string \<Rightarrow> app_state
    \<Rightarrow> byte list list \<Rightarrow> turn list \<Rightarrow> pg_outcome" where
  "process_postgres_connection cr sc w host s client_reads ts =
     (let client = new_leg pg_new client_reads False;
          avail = concat client_reads;
          len = be_nat (take 4 avail);
          code = be_nat (take 4 (drop 4 avail)) in
      if pw_peek w \<noteq> Done \<or> (avail \<noteq> [] \<and> length avail < 8)
      then (Some (bail ''client handshake timed out''), client, None, s)
      else if 8 \<le> length avail \<and> len = 8 \<and> code = 80877103 then
        let client = client\<lparr>lg_in := [drop 8 avail]\<rparr> in
        case pw_tls_acceptor w of
          Some accept \<Rightarrow>
            let client = write_sent (Raw [0x53]) client in
            (case accept (lg_in client) of
               Connected plain \<Rightarrow> handle_postgres_protocol cr sc w host s (secured plain client) ts
             | Refused e \<Rightarrow> (Some (Err e), client, None, s)
             | Timed_Out \<Rightarrow> (Some (bail ''client TLS handshake timed out''), client, None, s))
        | None \<Rightarrow> handle_postgres_protocol cr sc w host s (write_sent (Raw [0x4E]) client) ts
      else handle_postgres_protocol cr sc w host s client ts)"

end
