(* ===== verification/Pg_Relay.thy ===== *)
theory Pg_Relay
  imports Pg_Session
begin

text \<open>
  What a PostgreSQL session promises, over any run of \<open>Pg_Session\<close>: what it relays and in which
  order, that the rows of a result set reach the client masked by the rules of its columns, what
  the table map is loaded with, and that a required upstream TLS is never given up.
\<close>

section \<open>What is relayed\<close>

text \<open>A message and what the session makes of it: itself, or a row of the same shape.\<close>

fun same_shape :: "data_row \<Rightarrow> data_row \<Rightarrow> bool" where
  "same_shape row row' \<longleftrightarrow> list_all2 (\<lambda>v v'. (v = None) = (v' = None)) (dr_values row) (dr_values row')"

fun relayed_as :: "pg_msg \<Rightarrow> pg_msg \<Rightarrow> bool" where
  "relayed_as (PDataRow row) (PDataRow row') \<longleftrightarrow> same_shape row row'"
| "relayed_as m m' \<longleftrightarrow> m' = m"

definition forwarded :: "pg_msg list \<Rightarrow> pg_msg list" where
  "forwarded ms = filter (\<lambda>m. m \<noteq> PSSLRequest) ms"

lemma on_data_row_shape: "same_shape row (fst (on_data_row cr sc st a row s))"
  using mask_values_shape [of "row_context cr sc s" "an_target_cols a" "an_column_labels a" 0 "dr_values row"]
  by (auto simp: on_data_row_def Let_def list_all2_conv_all_nth split: prod.split)

lemma on_data_row_config:
  "on_data_row cr sc st a row s = (row', s') \<Longrightarrow> as_config s' = as_config s \<and> as_masking_key s' = as_masking_key s"
  by (auto simp: on_data_row_def Let_def split: prod.splits if_splits)

text \<open>One message, in each direction.\<close>

lemma pg_client_msg_frame [simp]:
  "leg_messages dec (ps_client (pg_client_msg st m ses)) = leg_messages dec (ps_client ses)"
  "leg_messages dec (ps_upstream (pg_client_msg st m ses)) = leg_messages dec (ps_upstream ses)"
  "sent_messages (lg_out (ps_client (pg_client_msg st m ses))) = sent_messages (lg_out (ps_client ses))"
  "sent_messages (lg_out (ps_upstream (pg_client_msg st m ses))) =
     sent_messages (lg_out (ps_upstream ses)) @ forwarded [m]"
  "ps_oid_bootstrap_done (pg_client_msg st m ses) = ps_oid_bootstrap_done ses"
  by (cases "(st, m, ses)" rule: pg_client_msg.cases; simp add: pg_send_def forwarded_def)+

text \<open>A session that will not ask for the table map: it has it, or there is no rule that needs it.\<close>

definition quiet :: "turn list \<Rightarrow> pg_session \<Rightarrow> bool" where
  "quiet ts ses \<longleftrightarrow> ps_oid_bootstrap_done ses \<or>
     (cf_rules (as_config (ps_state ses)) = [] \<and> (\<forall>s. Elsewhere s \<in> set ts \<longrightarrow> cf_rules (as_config s) = []))"

text \<open>A session that is watched: its configuration, now and whatever other tasks make of it, and its
  column map have a property.\<close>

definition watched :: "(app_config \<Rightarrow> bool) \<Rightarrow> (anonymizer \<Rightarrow> bool) \<Rightarrow> turn list \<Rightarrow> pg_session \<Rightarrow> bool" where
  "watched fit tame ts ses \<longleftrightarrow> quiet ts ses \<and> fit (as_config (ps_state ses)) \<and> tame (ps_interceptor ses)
     \<and> (\<forall>s. Elsewhere s \<in> set ts \<longrightarrow> fit (as_config s))"

lemma watched_frame [simp]:
  "watched fit tame ts (ses\<lparr>ps_client := l\<rparr>) = watched fit tame ts ses"
  "watched fit tame ts (ses\<lparr>ps_upstream := l\<rparr>) = watched fit tame ts ses"
  by (auto simp: watched_def quiet_def)

lemma watched_Cons: "watched fit tame (t # ts) ses \<Longrightarrow> watched fit tame ts ses"
  by (auto simp: watched_def quiet_def)

lemma pg_client_msg_config [simp]:
  "as_config (ps_state (pg_client_msg st m ses)) = as_config (ps_state ses)"
  by (cases "(st, m, ses)" rule: pg_client_msg.cases) simp_all

text \<open>One turn reads at most one message of each leg. \<open>R\<close> relates a message of the upstream to what the
  client gets for it.\<close>

definition turn_relay :: "(pg_msg \<Rightarrow> pg_msg \<Rightarrow> bool) \<Rightarrow> pg_session \<Rightarrow> pg_session \<Rightarrow> bool" where
  "turn_relay R ses ses' \<longleftrightarrow> (\<exists>up cl out.
     leg_messages pg_decode (ps_upstream ses) = up @ leg_messages pg_decode (ps_upstream ses')
     \<and> leg_messages pg_decode (ps_client ses) = cl @ leg_messages pg_decode (ps_client ses')
     \<and> sent_messages (lg_out (ps_client ses')) = sent_messages (lg_out (ps_client ses)) @ out
     \<and> sent_messages (lg_out (ps_upstream ses')) = sent_messages (lg_out (ps_upstream ses)) @ forwarded cl
     \<and> list_all2 R up out)"

lemma turn_relay_refl [simp]: "turn_relay R ses (ses\<lparr>ps_state := s\<rparr>)" "turn_relay R ses ses"
  by (auto simp: turn_relay_def forwarded_def)

lemma turn_relay_trans: "turn_relay R a b \<Longrightarrow> turn_relay R b c \<Longrightarrow> turn_relay R a c"
  unfolding turn_relay_def forwarded_def
  by (elim exE conjE, rule_tac x = "up @ upa" in exI, rule_tac x = "cl @ cla" in exI, rule_tac x = "out @ outa" in exI)
     (simp add: list_all2_appendI)

text \<open>What masking does to every row while configuration and column map have their properties, a session
  does to all that it relays.\<close>

locale pg_watch =
  fixes cr :: "'r crates" and sc :: pii_scanner
    and fit :: "app_config \<Rightarrow> bool" and tame :: "anonymizer \<Rightarrow> bool" and R :: "pg_msg \<Rightarrow> pg_msg \<Rightarrow> bool"
  assumes row_ok: "fit (as_config s) \<Longrightarrow> tame a \<Longrightarrow> R (PDataRow row) (PDataRow (fst (on_data_row cr sc st a row s)))"
    and other_ok: "(\<And>row. m \<noteq> PDataRow row) \<Longrightarrow> R m m"
    and described: "fit (as_config s) \<Longrightarrow> tame a \<Longrightarrow> tame (on_row_description s rd a)"
    and emptied: "tame a \<Longrightarrow> tame (reset_columns a)"
begin

lemma client_msg_watched: "watched fit tame ts ses \<Longrightarrow> watched fit tame ts (pg_client_msg st m ses)"
  by (cases "(st, m, ses)" rule: pg_client_msg.cases) (auto simp: watched_def quiet_def emptied)

lemma upstream_msg_watched:
  assumes "watched fit tame ts ses" "pg_upstream_msg cr sc st m ses = (r, ses')"
  shows "r = None \<and> watched fit tame ts ses' \<and> ps_upstream ses' = ps_upstream ses
    \<and> leg_messages dec (ps_client ses') = leg_messages dec (ps_client ses)
    \<and> (\<exists>m'. sent_messages (lg_out (ps_client ses')) = sent_messages (lg_out (ps_client ses)) @ [m'] \<and> R m m')"
proof (cases "\<exists>row. m = PDataRow row")
  case True
  then obtain row where "m = PDataRow row" by blast
  with assms row_ok [of "ps_state ses" "ps_interceptor ses" row st] show ?thesis
    by (cases "on_data_row cr sc st (ps_interceptor ses) row (ps_state ses)")
       (auto simp: pg_upstream_msg_def pg_send_def watched_def quiet_def dest: on_data_row_config)
next
  case False
  then have "R m m" by (intro other_ok) blast
  with False assms described [of "ps_state ses" "ps_interceptor ses"] show ?thesis
    by (cases m) (auto simp: pg_upstream_msg_def pg_ready_for_query_def pg_send_def watched_def quiet_def Let_def split: if_splits)
qed

lemma turn_watched:
  assumes "watched fit tame (t # ts) ses" "pg_turn cr sc t ses = (None, ses')"
  shows "watched fit tame ts ses' \<and> turn_relay R ses ses'"
proof (cases t)
  case (Client_Ready st)
  with assms(2) obtain m l where n: "leg_next pg_decode (ps_client ses) = (Ok (Some m), l)"
    and s: "ses' = pg_client_msg st m (ses\<lparr>ps_client := l\<rparr>)"
    by (auto simp: pg_turn_def Let_def split: prod.splits result.splits option.splits)
  from client_msg_watched [of ts "ses\<lparr>ps_client := l\<rparr>" st m] watched_Cons [OF assms(1)]
    pg.leg_next_drain [OF n] pg.leg_next_frame [OF n] show ?thesis
    unfolding s turn_relay_def by (intro conjI exI [of _ "[]"] exI [of _ "[m]"]) simp_all
next
  case (Upstream_Ready st)
  with assms(2) obtain m l where n: "leg_next pg_decode (ps_upstream ses) = (Ok (Some m), l)"
    and s: "pg_upstream_msg cr sc st m (ses\<lparr>ps_upstream := l\<rparr>) = (None, ses')"
    by (auto simp: pg_turn_def Let_def split: prod.splits result.splits option.splits)
  from upstream_msg_watched [OF _ s, of ts pg_decode] watched_Cons [OF assms(1)] obtain m' where
    "watched fit tame ts ses'" "ps_upstream ses' = l" "R m m'"
    "leg_messages pg_decode (ps_client ses') = leg_messages pg_decode (ps_client ses)"
    "sent_messages (lg_out (ps_client ses')) = sent_messages (lg_out (ps_client ses)) @ [m']" by auto
  with pg.leg_next_drain [OF n] pg.leg_next_frame [OF n] show ?thesis
    unfolding turn_relay_def
    by (intro conjI exI [of _ "[m]"] exI [of _ "[]"] exI [of _ "[m']"]) (simp_all add: forwarded_def)
next
  case (Elsewhere s)
  then have "ses' = ses\<lparr>ps_state := s\<rparr>" using assms(2) by (simp add: pg_turn_def)
  with assms(1) Elsewhere show ?thesis by (auto simp: watched_def quiet_def)
qed (use assms(2) in \<open>simp_all add: pg_turn_def\<close>)

lemma run_watched:
  "watched fit tame ts ses \<Longrightarrow> pg_run cr sc ts ses = (None, ses') \<Longrightarrow> turn_relay R ses ses'"
proof (induction ts arbitrary: ses)
  case (Cons t ts)
  then obtain b where b: "pg_turn cr sc t ses = (None, b)" "pg_run cr sc ts b = (None, ses')"
    by (auto split: prod.splits option.splits)
  from turn_watched [OF Cons.prems(1) b(1)] Cons.IH [OF _ b(2)] show ?case
    using turn_relay_trans by blast
qed simp

end

text \<open>Rows keep their shape under every configuration.\<close>

interpretation pg_any: pg_watch cr sc "\<lambda>_. True" "\<lambda>_. True" relayed_as for cr sc
proof unfold_locales
  show "relayed_as m m" if "\<And>row. m \<noteq> PDataRow row" for m
    using that by (cases m) auto
qed (use on_data_row_shape in auto)

text \<open>C9: A session relays each direction in order, nothing lost, added or swapped, whatever the
  interleaving of the legs, the cuts of the reads and the changes of the configuration: the
  upstream is sent every message of the client but SSLRequest, and the client every message of the
  upstream, a data row as a row with the same columns and NULLs. (Once the table map is loaded, or
  while there is no rule.)\<close>

theorem session_relays_in_order:
  assumes "pg_run cr sc ts ses = (None, ses')" "quiet ts ses"
  shows "\<exists>up cl out.
     leg_messages pg_decode (ps_upstream ses) = up @ leg_messages pg_decode (ps_upstream ses')
     \<and> leg_messages pg_decode (ps_client ses) = cl @ leg_messages pg_decode (ps_client ses')
     \<and> sent_messages (lg_out (ps_client ses')) = sent_messages (lg_out (ps_client ses)) @ out
     \<and> sent_messages (lg_out (ps_upstream ses')) =
         sent_messages (lg_out (ps_upstream ses)) @ filter (\<lambda>m. m \<noteq> PSSLRequest) cl
     \<and> list_all2 relayed_as up out"
  using pg_any.run_watched [OF _ assms(1)] assms(2) unfolding turn_relay_def forwarded_def watched_def by simp


text \<open>Messages in the buffer are read one by one; what the examples below evaluate with.\<close>

definition demo_leg :: "pg_msg list \<Rightarrow> pg_leg" where
  "demo_leg ms = \<lparr>lg_codec = pg_new_upstream, lg_buf = concat (map pg_encode ms), lg_in = [],
     lg_tls = False, lg_out = []\<rparr>"

lemma pg_next_buffered:
  "pg_wf m \<Longrightarrow> leg_next pg_decode \<lparr>lg_codec = pg_new_upstream, lg_buf = pg_encode m @ x, lg_in = [],
     lg_tls = t, lg_out = ws\<rparr> = (Ok (Some m), \<lparr>lg_codec = pg_new_upstream, lg_buf = x, lg_in = [],
     lg_tls = t, lg_out = ws\<rparr>)"
  using pg_decode_encode [of m x] by (simp add: leg_next_def)

lemma pg_next_last:
  "pg_wf m \<Longrightarrow> leg_next pg_decode \<lparr>lg_codec = pg_new_upstream, lg_buf = pg_encode m, lg_in = [],
     lg_tls = t, lg_out = ws\<rparr> = (Ok (Some m), \<lparr>lg_codec = pg_new_upstream, lg_buf = [], lg_in = [],
     lg_tls = t, lg_out = ws\<rparr>)"
  using pg_next_buffered [of m "[]"] by simp

definition demo_session :: "app_state \<Rightarrow> pg_msg list \<Rightarrow> pg_msg list \<Rightarrow> bool \<Rightarrow> pg_session" where
  "demo_session s from_client from_upstream done =
     \<lparr>ps_client = demo_leg from_client, ps_upstream = demo_leg from_upstream, ps_state = s,
      ps_connection_id = 1, ps_interceptor = anonymizer_new 1, ps_oid_bootstrap_done = done, ps_query_started_at = None\<rparr>"

definition ready :: pg_msg where
  "ready = PRegular \<lparr>pr_message_type = 0x5A, pr_payload = [0x49]\<rparr>"

lemma wf_ready: "pg_wf ready"
  by (simp add: ready_def pg_wf_def MAX_FRAME_LEN_def)

theorem session_relays_in_order_witness:
  "let ses = demo_session (test_state [] True) [PQuery \<lparr>pq_query = [0x41]\<rparr>] [ready, ready] False;
     ses' = snd (pg_run test_crates test_scanner
       [Upstream_Ready (''i'', 1), Client_Ready (''j'', 2), Upstream_Ready (''k'', 3)] ses) in
   \<exists>up cl out. leg_messages pg_decode (ps_upstream ses) = up @ leg_messages pg_decode (ps_upstream ses')
     \<and> leg_messages pg_decode (ps_client ses) = cl @ leg_messages pg_decode (ps_client ses')
     \<and> sent_messages (lg_out (ps_client ses')) = sent_messages (lg_out (ps_client ses)) @ out
     \<and> sent_messages (lg_out (ps_upstream ses')) =
         sent_messages (lg_out (ps_upstream ses)) @ filter (\<lambda>m. m \<noteq> PSSLRequest) cl
     \<and> list_all2 relayed_as up out"
  unfolding Let_def
proof (rule session_relays_in_order)
  let ?ses = "demo_session (test_state [] True) [PQuery \<lparr>pq_query = [0x41]\<rparr>] [ready, ready] False"
  let ?ts = "[Upstream_Ready (''i'', 1), Client_Ready (''j'', 2), Upstream_Ready (''k'', 3)]"
  have q: "pg_wf (PQuery \<lparr>pq_query = [0x41]\<rparr>)" by (simp add: pg_wf_def MAX_FRAME_LEN_def)
  have r: "cf_rules (as_config (test_state [] True)) = []"
    by (simp add: test_state_def app_state_new_def)
  have "fst (pg_run test_crates test_scanner ?ts ?ses) = None"
    by (simp add: demo_session_def demo_leg_def pg_turn_def pg_upstream_msg_def pg_ready_for_query_def
        pg_next_buffered pg_next_last wf_ready [unfolded ready_def] q r pg_send_def write_sent_def Let_def
        ready_def del: pg_encode.simps)
  then show "pg_run test_crates test_scanner ?ts ?ses = (None, snd (pg_run test_crates test_scanner ?ts ?ses))"
    by (simp only: prod_eq_iff fst_conv snd_conv)
  show "quiet ?ts ?ses" using r by (simp add: quiet_def demo_session_def)
qed

section \<open>Masked result sets\<close>

text \<open>What the client must get for a row: every value that is not NULL is \<open>mask_cell\<close> of it, under the
  label of its field and the strategy of the first rule that matches the field.\<close>

definition field_rule :: "app_state \<Rightarrow> anonymizer \<Rightarrow> row_description \<Rightarrow> nat \<Rightarrow> string option" where
  "field_rule s a rd k =
     (if k < length (rd_fields rd)
      then map_option mr_strategy (find (pg_rule_matches a (rd_fields rd ! k)) (cf_rules (as_config s))) else None)"

definition masked_cells :: "'r mask_context \<Rightarrow> (nat \<Rightarrow> string option) \<Rightarrow> row_description \<Rightarrow> data_row \<Rightarrow> data_row" where
  "masked_cells ctx rule rd row =
     \<lparr>dr_values = map (\<lambda>(k, v). map_option (\<lambda>val. fst (mask_cell ctx val k
        (if k < length (rd_fields rd) then Some (field_label (rd_fields rd ! k)) else None) (rule k))) v)
        (enumerate 0 (dr_values row))\<rparr>"

text \<open>The interceptor after a description: enough to mask the rows that follow.\<close>

definition describes :: "anonymizer \<Rightarrow> row_description \<Rightarrow> (nat \<Rightarrow> string option) \<Rightarrow> bool" where
  "describes a rd rule \<longleftrightarrow> an_column_labels a = map field_label (rd_fields rd)
     \<and> explicit_strategy (an_target_cols a) = rule"

lemma describes_on_row_description: "describes (on_row_description s rd a) rd (field_rule s a rd)"
proof -
  have m: "pg_rule_matches (reset_columns a) = pg_rule_matches a" by (simp add: reset_columns_def)
  let ?b = "describe_fields (cf_rules (as_config s)) 0 (rd_fields rd) (reset_columns a)"
  have "an_column_labels ?b = map field_label (rd_fields rd)
    \<and> (\<forall>k. explicit_strategy (an_target_cols ?b) k = field_rule s a rd k)"
    using describe_fields_spec [of "reset_columns a" 0 "cf_rules (as_config s)" "rd_fields rd"]
    unfolding m by (simp add: reset_columns_def field_rule_def)
  then show ?thesis by (auto simp: describes_def on_row_description_def)
qed

lemma described_row:
  assumes "describes a rd rule" "cf_masking_enabled (as_config s)"
  shows "fst (on_data_row cr sc st a row s) = masked_cells (row_context cr sc s) rule rd row"
proof -
  have d: "label_at (an_column_labels a) = (\<lambda>k. if k < length (rd_fields rd) then Some (field_label (rd_fields rd ! k)) else None)"
    "explicit_strategy (an_target_cols a) = rule"
    using assms(1) by (auto simp: describes_def label_at_def)
  have "dr_values (fst (on_data_row cr sc st a row s))
      = fst (mask_values (row_context cr sc s) (an_target_cols a) (an_column_labels a) 0 (dr_values row))"
    using assms(2) by (simp add: on_data_row_def Let_def split: prod.split)
  then show ?thesis unfolding mask_values_map d masked_cells_def by (metis data_row.surjective old.unit.exhaust data_row.select_convs(1))
qed


text \<open>A run that only reads the upstream: first the description, then the rows.\<close>

lemma leg_next_encoded:
  assumes "pg_wf m" "lg_codec l = pg_new_upstream" "leg_rest l = pg_encode m @ x"
  obtains l' where "leg_next pg_decode l = (Ok (Some m), l')" "lg_codec l' = pg_new_upstream" "leg_rest l' = x"
    "lg_out l' = lg_out l"
proof -
  from assms have "pg_decode (lg_codec l) (leg_rest l) = (Ok (Some m), pg_new_upstream, x)"
    by (simp only: pg_decode_encode)
  from pg.leg_next_item [OF this] that show ?thesis by metis
qed

text \<open>What a session carries from row to row.\<close>

definition row_ready :: "app_state \<Rightarrow> row_description \<Rightarrow> (nat \<Rightarrow> string option) \<Rightarrow> byte list \<Rightarrow> pg_session \<Rightarrow> bool" where
  "row_ready s rd rule x ses \<longleftrightarrow> lg_codec (ps_upstream ses) = pg_new_upstream
     \<and> leg_rest (ps_upstream ses) = x \<and> describes (ps_interceptor ses) rd rule
     \<and> as_config (ps_state ses) = as_config s \<and> as_masking_key (ps_state ses) = as_masking_key s"

lemma row_turn:
  assumes "row_ready s rd rule (pg_encode (PDataRow row) @ x) ses" "pg_wf (PDataRow row)"
    and "cf_masking_enabled (as_config s)"
  obtains ses' where "pg_turn cr sc (Upstream_Ready st) ses = (None, ses')" "row_ready s rd rule x ses'"
    "sent_messages (lg_out (ps_client ses')) = sent_messages (lg_out (ps_client ses))
       @ [PDataRow (masked_cells (row_context cr sc s) rule rd row)]"
    "ps_oid_bootstrap_done ses' = ps_oid_bootstrap_done ses"
proof -
  from assms obtain l where l: "leg_next pg_decode (ps_upstream ses) = (Ok (Some (PDataRow row)), l)"
    "lg_codec l = pg_new_upstream" "leg_rest l = x"
    unfolding row_ready_def by (metis leg_next_encoded)
  obtain row' s' where r: "on_data_row cr sc st (ps_interceptor ses) row (ps_state ses) = (row', s')" by fastforce
  from assms(1,3) described_row [of "ps_interceptor ses" rd rule "ps_state ses" cr sc st row]
  have row': "row' = masked_cells (row_context cr sc s) rule rd row"
    by (simp add: row_ready_def r row_context_cong [of "ps_state ses" s])
  let ?ses = "ses\<lparr>ps_upstream := l, ps_state := s', ps_client := pg_send (PDataRow row') (ps_client ses)\<rparr>"
  show ?thesis
  proof (rule that [of ?ses])
    show "pg_turn cr sc (Upstream_Ready st) ses = (None, ?ses)"
      by (simp add: pg_turn_def l(1) pg_upstream_msg_def r)
    show "row_ready s rd rule x ?ses"
      using assms(1) l(2,3) on_data_row_config [OF r] by (simp add: row_ready_def)
  qed (simp_all add: row' pg_send_def)
qed

lemma rows_run:
  assumes "cf_masking_enabled (as_config s)"
  shows "row_ready s rd rule (concat (map (\<lambda>r. pg_encode (PDataRow r)) rows) @ x) ses \<Longrightarrow>
   \<forall>r \<in> set rows. pg_wf (PDataRow r) \<Longrightarrow> length sts = length rows \<Longrightarrow>
   \<exists>ses'. pg_run cr sc (map Upstream_Ready sts) ses = (None, ses') \<and> row_ready s rd rule x ses'
     \<and> sent_messages (lg_out (ps_client ses')) = sent_messages (lg_out (ps_client ses))
         @ map (\<lambda>r. PDataRow (masked_cells (row_context cr sc s) rule rd r)) rows"
proof (induction rows arbitrary: ses sts)
  case (Cons row rows)
  from Cons.prems(3) obtain st sts' where sts: "sts = st # sts'" "length sts' = length rows" by (cases sts) auto
  from Cons.prems have "row_ready s rd rule (pg_encode (PDataRow row) @ concat (map (\<lambda>r. pg_encode (PDataRow r)) rows) @ x) ses"
    "pg_wf (PDataRow row)" by (simp_all del: pg_encode.simps)
  from row_turn [OF this assms, of cr sc st] obtain b where b: "pg_turn cr sc (Upstream_Ready st) ses = (None, b)"
    "row_ready s rd rule (concat (map (\<lambda>r. pg_encode (PDataRow r)) rows) @ x) b"
    "sent_messages (lg_out (ps_client b)) = sent_messages (lg_out (ps_client ses))
       @ [PDataRow (masked_cells (row_context cr sc s) rule rd row)]" by blast
  from Cons.IH [OF b(2) _ sts(2)] Cons.prems(2) b show ?case by (auto simp: sts)
qed simp

text \<open>C1: A result set that arrives from the upstream reaches the client masked: after the description
  every row is sent with each value replaced by what \<open>mask_cell\<close> makes of it under the label of its
  field and the strategy of the first rule of the configuration that matches the field by alias,
  table or source column, however the reads cut the stream; and nothing else is sent.\<close>

theorem session_masks_result_set:
  assumes "cf_masking_enabled (as_config (ps_state ses))"
    and "lg_codec (ps_upstream ses) = pg_new_upstream"
    and "leg_rest (ps_upstream ses) =
       pg_encode (PRowDescription rd) @ concat (map (\<lambda>r. pg_encode (PDataRow r)) rows) @ x"
    and "pg_wf (PRowDescription rd)" "\<forall>r \<in> set rows. pg_wf (PDataRow r)" "length sts = length rows"
  shows "\<exists>ses'. pg_run cr sc (Upstream_Ready st # map Upstream_Ready sts) ses = (None, ses')
     \<and> leg_rest (ps_upstream ses') = x
     \<and> sent_messages (lg_out (ps_client ses')) = sent_messages (lg_out (ps_client ses)) @ PRowDescription rd #
         map (\<lambda>r. PDataRow (masked_cells (row_context cr sc (ps_state ses))
           (field_rule (ps_state ses) (ps_interceptor ses) rd) rd r)) rows"
proof -
  from leg_next_encoded [OF assms(4,2,3)] obtain l where l:
    "leg_next pg_decode (ps_upstream ses) = (Ok (Some (PRowDescription rd)), l)"
    "lg_codec l = pg_new_upstream" "leg_rest l = concat (map (\<lambda>r. pg_encode (PDataRow r)) rows) @ x" by metis
  let ?a = "on_row_description (ps_state ses) rd (ps_interceptor ses)"
  let ?b = "ses\<lparr>ps_upstream := l, ps_interceptor := ?a, ps_client := pg_send (PRowDescription rd) (ps_client ses)\<rparr>"
  have t: "pg_turn cr sc (Upstream_Ready st) ses = (None, ?b)"
    by (simp add: pg_turn_def l(1) pg_upstream_msg_def)
  have "row_ready (ps_state ses) rd (field_rule (ps_state ses) (ps_interceptor ses) rd)
      (concat (map (\<lambda>r. pg_encode (PDataRow r)) rows) @ x) ?b"
    using l(2,3) describes_on_row_description by (simp add: row_ready_def)
  from rows_run [OF assms(1) this assms(5,6), of cr sc] show ?thesis
    by (auto simp: t row_ready_def pg_send_def)
qed


theorem session_masks_result_set_witness:
  "let ses = demo_session (test_state [test_rule] True) []
       [PRowDescription \<lparr>rd_fields = [test_field]\<rparr>, PDataRow \<lparr>dr_values = [Some [0x6A]]\<rparr>] True in
   \<exists>ses'. pg_run test_crates test_scanner [Upstream_Ready (''i'', 1), Upstream_Ready (''j'', 2)] ses = (None, ses')
     \<and> sent_messages (lg_out (ps_client ses')) = [PRowDescription \<lparr>rd_fields = [test_field]\<rparr>,
         PDataRow \<lparr>dr_values = [Some (bytes_of_str ''203.0.113.0'')]\<rparr>]"
proof -
  let ?s = "test_state [test_rule] True"
  let ?rd = "\<lparr>rd_fields = [test_field]\<rparr>" and ?row = "\<lparr>dr_values = [Some [0x6A]]\<rparr>"
  let ?ses = "demo_session ?s [] [PRowDescription ?rd, PDataRow ?row] True"
  have e: "cf_masking_enabled (as_config ?s)" "cf_rules (as_config ?s) = [test_rule]"
    by (simp_all add: test_state_def app_state_new_def)
  have st: "mr_strategy test_rule = ''ip''" by (simp add: test_rule_def)
  have m: "pg_rule_matches (anonymizer_new 1) test_field test_rule" by code_simp
  have r: "replacement (row_context test_crates test_scanner ?s) ''ip'' [0x6A] = ''203.0.113.0''" by code_simp
  have w: "pg_wf (PRowDescription ?rd)" "pg_wf (PDataRow ?row)"
    by (simp_all add: pg_wf_def MAX_FRAME_LEN_def test_field_def encode_field_def encode_pg_value_def bytes_of_str_def)
  have c: "masked_cells (row_context test_crates test_scanner ?s) (field_rule ?s (anonymizer_new 1) ?rd) ?rd ?row
      = \<lparr>dr_values = [Some (bytes_of_str ''203.0.113.0'')]\<rparr>"
    using m r by (simp add: masked_cells_def field_rule_def e mask_cell_rule st)
  show ?thesis
    using session_masks_result_set [of ?ses ?rd "[?row]" "[]" "[(''j'', 2)]" test_crates test_scanner "(''i'', 1)"] e w c
    by (auto simp: demo_session_def demo_leg_def leg_rest_def simp del: pg_encode.simps)
qed

section \<open>Rows without a description\<close>

text \<open>A statement of the client empties the column map at once, also while rows of an earlier
  statement are still on their way, or when a prepared statement is executed again without being
  described again.\<close>

lemma describes_reset: "describes (reset_columns a) \<lparr>rd_fields = []\<rparr> (\<lambda>_. None)"
  by (simp add: describes_def reset_columns_def fun_eq_iff)

lemma client_statement_resets:
  assumes "m = PQuery q \<or> m = PParse p"
  shows "describes (ps_interceptor (pg_client_msg st m ses)) \<lparr>rd_fields = []\<rparr> (\<lambda>_. None)"
    and "leg_rest (ps_upstream (pg_client_msg st m ses)) = leg_rest (ps_upstream ses)"
    and "lg_codec (ps_upstream (pg_client_msg st m ses)) = lg_codec (ps_upstream ses)"
    and "as_config (ps_state (pg_client_msg st m ses)) = as_config (ps_state ses)"
  using assms by (auto simp: describes_reset pg_send_def)

lemma masked_cells_unruled:
  assumes "he_allowed (heuristic_settings_from_config (cf_heuristics (as_config s))) = {}"
  shows "masked_cells (row_context cr sc s) (\<lambda>_. None) rd row = row"
proof -
  have "mask_cell (row_context cr sc s) val k name None = (val, None)" for val k name
    using mask_cell_none_allowed [of "row_context cr sc s"] assms by (simp add: row_context_def)
  then have "masked_cells (row_context cr sc s) (\<lambda>_. None) rd row = \<lparr>dr_values = map (\<lambda>(k, v). v) (enumerate 0 (dr_values row))\<rparr>"
    by (simp add: masked_cells_def option.map_ident)
  also have "map (\<lambda>(k :: nat, v). v) (enumerate 0 (dr_values row)) = dr_values row"
    by (metis (no_types, lifting) map_eq_conv map_snd_enumerate old.prod.case prod.collapse)
  finally show ?thesis by simp
qed

text \<open>C23: A row that is read after the client's next statement, and before a new description, is sent
  without any rule: with the heuristics off it reaches the client as the upstream sent it, whatever
  rules cover its columns. This is what a pipelining client sees, and one that executes a described
  prepared statement again after parsing another.\<close>

theorem late_row_escapes_rules:
  assumes "leg_next pg_decode (ps_client ses) = (Ok (Some m), l)" "m = PQuery q \<or> m = PParse p"
    and "lg_codec (ps_upstream ses) = pg_new_upstream" "leg_rest (ps_upstream ses) = pg_encode (PDataRow row) @ x"
    and "pg_wf (PDataRow row)"
    and "cf_masking_enabled (as_config (ps_state ses))"
    and "he_allowed (heuristic_settings_from_config (cf_heuristics (as_config (ps_state ses)))) = {}"
  shows "\<exists>ses'. pg_run cr sc [Client_Ready st, Upstream_Ready st'] ses = (None, ses')
     \<and> sent_messages (lg_out (ps_client ses')) = sent_messages (lg_out (ps_client ses)) @ [PDataRow row]"
proof -
  let ?b = "pg_client_msg st m (ses\<lparr>ps_client := l\<rparr>)"
  have t: "pg_turn cr sc (Client_Ready st) ses = (None, ?b)" by (simp add: pg_turn_def assms(1))
  note r = client_statement_resets [OF assms(2), of st "ses\<lparr>ps_client := l\<rparr>"]
  have "row_ready (ps_state ?b) \<lparr>rd_fields = []\<rparr> (\<lambda>_. None) (pg_encode (PDataRow row) @ x) ?b"
    using r assms(3,4) by (simp add: row_ready_def)
  moreover have "cf_masking_enabled (as_config (ps_state ?b))" using r(4) assms(6) by simp
  ultimately obtain c where c: "pg_turn cr sc (Upstream_Ready st') ?b = (None, c)"
    "sent_messages (lg_out (ps_client c)) = sent_messages (lg_out (ps_client ?b))
       @ [PDataRow (masked_cells (row_context cr sc (ps_state ?b)) (\<lambda>_. None) \<lparr>rd_fields = []\<rparr> row)]"
    using row_turn [OF _ assms(5)] by metis
  have "masked_cells (row_context cr sc (ps_state ?b)) (\<lambda>_. None) \<lparr>rd_fields = []\<rparr> row = row"
    by (rule masked_cells_unruled) (simp add: assms(7))
  with c t pg.leg_next_frame [OF assms(1)] show ?thesis by auto
qed

theorem late_row_escapes_rules_witness:
  "let s = test_state [test_rule] True;
       s = s\<lparr>as_config := (as_config s)\<lparr>cf_heuristics := Some \<lparr>hc_enabled = True, hc_types = []\<rparr>\<rparr>\<rparr>;
       ses = (demo_session s [PParse \<lparr>pp_statement = [], pp_query = [0x41], pp_param_types = []\<rparr>]
         [PDataRow \<lparr>dr_values = [Some [0x6A]]\<rparr>] True)
         \<lparr>ps_interceptor := on_row_description s \<lparr>rd_fields = [test_field]\<rparr> (anonymizer_new 1)\<rparr> in
   explicit_strategy (an_target_cols (ps_interceptor ses)) 0 = Some ''ip''
   \<and> (\<exists>ses'. pg_run test_crates test_scanner [Client_Ready (''i'', 1), Upstream_Ready (''j'', 2)] ses = (None, ses')
        \<and> sent_messages (lg_out (ps_client ses')) = [PDataRow \<lparr>dr_values = [Some [0x6A]]\<rparr>])"
proof -
  define s where "s = (test_state [test_rule] True)\<lparr>as_config := (as_config (test_state [test_rule] True))
    \<lparr>cf_heuristics := Some \<lparr>hc_enabled = True, hc_types = []\<rparr>\<rparr>\<rparr>"
  let ?p = "\<lparr>pp_statement = [], pp_query = [0x41], pp_param_types = []\<rparr>" and ?row = "\<lparr>dr_values = [Some [0x6A]]\<rparr>"
  let ?ses = "(demo_session s [PParse ?p] [PDataRow ?row] True)
    \<lparr>ps_interceptor := on_row_description s \<lparr>rd_fields = [test_field]\<rparr> (anonymizer_new 1)\<rparr>"
  have e: "cf_masking_enabled (as_config s)" "cf_rules (as_config s) = [test_rule]"
    "cf_heuristics (as_config s) = Some \<lparr>hc_enabled = True, hc_types = []\<rparr>"
    by (simp_all add: s_def test_state_def app_state_new_def)
  have m: "pg_rule_matches (anonymizer_new 1) test_field test_rule" by code_simp
  have "explicit_strategy (an_target_cols (ps_interceptor ?ses)) 0 = Some ''ip''"
    using describes_on_row_description [of s "\<lparr>rd_fields = [test_field]\<rparr>" "anonymizer_new 1"] m
    by (simp add: describes_def field_rule_def e) (simp add: test_rule_def)
  moreover have w: "pg_wf (PParse ?p)" "pg_wf (PDataRow ?row)"
    by (simp_all add: pg_wf_def MAX_FRAME_LEN_def encode_pg_value_def)
  have n: "leg_next pg_decode (ps_client ?ses) = (Ok (Some (PParse ?p)), (ps_client ?ses)\<lparr>lg_buf := []\<rparr>)"
    using pg_next_last [OF w(1)] by (simp add: demo_session_def demo_leg_def del: pg_encode.simps)
  have "\<exists>ses'. pg_run test_crates test_scanner [Client_Ready (''i'', 1), Upstream_Ready (''j'', 2)] ?ses = (None, ses')
     \<and> sent_messages (lg_out (ps_client ses')) = sent_messages (lg_out (ps_client ?ses)) @ [PDataRow ?row]"
    by (rule late_row_escapes_rules [OF n, of _ ?p ?row "[]"])
       (use w e in \<open>simp_all add: demo_session_def demo_leg_def leg_rest_def heuristic_settings_from_config_def map_filter_simps del: pg_encode.simps\<close>)
  ultimately show ?thesis
    unfolding Let_def s_def [symmetric] by (simp add: demo_session_def demo_leg_def)
qed

section \<open>The table map\<close>

fun is_ready :: "pg_msg \<Rightarrow> bool" where
  "is_ready (PRegular r) \<longleftrightarrow> pr_message_type r = 0x5A"
| "is_ready m \<longleftrightarrow> False"

fun catalog_row :: "pg_msg \<Rightarrow> anonymizer \<times> nat \<Rightarrow> anonymizer \<times> nat" where
  "catalog_row (PDataRow row) al = bootstrap_row row al"
| "catalog_row m al = al"

lemma bootstrap_loop_reply:
  assumes "\<forall>m \<in> set ms. pg_wf m \<and> \<not> is_ready m" "pg_wf z" "is_ready z"
    and "lg_codec l = pg_new_upstream" "leg_rest l = concat (map pg_encode ms) @ pg_encode z @ x"
  shows "\<exists>l'. bootstrap_loop l al = (Ok (snd (fold catalog_row ms al)), l', fst (fold catalog_row ms al))
     \<and> lg_codec l' = pg_new_upstream \<and> leg_rest l' = x \<and> lg_out l' = lg_out l"
  using assms(1,4,5)
proof (induction ms arbitrary: l al)
  case Nil
  then have "leg_rest l = pg_encode z @ x" by simp
  from leg_next_encoded [OF assms(2) Nil.prems(2) this] obtain k where
    "leg_next pg_decode l = (Ok (Some z), k)" "lg_codec k = pg_new_upstream" "leg_rest k = x" "lg_out k = lg_out l"
    by metis
  with assms(3) show ?case by (cases z) (simp_all add: bootstrap_loop.simps [of l])
next
  case (Cons m ms)
  then have "pg_wf m" "leg_rest l = pg_encode m @ concat (map pg_encode ms) @ pg_encode z @ x" by simp_all
  then obtain k where k: "leg_next pg_decode l = (Ok (Some m), k)" "lg_codec k = pg_new_upstream"
    "leg_rest k = concat (map pg_encode ms) @ pg_encode z @ x" "lg_out k = lg_out l"
    using leg_next_encoded Cons.prems(2) by metis
  have "bootstrap_loop l al = bootstrap_loop k (catalog_row m al)"
    using Cons.prems(1) by (cases m) (auto simp: bootstrap_loop.simps [of l] k(1))
  with Cons.IH [OF _ k(2,3)] Cons.prems(1) k(4) show ?case by simp
qed

text \<open>Loading the table map sends the catalogue query, takes the reply up to its ReadyForQuery off
  the stream, registers every complete row in order, and counts the registered ones; nothing else of
  the stream is touched. An error reply counts as an empty table map that has been loaded.\<close>

theorem table_map_from_reply:
  assumes "\<forall>m \<in> set ms. pg_wf m \<and> \<not> is_ready m" "pg_wf z" "is_ready z"
    and "lg_codec l = pg_new_upstream" "leg_rest l = concat (map pg_encode ms) @ pg_encode z @ x"
  shows "\<exists>l'. bootstrap_postgres_table_oid_map l a =
       (Ok (snd (fold catalog_row ms (a, 0))), l', fst (fold catalog_row ms (a, 0)))
     \<and> leg_rest l' = x
     \<and> sent_messages (lg_out l') = sent_messages (lg_out l) @ [PQuery \<lparr>pq_query = bytes_of_str OID_LOOKUP_QUERY\<rparr>]"
  using bootstrap_loop_reply [OF assms(1-3), of "pg_send (PQuery \<lparr>pq_query = bytes_of_str OID_LOOKUP_QUERY\<rparr>) l" x "(a, 0)"]
    assms(4,5)
  by (auto simp: bootstrap_postgres_table_oid_map_def pg_send_def)

text \<open>So a query that fails leaves the session without table names, marked as done.\<close>

theorem failed_catalog_query_is_done:
  assumes "cf_rules (as_config (ps_state ses)) \<noteq> []" "\<not> ps_oid_bootstrap_done ses"
    and "lg_codec (ps_upstream ses) = pg_new_upstream"
    and "leg_rest (ps_upstream ses) = pg_encode (PRegular e) @ pg_encode ready @ x"
    and "pg_wf (PRegular e)" "pr_message_type e = 0x45"
  shows "\<exists>ses'. pg_ready_for_query r ses = (None, ses') \<and> ps_oid_bootstrap_done ses'
     \<and> ps_interceptor ses' = ps_interceptor ses \<and> leg_rest (ps_upstream ses') = x"
proof -
  have "\<exists>l'. bootstrap_loop (pg_send (PQuery \<lparr>pq_query = bytes_of_str OID_LOOKUP_QUERY\<rparr>) (ps_upstream ses)) (ps_interceptor ses, 0)
      = (Ok 0, l', ps_interceptor ses) \<and> leg_rest l' = x"
    using bootstrap_loop_reply [of "[PRegular e]" ready "pg_send (PQuery \<lparr>pq_query = bytes_of_str OID_LOOKUP_QUERY\<rparr>) (ps_upstream ses)" x "(ps_interceptor ses, 0)"]
      assms wf_ready by (auto simp: pg_send_def ready_def simp del: pg_encode.simps)
  with assms(1) show ?thesis
    by (auto simp: pg_ready_for_query_def bootstrap_postgres_table_oid_map_def Let_def)
qed


theorem table_map_from_reply_witness:
  "let row = PDataRow \<lparr>dr_values = map (Some \<circ> bytes_of_str) [''7'', ''public'', ''users'', ''2'', ''email'']\<rparr> in
   \<exists>l' a'. bootstrap_postgres_table_oid_map (demo_leg [row, ready]) (anonymizer_new 1) = (Ok 1, l', a')
     \<and> an_table_names_by_oid a' 7 = [''users'', ''public.users''] \<and> an_column_names_by_oid a' (7, 2) = Some ''email''"
proof -
  let ?row = "PDataRow \<lparr>dr_values = map (Some \<circ> bytes_of_str) [''7'', ''public'', ''users'', ''2'', ''email'']\<rparr>"
  have w: "pg_wf ?row"
    by (simp add: pg_wf_def MAX_FRAME_LEN_def encode_pg_value_def bytes_of_str_def)
  let ?text = "decode_postgres_data_row_text_value \<lparr>dr_values = map (Some \<circ> bytes_of_str) [''7'', ''public'', ''users'', ''2'', ''email'']\<rparr>"
  have v: "?text 0 = Some ''7''" "?text 1 = Some ''public''" "?text 2 = Some ''users''" "?text 3 = Some ''2''"
    "?text 4 = Some ''email''" by code_simp+
  have p: "parse_nat ''7'' = Some 7" "parse_nat ''2'' = Some 2" by code_simp+
  then have i: "parse_u32 ''7'' = Some 7" "parse_i16 ''2'' = Some 2"
    by (simp_all add: parse_u32_def parse_i16_def)
  have n: "normalize_identifier ''users'' = ''users''"
    "normalize_identifier ''public.users'' = ''public.users''" "normalize_identifier ''email'' = ''email''"
    by code_simp+
  have "snd (catalog_row ?row (anonymizer_new 1, 0)) = 1
    \<and> an_table_names_by_oid (fst (catalog_row ?row (anonymizer_new 1, 0))) 7 = [''users'', ''public.users'']
    \<and> an_column_names_by_oid (fst (catalog_row ?row (anonymizer_new 1, 0))) (7, 2) = Some ''email''"
    unfolding catalog_row.simps bootstrap_row_def Let_def prod.case v
    by (simp add: n i register_postgres_table_oid_def register_postgres_column_def anonymizer_new_def)
  with table_map_from_reply [of "[?row]" ready "demo_leg [?row, ready]" "[]" "anonymizer_new 1"] w wf_ready show ?thesis
    by (auto simp: demo_leg_def leg_rest_def ready_def simp del: pg_encode.simps catalog_row.simps)
qed

theorem failed_catalog_query_is_done_witness:
  "let ses = demo_session (test_state [test_rule] True) []
       [PRegular \<lparr>pr_message_type = 0x45, pr_payload = [0]\<rparr>, ready] False in
   \<exists>ses'. pg_ready_for_query \<lparr>pr_message_type = 0x5A, pr_payload = [0x49]\<rparr> ses = (None, ses')
     \<and> ps_oid_bootstrap_done ses'"
proof -
  let ?e = "\<lparr>pr_message_type = 0x45, pr_payload = [0]\<rparr>"
  let ?ses = "demo_session (test_state [test_rule] True) [] [PRegular ?e, ready] False"
  have "\<exists>ses'. pg_ready_for_query \<lparr>pr_message_type = 0x5A, pr_payload = [0x49]\<rparr> ?ses = (None, ses')
     \<and> ps_oid_bootstrap_done ses' \<and> ps_interceptor ses' = ps_interceptor ?ses \<and> leg_rest (ps_upstream ses') = []"
    by (rule failed_catalog_query_is_done [of _ ?e])
       (simp_all add: demo_session_def demo_leg_def leg_rest_def test_state_def app_state_new_def
          pg_wf_def MAX_FRAME_LEN_def del: pg_encode.simps)
  then show ?thesis by auto
qed

section \<open>TLS\<close>

lemma bootstrap_loop_writes: "bootstrap_loop l al = (r, l', a) \<Longrightarrow> writes_on l l'"
proof (induction l al arbitrary: r l' a rule: bootstrap_loop.induct)
  case (1 l al)
  obtain q k where n: "leg_next pg_decode l = (q, k)" by fastforce
  from pg.leg_next_writes [OF n] have w: "writes_on l k" .
  have "writes_on k l'"
    using "1.prems" "1.IH" [of _ k] n
    by (auto simp: bootstrap_loop.simps [of l] split: result.splits option.splits pg_msg.splits if_splits)
  with w show ?case by (rule writes_on_trans)
qed

definition session_writes :: "pg_session \<Rightarrow> pg_session \<Rightarrow> bool" where
  "session_writes a b \<longleftrightarrow> writes_on (ps_client a) (ps_client b) \<and> writes_on (ps_upstream a) (ps_upstream b)"

lemma session_writes_refl [simp]: "session_writes a a"
  by (simp add: session_writes_def)

lemma session_writes_trans: "session_writes a b \<Longrightarrow> session_writes b c \<Longrightarrow> session_writes a c"
  unfolding session_writes_def using writes_on_trans by blast

lemma pg_client_msg_writes [simp]: "session_writes ses (pg_client_msg st m ses)"
  by (cases "(st, m, ses)" rule: pg_client_msg.cases) (simp_all add: session_writes_def)

lemma pg_ready_writes:
  assumes "pg_ready_for_query r ses = (o1, ses')"
  shows "session_writes ses ses'"
proof -
  obtain q l a where b: "bootstrap_postgres_table_oid_map (ps_upstream ses) (ps_interceptor ses) = (q, l, a)"
    by (metis prod_cases3)
  then have "writes_on (ps_upstream ses) l"
    unfolding bootstrap_postgres_table_oid_map_def
    by (rule writes_on_trans [OF writes_on_write(2) bootstrap_loop_writes])
  with assms b show ?thesis
    by (auto simp: pg_ready_for_query_def session_writes_def Let_def split: if_splits result.splits)
qed

lemma pg_upstream_msg_writes: "pg_upstream_msg cr sc st m ses = (o1, ses') \<Longrightarrow> session_writes ses ses'"
  by (cases m) (auto simp: pg_upstream_msg_def session_writes_def dest: pg_ready_writes [unfolded session_writes_def]
      split: if_splits prod.splits)

lemma pg_turn_writes:
  assumes a: "pg_turn cr sc t ses = (o1, ses')"
  shows "session_writes ses ses'"
proof (cases t)
  case (Client_Ready st)
  obtain q k where n: "leg_next pg_decode (ps_client ses) = (q, k)" by fastforce
  have "session_writes ses (ses\<lparr>ps_client := k\<rparr>)" using pg.leg_next_writes [OF n] by (simp add: session_writes_def)
  moreover have "session_writes (ses\<lparr>ps_client := k\<rparr>) ses'"
    using a Client_Ready n by (auto simp: pg_turn_def Let_def split: result.splits option.splits)
  ultimately show ?thesis by (rule session_writes_trans)
next
  case (Upstream_Ready st)
  obtain q k where n: "leg_next pg_decode (ps_upstream ses) = (q, k)" by fastforce
  have "session_writes ses (ses\<lparr>ps_upstream := k\<rparr>)" using pg.leg_next_writes [OF n] by (simp add: session_writes_def)
  moreover have "session_writes (ses\<lparr>ps_upstream := k\<rparr>) ses'"
    using a Upstream_Ready n
    by (auto simp: pg_turn_def Let_def dest: pg_upstream_msg_writes split: result.splits option.splits)
  ultimately show ?thesis by (rule session_writes_trans)
qed (use a in \<open>auto simp: pg_turn_def session_writes_def\<close>)

lemma pg_run_writes: "pg_run cr sc ts ses = (o1, ses') \<Longrightarrow> session_writes ses ses'"
  by (rule pg_loop.run_preserves [OF _ pg_turn_writes session_writes_refl session_writes_trans])

lemma run_inner_writes:
  assumes "run_inner cr sc n cl up s ts = (r, cl', up', s')"
  obtains u where "up' = Some u" "writes_on cl cl'" "writes_on up u"
proof -
  let ?ses = "\<lparr>ps_client = cl\<lparr>lg_codec := pg_new\<rparr>, ps_upstream = up\<lparr>lg_codec := pg_new_upstream\<rparr>,
       ps_state = s, ps_connection_id = n, ps_interceptor = anonymizer_new n, ps_oid_bootstrap_done = False, ps_query_started_at = None\<rparr>"
  from assms obtain ses' where e: "pg_run cr sc ts ?ses = (r, ses')" "cl' = ps_client ses'" "up' = Some (ps_upstream ses')"
    by (auto simp: run_inner_def handle_postgres_protocol_inner_def split: prod.splits)
  from pg_run_writes [OF e(1)] have "writes_on cl cl'" "writes_on up (ps_upstream ses')"
    by (simp_all add: session_writes_def e(2) writes_on_def)
  with e(3) that show ?thesis by blast
qed

definition only_ssl_in_clear :: "pg_leg option \<Rightarrow> bool" where
  "only_ssl_in_clear up \<longleftrightarrow> (\<forall>u. up = Some u \<longrightarrow> (\<forall>(tls, wr) \<in> set (lg_out u). tls \<or> wr = Raw SSL_REQUEST))"

lemma only_ssl_run:
  assumes "run_inner cr sc n cl (secured plain (l\<lparr>lg_in := rs\<rparr>)) s ts = (r, cl', up', s')"
    and "\<forall>(tls, wr) \<in> set (lg_out l). wr = Raw SSL_REQUEST"
  shows "only_ssl_in_clear up'"
proof -
  obtain u where "up' = Some u" "writes_on (secured plain (l\<lparr>lg_in := rs\<rparr>)) u"
    using run_inner_writes [OF assms(1)] by metis
  with assms(2) show ?thesis by (fastforce simp: only_ssl_in_clear_def writes_on_def secured_def)
qed

lemma upstream_leg_writes:
  assumes "upstream_leg cr sc w host s cl reads ts = (r, cl', up', s')"
  shows "writes_on cl cl'" and "cf_upstream_tls (as_config s) \<Longrightarrow> only_ssl_in_clear up'"
proof -
  have run: "run_inner cr sc n cl u s ts = (r, cl', up', s') \<Longrightarrow> writes_on cl cl'" for n u
    by (metis run_inner_writes)
  show "writes_on cl cl'"
    using assms by (auto simp: upstream_leg_def Let_def dest: run split: if_splits result.splits prod.splits)
  show "only_ssl_in_clear up'" if "cf_upstream_tls (as_config s)"
  proof -
    let ?u = "write_sent (Raw SSL_REQUEST) (new_leg pg_new_upstream reads False)"
    have u: "\<forall>(tls, wr) \<in> set (lg_out ?u). wr = Raw SSL_REQUEST" by (simp add: new_leg_def)
    then have refused: "only_ssl_in_clear (Some (?u\<lparr>lg_in := rs\<rparr>))" "only_ssl_in_clear (Some ?u)" for rs
      by (auto simp: only_ssl_in_clear_def)
    show ?thesis
      using assms that only_ssl_run [OF _ u, of cr sc _ cl] refused
      by (auto simp: upstream_leg_def Let_def split: if_splits result.splits prod.splits)
  qed
qed

lemma handle_postgres_writes:
  assumes "handle_postgres_protocol cr sc w host s cl ts = (r, cl', up', s')"
  shows "writes_on cl cl'" and "cf_upstream_tls (as_config s) \<Longrightarrow> only_ssl_in_clear up'"
  using assms
  by (auto simp: handle_postgres_protocol_def Let_def only_ssl_in_clear_def [of None] dest: upstream_leg_writes
      split: prod.splits option.splits upstream_pool_acquire_error.splits result.splits)

lemma client_under_tls:
  "writes_on l l' \<Longrightarrow> lg_tls l \<Longrightarrow> (tls, wr) \<in> set (lg_out l') \<Longrightarrow> tls \<or> (tls, wr) \<in> set (lg_out l)"
  by (auto simp: writes_on_def)

text \<open>A client whose first bytes are no request for TLS is served in clear whatever the TLS configuration
  towards clients: its session is the one of a proxy without an acceptor, and so no certificate is asked
  for, required or not.\<close>

lemma plaintext_client_skips_tls:
  assumes "\<not> (8 \<le> length (concat client_reads) \<and> be_nat (take 4 (concat client_reads)) = 8
      \<and> be_nat (take 4 (drop 4 (concat client_reads))) = 80877103)"
  shows "process_postgres_connection cr sc w host s client_reads ts
    = process_postgres_connection cr sc (w\<lparr>pw_tls_acceptor := None\<rparr>) host s client_reads ts"
proof -
  let ?w = "w\<lparr>pw_tls_acceptor := None\<rparr>"
  have f: "pw_tls_connect ?w = pw_tls_connect w" "pw_connection_id ?w = pw_connection_id w"
    "pw_upstream_pool ?w = pw_upstream_pool w" "pw_connect ?w = pw_connect w" by simp_all
  have u: "upstream_leg cr sc ?w = upstream_leg cr sc w"
    unfolding upstream_leg_def [abs_def] f ..
  have "handle_postgres_protocol cr sc ?w = handle_postgres_protocol cr sc w"
    unfolding handle_postgres_protocol_def [abs_def] f u ..
  with assms show ?thesis by (auto simp: process_postgres_connection_def Let_def)
qed

text \<open>C15: TLS is not given up. When the configuration requires it upstream, nothing but the SSLRequest is
  ever written to the upstream in clear, whatever the server answers; and a client that starts with an
  SSLRequest to a proxy with a certificate is sent nothing but the accepting byte in clear.\<close>

theorem postgres_tls_is_kept:
  assumes "process_postgres_connection cr sc w host s reads ts = (r, cl, up, s')"
  shows "(cf_upstream_tls (as_config s) \<longrightarrow>
       (\<forall>u. up = Some u \<longrightarrow> (\<forall>(tls, wr) \<in> set (lg_out u). tls \<or> wr = Raw SSL_REQUEST)))
     \<and> (pw_tls_acceptor w \<noteq> None \<and> take 8 (concat reads) = SSL_REQUEST \<longrightarrow>
       (\<forall>(tls, wr) \<in> set (lg_out cl). tls \<or> wr = Raw [0x53]))"
proof -
  have ssl: "be_nat (take 4 b) = 8 \<and> be_nat (take 4 (drop 4 b)) = 80877103 \<and> 8 \<le> length b"
    if "take 8 b = SSL_REQUEST" for b
  proof -
    have l: "length SSL_REQUEST = 8" by (simp add: SSL_REQUEST_def)
    with that have "8 \<le> length b" by (metis length_take min.cobounded1)
    moreover have "take 4 b = take 4 SSL_REQUEST" "take 4 (drop 4 b) = drop 4 SSL_REQUEST"
      unfolding that [symmetric] by (simp_all add: take_drop)
    ultimately show ?thesis by (simp add: SSL_REQUEST_def be_nat_put_u32)
  qed
  have up: "only_ssl_in_clear up" if "cf_upstream_tls (as_config s)"
    using assms that
    by (auto simp: process_postgres_connection_def Let_def only_ssl_in_clear_def [of None]
        dest: handle_postgres_writes(2) split: if_splits option.splits connect_end.splits)
  have cl: "tls \<or> wr = Raw [0x53]" if a: "pw_tls_acceptor w = Some accept" and t: "take 8 (concat reads) = SSL_REQUEST"
    and wr: "(tls, wr) \<in> set (lg_out cl)" for accept tls wr
  proof -
    let ?c = "write_sent (Raw [0x53]) ((new_leg pg_new reads False)\<lparr>lg_in := [drop 8 (concat reads)]\<rparr>) :: pg_leg"
    have "(\<exists>plain. writes_on (secured plain ?c) cl) \<or> cl = ?c \<or> lg_out cl = []"
      using assms ssl [OF t] a
      by (auto simp: process_postgres_connection_def Let_def new_leg_def
          dest: handle_postgres_writes(1) split: if_splits connect_end.splits)
    with wr show ?thesis
      by (auto simp: secured_def new_leg_def dest: client_under_tls)
  qed
  show ?thesis using up unfolding only_ssl_in_clear_def by (auto dest: cl)
qed


theorem postgres_tls_is_kept_witness:
  "let s = test_state [] True; s = s\<lparr>as_config := (as_config s)\<lparr>cf_upstream_tls := True\<rparr>\<rparr>;
       w = \<lparr>pw_peek = Done, pw_tls_acceptor = None, pw_upstream_pool = None, pw_connect = Connected [[0x4E]],
            pw_tls_connect = (\<lambda>_ r. Ok r), pw_connection_id = 1\<rparr> in
   \<exists>r cl u. process_postgres_connection test_crates test_scanner w ''db'' s [] [] = (r, cl, Some u, s)
     \<and> (\<forall>(tls, wr) \<in> set (lg_out u). tls \<or> wr = Raw SSL_REQUEST) \<and> lg_out u \<noteq> []"
proof -
  define s where "s = (test_state [] True)\<lparr>as_config := (as_config (test_state [] True))\<lparr>cf_upstream_tls := True\<rparr>\<rparr>"
  let ?w = "\<lparr>pw_peek = Done, pw_tls_acceptor = None, pw_upstream_pool = None, pw_connect = Connected [[0x4E]],
            pw_tls_connect = (\<lambda>_ r. Ok r), pw_connection_id = 1\<rparr>"
  have t: "cf_upstream_tls (as_config s)" by (simp add: s_def)
  obtain r cl u where p: "process_postgres_connection test_crates test_scanner ?w ''db'' s [] [] = (r, cl, Some u, s)" "lg_out u \<noteq> []"
    by (simp add: process_postgres_connection_def handle_postgres_protocol_def connect_upstream_with_timeout_def
        upstream_leg_def read_exact_def new_leg_def t split_beta write_sent_def)
  with postgres_tls_is_kept [OF p(1)] t show ?thesis
    unfolding Let_def s_def [symmetric] by blast
qed

end
