(* ===== verification/No_Panic.thy ===== *)
theory No_Panic
  imports MySql_Tls Pg_Relay
begin

text \<open>
  No session panics. A panic of the code (an index out of range, \<^verbatim>\<open>advance\<close> or \<^verbatim>\<open>split_to\<close> past the
  end, a slice \<^verbatim>\<open>&s[i..j]\<close> off a character boundary, an \<^verbatim>\<open>unwrap\<close> or \<^verbatim>\<open>expect\<close>) is the value \<open>Panic\<close> of
  the model; here it is shown that no turn of the relay loops, which run the masking with its slices,
  and no phase of the logins gives it, whatever the two peers send and however their bytes are cut.
\<close>

section \<open>Turns\<close>

lemma my_next_no_panic [simp]: "leg_next my_decode l \<noteq> (Panic, k)"
  using my.leg_next_no_panic [of l] by auto

lemma pg_next_no_panic [simp]: "leg_next pg_decode l \<noteq> (Panic, k)"
  using pg.leg_next_no_panic [of l] by auto

lemma auth_step_no_panic [simp]: "auth_step w what x \<noteq> Panic"
  by (cases w) (simp_all add: auth_step_def)

lemma bootstrap_loop_no_panic: "bootstrap_loop l al \<noteq> (Panic, k, a)"
proof (induction l al arbitrary: k a rule: bootstrap_loop.induct)
  case (1 l al)
  then show ?case
    by (auto simp: bootstrap_loop.simps [of l] split: result.splits option.splits pg_msg.splits prod.splits)
qed

lemma pg_turn_no_panic: "pg_turn cr sc t ses \<noteq> (Some Panic, ses')"
proof -
  have "pg_ready_for_query m s \<noteq> (Some Panic, s')" for m s s'
    using bootstrap_loop_no_panic
    by (auto simp: pg_ready_for_query_def bootstrap_postgres_table_oid_map_def Let_def split: result.splits prod.splits)
  then have "pg_upstream_msg cr sc st m s \<noteq> (Some Panic, s')" for st m s s'
    by (cases m) (auto simp: pg_upstream_msg_def split: prod.splits)
  then show ?thesis
    by (cases t) (auto simp: pg_turn_def Let_def split: prod.splits result.splits option.splits)
qed

lemma my_turn_no_panic: "my_turn cr sc t ses \<noteq> (Some Panic, ses')"
  by (cases t) (auto simp: my_turn_def Let_def split: prod.splits result.splits option.splits)

section \<open>The MySQL login\<close>

text \<open>What the TLS and RSA libraries promise: errors, but no panic.\<close>

definition libraries_ok :: "my_world \<Rightarrow> bool" where
  "libraries_ok w \<longleftrightarrow> (\<forall>accept reads. mw_tls_acceptor w = Some accept \<longrightarrow> accept reads \<noteq> Panic)
     \<and> (\<forall>host reads. mw_tls_connect w host reads \<noteq> Panic) \<and> (\<forall>der. rs_from_der (mw_rsa w) der \<noteq> Panic)"

lemma auth_next_no_panic [simp]: "auth_next w what k l \<noteq> (Panic, l')"
  by (auto simp: auth_next_def split: result.splits)

lemma phase_handshake_no_panic: "phase_handshake w c u \<noteq> (Panic, c', u')"
  by (auto simp: phase_handshake_def split: result.splits option.splits my_msg.splits prod.splits)

lemma read_response_no_panic [simp]: "read_response w what other c \<noteq> (Panic, c')"
  by (auto simp: read_response_def split: result.splits option.splits my_msg.splits prod.splits)

lemma upgrade_client_no_panic: "libraries_ok w \<Longrightarrow> upgrade_client w caps c \<noteq> Panic"
  by (auto simp: upgrade_client_def libraries_ok_def auth_step_def rbind_eq_Panic_iff
      split: option.splits wait_end.splits)

lemma phase_response_no_panic: "libraries_ok w \<Longrightarrow> phase_response w c \<noteq> (Panic, c')"
  by (auto simp: phase_response_def rbind_eq_Panic_iff upgrade_client_no_panic
      split: result.splits option.splits if_splits prod.splits)

lemma client_scramble_no_panic [simp]: "client_scramble w auth response nonce seq l \<noteq> (Panic, k)"
  by (auto simp: client_scramble_def Let_def split: if_splits result.splits prod.splits option.splits my_msg.splits)

lemma authenticate_client_no_panic [simp]: "authenticate_client dg w auth response nonce seq l \<noteq> (Panic, k, calls)"
  by (auto simp: authenticate_client_def Let_def split: result.splits option.splits prod.splits if_splits)

text \<open>The \<^verbatim>\<open>expect\<close> on the client's nonce holds, because the handshake drew one.\<close>

lemma phase_client_auth_no_panic:
  "mw_terminating_auth w \<noteq> None \<longrightarrow> nonce \<noteq> None \<Longrightarrow> phase_client_auth w response nonce tls c \<noteq> (Panic, c', calls)"
  by (auto simp: phase_client_auth_def Let_def split: option.splits result.splits prod.splits)

lemma answer_no_crash:
  assumes "\<forall>der. rs_from_der lib der \<noteq> Panic"
  shows "answer_auth_packet dg lib auth tls nonce sent_rsa payload \<noteq> Crash"
proof -
  have "parse_auth_switch_request payload \<noteq> Panic"
    by (auto simp: parse_auth_switch_request_def Let_def split: list.splits option.splits if_splits)
  moreover have "full_auth_reply lib auth tls nonce sent_rsa \<noteq> Panic"
    using assms by (auto simp: full_auth_reply_def build_rsa_encrypted_password_def rbind_eq_Panic_iff Let_def
        split: option.splits if_splits)
  ultimately show ?thesis
    by (auto simp: answer_auth_packet_def split: result.splits option.splits prod.splits auth_more_data.splits)
qed

lemma upstream_auth_loop_no_panic:
  assumes "\<forall>der. rs_from_der lib der \<noteq> Panic"
  shows "upstream_auth_loop dg lib w auth tls rounds nonce sent_rsa l \<noteq> (Panic, k)"
  using assms
proof (induction dg lib w auth tls rounds nonce sent_rsa l arbitrary: k rule: upstream_auth_loop.induct)
  case (1 dg lib w auth tls rounds nonce sent_rsa l)
  from 1 answer_no_crash [OF "1.prems"] show ?case
    by (subst upstream_auth_loop.simps)
       (auto simp: Let_def split: result.splits option.splits my_msg.splits prod.splits auth_move.splits)
qed

lemma passthrough_round_no_panic [simp]: "passthrough_round w k c u \<noteq> (Some Panic, c', u')"
  by (auto simp: passthrough_round_def Let_def split: result.splits option.splits my_msg.splits prod.splits if_splits)

lemma passthrough_loop_no_panic: "passthrough_loop w k c u \<noteq> (Panic, c', u')"
proof (induction w k c u arbitrary: c' u' rule: passthrough_loop.induct)
  case (1 w k c u)
  then show ?case
    by (subst passthrough_loop.simps) (auto simp: Let_def split: option.splits prod.splits)
qed

lemma phase_upstream_tls_no_panic: "libraries_ok w \<Longrightarrow> phase_upstream_tls w req host h response u \<noteq> (Panic, k)"
  by (auto simp: phase_upstream_tls_def libraries_ok_def Let_def split: result.splits if_splits)

lemma phase_terminate_no_panic: "libraries_ok w \<Longrightarrow> phase_terminate w tls auth h response seq c u \<noteq> (Panic, c', u')"
  by (auto simp: phase_terminate_def libraries_ok_def authenticate_upstream_def upstream_auth_loop_no_panic Let_def
      split: result.splits prod.splits)

lemma phase_passthrough_no_panic: "phase_passthrough w tls response c u \<noteq> (Panic, c', u')"
  by (simp add: phase_passthrough_def passthrough_loop_no_panic)

section \<open>The sessions\<close>

lemma pg_run_no_panic [simp]: "pg_run cr sc ts ses \<noteq> (Some Panic, ses')"
  using pg_loop.run_ends_in_turn pg_turn_no_panic by metis

lemma my_run_no_panic [simp]: "my_run cr sc ts ses \<noteq> (Some Panic, ses')"
  using my_loop.run_ends_in_turn my_turn_no_panic by metis

lemma run_inner_no_panic [simp]: "run_inner cr sc k cl up s ts \<noteq> (Some Panic, y)"
  by (cases y) (auto simp: run_inner_def handle_postgres_protocol_inner_def split: prod.splits)

lemma read_exact_no_panic [simp]: "read_exact n reads \<noteq> Panic"
  by (simp add: read_exact_def)

lemma connect_no_panic [simp]: "connect_upstream_with_timeout t c \<noteq> (Panic, calls)"
  by (cases c) (simp_all add: connect_upstream_with_timeout_def)

lemma upstream_leg_no_panic:
  "\<forall>reads. pw_tls_connect w host reads \<noteq> Panic \<Longrightarrow> upstream_leg cr sc w host s cl reads ts \<noteq> (Some Panic, y)"
  by (auto simp: upstream_leg_def Let_def split: if_splits result.splits prod.splits)

lemma handle_postgres_no_panic:
  "\<forall>reads. pw_tls_connect w host reads \<noteq> Panic \<Longrightarrow> handle_postgres_protocol cr sc w host s cl ts \<noteq> (Some Panic, y)"
  by (auto simp: handle_postgres_protocol_def Let_def upstream_leg_no_panic
      split: prod.splits option.splits upstream_pool_acquire_error.splits result.splits)

lemma process_postgres_no_panic:
  "\<forall>reads. pw_tls_connect w host reads \<noteq> Panic \<Longrightarrow> process_postgres_connection cr sc w host s reads ts \<noteq> (Some Panic, y)"
  by (auto simp: process_postgres_connection_def Let_def handle_postgres_no_panic
      split: if_splits option.splits connect_end.splits)

lemma ended_no_panic: "r \<noteq> Panic \<Longrightarrow> ended r \<noteq> Some Panic"
  by (cases r) simp_all

lemma login_and_commands_no_panic:
  assumes "libraries_ok w"
  shows "login_and_commands cr sc w host s h response seq c u ts \<noteq> (Some Panic, y)"
  using assms
  by (cases y) (auto simp: login_and_commands_def Let_def phase_upstream_tls_no_panic phase_terminate_no_panic
      phase_passthrough_no_panic split: result.splits option.splits prod.splits)

lemma handle_mysql_no_panic:
  assumes "libraries_ok w"
  shows "handle_mysql_protocol cr sc w host s cin uin ts \<noteq> (Some Panic, y)"
proof -
  obtain q c u where 1: "phase_handshake w (new_leg new_server cin False) (new_leg new_client uin False) = (q, c, u)"
    by (metis prod_cases3)
  have q: "q \<noteq> Panic" using 1 phase_handshake_no_panic by metis
  show ?thesis
  proof (cases "\<exists>h nonce. q = Ok (Some (h, nonce))")
    case True
    then obtain h nonce where ok: "q = Ok (Some (h, nonce))" by blast
    with 1 phase_handshake_nonce have n: "mw_terminating_auth w \<noteq> None \<longrightarrow> nonce \<noteq> None" by fastforce
    from assms show ?thesis
      by (cases y) (auto simp: handle_mysql_protocol_def 1 ok Let_def phase_response_no_panic
          phase_client_auth_no_panic [OF n] login_and_commands_no_panic
          split: result.splits option.splits prod.splits)
  next
    case False
    with q show ?thesis
      by (cases q) (auto simp: handle_mysql_protocol_def 1 Let_def split: option.splits)
  qed
qed

lemma process_mysql_no_panic:
  "libraries_ok w \<Longrightarrow> process_mysql_connection cr sc w host s connected cin ts \<noteq> (Some Panic, y)"
  by (auto simp: process_mysql_connection_def Let_def handle_mysql_no_panic split: prod.splits result.splits)

section \<open>Properties\<close>



end
