(* ===== verification/Db_Scanner.thy ===== *)
theory Db_Scanner
  imports Complex_Main "HOL-Library.List_Lexorder" State Scanner
begin

text \<open>
  The database scanner, \<^verbatim>\<open>src/src/db_scanner.rs\<close>: which columns are sampled, how names and sampled
  values are combined into findings, and what a report shows. The SQL client (tokio-postgres) is
  the record \<open>db_client\<close> of the answers the code asks it for; the iteration order of a
  \<^verbatim>\<open>HashMap\<close> is a parameter. An \<^verbatim>\<open>f64\<close> is an exact rational: the rounding of its last place is
  not modelled.
\<close>

section \<open>Data\<close>

datatype scan_error =
    ConnectionFailed string
  | QueryFailed string
  | UnsupportedProtocol db_protocol
  | AuthRequired

record scan_config =
  sn_username :: string
  sn_password :: string
  sn_database :: string
  sn_sample_size :: nat
  sn_schema :: string
  sn_exclude_tables :: "string list"
  sn_confidence_threshold :: rat

definition MAX_SAMPLE_SIZE :: nat where "MAX_SAMPLE_SIZE = 1000"
definition default_sample_size :: nat where "default_sample_size = 100"
definition default_schema :: string where "default_schema = ''public''"
definition default_confidence_threshold :: rat where "default_confidence_threshold = 1 / 2"

record column_info =
  ci_table_name :: string
  ci_column_name :: string
  ci_data_type :: string
  ci_is_nullable :: bool
  ci_character_maximum_length :: "int option"

record pii_finding =
  pf_table :: string
  pf_column :: string
  pf_pii_type :: pii_type
  pf_confidence :: rat
  pf_sample :: "string option"
  pf_row_count :: nat
  pf_match_count :: nat
  pf_data_type :: string

record scan_result =
  sr_status :: string
  sr_tables_scanned :: nat
  sr_columns_scanned :: nat
  sr_findings :: "pii_finding list"
  sr_schema :: string
  sr_database :: string
  sr_scan_duration_ms :: nat

record table_info =
  ti_name :: string
  ti_columns :: "column_info list"
  ti_row_count :: "int option"

record schema_info =
  si_database :: string
  si_schema :: string
  si_tables :: "table_info list"

text \<open>A cell as the driver hands it out: the text of \<^verbatim>\<open>try_get\<close> at each type the code tries.\<close>

record sql_cell =
  ce_name :: string
  ce_type :: string
  ce_i64 :: "string option"
  ce_f64 :: "string option"
  ce_bool :: "string option"
  ce_string :: "string option"

text \<open>What the builder of tokio-postgres is given, and a row of the query for the columns.\<close>

record pg_config =
  pq_host :: string
  pq_port :: u16
  pq_user :: string
  pq_password :: string
  pq_dbname :: string
  pq_connect_timeout_secs :: nat
  pq_tls :: bool

record columns_row =
  cr_table_name :: string
  cr_column_name :: string
  cr_data_type :: string
  cr_is_nullable :: string
  cr_character_maximum_length :: "int option"

record db_client =
  db_connect :: "pg_config \<Rightarrow> string + unit"
  db_columns :: "string \<Rightarrow> string \<Rightarrow> string + columns_row list"
  db_live_rows :: "string \<Rightarrow> string \<Rightarrow> string + int option"
  db_query :: "string \<Rightarrow> string + sql_cell list list"

record db_scanner =
  ds_host :: string
  ds_port :: u16
  ds_protocol :: db_protocol
  ds_pii_scanner :: pii_scanner

section \<open>Connecting\<close>

text \<open>Every value goes through the builder, so nothing in it can add a parameter; the connection has no TLS.\<close>

definition connect_postgres :: "db_client \<Rightarrow> db_scanner \<Rightarrow> scan_config \<Rightarrow> scan_error + unit" where
  "connect_postgres db sc config =
     (case db_connect db \<lparr>pq_host = ds_host sc, pq_port = ds_port sc, pq_user = sn_username config,
             pq_password = sn_password config, pq_dbname = sn_database config,
             pq_connect_timeout_secs = 10, pq_tls = False\<rparr> of
        Inl e \<Rightarrow> Inl (ConnectionFailed e)
      | Inr c \<Rightarrow> Inr c)"

text \<open>The schema is the argument \<^verbatim>\<open>$1\<close> of the query. (Its white space is not kept.)\<close>

definition COLUMNS_QUERY :: string where
  "COLUMNS_QUERY = ''SELECT table_name, column_name, data_type, is_nullable, character_maximum_length ''
     @ ''FROM information_schema.columns WHERE table_schema = $1 AND table_name NOT LIKE 'pg_%' ''
     @ ''AND table_name NOT LIKE 'sql_%' ORDER BY table_name, ordinal_position''"

definition column_of_row :: "columns_row \<Rightarrow> column_info" where
  "column_of_row row =
     \<lparr>ci_table_name = cr_table_name row, ci_column_name = cr_column_name row, ci_data_type = cr_data_type row,
      ci_is_nullable = (cr_is_nullable row = ''YES''),
      ci_character_maximum_length = cr_character_maximum_length row\<rparr>"

definition get_postgres_columns :: "db_client \<Rightarrow> string \<Rightarrow> scan_error + column_info list" where
  "get_postgres_columns db schema =
     (case db_columns db COLUMNS_QUERY schema of
        Inl e \<Rightarrow> Inl (QueryFailed e)
      | Inr rows \<Rightarrow> Inr (map column_of_row rows))"

section \<open>Columns\<close>

definition is_scannable_type :: "string \<Rightarrow> bool" where
  "is_scannable_type data_type \<longleftrightarrow> to_ascii_lowercase data_type \<in>
     {''character varying'', ''varchar'', ''text'', ''character'', ''char'', ''name'', ''citext'', ''bpchar''}"

fun contains :: "string \<Rightarrow> string \<Rightarrow> bool" where
  "contains p [] \<longleftrightarrow> p = []"
| "contains p (c # s) \<longleftrightarrow> take (length p) (c # s) = p \<or> contains p s"

text \<open>
  \<^verbatim>\<open>to_lowercase\<close> is taken on ASCII letters: no other letter has a lower case that occurs in one
  of the words it is compared with.
\<close>

definition check_column_name_heuristics :: "string \<Rightarrow> pii_type option" where
  "check_column_name_heuristics column_name =
     (let n = to_ascii_lowercase column_name in
      if contains ''email'' n \<or> contains ''e_mail'' n \<or> n = ''mail'' then Some Email
      else if contains ''phone'' n \<or> contains ''mobile'' n \<or> contains ''cell'' n \<or> contains ''tel'' n \<or> n = ''fax''
      then Some Phone
      else if contains ''ssn'' n \<or> contains ''social_security'' n \<or> contains ''socialsecurity'' n
        \<or> n = ''sin'' \<or> n = ''national_id'' then Some Ssn
      else if contains ''credit_card'' n \<or> contains ''creditcard'' n \<or> contains ''card_number'' n
        \<or> contains ''cardnumber'' n \<or> n = ''cc_num'' \<or> n = ''pan'' then Some CreditCard
      else if contains ''ip_address'' n \<or> contains ''ipaddress'' n \<or> n = ''ip'' \<or> n = ''client_ip''
        \<or> n = ''remote_addr'' then Some IpAddress
      else if contains ''birth'' n \<or> n = ''dob'' \<or> n = ''birthdate'' \<or> n = ''date_of_birth'' then Some DateOfBirth
      else if contains ''passport'' n then Some Passport
      else None)"

section \<open>Sampling\<close>

fun quote_ident :: "string \<Rightarrow> string" where
  "quote_ident [] = []"
| "quote_ident (c # s) = (if c = CHR 0x22 then [CHR 0x22, CHR 0x22] @ quote_ident s else c # quote_ident s)"

definition sample_query :: "string \<Rightarrow> string \<Rightarrow> nat \<Rightarrow> string" where
  "sample_query schema table limit =
     ''SELECT * FROM '' @ [CHR 0x22] @ quote_ident schema @ [CHR 0x22] @ ''.'' @ [CHR 0x22] @ quote_ident table @ [CHR 0x22]
       @ '' LIMIT '' @ show_nat (min limit MAX_SAMPLE_SIZE)"

definition cell_text :: "sql_cell \<Rightarrow> string option" where
  "cell_text c =
     (if ce_type c \<in> {''int2'', ''int4'', ''int8'', ''float4'', ''float8'', ''numeric''}
      then (case ce_i64 c of Some v \<Rightarrow> Some v | None \<Rightarrow> ce_f64 c)
      else if ce_type c = ''bool'' then ce_bool c
      else ce_string c)"

type_synonym sample_row = "string \<Rightarrow> string option option"

definition row_map :: "sql_cell list \<Rightarrow> sample_row" where
  "row_map row = fold (\<lambda>c m. m(ce_name c \<mapsto> cell_text c)) row Map.empty"

definition sample_postgres_table :: "db_client \<Rightarrow> string \<Rightarrow> string \<Rightarrow> nat \<Rightarrow> scan_error + sample_row list" where
  "sample_postgres_table db schema table limit =
     (case db_query db (sample_query schema table limit) of
        Inl e \<Rightarrow> Inl (QueryFailed (''Failed to sample '' @ schema @ ''.'' @ table @ '': '' @ e))
      | Inr rows \<Rightarrow> Inr (map row_map rows))"

text \<open>\<^verbatim>\<open>max_by_key\<close>: of several maxima the last.\<close>

definition max_by_key :: "('a \<Rightarrow> nat) \<Rightarrow> 'a list \<Rightarrow> 'a option" where
  "max_by_key f xs = foldl (\<lambda>best x. case best of None \<Rightarrow> Some x
     | Some b \<Rightarrow> if f b \<le> f x then Some x else Some b) None xs"

text \<open>The loop over the sampled rows; \<open>type_order\<close> is the order in which the map of the counters is
  iterated, only types that were counted being in it.\<close>

definition scan_value :: "pii_scanner \<Rightarrow> string \<Rightarrow> sample_row \<Rightarrow> nat \<times> (pii_type \<Rightarrow> nat) \<times> string option
    \<Rightarrow> nat \<times> (pii_type \<Rightarrow> nat) \<times> string option" where
  "scan_value sc column_name row st =
     (case row column_name of
        Some (Some v) \<Rightarrow>
          (let trimmed = trim v in
           if trimmed = [] then st
           else case scan sc trimmed of
             None \<Rightarrow> st
           | Some t \<Rightarrow> (case st of (match_count, counts, sample) \<Rightarrow>
               (match_count + 1, counts(t := counts t + 1), case sample of None \<Rightarrow> Some v | Some s \<Rightarrow> Some s)))
      | _ \<Rightarrow> st)"

definition scan_column_values :: "pii_scanner \<Rightarrow> pii_type list \<Rightarrow> sample_row list \<Rightarrow> string
    \<Rightarrow> nat \<times> pii_type option \<times> string option" where
  "scan_column_values sc type_order sample_data column_name =
     (let (match_count, counts, sample) = fold (scan_value sc column_name) sample_data (0, \<lambda>_. 0, None)
      in (match_count, max_by_key counts (filter (\<lambda>t. 0 < counts t) type_order), sample))"

definition char_count :: "string \<Rightarrow> nat" where
  "char_count s = length (filter (\<lambda>c. \<not> (0x80 \<le> char_code c \<and> char_code c < 0xC0)) s)"

definition mask_sample :: "string \<Rightarrow> string" where
  "mask_sample v = ''*** ('' @ show_nat (char_count v) @ '' chars)''"

section \<open>Findings\<close>

text \<open>Name and data combined into the type and confidence of a column.\<close>

definition combine_evidence :: "rat \<Rightarrow> pii_type option \<Rightarrow> pii_type option \<Rightarrow> rat \<Rightarrow> pii_type option \<times> rat" where
  "combine_evidence threshold name_pii_type detected_type confidence =
     (case name_pii_type of
        Some name_type \<Rightarrow>
          (case detected_type of
             Some data_type \<Rightarrow>
               (if name_type = data_type then (Some data_type, min (confidence + 3 / 10) 1)
                else (Some data_type, confidence * (8 / 10)))
           | None \<Rightarrow>
               (if confidence < threshold then (Some name_type, 6 / 10)
                else (detected_type, confidence)))
      | None \<Rightarrow> (detected_type, confidence))"

definition round_percent :: "rat \<Rightarrow> rat" where
  "round_percent c = of_int \<lfloor>c * 100 + 1 / 2\<rfloor> / 100"

definition column_finding :: "pii_scanner \<Rightarrow> pii_type list \<Rightarrow> scan_config \<Rightarrow> sample_row list \<Rightarrow> column_info
    \<Rightarrow> pii_finding option" where
  "column_finding sc type_order config sample_data col =
     (if \<not> is_scannable_type (ci_data_type col) then None
      else
        let name_pii_type = check_column_name_heuristics (ci_column_name col);
            (match_count, detected_type, sample_value) =
              scan_column_values sc type_order sample_data (ci_column_name col);
            row_count = length sample_data;
            confidence = (if 0 < row_count then of_nat match_count / of_nat row_count else 0);
            (final_type, final_confidence) =
              combine_evidence (sn_confidence_threshold config) name_pii_type detected_type confidence
        in case final_type of
             None \<Rightarrow> None
           | Some t \<Rightarrow>
               if sn_confidence_threshold config \<le> final_confidence then
                 Some \<lparr>pf_table = ci_table_name col, pf_column = ci_column_name col, pf_pii_type = t,
                   pf_confidence = round_percent final_confidence,
                   pf_sample = map_option mask_sample sample_value, pf_row_count = row_count,
                   pf_match_count = match_count, pf_data_type = ci_data_type col\<rparr>
               else None)"

definition table_columns :: "column_info list \<Rightarrow> string \<Rightarrow> column_info list" where
  "table_columns columns table = filter (\<lambda>c. ci_table_name c = table) columns"

fun scan_tables :: "pii_scanner \<Rightarrow> pii_type list \<Rightarrow> db_client \<Rightarrow> scan_config \<Rightarrow> column_info list \<Rightarrow> string list
    \<Rightarrow> scan_error + nat \<times> pii_finding list" where
  "scan_tables sc type_order db config columns [] = Inr (0, [])"
| "scan_tables sc type_order db config columns (table # ts) =
     (case sample_postgres_table db (sn_schema config) table (sn_sample_size config) of
        Inl e \<Rightarrow> Inl e
      | Inr sample_data \<Rightarrow>
          (let cols = table_columns columns table;
               found = List.map_filter (column_finding sc type_order config sample_data) cols
           in case scan_tables sc type_order db config columns ts of
                Inl e \<Rightarrow> Inl e
              | Inr (n, fs) \<Rightarrow> Inr (length cols + n, found @ fs)))"

text \<open>\<open>table_order\<close> is the iteration order of the map of tables.\<close>

definition scan_postgres :: "db_client \<Rightarrow> (string list \<Rightarrow> string list) \<Rightarrow> pii_type list \<Rightarrow> nat \<Rightarrow> db_scanner
    \<Rightarrow> scan_config \<Rightarrow> scan_error + scan_result" where
  "scan_postgres db table_order type_order duration sc config =
     (case connect_postgres db sc config of
        Inl e \<Rightarrow> Inl e
      | Inr _ \<Rightarrow>
        (case get_postgres_columns db (sn_schema config) of
           Inl e \<Rightarrow> Inl e
         | Inr columns \<Rightarrow>
             (let tables = table_order (filter (\<lambda>t. t \<notin> set (sn_exclude_tables config))
                    (remdups (map ci_table_name columns)))
              in case scan_tables (ds_pii_scanner sc) type_order db config columns tables of
                   Inl e \<Rightarrow> Inl e
                 | Inr (columns_scanned, findings) \<Rightarrow>
                     Inr \<lparr>sr_status = ''completed'', sr_tables_scanned = length tables,
                       sr_columns_scanned = columns_scanned, sr_findings = findings,
                       sr_schema = sn_schema config, sr_database = sn_database config,
                       sr_scan_duration_ms = duration\<rparr>)))"

definition has_required_credentials :: "scan_config \<Rightarrow> bool" where
  "has_required_credentials config \<longleftrightarrow> trim (sn_username config) \<noteq> [] \<and> trim (sn_password config) \<noteq> []"

definition scan_database :: "db_client \<Rightarrow> (string list \<Rightarrow> string list) \<Rightarrow> pii_type list \<Rightarrow> nat \<Rightarrow> db_scanner
    \<Rightarrow> scan_config \<Rightarrow> scan_error + scan_result" where
  "scan_database db table_order type_order duration sc config =
     (if \<not> has_required_credentials config then Inl AuthRequired
      else case ds_protocol sc of
        Postgres \<Rightarrow> scan_postgres db table_order type_order duration sc config
      | MySql \<Rightarrow> Inl (UnsupportedProtocol MySql))"

section \<open>Schema\<close>

definition get_table_row_count :: "db_client \<Rightarrow> string \<Rightarrow> string \<Rightarrow> scan_error + int" where
  "get_table_row_count db schema table =
     (case db_live_rows db schema table of
        Inl e \<Rightarrow> Inl (QueryFailed e) | Inr None \<Rightarrow> Inr 0 | Inr (Some n) \<Rightarrow> Inr n)"

text \<open>The order of names is that of their bytes.\<close>

definition get_postgres_schema :: "db_client \<Rightarrow> (string list \<Rightarrow> string list) \<Rightarrow> db_scanner \<Rightarrow> scan_config
    \<Rightarrow> scan_error + schema_info" where
  "get_postgres_schema db table_order sc config =
     (case connect_postgres db sc config of
        Inl e \<Rightarrow> Inl e
      | Inr _ \<Rightarrow>
        (case get_postgres_columns db (sn_schema config) of
           Inl e \<Rightarrow> Inl e
         | Inr columns \<Rightarrow>
             (let names = filter (\<lambda>t. t \<notin> set (sn_exclude_tables config)) (table_order (remdups (map ci_table_name columns)));
                  tables = map (\<lambda>t. \<lparr>ti_name = t, ti_columns = table_columns columns t,
                    ti_row_count = (case get_table_row_count db (sn_schema config) t of Inl _ \<Rightarrow> None | Inr n \<Rightarrow> Some n)\<rparr>) names
              in Inr \<lparr>si_database = sn_database config, si_schema = sn_schema config,
                   si_tables = sort_key (\<lambda>t. map (of_char :: char \<Rightarrow> nat) (ti_name t)) tables\<rparr>)))"

definition get_schema :: "db_client \<Rightarrow> (string list \<Rightarrow> string list) \<Rightarrow> db_scanner \<Rightarrow> scan_config \<Rightarrow> scan_error + schema_info" where
  "get_schema db table_order sc config =
     (if \<not> has_required_credentials config then Inl AuthRequired
      else case ds_protocol sc of
        Postgres \<Rightarrow> get_postgres_schema db table_order sc config
      | MySql \<Rightarrow> Inl (UnsupportedProtocol MySql))"

section \<open>Lemmas\<close>

text \<open>How SQL reads a quoted identifier after its opening quote: up to a quote that is not doubled.\<close>

fun read_quoted :: "string \<Rightarrow> string \<times> string" where
  "read_quoted [] = ([], [])"
| "read_quoted [c] = (if c = CHR 0x22 then ([], []) else ([c], []))"
| "read_quoted (c # d # s) =
     (if c = CHR 0x22 then
        (if d = CHR 0x22 then let (v, r) = read_quoted s in (CHR 0x22 # v, r) else ([], d # s))
      else let (v, r) = read_quoted (d # s) in (c # v, r))"

lemma read_quoted_close: "\<not> starts_with r (CHR 0x22) \<Longrightarrow> read_quoted (CHR 0x22 # r) = ([], r)"
  by (cases r) (auto simp: starts_with_def)

lemma read_quoted_other: "c \<noteq> CHR 0x22 \<Longrightarrow> read_quoted (c # s) = (let (v, r) = read_quoted s in (c # v, r))"
  by (cases s) auto

lemma read_quoted_quote_ident:
  "\<not> starts_with r (CHR 0x22) \<Longrightarrow> read_quoted (quote_ident s @ CHR 0x22 # r) = (s, r)"
  by (induction s) (auto simp: read_quoted_close read_quoted_other Let_def)

lemma scan_value_count:
  "match_count \<le> n \<Longrightarrow> fst (scan_value sc col row (match_count, counts, sample)) \<le> Suc n"
  by (auto simp: scan_value_def Let_def split: option.splits)

lemma fold_scan_value_count:
  "fst st \<le> n \<Longrightarrow> fst (fold (scan_value sc col) rows st) \<le> n + length rows"
proof (induction rows arbitrary: st n)
  case (Cons row rows)
  obtain m counts sample where "st = (m, counts, sample)" by (metis prod_cases3)
  then show ?case
    using Cons.IH [of "scan_value sc col row st" "Suc n"] Cons.prems scan_value_count [of m n] by simp
qed simp

lemma scan_column_values_count:
  "scan_column_values sc type_order rows col = (match_count, t, sample) \<Longrightarrow> match_count \<le> length rows"
  using fold_scan_value_count [of "(0, \<lambda>_. 0, None)" 0 sc col rows]
  by (auto simp: scan_column_values_def Let_def split: prod.splits)

lemma combine_evidence_bounded:
  "confidence \<le> 1 \<Longrightarrow> 0 \<le> confidence \<Longrightarrow> snd (combine_evidence threshold n d confidence) \<le> 1"
  by (auto simp: combine_evidence_def split: option.split)

lemma round_percent_mono: "a \<le> b \<Longrightarrow> round_percent a \<le> round_percent b"
  by (simp add: round_percent_def divide_right_mono floor_mono)

lemma round_percent_1: "round_percent 1 = 1"
proof -
  have "\<lfloor>201 / 2 :: rat\<rfloor> = 100" by (rule floor_unique) simp_all
  then show ?thesis by (simp add: round_percent_def)
qed

lemma fold_scan_value_sample:
  "snd (snd (fold (scan_value sc col) rows st)) = Some v \<Longrightarrow>
   snd (snd st) = Some v \<or> (\<exists>row \<in> set rows. row col = Some (Some v))"
proof (induction rows arbitrary: st)
  case (Cons row rows)
  have "snd (snd (scan_value sc col row st)) = Some v \<Longrightarrow> snd (snd st) = Some v \<or> row col = Some (Some v)"
    by (auto simp: scan_value_def Let_def split: option.splits prod.splits if_splits)
  with Cons.IH [of "scan_value sc col row st"] Cons.prems show ?case by auto
qed simp

lemma scan_column_values_sample:
  "scan_column_values sc type_order rows col = (m, t, Some v) \<Longrightarrow> \<exists>row \<in> set rows. row col = Some (Some v)"
  using fold_scan_value_sample [of sc col rows "(0, \<lambda>_. 0, None)" v]
  by (auto simp: scan_column_values_def Let_def split: prod.splits)

text \<open>What every finding of a column satisfies: all its texts are the schema's, but for the sample, which
  is made of the number of characters of one of the sampled values.\<close>

definition finding_ok :: "scan_config \<Rightarrow> column_info \<Rightarrow> sample_row list \<Rightarrow> pii_finding \<Rightarrow> bool" where
  "finding_ok config col rows f \<longleftrightarrow>
     pf_table f = ci_table_name col \<and> pf_column f = ci_column_name col \<and> pf_data_type f = ci_data_type col
     \<and> is_scannable_type (ci_data_type col)
     \<and> (pf_sample f = None \<or> (\<exists>row \<in> set rows. \<exists>v. row (ci_column_name col) = Some (Some v)
          \<and> pf_sample f = Some (''*** ('' @ show_nat (char_count v) @ '' chars)'')))
     \<and> pf_row_count f = length rows \<and> pf_match_count f \<le> pf_row_count f
     \<and> round_percent (sn_confidence_threshold config) \<le> pf_confidence f \<and> pf_confidence f \<le> 1"

lemma column_finding_ok:
  assumes "column_finding sc type_order config rows col = Some f"
  shows "finding_ok config col rows f"
proof -
  obtain m d v where v: "scan_column_values sc type_order rows (ci_column_name col) = (m, d, v)" by (metis prod_cases3)
  define c where "c = (if rows \<noteq> [] then of_nat m / of_nat (length rows) else 0 :: rat)"
  define e where "e = combine_evidence (sn_confidence_threshold config)
      (check_column_name_heuristics (ci_column_name col)) d c"
  have m: "m \<le> length rows" using scan_column_values_count [OF v] .
  then have c: "0 \<le> c" "c \<le> 1" by (auto simp: c_def divide_le_eq_1)
  have "snd e \<le> 1" using combine_evidence_bounded [OF c(2,1)] by (simp add: e_def)
  then have "round_percent (snd e) \<le> 1" using round_percent_mono [of "snd e" 1] round_percent_1 by simp
  moreover from assms have "is_scannable_type (ci_data_type col)" by (auto simp: column_finding_def split: if_splits)
  moreover from assms this obtain t where "sn_confidence_threshold config \<le> snd e"
    "f = \<lparr>pf_table = ci_table_name col, pf_column = ci_column_name col, pf_pii_type = t,
        pf_confidence = round_percent (snd e), pf_sample = map_option mask_sample v, pf_row_count = length rows,
        pf_match_count = m, pf_data_type = ci_data_type col\<rparr>"
    by (auto simp: column_finding_def v Let_def e_def c_def split: prod.splits option.splits if_splits)
  ultimately show ?thesis
    using m round_percent_mono [of "sn_confidence_threshold config" "snd e"] scan_column_values_sample [of sc type_order rows "ci_column_name col" m d] v
    by (cases v) (auto simp: finding_ok_def mask_sample_def)
qed

lemma scan_tables_ok:
  "scan_tables sc type_order db config columns ts = Inr (n, fs) \<Longrightarrow> f \<in> set fs \<Longrightarrow>
   \<exists>col \<in> set columns. \<exists>rows. ci_table_name col \<in> set ts
     \<and> sample_postgres_table db (sn_schema config) (ci_table_name col) (sn_sample_size config) = Inr rows
     \<and> finding_ok config col rows f"
proof (induction ts arbitrary: n fs)
  case (Cons t ts)
  from Cons.prems(1) obtain rows n' fs' where rows: "sample_postgres_table db (sn_schema config) t (sn_sample_size config) = Inr rows"
    and rest: "scan_tables sc type_order db config columns ts = Inr (n', fs')"
    and fs: "fs = List.map_filter (column_finding sc type_order config rows) (table_columns columns t) @ fs'"
    by (auto simp: Let_def split: sum.splits)
  show ?case
  proof (cases "f \<in> set fs'")
    case True
    with Cons.IH [OF rest] show ?thesis by auto
  next
    case False
    with Cons.prems(2) fs obtain col where "col \<in> set (table_columns columns t)"
      "column_finding sc type_order config rows col = Some f"
      by (auto simp: List.map_filter_def)
    then show ?thesis using column_finding_ok rows by (auto simp: table_columns_def)
  qed
qed simp

section \<open>Properties\<close>

text \<open>C35: a scan report shows no sampled data. Every text of a finding is the schema's own (table, column and
  data type), its PII type is one of the seven, and its sample, if it has one, is three stars and the
  number of characters of a value sampled from that column: no character of the value. The finding
  lies in a table that was not excluded and in a column of a text type, counts the sampled rows and at
  most as many matches, and has a confidence between the threshold and one. The report names the schema and
  database that were asked for. Without credentials, or on MySQL, nothing is scanned.\<close>
theorem scan_report_discloses_nothing:
  assumes "scan_database db table_order type_order duration sc config = Inr r" "f \<in> set (sr_findings r)"
    and "\<forall>xs. set (table_order xs) = set xs"
  shows "has_required_credentials config \<and> ds_protocol sc = Postgres
    \<and> sr_status r = ''completed'' \<and> sr_schema r = sn_schema config \<and> sr_database r = sn_database config
    \<and> (\<exists>columns col rows.
    get_postgres_columns db (sn_schema config) = Inr columns \<and> col \<in> set columns
    \<and> ci_table_name col \<notin> set (sn_exclude_tables config)
    \<and> sample_postgres_table db (sn_schema config) (ci_table_name col) (sn_sample_size config) = Inr rows
    \<and> finding_ok config col rows f)"
proof -
  from assms(1) have c: "has_required_credentials config" "ds_protocol sc = Postgres"
    "scan_postgres db table_order type_order duration sc config = Inr r"
    by (auto simp: scan_database_def split: if_splits db_protocol.splits)
  obtain columns where cols: "get_postgres_columns db (sn_schema config) = Inr columns"
    using c(3) by (cases "get_postgres_columns db (sn_schema config)") (auto simp: scan_postgres_def split: sum.splits)
  define ts where "ts = table_order (filter (\<lambda>t. t \<notin> set (sn_exclude_tables config)) (remdups (map ci_table_name columns)))"
  obtain n fs where found: "scan_tables (ds_pii_scanner sc) type_order db config columns ts = Inr (n, fs)"
    and fs: "sr_findings r = fs" and texts: "sr_status r = ''completed''" "sr_schema r = sn_schema config" "sr_database r = sn_database config"
    using c(3) unfolding scan_postgres_def cols Let_def sum.case ts_def [symmetric]
    by (cases "scan_tables (ds_pii_scanner sc) type_order db config columns ts") (auto split: sum.splits)
  from scan_tables_ok [OF found] assms(2) [unfolded fs] obtain col rows where "col \<in> set columns" "ci_table_name col \<in> set ts"
    "sample_postgres_table db (sn_schema config) (ci_table_name col) (sn_sample_size config) = Inr rows"
    "finding_ok config col rows f" by blast
  with c(1,2) cols assms(3) texts show ?thesis by (auto simp: ts_def)
qed

definition test_columns :: "columns_row list" where
  "test_columns = [\<lparr>cr_table_name = ''users'', cr_column_name = ''contact'', cr_data_type = ''text'',
     cr_is_nullable = ''YES'', cr_character_maximum_length = None\<rparr>]"

definition test_db :: db_client where
  "test_db = \<lparr>db_connect = (\<lambda>_. Inr ()), db_columns = (\<lambda>_ _. Inr test_columns), db_live_rows = (\<lambda>_ _. Inr None),
     db_query = (\<lambda>_. Inr [[\<lparr>ce_name = ''contact'', ce_type = ''text'', ce_i64 = None, ce_f64 = None, ce_bool = None,
       ce_string = Some ''joe@corp.com''\<rparr>]])\<rparr>"

definition mail_scanner :: pii_scanner where
  "mail_scanner = \<lparr>email_regex = (\<lambda>s. s = ''joe@corp.com''), cc_regex = (\<lambda>s. False), ssn_regex = (\<lambda>s. False),
     phone_regex = (\<lambda>s. False), ip_regex = (\<lambda>s. False), dob_regex = (\<lambda>s. False), passport_regex = (\<lambda>s. False),
     email_spans = (\<lambda>s. []), phone_spans = (\<lambda>s. [])\<rparr>"

definition test_scan_config :: scan_config where
  "test_scan_config = \<lparr>sn_username = ''u'', sn_password = ''p'', sn_database = ''d'', sn_sample_size = 10,
     sn_schema = ''public'', sn_exclude_tables = [], sn_confidence_threshold = 1 / 2\<rparr>"

definition test_db_scanner :: db_scanner where
  "test_db_scanner = \<lparr>ds_host = ''h'', ds_port = 5432, ds_protocol = Postgres, ds_pii_scanner = mail_scanner\<rparr>"

text \<open>A column with one address of twelve characters.\<close>

theorem scan_report_discloses_nothing_witness:
  "\<exists>r f. scan_database test_db (\<lambda>x. x) [Email, Ssn] 3 test_db_scanner test_scan_config = Inr r
     \<and> sr_findings r = [f] \<and> pf_sample f = Some ''*** (12 chars)''
     \<and> (\<exists>col rows. sample_postgres_table test_db ''public'' (ci_table_name col) 10 = Inr rows
          \<and> finding_ok test_scan_config col rows f)"
proof -
  let ?f = "\<lparr>pf_table = ''users'', pf_column = ''contact'', pf_pii_type = Email, pf_confidence = 1,
      pf_sample = Some ''*** (12 chars)'', pf_row_count = 1, pf_match_count = 1, pf_data_type = ''text''\<rparr>"
  let ?r = "\<lparr>sr_status = ''completed'', sr_tables_scanned = 1, sr_columns_scanned = 1, sr_findings = [?f],
      sr_schema = ''public'', sr_database = ''d'', sr_scan_duration_ms = 3\<rparr>"
  have r: "scan_database test_db (\<lambda>x. x) [Email, Ssn] 3 test_db_scanner test_scan_config = Inr ?r" by code_simp
  have "?f \<in> set (sr_findings ?r)" by simp
  from scan_report_discloses_nothing [OF r this] obtain col rows where
    "sample_postgres_table test_db ''public'' (ci_table_name col) 10 = Inr rows" "finding_ok test_scan_config col rows ?f"
    by (auto simp: test_scan_config_def)
  with r show ?thesis by fastforce
qed

text \<open>The sampling query cannot be broken out of. Read as SQL reads it, it names exactly the given
  schema and table, whatever quotes they contain, and asks for at most a thousand rows.\<close>
theorem sampling_query_is_quoted:
  "\<exists>rest rest' n. sample_query schema table limit = ''SELECT * FROM '' @ [CHR 0x22] @ rest
     \<and> read_quoted rest = (schema, ''.'' @ [CHR 0x22] @ rest')
     \<and> read_quoted rest' = (table, '' LIMIT '' @ show_nat n)
     \<and> n \<le> limit \<and> n \<le> 1000"
proof -
  define n where "n = min limit MAX_SAMPLE_SIZE"
  define rest' where "rest' = quote_ident table @ CHR 0x22 # '' LIMIT '' @ show_nat n"
  define rest where "rest = quote_ident schema @ CHR 0x22 # ''.'' @ [CHR 0x22] @ rest'"
  have "read_quoted rest' = (table, '' LIMIT '' @ show_nat n)"
    unfolding rest'_def by (rule read_quoted_quote_ident) (simp add: starts_with_def)
  moreover have "read_quoted rest = (schema, ''.'' @ [CHR 0x22] @ rest')"
    unfolding rest_def by (rule read_quoted_quote_ident) (simp add: starts_with_def)
  moreover have "sample_query schema table limit = ''SELECT * FROM '' @ [CHR 0x22] @ rest"
    by (simp add: sample_query_def rest_def rest'_def n_def)
  ultimately show ?thesis
    by (intro exI [of _ rest] exI [of _ rest'] exI [of _ n]) (auto simp: n_def MAX_SAMPLE_SIZE_def)
qed

text \<open>A text column whose name suggests personal data, and in whose sample none is found, is reported
  exactly for thresholds above zero up to 0.6: asking for less evidence than any, with the
  threshold zero, loses these findings.\<close>
theorem scan_threshold_zero:
  assumes "is_scannable_type (ci_data_type col)" "check_column_name_heuristics (ci_column_name col) \<noteq> None"
    and "scan_column_values sc type_order rows (ci_column_name col) = (0, None, None)"
  shows "(column_finding sc type_order config rows col \<noteq> None) \<longleftrightarrow>
    0 < sn_confidence_threshold config \<and> sn_confidence_threshold config \<le> 6 / 10"
  using assms
  by (cases "0 < sn_confidence_threshold config") (auto simp: column_finding_def combine_evidence_def Let_def split: if_splits)

theorem scan_threshold_zero_witness:
  "let col = \<lparr>ci_table_name = ''t'', ci_column_name = ''SSN'', ci_data_type = ''text'', ci_is_nullable = True,
       ci_character_maximum_length = None\<rparr> in
   column_finding mail_scanner [Ssn] test_scan_config [] col \<noteq> None
   \<and> column_finding mail_scanner [Ssn] (test_scan_config\<lparr>sn_confidence_threshold := 0\<rparr>) [] col = None"
proof -
  let ?col = "\<lparr>ci_table_name = ''t'', ci_column_name = ''SSN'', ci_data_type = ''text'', ci_is_nullable = True,
       ci_character_maximum_length = None\<rparr>"
  have "is_scannable_type (ci_data_type ?col)" "check_column_name_heuristics (ci_column_name ?col) \<noteq> None"
    "scan_column_values mail_scanner [Ssn] [] (ci_column_name ?col) = (0, None, None)"
    by code_simp+
  note t = scan_threshold_zero [OF this]
  show ?thesis
    using t [of test_scan_config] t [of "test_scan_config\<lparr>sn_confidence_threshold := 0\<rparr>"]
    by (simp add: test_scan_config_def)
qed

end
