(* ===== verification/Detectors.thy ===== *)
theory Detectors
  imports Interceptor Db_Scanner
begin

text \<open>
  The patterns of \<^verbatim>\<open>PiiScanner::compile\<close> (\<^verbatim>\<open>src/src/scanner.rs\<close>). The other theories take what a
  pattern matches as a field of \<open>pii_scanner\<close>; here the whole-value patterns are the ones the code
  compiles, and it is shown which texts they accept and what that means for a cell. A pattern between
  \<^verbatim>\<open>^\<close> and \<^verbatim>\<open>$\<close> is matched against the characters of the text, a character being the string of its
  UTF-8 bytes. \<open>nd\<close> tells which characters outside ASCII are decimal digits, \<^verbatim>\<open>\d\<close> being Unicode's; \<^verbatim>\<open>\s\<close> is the
  White_Space of \<open>Strings\<close>. What the two unanchored patterns find is an argument of \<open>compile\<close> here; \<open>Spans\<close>
  has these patterns and the search.
\<close>

section \<open>Patterns\<close>

datatype pattern =
    Nothing
  | Class "string \<Rightarrow> bool"
  | Many "string \<Rightarrow> bool"
  | Then pattern pattern
  | Either pattern pattern

text \<open>\<open>rests p w\<close>: what is left of \<open>w\<close> behind each way of matching \<open>p\<close> at its start, in the order in which
  the engine prefers them: the left alternative first, a repetition as often as possible.\<close>

fun many_rests :: "(string \<Rightarrow> bool) \<Rightarrow> string list \<Rightarrow> string list list" where
  "many_rests f [] = [[]]"
| "many_rests f (x # w) = (if f x then many_rests f w else []) @ [x # w]"

fun rests :: "pattern \<Rightarrow> string list \<Rightarrow> string list list" where
  "rests Nothing w = [w]"
| "rests (Class f) w = (case w of x # w \<Rightarrow> if f x then [w] else [] | [] \<Rightarrow> [])"
| "rests (Many f) w = many_rests f w"
| "rests (Then p q) w = concat (map (rests q) (rests p w))"
| "rests (Either p q) w = rests p w @ rests q w"

definition characters :: "string \<Rightarrow> string list" where
  "characters s = map (\<lambda>c. str_of_bytes (snd c)) (utf8_chunks (bytes_of_str s))"

definition is_match :: "pattern \<Rightarrow> string \<Rightarrow> bool" where
  "is_match p s \<longleftrightarrow> [] \<in> set (rests p (characters s))"

text \<open>Repetition: \<^verbatim>\<open>{n}\<close>, \<^verbatim>\<open>{m,n}\<close>, \<^verbatim>\<open>?\<close>.\<close>

fun exactly :: "nat \<Rightarrow> pattern \<Rightarrow> pattern" where
  "exactly 0 p = Nothing"
| "exactly (Suc n) p = Then p (exactly n p)"

fun up_to :: "nat \<Rightarrow> pattern \<Rightarrow> pattern" where
  "up_to 0 p = Nothing"
| "up_to (Suc n) p = Either (Then p (up_to n p)) Nothing"

definition between :: "nat \<Rightarrow> nat \<Rightarrow> pattern \<Rightarrow> pattern" where
  "between m n p = Then (exactly m p) (up_to (n - m) p)"

definition optional :: "pattern \<Rightarrow> pattern" where
  "optional p = Either p Nothing"

section \<open>Classes\<close>

definition ascii_class :: "(char \<Rightarrow> bool) \<Rightarrow> string \<Rightarrow> bool" where
  "ascii_class f x = (case x of [c] \<Rightarrow> f c | _ \<Rightarrow> False)"

definition one_of :: "string \<Rightarrow> pattern" where
  "one_of cs = Class (ascii_class (\<lambda>c. c \<in> set cs))"

definition char_range :: "char \<Rightarrow> char \<Rightarrow> char \<Rightarrow> bool" where
  "char_range a b c \<longleftrightarrow> char_code a \<le> char_code c \<and> char_code c \<le> char_code b"

definition digit_class :: "(string \<Rightarrow> bool) \<Rightarrow> pattern" where
  "digit_class nd = Class (\<lambda>x. case x of [c] \<Rightarrow> is_ascii_digit c | _ \<Rightarrow> nd x)"

definition space_character :: "string \<Rightarrow> bool" where
  "space_character x \<longleftrightarrow> x \<noteq> [] \<and> ws_head x = length x"

text \<open>\<^verbatim>\<open>(?i)[a-z]\<close>: case folding adds the capitals, the long s and the Kelvin sign.\<close>

definition folded_letter :: "string \<Rightarrow> bool" where
  "folded_letter x \<longleftrightarrow> ascii_class (\<lambda>c. char_range (CHR ''a'') (CHR ''z'') c \<or> char_range (CHR ''A'') (CHR ''Z'') c) x
     \<or> x = str_of_bytes [0xC5, 0xBF] \<or> x = str_of_bytes [0xE2, 0x84, 0xAA]"

section \<open>The patterns of the scanner\<close>

definition email_pattern :: pattern where
  "email_pattern =
     (let local = (\<lambda>x. folded_letter x \<or> ascii_class (\<lambda>c. is_ascii_digit c \<or> c \<in> set ''._%+-'') x);
          domain = (\<lambda>x. folded_letter x \<or> ascii_class (\<lambda>c. is_ascii_digit c \<or> c \<in> set ''.-'') x)
      in Then (Class local) (Then (Many local) (Then (one_of ''@'') (Then (Class domain) (Then (Many domain)
           (Then (one_of ''.'') (Then (exactly 2 (Class folded_letter)) (Many folded_letter))))))))"

definition cc_pattern :: "(string \<Rightarrow> bool) \<Rightarrow> pattern" where
  "cc_pattern nd = Then (digit_class nd)
     (between 12 18 (Then (optional (Class (\<lambda>x. x = ''-'' \<or> space_character x))) (digit_class nd)))"

definition ssn_pattern :: "(string \<Rightarrow> bool) \<Rightarrow> pattern" where
  "ssn_pattern nd = Then (exactly 3 (digit_class nd)) (Then (one_of ''-'') (Then (exactly 2 (digit_class nd))
     (Then (one_of ''-'') (exactly 4 (digit_class nd)))))"

definition phone_pattern :: "(string \<Rightarrow> bool) \<Rightarrow> pattern" where
  "phone_pattern nd =
     (let d = digit_class nd; sep = Class (\<lambda>x. x = ''-'' \<or> x = ''.'' \<or> space_character x) in
      Then (optional (Then (one_of ''+'') (Then (between 1 3 d) (optional sep))))
        (Then (Either (Then (one_of ''('') (Then (exactly 3 d) (Then (one_of '')'') (optional sep)))) (Then (exactly 3 d) sep))
          (Then (exactly 3 d) (Then (optional sep) (exactly 4 d)))))"

definition octet_pattern :: pattern where
  "octet_pattern =
     Either (Then (one_of ''2'') (Then (one_of ''5'') (one_of ''012345'')))
       (Either (Then (one_of ''2'') (Then (one_of ''01234'') (one_of ''0123456789'')))
         (Then (optional (one_of ''01'')) (Then (one_of ''0123456789'') (optional (one_of ''0123456789'')))))"

definition ip_pattern :: pattern where
  "ip_pattern = Then (exactly 3 (Then octet_pattern (one_of ''.''))) octet_pattern"

definition dob_pattern :: "(string \<Rightarrow> bool) \<Rightarrow> pattern" where
  "dob_pattern nd =
     (let d = digit_class nd; sep = one_of ''-/'' in
      Either (Then (exactly 4 d) (Then sep (Then (exactly 2 d) (Then sep (exactly 2 d)))))
        (Then (exactly 2 d) (Then sep (Then (exactly 2 d) (Then sep (exactly 4 d))))))"

definition passport_pattern :: "(string \<Rightarrow> bool) \<Rightarrow> pattern" where
  "passport_pattern nd =
     Then (between 1 2 (Class (ascii_class (char_range (CHR ''A'') (CHR ''Z''))))) (between 6 8 (digit_class nd))"

definition compile :: "(string \<Rightarrow> bool) \<Rightarrow> (string \<Rightarrow> (nat \<times> nat) list) \<Rightarrow> (string \<Rightarrow> (nat \<times> nat) list) \<Rightarrow> pii_scanner" where
  "compile nd find_emails find_phones =
     \<lparr>email_regex = is_match email_pattern, cc_regex = is_match (cc_pattern nd), ssn_regex = is_match (ssn_pattern nd),
      phone_regex = is_match (phone_pattern nd), ip_regex = is_match ip_pattern, dob_regex = is_match (dob_pattern nd),
      passport_regex = is_match (passport_pattern nd), email_spans = find_emails, phone_spans = find_phones\<rparr>"

section \<open>What a pattern matches\<close>

fun words :: "pattern \<Rightarrow> string list set" where
  "words Nothing = {[]}"
| "words (Class f) = {w. \<exists>x. w = [x] \<and> f x}"
| "words (Many f) = {w. \<forall>x \<in> set w. f x}"
| "words (Then p q) = {w. \<exists>u v. w = u @ v \<and> u \<in> words p \<and> v \<in> words q}"
| "words (Either p q) = words p \<union> words q"

lemma many_rests_words: "r \<in> set (many_rests f w) \<longleftrightarrow> (\<exists>u. w = u @ r \<and> (\<forall>x \<in> set u. f x))"
proof (induction w)
  case (Cons x w)
  show ?case
  proof
    assume "r \<in> set (many_rests f (x # w))"
    then consider "r = x # w" | "f x" "r \<in> set (many_rests f w)" by (auto split: if_splits)
    then show "\<exists>u. x # w = u @ r \<and> (\<forall>x \<in> set u. f x)"
    proof cases
      case 2
      with Cons.IH obtain u where "w = u @ r" "\<forall>x \<in> set u. f x" by blast
      with 2(1) show ?thesis by (intro exI [of _ "x # u"]) simp
    qed (intro exI [of _ "[]"], simp)
  next
    assume "\<exists>u. x # w = u @ r \<and> (\<forall>x \<in> set u. f x)"
    then obtain u where "x # w = u @ r" "\<forall>x \<in> set u. f x" by blast
    with Cons.IH show "r \<in> set (many_rests f (x # w))" by (cases u) auto
  qed
qed simp

lemma rests_words: "r \<in> set (rests p w) \<longleftrightarrow> (\<exists>u. w = u @ r \<and> u \<in> words p)"
proof (induction p arbitrary: w r)
  case (Class f)
  then show ?case by (auto simp: Cons_eq_append_conv split: list.split)
next
  case (Then p q)
  have m: "r \<in> set (rests (Then p q) w) \<longleftrightarrow> (\<exists>m. m \<in> set (rests p w) \<and> r \<in> set (rests q m))" by auto
  show ?case
  proof
    assume "r \<in> set (rests (Then p q) w)"
    with m Then obtain u v where "w = (u @ v) @ r" "u \<in> words p" "v \<in> words q" by force
    then show "\<exists>u. w = u @ r \<and> u \<in> words (Then p q)" by (intro exI [of _ "u @ v"]) auto
  next
    assume "\<exists>u. w = u @ r \<and> u \<in> words (Then p q)"
    then obtain u v where "w = u @ v @ r" "u \<in> words p" "v \<in> words q" by auto
    then have "v @ r \<in> set (rests p w)" "r \<in> set (rests q (v @ r))" using Then by blast+
    with m show "r \<in> set (rests (Then p q) w)" by blast
  qed
qed (auto simp: many_rests_words)

lemma is_match_words: "is_match p s \<longleftrightarrow> characters s \<in> words p"
  by (simp add: is_match_def rests_words)

lemma concat_characters [simp]: "concat (characters s) = s"
proof -
  have c: "concat (map (\<lambda>c. str_of_bytes (snd c)) cs) = str_of_bytes (concat (map snd cs))" for cs :: "(bool \<times> byte list) list"
    by (induction cs) (simp_all add: str_of_bytes_def)
  show ?thesis by (simp add: characters_def c concat_utf8_chunks)
qed

definition ascii_text :: "string \<Rightarrow> bool" where
  "ascii_text s \<longleftrightarrow> (\<forall>c \<in> set s. char_code c < 128)"

abbreviation singles :: "string \<Rightarrow> string list" where
  "singles s \<equiv> map (\<lambda>c. [c]) s"

lemma concat_singles [simp]: "concat (singles s) = s"
  by (induction s) simp_all

lemma characters_ascii: "ascii_text s \<Longrightarrow> characters s = singles s"
proof -
  assume a: "ascii_text s"
  have "ascii (bytes_of_str s)"
    using a by (auto simp: ascii_def ascii_text_def bytes_of_str_def char_code_def word_less_nat_alt unat_of_nat)
  then have "characters s = map (\<lambda>b. str_of_bytes [b]) (bytes_of_str s)"
    by (simp add: characters_def utf8_chunks_ascii comp_def)
  also have "\<dots> = singles s"
    by (simp add: bytes_of_str_def str_of_bytes_def unat_of_nat comp_def)
  finally show ?thesis .
qed

lemma characters_singles: "characters s = singles t \<Longrightarrow> s = t"
  by (metis concat_characters concat_singles)

lemma ascii_class_iff: "ascii_class f x \<longleftrightarrow> (\<exists>c. x = [c] \<and> f c)"
  by (cases x; cases "tl x") (auto simp: ascii_class_def)

lemma one_of_words: "w \<in> words (one_of cs) \<longleftrightarrow> (\<exists>c. w = singles [c] \<and> c \<in> set cs)"
  by (auto simp: one_of_def ascii_class_iff)

lemma then_class: "w \<in> words (Then (Class f) q) \<longleftrightarrow> (\<exists>x v. w = x # v \<and> f x \<and> v \<in> words q)"
proof
  assume "\<exists>x v. w = x # v \<and> f x \<and> v \<in> words q"
  then obtain x v where "w = [x] @ v" "f x" "v \<in> words q" by auto
  then show "w \<in> words (Then (Class f) q)" unfolding words.simps by blast
qed auto

lemma exactly_class: "w \<in> words (exactly n (Class f)) \<longleftrightarrow> length w = n \<and> (\<forall>x \<in> set w. f x)"
proof (induction n arbitrary: w)
  case (Suc n)
  then show ?case by (cases w) (auto simp: then_class simp del: words.simps)
qed auto

lemma up_to_words: "w \<in> words (up_to n p) \<longleftrightarrow> (\<exists>k \<le> n. w \<in> words (exactly k p))"
proof (induction n arbitrary: w)
  case (Suc n)
  have "w \<in> words (up_to (Suc n) p) \<longleftrightarrow> w = [] \<or> (\<exists>k \<le> n. w \<in> words (exactly (Suc k) p))"
    by (simp add: Suc) blast
  also have "\<dots> \<longleftrightarrow> (\<exists>k \<le> Suc n. w \<in> words (exactly k p))"
  proof
    assume "\<exists>k \<le> Suc n. w \<in> words (exactly k p)"
    then obtain k where "k \<le> Suc n" "w \<in> words (exactly k p)" by blast
    then show "w = [] \<or> (\<exists>k \<le> n. w \<in> words (exactly (Suc k) p))" by (cases k) auto
  next
    assume "w = [] \<or> (\<exists>k \<le> n. w \<in> words (exactly (Suc k) p))"
    then show "\<exists>k \<le> Suc n. w \<in> words (exactly k p)"
    proof
      assume "w = []"
      then show ?thesis by (intro exI [of _ 0]) simp
    qed (use Suc_le_mono in blast)
  qed
  finally show ?case .
qed simp

lemma ascii_append [simp]: "ascii_text (s @ t) \<longleftrightarrow> ascii_text s \<and> ascii_text t" "ascii_text []"
  "ascii_text (c # s) \<longleftrightarrow> char_code c < 128 \<and> ascii_text s"
  by (auto simp: ascii_text_def)

section \<open>Addresses\<close>

text \<open>A part of an IPv4 address: one to three digits whose value fits a byte.\<close>

definition octet :: "string \<Rightarrow> bool" where
  "octet s \<longleftrightarrow> s \<noteq> [] \<and> length s \<le> 3 \<and> list_all is_ascii_digit s \<and> digits_value s \<le> 255"

lemma digit_in: "c \<in> set ''0123456789'' \<longleftrightarrow> is_ascii_digit c" "c \<in> set ''012345'' \<longleftrightarrow> 48 \<le> char_code c \<and> char_code c \<le> 53"
  "c \<in> set ''01234'' \<longleftrightarrow> 48 \<le> char_code c \<and> char_code c \<le> 52" "c \<in> set ''01'' \<longleftrightarrow> 48 \<le> char_code c \<and> char_code c \<le> 49"
  "c \<in> set ''2'' \<longleftrightarrow> char_code c = 50" "c \<in> set ''5'' \<longleftrightarrow> char_code c = 53"
proof -
  have i: "c = d \<longleftrightarrow> char_code c = char_code d" for c d :: char by (simp add: char_code_def)
  have e: "(c = CHR ''0'') = (char_code c = 48)" "(c = CHR ''1'') = (char_code c = 49)" "(c = CHR ''2'') = (char_code c = 50)"
    "(c = CHR ''3'') = (char_code c = 51)" "(c = CHR ''4'') = (char_code c = 52)" "(c = CHR ''5'') = (char_code c = 53)"
    "(c = CHR ''6'') = (char_code c = 54)" "(c = CHR ''7'') = (char_code c = 55)" "(c = CHR ''8'') = (char_code c = 56)"
    "(c = CHR ''9'') = (char_code c = 57)" for c
    by (simp_all add: i [of c] char_code_def)
  have l: "48 \<le> n \<and> n \<le> 57 \<longleftrightarrow> n \<in> {48, 49, 50, 51, 52, 53, 54, 55, 56, 57}" "48 \<le> n \<and> n \<le> 53 \<longleftrightarrow> n \<in> {48, 49, 50, 51, 52, 53}"
    "48 \<le> n \<and> n \<le> 52 \<longleftrightarrow> n \<in> {48, 49, 50, 51, 52}" "48 \<le> n \<and> n \<le> 49 \<longleftrightarrow> n \<in> {48, 49}" for n :: nat
    by (simp_all, presburger+)
  show "c \<in> set ''0123456789'' \<longleftrightarrow> is_ascii_digit c" "c \<in> set ''012345'' \<longleftrightarrow> 48 \<le> char_code c \<and> char_code c \<le> 53"
    "c \<in> set ''01234'' \<longleftrightarrow> 48 \<le> char_code c \<and> char_code c \<le> 52" "c \<in> set ''01'' \<longleftrightarrow> 48 \<le> char_code c \<and> char_code c \<le> 49"
    "c \<in> set ''2'' \<longleftrightarrow> char_code c = 50" "c \<in> set ''5'' \<longleftrightarrow> char_code c = 53"
    unfolding is_ascii_digit_def l by (simp_all add: e)
qed

definition texts :: "pattern \<Rightarrow> string set" where
  "texts p = {t. singles t \<in> words p}"

lemma texts_basic:
  "t \<in> texts Nothing \<longleftrightarrow> t = []"
  "t \<in> texts (Class f) \<longleftrightarrow> (\<exists>c. t = [c] \<and> f [c])"
  "t \<in> texts (Either p q) \<longleftrightarrow> t \<in> texts p \<or> t \<in> texts q"
  "t \<in> texts (optional p) \<longleftrightarrow> t \<in> texts p \<or> t = []"
  "t \<in> texts (one_of cs) \<longleftrightarrow> (\<exists>c. t = [c] \<and> c \<in> set cs)"
  by (auto simp: texts_def optional_def one_of_def ascii_class_iff map_eq_Cons_conv)

lemma texts_then: "t \<in> texts (Then p q) \<longleftrightarrow> (\<exists>a b. t = a @ b \<and> a \<in> texts p \<and> b \<in> texts q)"
proof
  assume "t \<in> texts (Then p q)"
  then obtain u v where u: "singles t = u @ v" "u \<in> words p" "v \<in> words q" by (auto simp: texts_def)
  then obtain a b where "t = a @ b" "u = singles a" "v = singles b" by (auto simp: map_eq_append_conv)
  with u show "\<exists>a b. t = a @ b \<and> a \<in> texts p \<and> b \<in> texts q" by (auto simp: texts_def)
next
  assume "\<exists>a b. t = a @ b \<and> a \<in> texts p \<and> b \<in> texts q"
  then obtain a b where "singles t = singles a @ singles b" "singles a \<in> words p" "singles b \<in> words q"
    by (auto simp: texts_def)
  then show "t \<in> texts (Then p q)" unfolding texts_def words.simps by blast
qed

lemma texts_then_first:
  "t \<in> texts (Then (one_of cs) q) \<longleftrightarrow> (\<exists>c v. t = c # v \<and> c \<in> set cs \<and> v \<in> texts q)"
  "t \<in> texts (Then (optional p) q) \<longleftrightarrow> t \<in> texts (Then p q) \<or> t \<in> texts q"
  unfolding texts_then texts_basic by (metis append_Cons append_Nil) (metis append_Nil)

lemma texts_exactly: "t \<in> texts (exactly n (Class f)) \<longleftrightarrow> length t = n \<and> (\<forall>c \<in> set t. f [c])"
  by (auto simp: texts_def exactly_class)

text \<open>Patterns all of whose classes are of ASCII characters.\<close>

definition plain :: "pattern \<Rightarrow> bool" where
  "plain p \<longleftrightarrow> (\<forall>w \<in> words p. \<exists>t. w = singles t \<and> ascii_text t)"

lemma plainI:
  "plain Nothing" "plain p \<Longrightarrow> plain q \<Longrightarrow> plain (Then p q)" "plain p \<Longrightarrow> plain q \<Longrightarrow> plain (Either p q)"
  "plain p \<Longrightarrow> plain (optional p)" "ascii_text cs \<Longrightarrow> plain (one_of cs)"
proof -
  show "plain Nothing" by (simp add: plain_def)
  show t: "plain (Then p q)" if "plain p" "plain q" for p q
    unfolding plain_def
  proof
    fix w assume "w \<in> words (Then p q)"
    then obtain u v where "w = u @ v" "u \<in> words p" "v \<in> words q" by auto
    with that obtain a b where "w = singles (a @ b)" "ascii_text (a @ b)" unfolding plain_def by fastforce
    then show "\<exists>t. w = singles t \<and> ascii_text t" by blast
  qed
  show "plain (Either p q)" if "plain p" "plain q" for p q using that by (auto simp: plain_def)
  show "plain (optional p)" if "plain p" for p using that by (auto simp: plain_def optional_def)
  show "plain (one_of cs)" if "ascii_text cs" unfolding plain_def
  proof
    fix w assume "w \<in> words (one_of cs)"
    with that obtain c where "w = singles [c]" "ascii_text [c]" by (auto simp: one_of_words ascii_text_def)
    then show "\<exists>t. w = singles t \<and> ascii_text t" by blast
  qed
qed

lemma plain_exactly: "plain p \<Longrightarrow> plain (exactly n p)"
  by (induction n) (simp_all add: plainI)

lemma is_match_plain: "plain p \<Longrightarrow> is_match p s \<longleftrightarrow> s \<in> texts p"
proof
  assume "plain p" "is_match p s"
  then obtain t where "characters s = singles t" "characters s \<in> words p" unfolding is_match_words plain_def by blast
  with characters_singles show "s \<in> texts p" by (metis CollectI texts_def)
next
  assume p: "plain p" and "s \<in> texts p"
  then have w: "singles s \<in> words p" by (simp add: texts_def)
  with p obtain t where "singles s = singles t" "ascii_text t" unfolding plain_def by blast
  then have "ascii_text s" by (metis concat_singles)
  with w show "is_match p s" by (simp add: is_match_words characters_ascii)
qed

lemma is_match_ascii: "ascii_text s \<Longrightarrow> is_match p s \<longleftrightarrow> s \<in> texts p"
  by (simp add: is_match_words characters_ascii texts_def)

lemma octet_texts: "t \<in> texts octet_pattern \<longleftrightarrow> octet t"
proof -
  have r: "t \<in> texts octet_pattern \<longleftrightarrow>
      (\<exists>a b c. t = [a, b, c] \<and> (char_code a = 50 \<and> char_code b = 53 \<and> 48 \<le> char_code c \<and> char_code c \<le> 53
        \<or> char_code a = 50 \<and> 48 \<le> char_code b \<and> char_code b \<le> 52 \<and> is_ascii_digit c
        \<or> 48 \<le> char_code a \<and> char_code a \<le> 49 \<and> is_ascii_digit b \<and> is_ascii_digit c))
      \<or> (\<exists>a b. t = [a, b] \<and> (48 \<le> char_code a \<and> char_code a \<le> 49 \<and> is_ascii_digit b \<or> is_ascii_digit a \<and> is_ascii_digit b))
      \<or> (\<exists>a. t = [a] \<and> is_ascii_digit a)"
    by (cases t; cases "tl t"; cases "tl (tl t)"; cases "tl (tl (tl t))";
        simp add: octet_pattern_def texts_then_first texts_basic digit_in del: set_simps)
  show ?thesis
  proof
    assume "t \<in> texts octet_pattern"
    then show "octet t" unfolding r by (auto simp: octet_def is_ascii_digit_def digits_value_def)
  next
    assume o: "octet t"
    then consider (1) a where "t = [a]" | (2) a b where "t = [a, b]" | (3) a b c where "t = [a, b, c]"
      by (cases t; cases "tl t"; cases "tl (tl t)") (auto simp: octet_def)
    then show "t \<in> texts octet_pattern"
    proof cases
      case (3 a b c)
      have "char_code a \<le> 49 \<or> char_code a = 50 \<and> (char_code b \<le> 52 \<or> char_code b = 53 \<and> char_code c \<le> 53)"
        using o unfolding 3 octet_def is_ascii_digit_def digits_value_def by simp arith
      with o 3 show ?thesis unfolding r octet_def is_ascii_digit_def by auto
    next
      case (2 a b)
      with o show ?thesis unfolding r octet_def is_ascii_digit_def by auto
    next
      case (1 a)
      with o show ?thesis unfolding r octet_def is_ascii_digit_def by auto
    qed
  qed
qed

lemma ip_texts:
  "s \<in> texts ip_pattern \<longleftrightarrow> (\<exists>a b c d. s = a @ ''.'' @ b @ ''.'' @ c @ ''.'' @ d \<and> octet a \<and> octet b \<and> octet c \<and> octet d)"
proof -
  have dot: "t \<in> texts (Then (Then octet_pattern (one_of ''.'')) q) \<longleftrightarrow> (\<exists>a v. t = a @ ''.'' @ v \<and> octet a \<and> v \<in> texts q)" for t q
  proof
    assume "t \<in> texts (Then (Then octet_pattern (one_of ''.'')) q)"
    then show "\<exists>a v. t = a @ ''.'' @ v \<and> octet a \<and> v \<in> texts q"
      unfolding texts_then octet_texts texts_basic by fastforce
  next
    assume "\<exists>a v. t = a @ ''.'' @ v \<and> octet a \<and> v \<in> texts q"
    then obtain a v where "t = (a @ ''.'') @ v" "octet a" "v \<in> texts q" by auto
    moreover from this have "a @ ''.'' \<in> texts (Then octet_pattern (one_of ''.''))"
      unfolding texts_then octet_texts texts_basic by fastforce
    ultimately show "t \<in> texts (Then (Then octet_pattern (one_of ''.'')) q)" using texts_then by blast
  qed
  have three: "u \<in> texts (exactly 3 (Then octet_pattern (one_of ''.''))) \<longleftrightarrow>
      (\<exists>a b c. u = a @ ''.'' @ b @ ''.'' @ c @ ''.'' \<and> octet a \<and> octet b \<and> octet c)" for u
    unfolding numeral_3_eq_3 exactly.simps dot texts_basic by fastforce
  show ?thesis
  proof
    assume "s \<in> texts ip_pattern"
    then obtain a b c d where "s = (a @ ''.'' @ b @ ''.'' @ c @ ''.'') @ d" "octet a" "octet b" "octet c" "octet d"
      unfolding ip_pattern_def texts_then [of s] three octet_texts by blast
    then show "\<exists>a b c d. s = a @ ''.'' @ b @ ''.'' @ c @ ''.'' @ d \<and> octet a \<and> octet b \<and> octet c \<and> octet d"
      by (intro exI [of _ a] exI [of _ b] exI [of _ c] exI [of _ d]) simp
  next
    assume "\<exists>a b c d. s = a @ ''.'' @ b @ ''.'' @ c @ ''.'' @ d \<and> octet a \<and> octet b \<and> octet c \<and> octet d"
    then obtain a b c d where "s = (a @ ''.'' @ b @ ''.'' @ c @ ''.'') @ d" "octet a" "octet b" "octet c" "octet d" by auto
    then show "s \<in> texts ip_pattern"
      unfolding ip_pattern_def texts_then [of s] three octet_texts by blast
  qed
qed

lemma then_one_of: "w \<in> words (Then (one_of cs) q) \<longleftrightarrow> (\<exists>c v. w = [c] # v \<and> c \<in> set cs \<and> v \<in> words q)"
  unfolding one_of_def then_class by (auto simp: ascii_class_iff)

lemma texts_thenI: "a \<in> texts p \<Longrightarrow> b \<in> texts q \<Longrightarrow> a @ b \<in> texts (Then p q)"
  unfolding texts_then by blast

section \<open>Numbers\<close>

definition digits :: "nat \<Rightarrow> string \<Rightarrow> bool" where
  "digits n t \<longleftrightarrow> length t = n \<and> list_all is_ascii_digit t"

definition ssn_shape :: "string \<Rightarrow> bool" where
  "ssn_shape s \<longleftrightarrow> (\<exists>a b c. s = a @ ''-'' @ b @ ''-'' @ c \<and> digits 3 a \<and> digits 2 b \<and> digits 4 c)"

text \<open>A card number: 13 to 19 digits, each but the first with a dash or a space before it, or neither.\<close>

definition card_group :: "string \<Rightarrow> bool" where
  "card_group g \<longleftrightarrow> (\<exists>c. is_ascii_digit c \<and> (g = [c] \<or> g = CHR ''-'' # [c] \<or> g = CHR '' '' # [c]))"

definition card_shape :: "string \<Rightarrow> bool" where
  "card_shape s \<longleftrightarrow> (\<exists>d gs. s = d # concat gs \<and> is_ascii_digit d \<and> 12 \<le> length gs \<and> length gs \<le> 18 \<and> (\<forall>g \<in> set gs. card_group g))"

lemma digits_texts: "t \<in> texts (exactly n (digit_class nd)) \<longleftrightarrow> digits n t"
  by (simp add: digit_class_def texts_exactly digits_def list_all_iff)

lemma ssn_texts: "s \<in> texts (ssn_pattern nd) \<longleftrightarrow> ssn_shape s"
  unfolding ssn_pattern_def texts_then_first texts_then [of _ "exactly _ _"] digits_texts ssn_shape_def
  by auto blast

lemma digit_ascii: "is_ascii_digit c \<Longrightarrow> char_code c < 128"
  by (simp add: is_ascii_digit_def)

lemma digits_ascii: "digits n t \<Longrightarrow> ascii_text t"
  by (auto simp: digits_def list_all_iff ascii_text_def dest: digit_ascii)

lemma octet_ascii: "octet t \<Longrightarrow> ascii_text t"
  by (auto simp: octet_def list_all_iff ascii_text_def dest: digit_ascii)

lemma punctuation_ascii [simp]: "char_code (CHR ''-'') = 45" "char_code (CHR ''.'') = 46" "char_code (CHR '' '') = 32"
  "char_code (CHR ''@'') = 64"
  by (simp_all add: char_code_def)

lemma groups_texts:
  "\<forall>g \<in> set gs. card_group g \<Longrightarrow>
   concat gs \<in> texts (exactly (length gs) (Then (optional (Class (\<lambda>x. x = ''-'' \<or> space_character x))) (digit_class nd)))"
proof (induction gs)
  case (Cons g gs)
  have sp: "space_character '' ''" by (simp add: space_character_def ws1_def)
  from Cons.prems obtain c where c: "is_ascii_digit c" "g = [c] \<or> g = ''-'' @ [c] \<or> g = '' '' @ [c]"
    by (auto simp: card_group_def)
  let ?sep = "Class (\<lambda>x. x = ''-'' \<or> space_character x)"
  have d: "[c] \<in> texts (digit_class nd)" using c(1) by (simp add: digit_class_def texts_basic)
  have "''-'' \<in> texts ?sep" "'' '' \<in> texts ?sep" using sp by (simp_all add: texts_basic)
  with c(2) d have "g \<in> texts (Then (optional ?sep) (digit_class nd))"
    unfolding texts_then_first
    using texts_thenI [of "''-''" ?sep "[c]"] texts_thenI [of "'' ''" ?sep "[c]"] by (elim disjE) simp_all
  moreover have "concat gs \<in> texts (exactly (length gs) (Then (optional ?sep) (digit_class nd)))" using Cons by simp
  ultimately show ?case by (simp add: texts_thenI)
qed (simp add: texts_basic)

lemma exactly_between: "m \<le> k \<Longrightarrow> k \<le> n \<Longrightarrow> t \<in> texts (exactly k p) \<Longrightarrow> t \<in> texts (between m n p)"
proof -
  assume k: "m \<le> k" "k \<le> n" and t: "t \<in> texts (exactly k p)"
  have split: "t \<in> texts (exactly (i + j) p) \<Longrightarrow> \<exists>a b. t = a @ b \<and> a \<in> texts (exactly i p) \<and> b \<in> texts (exactly j p)" for i j t
  proof (induction i arbitrary: t)
    case 0
    then show ?case by (intro exI [of _ "[]"] exI [of _ t]) (simp add: texts_basic)
  next
    case (Suc i)
    then obtain x y where "t = x @ y" "x \<in> texts p" "y \<in> texts (exactly (i + j) p)" by (auto simp: texts_then)
    moreover from Suc.IH [OF this(3)] obtain a b where "y = a @ b" "a \<in> texts (exactly i p)" "b \<in> texts (exactly j p)" by blast
    ultimately show ?case by (intro exI [of _ "x @ a"] exI [of _ b]) (auto simp: texts_then)
  qed
  have "t \<in> texts (exactly (m + (k - m)) p)" using k t by simp
  from split [OF this] obtain a b where ab: "t = a @ b" "a \<in> texts (exactly m p)" "b \<in> texts (exactly (k - m) p)" by blast
  have "k - m \<le> n - m" using k by simp
  with ab(3) have "b \<in> texts (up_to (n - m) p)" unfolding texts_def mem_Collect_eq up_to_words by blast
  with ab show ?thesis unfolding between_def texts_then by blast
qed

lemma card_texts: "card_shape s \<Longrightarrow> s \<in> texts (cc_pattern nd)"
proof -
  assume "card_shape s"
  then obtain d gs where s: "s = [d] @ concat gs" "is_ascii_digit d" "12 \<le> length gs" "length gs \<le> 18" "\<forall>g \<in> set gs. card_group g"
    by (auto simp: card_shape_def)
  have "[d] \<in> texts (digit_class nd)" using s(2) by (simp add: digit_class_def texts_basic)
  with exactly_between [OF s(3,4) groups_texts [OF s(5)]] s(1) show ?thesis
    unfolding cc_pattern_def texts_then by blast
qed

lemma card_digits:
  "card_shape s \<Longrightarrow> 13 \<le> length (filter is_ascii_digit s) \<and> length (filter is_ascii_digit s) \<le> 19"
proof -
  have n: "\<not> is_ascii_digit (CHR ''-'')" "\<not> is_ascii_digit (CHR '' '')" by (simp_all add: is_ascii_digit_def)
  have one: "card_group g \<Longrightarrow> length (filter is_ascii_digit g) = 1" for g
    using n by (auto simp: card_group_def)
  have g: "\<forall>g \<in> set gs. card_group g \<Longrightarrow> length (filter is_ascii_digit (concat gs)) = length gs" for gs
    by (induction gs) (simp_all add: one)
  assume "card_shape s"
  with g show ?thesis by (auto simp: card_shape_def)
qed

text \<open>An e-mail address contains an at sign.\<close>

lemma email_has_at: "is_match email_pattern s \<Longrightarrow> CHR ''@'' \<in> set s"
proof -
  have later: "(\<And>v. v \<in> words q \<Longrightarrow> c \<in> set (concat v)) \<Longrightarrow> w \<in> words (Then p q) \<Longrightarrow> c \<in> set (concat w)" for c p q w
    by fastforce
  have "w \<in> words email_pattern \<Longrightarrow> CHR ''@'' \<in> set (concat w)" for w
    unfolding email_pattern_def Let_def by (erule later [rotated], erule later [rotated]) (auto simp: then_one_of simp del: words.simps)
  then show "is_match email_pattern s \<Longrightarrow> CHR ''@'' \<in> set s" by (metis concat_characters is_match_words)
qed

section \<open>What is detected\<close>

definition ip_shape :: "string \<Rightarrow> bool" where
  "ip_shape s \<longleftrightarrow> (\<exists>a b c d. s = a @ ''.'' @ b @ ''.'' @ c @ ''.'' @ d \<and> octet a \<and> octet b \<and> octet c \<and> octet d)"

lemma plain_ip: "plain ip_pattern"
proof -
  have "plain octet_pattern"
    unfolding octet_pattern_def by (intro plainI) (simp_all add: char_code_def)
  then show ?thesis unfolding ip_pattern_def by (intro plainI plain_exactly) (simp_all add: char_code_def)
qed

lemma ip_regex_iff: "ip_regex (compile nd fe fp) s \<longleftrightarrow> ip_shape s"
  by (simp add: compile_def is_match_plain [OF plain_ip] ip_texts ip_shape_def)

lemma shapes_ascii: "ssn_shape s \<Longrightarrow> ascii_text s" "ip_shape s \<Longrightarrow> ascii_text s" "card_shape s \<Longrightarrow> ascii_text s"
proof -
  show "ssn_shape s \<Longrightarrow> ascii_text s" by (auto simp: ssn_shape_def dest!: digits_ascii)
  show "ip_shape s \<Longrightarrow> ascii_text s" by (auto simp: ip_shape_def dest!: octet_ascii)
  have "card_group g \<Longrightarrow> ascii_text g" for g by (auto simp: card_group_def digit_ascii)
  then have "\<forall>g \<in> set gs. card_group g \<Longrightarrow> ascii_text (concat gs)" for gs by (induction gs) simp_all
  then show "card_shape s \<Longrightarrow> ascii_text s" by (auto simp: card_shape_def digit_ascii)
qed

lemma ssn_regex_iff: "ascii_text s \<Longrightarrow> ssn_regex (compile nd fe fp) s \<longleftrightarrow> ssn_shape s"
  by (simp add: compile_def is_match_ascii ssn_texts)

lemma cc_regex_card: "card_shape s \<Longrightarrow> cc_regex (compile nd fe fp) s"
  by (simp add: compile_def is_match_ascii [OF shapes_ascii(3)] card_texts)

lemma not_digit [simp]: "\<not> is_ascii_digit (CHR ''-'')" "\<not> is_ascii_digit (CHR ''.'')" "\<not> is_ascii_digit (CHR '' '')"
  "\<not> is_ascii_digit (CHR ''@'')"
  by (simp_all add: is_ascii_digit_def)

lemma digits_count: "digits n t \<Longrightarrow> filter is_ascii_digit t = t \<and> length t = n"
  by (auto simp: digits_def list_all_iff)

lemma octet_count: "octet t \<Longrightarrow> filter is_ascii_digit t = t \<and> length t \<le> 3"
  by (auto simp: octet_def list_all_iff)

lemma ssn_count: "ssn_shape s \<Longrightarrow> length (filter is_ascii_digit s) = 9"
  by (auto simp: ssn_shape_def dest!: digits_count)

lemma ip_count: "ip_shape s \<Longrightarrow> length (filter is_ascii_digit s) \<le> 12"
  by (auto simp: ip_shape_def dest!: octet_count)

lemma ssn_chars: "ssn_shape s \<Longrightarrow> c \<in> set s \<Longrightarrow> is_ascii_digit c \<or> c = CHR ''-''"
  by (auto simp: ssn_shape_def digits_def list_all_iff)

lemma ip_chars: "ip_shape s \<Longrightarrow> c \<in> set s \<Longrightarrow> is_ascii_digit c \<or> c = CHR ''.''"
  by (auto simp: ip_shape_def octet_def list_all_iff)

lemma card_chars: "card_shape s \<Longrightarrow> c \<in> set s \<Longrightarrow> is_ascii_digit c \<or> c = CHR ''-'' \<or> c = CHR '' ''"
proof -
  have one: "card_group g \<Longrightarrow> c \<in> set g \<Longrightarrow> is_ascii_digit c \<or> c = CHR ''-'' \<or> c = CHR '' ''" for g
    by (auto simp: card_group_def)
  assume "card_shape s" "c \<in> set s"
  then obtain d gs where "s = d # concat gs" "is_ascii_digit d" "\<forall>g \<in> set gs. card_group g" "c = d \<or> (\<exists>g \<in> set gs. c \<in> set g)"
    unfolding card_shape_def by fastforce
  then show ?thesis using one by blast
qed

lemma no_email: "CHR ''@'' \<notin> set s \<Longrightarrow> \<not> email_regex (compile nd fe fp) s"
  using email_has_at by (auto simp: compile_def)

lemma at_nowhere:
  "ssn_shape s \<Longrightarrow> CHR ''@'' \<notin> set s" "ip_shape s \<Longrightarrow> CHR ''@'' \<notin> set s" "card_shape s \<Longrightarrow> CHR ''@'' \<notin> set s"
  using ssn_chars [of s "CHR ''@''"] ip_chars [of s "CHR ''@''"] card_chars [of s "CHR ''@''"] by auto

lemma ip_is_no_ssn: "ip_shape s \<Longrightarrow> \<not> ssn_shape s"
proof
  assume "ip_shape s" "ssn_shape s"
  then have "CHR ''.'' \<in> set s" by (auto simp: ip_shape_def)
  from ssn_chars [OF \<open>ssn_shape s\<close> this] show False by simp
qed

definition digit_values :: "string \<Rightarrow> nat list" where
  "digit_values s = map (\<lambda>c. char_code c - 48) (filter is_ascii_digit s)"

lemma card_candidate:
  "card_shape s \<Longrightarrow> credit_card_candidate s \<longleftrightarrow> luhn_sum (digit_values s) mod 10 = 0"
  using card_digits [of s] luhn_valid_spec [of "filter is_ascii_digit s"]
  by (simp add: credit_card_candidate_def digit_values_def list_all_iff Let_def)

lemma detected:
  "ssn_shape s \<Longrightarrow> Ssn \<in> allowed \<Longrightarrow> scan_allowed (compile nd fe fp) s allowed = Some Ssn"
  "ip_shape s \<Longrightarrow> IpAddress \<in> allowed \<Longrightarrow> scan_allowed (compile nd fe fp) s allowed = Some IpAddress"
  "card_shape s \<Longrightarrow> luhn_sum (digit_values s) mod 10 = 0 \<Longrightarrow> CreditCard \<in> allowed \<Longrightarrow>
   scan_allowed (compile nd fe fp) s allowed = Some CreditCard"
proof -
  have few: "\<not> credit_card_candidate s" if "length (filter is_ascii_digit s) \<le> 12"
    using that by (simp add: credit_card_candidate_def Let_def)
  show "ssn_shape s \<Longrightarrow> Ssn \<in> allowed \<Longrightarrow> scan_allowed (compile nd fe fp) s allowed = Some Ssn"
    using few ssn_count [of s] no_email at_nowhere(1) ssn_regex_iff [OF shapes_ascii(1)] by (simp add: scan_allowed_def)
  show "ip_shape s \<Longrightarrow> IpAddress \<in> allowed \<Longrightarrow> scan_allowed (compile nd fe fp) s allowed = Some IpAddress"
    using few ip_count [of s] no_email at_nowhere(2) ssn_regex_iff [OF shapes_ascii(2)] ip_is_no_ssn ip_regex_iff
    by (simp add: scan_allowed_def)
  show "card_shape s \<Longrightarrow> luhn_sum (digit_values s) mod 10 = 0 \<Longrightarrow> CreditCard \<in> allowed \<Longrightarrow>
      scan_allowed (compile nd fe fp) s allowed = Some CreditCard"
    using no_email at_nowhere(3) cc_regex_card card_candidate by (simp add: scan_allowed_def)
qed

section \<open>Cells\<close>

lemma trim_digits:
  assumes "s \<noteq> []" "is_ascii_digit (hd s)" "is_ascii_digit (last s)"
  shows "trim s = s"
proof -
  have h: "ws_head (c # r) = 0" if "is_ascii_digit c" for c r
    using that by (cases r; cases "tl r") (auto simp: is_ascii_digit_def ws1_def ws2_def ws3_def)
  have l: "ws_last (c # r) = 0" if "is_ascii_digit c" for c r
    using that by (cases r; cases "tl r") (auto simp: is_ascii_digit_def ws1_def ws2_def ws3_def)
  have "ws_head s = 0" using assms(1,2) h by (cases s) auto
  moreover have "ws_last (rev s) = 0" using assms(1,3) l by (cases s rule: rev_cases) auto
  ultimately show ?thesis by (simp add: trim_def trim_end_def trim_start.simps trim_rev.simps)
qed

lemma ascii_cell: "ascii_text s \<Longrightarrow> from_utf8 (bytes_of_str s) = Some s"
proof -
  assume "ascii_text s"
  then have "ascii (bytes_of_str s)"
    by (auto simp: ascii_def ascii_text_def bytes_of_str_def char_code_def word_less_nat_alt unat_of_nat)
  then show ?thesis by (simp add: from_utf8_ascii)
qed

lemma mask_as_text:
  assumes "ascii_text s" "he_enabled (mx_heuristics ctx)" "is_ascii_digit (hd t)" "trim s = t"
  shows "mask_cell ctx (bytes_of_str s) idx name None = mask_cell_text ctx (bytes_of_str s) s idx name"
  using assms
  by (auto simp: mask_cell_def mask_cell_heuristic_def ascii_cell starts_with_def is_ascii_digit_def char_code_def Let_def)

lemma shape_ends:
  "ssn_shape s \<Longrightarrow> s \<noteq> [] \<and> is_ascii_digit (hd s) \<and> is_ascii_digit (last s)"
proof -
  assume "ssn_shape s"
  then obtain a b c where s: "s = a @ ''-'' @ b @ ''-'' @ c" "digits 3 a" "digits 4 c" by (auto simp: ssn_shape_def)
  then have "a \<noteq> []" "c \<noteq> []" by (auto simp: digits_def)
  with s show ?thesis by (auto simp: digits_def list_all_iff hd_append last_append)
qed

section \<open>What escapes\<close>

text \<open>How many ASCII digits a match has at least.\<close>

definition needs_digits :: "nat \<Rightarrow> pattern \<Rightarrow> bool" where
  "needs_digits n p \<longleftrightarrow> (\<forall>t \<in> texts p. n \<le> length (filter is_ascii_digit t))"

lemma needs_digitsI:
  "needs_digits 0 p" "needs_digits m p \<Longrightarrow> needs_digits n q \<Longrightarrow> needs_digits (m + n) (Then p q)"
  "needs_digits n p \<Longrightarrow> needs_digits n q \<Longrightarrow> needs_digits n (Either p q)"
  "needs_digits n (exactly n (digit_class nd))"
proof -
  show "needs_digits 0 p" by (simp add: needs_digits_def)
  show "needs_digits m p \<Longrightarrow> needs_digits n q \<Longrightarrow> needs_digits (m + n) (Then p q)"
  proof -
    assume pq: "needs_digits m p" "needs_digits n q"
    show "needs_digits (m + n) (Then p q)"
      unfolding needs_digits_def
    proof
      fix t assume "t \<in> texts (Then p q)"
      then obtain a b where t: "t = a @ b" "a \<in> texts p" "b \<in> texts q" by (auto simp: texts_then)
      then have "m \<le> length (filter is_ascii_digit a)" "n \<le> length (filter is_ascii_digit b)"
        using pq by (auto simp: needs_digits_def)
      with t(1) show "m + n \<le> length (filter is_ascii_digit t)" by simp
    qed
  qed
  show "needs_digits n p \<Longrightarrow> needs_digits n q \<Longrightarrow> needs_digits n (Either p q)"
    by (auto simp: needs_digits_def texts_basic)
  show "needs_digits n (exactly n (digit_class nd))"
    by (auto simp: needs_digits_def digits_texts dest!: digits_count)
qed

lemma phone_needs: "needs_digits 10 (phone_pattern nd)"
proof -
  have "needs_digits (0 + (3 + (3 + (0 + 4)))) (phone_pattern nd)"
    unfolding phone_pattern_def Let_def
    by (intro needs_digitsI needs_digitsI(2) [where m = 0 and n = 3, simplified] needs_digitsI(2) [where m = 3 and n = 0, simplified])
  then show ?thesis by simp
qed

lemma dob_digits: "t \<in> texts (dob_pattern nd) \<Longrightarrow> length (filter is_ascii_digit t) = 8"
  unfolding dob_pattern_def Let_def texts_basic(3) texts_then_first texts_then [of _ "exactly _ _"] digits_texts
  by (auto simp: is_ascii_digit_def [of "CHR ''/''"] char_code_def [of "CHR ''/''"] dest!: digits_count)

lemma passport_letter: "t \<in> texts (passport_pattern nd) \<Longrightarrow> \<exists>c \<in> set t. 65 \<le> char_code c"
  unfolding passport_pattern_def between_def texts_then texts_exactly
  by (auto simp: ascii_class_def char_range_def char_code_def length_Suc_conv)

lemma padded_undetected:
  assumes "ssn_shape s"
  shows "scan_allowed (compile nd fe fp) (s @ '' '') allowed = None"
proof -
  let ?p = "s @ '' ''"
  have n: "length (filter is_ascii_digit ?p) = 9" using ssn_count [OF assms] by simp
  have a: "ascii_text ?p" using shapes_ascii(1) [OF assms] by simp
  have chars: "is_ascii_digit c \<or> c = CHR ''-'' \<or> c = CHR '' ''" if "c \<in> set ?p" for c
    using ssn_chars [OF assms] that by auto
  have "CHR ''@'' \<notin> set ?p" using chars [of "CHR ''@''"] by auto
  moreover have "\<not> credit_card_candidate ?p" using n by (simp add: credit_card_candidate_def Let_def)
  moreover have "\<not> ssn_shape ?p" using ssn_chars [of ?p "CHR '' ''"] by auto
  moreover have "\<not> ip_shape ?p" using ip_chars [of ?p "CHR '' ''"] by auto
  moreover have "?p \<notin> texts (dob_pattern nd)" using dob_digits [of ?p nd] n by auto
  moreover have "?p \<notin> texts (phone_pattern nd)" using phone_needs [of nd] n by (auto simp: needs_digits_def)
  moreover have "?p \<notin> texts (passport_pattern nd)"
  proof
    assume "?p \<in> texts (passport_pattern nd)"
    then obtain c where "c \<in> set ?p" "65 \<le> char_code c" using passport_letter by blast
    with chars [of c] show False by (auto simp: is_ascii_digit_def)
  qed
  ultimately show ?thesis
    using no_email [of ?p] ssn_regex_iff [OF a] ip_regex_iff [of nd fe fp ?p]
    by (simp add: scan_allowed_def compile_def is_match_ascii [OF a])
qed

lemma trim_padded: "s \<noteq> [] \<Longrightarrow> is_ascii_digit (hd s) \<Longrightarrow> is_ascii_digit (last s) \<Longrightarrow> trim (s @ '' '') = s"
proof -
  assume s: "s \<noteq> []" "is_ascii_digit (hd s)" "is_ascii_digit (last s)"
  have h: "ws_head (c # r) = 0" if "is_ascii_digit c" for c r
    using that by (cases r; cases "tl r") (auto simp: is_ascii_digit_def ws1_def ws2_def ws3_def)
  have "ws_head (s @ '' '') = 0" using s(1,2) h by (cases s) auto
  then have st: "trim_start (s @ '' '') = s @ '' ''" by (simp add: trim_start.simps)
  have sp: "ws_last (CHR '' '' # r) = 1" for r by (cases r; cases "tl r") (auto simp: ws1_def)
  have "trim s = s" "ws_head s = 0" using trim_digits [OF s] s(1,2) h by (cases s; auto)+
  then have "trim_rev (rev s) = rev s" by (simp add: trim_def trim_end_def trim_start.simps rev_swap)
  moreover have "trim_rev (CHR '' '' # rev s) = trim_rev (rev s)"
    using trim_rev.simps [of "CHR '' '' # rev s"] sp [of "rev s"] by simp
  ultimately show ?thesis by (simp add: trim_def st trim_end_def)
qed

section \<open>Properties\<close>

text \<open>C20: The compiled patterns recognise what they are for. A social security number, an IPv4 address
  and a card number of 13 to 19 digits with its separators and a correct check digit are each
  detected as what they are whenever their type is enabled, whatever other types are; and the address
  pattern accepts nothing else: exactly four numbers of at most three digits and at most 255, with
  dots between them. An ASCII text is taken for a social security number only if it is one.\<close>

theorem detectors_recognise:
  "(ssn_shape s \<and> Ssn \<in> allowed \<longrightarrow> scan_allowed (compile nd fe fp) s allowed = Some Ssn)
   \<and> (ip_shape s \<and> IpAddress \<in> allowed \<longrightarrow> scan_allowed (compile nd fe fp) s allowed = Some IpAddress)
   \<and> (card_shape s \<and> luhn_sum (digit_values s) mod 10 = 0 \<and> CreditCard \<in> allowed \<longrightarrow>
        scan_allowed (compile nd fe fp) s allowed = Some CreditCard)
   \<and> (ip_regex (compile nd fe fp) s \<longleftrightarrow> ip_shape s)
   \<and> (ascii_text s \<longrightarrow> (ssn_regex (compile nd fe fp) s \<longleftrightarrow> ssn_shape s))"
  by (simp add: detected ip_regex_iff ssn_regex_iff)

text \<open>One of each kind, and a text that is nearly an address.\<close>

lemma demo_shapes:
  "ssn_shape ''123-45-6789''" "ip_shape ''10.0.255.7''" "card_shape ''4111 1111 1111 1111''"
  "luhn_sum (digit_values ''4111 1111 1111 1111'') mod 10 = 0"
proof -
  show "ssn_shape ''123-45-6789''"
    unfolding ssn_shape_def
    by (intro exI [of _ "''123''"] exI [of _ "''45''"] exI [of _ "''6789''"]) (simp add: digits_def is_ascii_digit_def char_code_def)
  show "ip_shape ''10.0.255.7''"
    unfolding ip_shape_def
    by (intro exI [of _ "''10''"] exI [of _ "''0''"] exI [of _ "''255''"] exI [of _ "''7''"])
       (simp add: octet_def is_ascii_digit_def char_code_def digits_value_def)
  show "card_shape ''4111 1111 1111 1111''"
    unfolding card_shape_def
    by (intro exI [of _ "CHR ''4''"]
        exI [of _ "[''1'', ''1'', ''1'', '' 1'', ''1'', ''1'', ''1'', '' 1'', ''1'', ''1'', ''1'', '' 1'', ''1'', ''1'', ''1'']"])
       (simp add: card_group_def is_ascii_digit_def char_code_def)
  show "luhn_sum (digit_values ''4111 1111 1111 1111'') mod 10 = 0" by code_simp
qed

theorem detectors_recognise_witness:
  "\<forall>nd fe fp. scan_allowed (compile nd fe fp) ''123-45-6789'' {Email, Ssn} = Some Ssn
   \<and> scan_allowed (compile nd fe fp) ''10.0.255.7'' {IpAddress} = Some IpAddress
   \<and> scan_allowed (compile nd fe fp) ''4111 1111 1111 1111'' all_pii_types = Some CreditCard"
  using detectors_recognise [of "''123-45-6789''" "{Email, Ssn}"] detectors_recognise [of "''10.0.255.7''" "{IpAddress}"]
    detectors_recognise [of "''4111 1111 1111 1111''" all_pii_types] demo_shapes
  by (simp add: all_pii_types_def)

text \<open>No social security number is relayed. In a column that no rule covers, with the heuristics on and their
  type among those enabled, a cell that holds one leaves as \<open>XXX-XX-\<close> and four digits that depend on
  the key, which is never the value itself, and the change is recorded under its strategy.\<close>

theorem ssn_never_relayed:
  assumes "mx_scanner ctx = compile nd fe fp" "he_enabled (mx_heuristics ctx)" "Ssn \<in> he_allowed (mx_heuristics ctx)"
    and "ssn_shape s"
  shows "\<exists>n change. n < 10000 \<and> mask_cell ctx (bytes_of_str s) idx name None
       = (bytes_of_str (''XXX-XX-'' @ show_padded 4 n), Some change)
     \<and> cc_strategies change = [''ssn''] \<and> bytes_of_str (''XXX-XX-'' @ show_padded 4 n) \<noteq> bytes_of_str s"
proof -
  note e = shape_ends [OF assms(4)]
  have t: "mask_cell ctx (bytes_of_str s) idx name None = mask_cell_text ctx (bytes_of_str s) s idx name"
    by (rule mask_as_text [OF shapes_ascii(1) [OF assms(4)] assms(2), of s]) (use e trim_digits in auto)
  have d: "scan_allowed (mx_scanner ctx) s (he_allowed (mx_heuristics ctx)) = Some Ssn"
    unfolding assms(1) by (rule detected(1) [OF assms(4,3)])
  let ?n = "unat (masking_seed (mx_crates ctx) (mx_key ctx) (bytes_of_str s)) mod 10000"
  have "str_of_bytes (bytes_of_str (''XXX-XX-'' @ show_padded 4 ?n)) \<noteq> str_of_bytes (bytes_of_str s)"
    using e by (cases s) (auto simp: is_ascii_digit_def char_code_def)
  then have "bytes_of_str (''XXX-XX-'' @ show_padded 4 ?n) \<noteq> bytes_of_str s" by metis
  then show ?thesis
    unfolding t by (intro exI [of _ ?n]) (auto simp: mask_cell_text_def d generate_fake_data_def Let_def)
qed

text \<open>A padded value escapes. The detectors look at a cell as it is, so a blank behind the number, as
  PostgreSQL pads every value of a \<^verbatim>\<open>CHAR(n)\<close> column, hides it from the heuristics and it is relayed in
  clear, whatever types are enabled; the database scan trims before it looks and reports the
  column.\<close>

theorem padded_value_escapes:
  assumes "mx_scanner ctx = compile nd fe fp" "ssn_shape s" "fe (s @ '' '') = []" "fp (s @ '' '') = []"
  shows "mask_cell ctx (bytes_of_str (s @ '' '')) idx name None = (bytes_of_str (s @ '' ''), None)
     \<and> scan (compile nd fe fp) (trim (s @ '' '')) = Some Ssn"
proof -
  note e = shape_ends [OF assms(2)]
  have tr: "trim (s @ '' '') = s" using trim_padded e by blast
  have d: "scan_allowed (mx_scanner ctx) (s @ '' '') al = None" for al
    unfolding assms(1) by (rule padded_undetected [OF assms(2)])
  have m: "fst (mask_text_spans (mx_scanner ctx) (s @ '' '') al f) = None" for al f
    by (simp add: mask_text_spans_def assms(1) compile_def assms(3,4) Let_def)
  have "mask_cell_text ctx (bytes_of_str (s @ '' '')) (s @ '' '') idx name = (bytes_of_str (s @ '' ''), None)"
    using m [of "he_allowed (mx_heuristics ctx)" "pseudonym ctx"]
    by (cases "mask_text_spans (mx_scanner ctx) (s @ '' '') (he_allowed (mx_heuristics ctx)) (pseudonym ctx)")
       (simp add: mask_cell_text_def d Let_def)
  moreover have "mask_cell ctx (bytes_of_str (s @ '' '')) idx name None
      = (if he_enabled (mx_heuristics ctx) then mask_cell_text ctx (bytes_of_str (s @ '' '')) (s @ '' '') idx name
         else (bytes_of_str (s @ '' ''), None))"
    using mask_as_text [of "s @ '' ''" ctx s idx name] shapes_ascii(1) [OF assms(2)] e tr
    by (simp add: mask_cell_def mask_cell_heuristic_def)
  ultimately show ?thesis using detected(1) [OF assms(2)] by (simp add: tr scan_def all_pii_types_def)
qed

text \<open>The default heuristics, under a scanner that finds nothing inside of texts.\<close>

definition demo_detection :: "u64 mask_context" where
  "demo_detection = \<lparr>mx_scanner = compile (\<lambda>_. False) (\<lambda>_. []) (\<lambda>_. []), mx_heuristics = heuristic_settings_from_config None,
     mx_key = [7], mx_crates = test_crates\<rparr>"

lemma demo_detection_facts:
  "mx_scanner demo_detection = compile (\<lambda>_. False) (\<lambda>_. []) (\<lambda>_. [])" "he_enabled (mx_heuristics demo_detection)"
  "Ssn \<in> he_allowed (mx_heuristics demo_detection)"
proof -
  have "from_config_name ''ssn'' = Some Ssn" by code_simp
  moreover have "''ssn'' \<in> set default_heuristic_types" by code_simp
  ultimately show "Ssn \<in> he_allowed (mx_heuristics demo_detection)"
    by (auto simp: demo_detection_def heuristic_settings_from_config_def default_heuristics_config_def map_filter_def
        intro!: image_eqI [where x = "''ssn''"])
qed (simp_all add: demo_detection_def heuristic_settings_from_config_def default_heuristics_config_def)

theorem ssn_never_relayed_witness:
  "\<exists>n change. mask_cell demo_detection (bytes_of_str ''123-45-6789'') 0 None None
     = (bytes_of_str (''XXX-XX-'' @ show_padded 4 n), Some change) \<and> cc_strategies change = [''ssn'']"
  using ssn_never_relayed [OF demo_detection_facts demo_shapes(1), of 0 None] by blast

theorem padded_value_escapes_witness:
  "mask_cell demo_detection (bytes_of_str ''123-45-6789 '') 0 None None = (bytes_of_str ''123-45-6789 '', None)"
  using padded_value_escapes [OF demo_detection_facts(1) demo_shapes(1) refl refl, of 0 None] by simp

end
