(* ===== verification/Confinement.thy ===== *)
theory Confinement
  imports Detectors Pg_Relay MySql_Relay
begin

text \<open>
  What the heuristics are for, over whole sessions: a social security number that is a value of a row of the
  server does not reach the client while they are on, whatever else happens in the session. The detectors
  of \<open>Detectors\<close>, the masking of a cell and the relays of both protocols are put together here.
\<close>

section \<open>What is hidden\<close>

text \<open>The formats whose stand-ins the proxy makes up itself, without the fake-data library.\<close>

definition own_formats :: "string set" where
  "own_formats = {''ssn'', ''ip'', ''dob'', ''passport''}"

text \<open>Masking is on, the heuristics look for social security numbers and a rule, if there is one, has one of
  the proxy's own formats.\<close>

definition guards :: "app_config \<Rightarrow> bool" where
  "guards c \<longleftrightarrow> cf_masking_enabled c \<and> he_enabled (heuristic_settings_from_config (cf_heuristics c))
     \<and> Ssn \<in> he_allowed (heuristic_settings_from_config (cf_heuristics c))
     \<and> (\<forall>r \<in> set (cf_rules c). mr_strategy r \<in> own_formats)"

text \<open>A value and what is sent for it: if it is a number, what is sent is a text that is none.\<close>

definition hides :: "byte list option \<Rightarrow> byte list option \<Rightarrow> bool" where
  "hides v v' \<longleftrightarrow> (\<forall>s. v = Some (bytes_of_str s) \<and> ssn_shape s \<longrightarrow> (\<exists>t. v' = Some (bytes_of_str t) \<and> \<not> ssn_shape t))"

fun pg_hides :: "pg_msg \<Rightarrow> pg_msg \<Rightarrow> bool" where
  "pg_hides (PDataRow row) (PDataRow row') \<longleftrightarrow> list_all2 hides (dr_values row) (dr_values row')"
| "pg_hides m m' \<longleftrightarrow> m' = m"

fun my_hides :: "my_msg \<Rightarrow> my_msg \<Rightarrow> bool" where
  "my_hides (MResultRow row) (MResultRow row') \<longleftrightarrow> list_all2 hides (rr_values row) (rr_values row')"
| "my_hides m m' \<longleftrightarrow> m' = m"

section \<open>A cell\<close>

lemma ssn_frame:
  assumes "ssn_shape s"
  shows "length s = 11" "is_ascii_digit (hd s)" "c \<in> set s \<Longrightarrow> is_ascii_digit c \<or> c = CHR ''-''"
  using assms shape_ends [OF assms] ssn_chars [OF assms] by (auto simp: ssn_shape_def digits_def)

lemma own_stand_in:
  assumes "strat \<in> own_formats"
  shows "\<not> ssn_shape (generate_fake_data cr strat seed)"
proof
  assume s: "ssn_shape (generate_fake_data cr strat seed)"
  note f = ssn_frame [OF s] and w = stand_ins_well_formed [of cr seed]
  have "length (generate_fake_data cr ''dob'' seed) = 10" using w by auto
  with f(1) w have "strat \<noteq> ''dob''" "strat \<noteq> ''passport''" by auto
  moreover have "CHR ''.'' \<in> set (generate_fake_data cr ''ip'' seed)" using w by auto
  with f(3) [of "CHR ''.''"] have "strat \<noteq> ''ip''" by (auto simp: is_ascii_digit_def char_code_def)
  moreover have "hd (generate_fake_data cr ''ssn'' seed) = CHR ''X''" by (simp add: generate_fake_data_def Let_def)
  with f(2) have "strat \<noteq> ''ssn''" by (auto simp: is_ascii_digit_def char_code_def)
  ultimately show False using assms by (simp add: own_formats_def)
qed

lemma mask_cell_hides:
  assumes "mx_scanner ctx = compile nd fe fp" "he_enabled (mx_heuristics ctx)" "Ssn \<in> he_allowed (mx_heuristics ctx)"
    and "\<And>strat. rule = Some strat \<Longrightarrow> strat \<in> own_formats"
  shows "hides (Some v) (Some (fst (mask_cell ctx v k name rule)))"
  unfolding hides_def
proof (intro allI impI)
  fix s assume v: "Some v = Some (bytes_of_str s) \<and> ssn_shape s"
  show "\<exists>t. Some (fst (mask_cell ctx v k name rule)) = Some (bytes_of_str t) \<and> \<not> ssn_shape t"
  proof (cases rule)
    case None
    from ssn_never_relayed [OF assms(1-3), of s k name] v obtain n change where
      "mask_cell ctx v k name None = (bytes_of_str (''XXX-XX-'' @ show_padded 4 n), Some change)" by auto
    moreover have "\<not> ssn_shape (''XXX-XX-'' @ show_padded 4 n)"
      using ssn_frame(2) [of "''XXX-XX-'' @ show_padded 4 n"] by (auto simp: is_ascii_digit_def char_code_def)
    ultimately show ?thesis using None by auto
  next
    case (Some strat)
    from assms(4) [OF this] have "strat \<in> own_formats" .
    then have "strat \<noteq> ''json''" "strat \<noteq> ''hash''" by (auto simp: own_formats_def)
    with own_stand_in [OF \<open>strat \<in> own_formats\<close>] show ?thesis by (auto simp: Some mask_cell_rule replacement_def)
  qed
qed

section \<open>A row\<close>

lemma find_member: "find P xs = Some x \<Longrightarrow> x \<in> set xs"
  by (auto simp: find_Some_iff)

definition own_targets :: "(nat \<times> string) list \<Rightarrow> bool" where
  "own_targets targets \<longleftrightarrow> snd ` set targets \<subseteq> own_formats"

lemma mask_values_hides:
  assumes "guards (as_config s)" "own_targets targets"
  shows "list_all2 hides vs (fst (mask_values (row_context cr (compile nd fe fp) s) targets labels 0 vs))"
  unfolding list_all2_conv_all_nth
proof (intro conjI allI impI)
  let ?ctx = "row_context cr (compile nd fe fp) s"
  show "length vs = length (fst (mask_values ?ctx targets labels 0 vs))" by (simp add: mask_values_shape)
  fix k assume k: "k < length vs"
  show "hides (vs ! k) (fst (mask_values ?ctx targets labels 0 vs) ! k)"
  proof (cases "vs ! k")
    case None
    then show ?thesis by (simp add: hides_def)
  next
    case (Some v)
    have "strat \<in> own_formats" if "explicit_strategy targets k = Some strat" for strat
      using that assms(2) by (force simp: explicit_strategy_def own_targets_def dest: find_member)
    from mask_cell_hides [where ctx = ?ctx and nd = nd and fe = fe and fp = fp and v = v and k = k, OF _ _ _ this] assms(1) mask_values_nth [OF k Some, of ?ctx targets labels 0]
    show ?thesis by (simp add: Some row_context_def guards_def)
  qed
qed

lemma own_targets_Nil [simp]: "own_targets []"
  by (simp add: own_targets_def)

lemma own_targets_add: "own_targets ts \<Longrightarrow> r \<in> set (cf_rules c) \<Longrightarrow> guards c \<Longrightarrow> own_targets (ts @ [(k, mr_strategy r)])"
  by (simp add: own_targets_def guards_def)

lemma describe_fields_targets:
  "guards c \<Longrightarrow> own_targets (an_target_cols a) \<Longrightarrow> own_targets (an_target_cols (describe_fields (cf_rules c) i fs a))"
proof (induction fs arbitrary: i a)
  case (Cons f fs)
  let ?a = "a\<lparr>an_column_labels := an_column_labels a @ [field_label f]\<rparr>"
  let ?b = "case find (pg_rule_matches ?a f) (cf_rules c) of
      Some rule \<Rightarrow> ?a\<lparr>an_target_cols := an_target_cols ?a @ [(i, mr_strategy rule)]\<rparr> | None \<Rightarrow> ?a"
  have "own_targets (an_target_cols ?b)"
    using Cons.prems own_targets_add [OF Cons.prems(2) find_member Cons.prems(1)] by (simp split: option.split)
  from Cons.IH [OF Cons.prems(1) this, of "Suc i"] show ?case by (simp only: describe_fields.simps Let_def)
qed simp

section \<open>Sessions\<close>

interpretation pg_guard: pg_watch cr "compile nd fe fp" guards "\<lambda>a. own_targets (an_target_cols a)" pg_hides for cr nd fe fp
proof unfold_locales
  show "pg_hides m m" if "\<And>row. m \<noteq> PDataRow row" for m
    using that by (cases m) auto
  show "pg_hides (PDataRow row) (PDataRow (fst (on_data_row cr (compile nd fe fp) st a row s)))"
    if "guards (as_config s)" "own_targets (an_target_cols a)" for s a row st
    using mask_values_hides [OF that, of "dr_values row" cr nd fe fp "an_column_labels a"] that(1)
    by (auto simp: on_data_row_def guards_def Let_def split: prod.split)
qed (simp_all add: on_row_description_def describe_fields_targets reset_columns_def)

interpretation my_guard: my_watch cr "compile nd fe fp" guards "\<lambda>a. own_targets (ma_target_cols a)" my_hides for cr nd fe fp
proof unfold_locales
  show "my_hides m m" if "\<And>row. m \<noteq> MResultRow row" for m
    using that by (cases m) auto
  show "my_hides (MResultRow row) (MResultRow (fst (on_result_row cr (compile nd fe fp) st a row s)))"
    if "guards (as_config s)" "own_targets (ma_target_cols a)" for s a row st
    using mask_values_hides [OF that, of "rr_values row" cr nd fe fp "ma_column_names a"] that(1)
    by (auto simp: on_result_row_def guards_def Let_def split: prod.split)
  show "own_targets (ma_target_cols (on_column_definition s col a))"
    if "guards (as_config s)" "own_targets (ma_target_cols a)" for s a col
    using that own_targets_add [OF that(2) find_member that(1)] by (simp add: on_column_definition_def Let_def split: option.split)
qed (simp add: my_reset_columns_def)

text \<open>The default configuration guards a session, and a MySQL session that is about to read a row.\<close>

lemma test_state_rules: "cf_rules (as_config (test_state rules b)) = rules"
  by (simp add: test_state_def app_state_new_def)

lemma guards_default: "guards (as_config (test_state [] True))"
  using demo_detection_facts(2,3)
  by (simp add: guards_def test_state_def app_state_new_def default_app_config_def demo_detection_def)

definition demo_row_session :: "result_row \<Rightarrow> my_session" where
  "demo_row_session row = (demo_my_session (test_state [] True) [] [])
     \<lparr>mq_upstream := demo_my_leg (new_client\<lparr>mc_state := ReadingRows, mc_column_count := 1\<rparr>) (encode_result_row row)\<rparr>"

lemma demo_row_next:
  assumes "row_ok 1 row"
  obtains l where "leg_next my_decode (mq_upstream (demo_row_session row)) = (Ok (Some (MResultRow row)), l)"
proof -
  obtain seq v where r: "row = \<lparr>rr_sequence_id = seq, rr_values = [v]\<rparr>" "\<forall>b. Some b \<in> set [v] \<longrightarrow> fits b"
    using assms by (cases row) (auto simp: row_ok_def length_Suc_conv)
  have "reading_rows (new_client\<lparr>mc_state := ReadingRows, mc_column_count := 1\<rparr>) (length [v])"
    by (simp add: reading_rows_def new_client_def)
  from decode_row [OF this _ r(2), of seq "[]"] r(1) show ?thesis
    by (intro that) (simp add: demo_row_session_def demo_my_leg_def leg_next_def)
qed

section \<open>Properties\<close>

text \<open>C5: No social security number crosses a PostgreSQL session as the value of a row, provided that masking
  and its heuristics for them are on and every rule has one of the proxy's own formats (ssn, ip, dob,
  passport), now and after every change of the configuration during the run; that the run starts with no
  column targeted yet; and that the table map is loaded, or there is no rule and none is added. Then,
  whatever client and server send, in whichever order and pieces, with or without a description of the
  rows, every message of the server that was read reaches the client in its place: a \<^verbatim>\<open>DataRow\<close> with each value
  that was such a number turned into a text that is none, and every other message as it came. (Errors,
  notices and the data of a COPY are such other messages: numbers in them are not looked for.)\<close>

theorem postgres_session_hides_ssn:
  assumes "pg_run cr (compile nd fe fp) ts ses = (None, ses')" "quiet ts ses" "guards (as_config (ps_state ses))"
    and "\<forall>s. Elsewhere s \<in> set ts \<longrightarrow> guards (as_config s)" "an_target_cols (ps_interceptor ses) = []"
  shows "\<exists>up out. leg_messages pg_decode (ps_upstream ses) = up @ leg_messages pg_decode (ps_upstream ses')
     \<and> sent_messages (lg_out (ps_client ses')) = sent_messages (lg_out (ps_client ses)) @ out
     \<and> list_all2 pg_hides up out"
proof -
  have "watched guards (\<lambda>a. own_targets (an_target_cols a)) ts ses"
    using assms(2-5) by (simp add: watched_def)
  from pg_guard.run_watched [OF this assms(1)] show ?thesis unfolding turn_relay_def by blast
qed

text \<open>A row that comes without a description.\<close>

theorem postgres_session_hides_ssn_witness:
  "let row = \<lparr>dr_values = [Some (bytes_of_str ''123-45-6789'')]\<rparr>; ses = demo_session (test_state [] True) [] [PDataRow row] False in
   \<exists>ses' row' t. pg_run test_crates (compile (\<lambda>_. False) (\<lambda>_. []) (\<lambda>_. [])) [Upstream_Ready (''i'', 1)] ses = (None, ses')
     \<and> sent_messages (lg_out (ps_client ses')) = [PDataRow row'] \<and> dr_values row' = [Some (bytes_of_str t)] \<and> \<not> ssn_shape t"
proof -
  let ?sc = "compile (\<lambda>_. False) (\<lambda>_. []) (\<lambda>_. [])" and ?row = "\<lparr>dr_values = [Some (bytes_of_str ''123-45-6789'')]\<rparr>"
  let ?ses = "demo_session (test_state [] True) [] [PDataRow ?row] False" and ?ts = "[Upstream_Ready (''i'', 1)]"
  let ?l = "(ps_upstream ?ses)\<lparr>lg_buf := []\<rparr>"
  have w: "pg_wf (PDataRow ?row)" by (simp add: pg_wf_def MAX_FRAME_LEN_def encode_pg_value_def bytes_of_str_def)
  have n: "leg_next pg_decode (ps_upstream ?ses) = (Ok (Some (PDataRow ?row)), ?l)"
    using pg_next_last [OF w] by (simp add: demo_session_def demo_leg_def del: pg_encode.simps)
  obtain row' s' where r: "on_data_row test_crates ?sc (''i'', 1) (ps_interceptor ?ses) ?row (ps_state ?ses) = (row', s')" by fastforce
  let ?ses' = "?ses\<lparr>ps_upstream := ?l, ps_state := s', ps_client := pg_send (PDataRow row') (ps_client ?ses)\<rparr>"
  have run: "pg_run test_crates ?sc ?ts ?ses = (None, ?ses')"
    using n r by (simp add: pg_turn_def pg_upstream_msg_def)
  have sent: "sent_messages (lg_out (ps_client ?ses)) = []" "sent_messages (lg_out (ps_client ?ses')) = [PDataRow row']"
    by (simp_all add: demo_session_def demo_leg_def pg_send_def write_sent_def)
  from postgres_session_hides_ssn [OF run] guards_default sent obtain up where
    u: "leg_messages pg_decode (ps_upstream ?ses) = up @ leg_messages pg_decode ?l" "list_all2 pg_hides up [PDataRow row']"
    by (auto simp: demo_session_def quiet_def anonymizer_new_def test_state_rules)
  from u(1) pg.leg_next_drain [OF n] have "up = [PDataRow ?row]" by simp
  with u(2) obtain v' where "dr_values row' = [v']" "hides (Some (bytes_of_str ''123-45-6789'')) v'"
    by (auto simp: list_all2_Cons1)
  with demo_shapes(1) run sent(2) show ?thesis unfolding Let_def hides_def by blast
qed

text \<open>C6: No social security number crosses the command phase of a MySQL session as the value of a row
  either. Under the same conditions on the configuration and the targeted columns every message of the
  server that a run reads reaches the client in its place, a row with each such number turned into a text
  that is none and every other message as it came; the only other thing the client gets is the refusal
  of a binary command.\<close>

theorem mysql_session_hides_ssn:
  assumes "my_run cr (compile nd fe fp) ts ses = (None, ses')" "guards (as_config (mq_state ses))"
    and "\<forall>s. Elsewhere s \<in> set ts \<longrightarrow> guards (as_config s)" "ma_target_cols (mq_interceptor ses) = []"
  shows "\<exists>out. sent_messages (lg_out (mq_client ses')) = sent_messages (lg_out (mq_client ses)) @ out
     \<and> list_all2 (client_gets my_hides) (to_client (run_reads cr (compile nd fe fp) ts ses)) out"
proof -
  have "my_watched guards (\<lambda>a. own_targets (ma_target_cols a)) ts ses"
    using assms(2-4) by (simp add: my_watched_def)
  from my_guard.run_watched [OF this assms(1)] show ?thesis unfolding relays_def by blast
qed

theorem mysql_session_hides_ssn_witness:
  "let row = \<lparr>rr_sequence_id = 4, rr_values = [Some (bytes_of_str ''123-45-6789'')]\<rparr>; ses = demo_row_session row in
   \<exists>ses' row' t. my_run test_crates (compile (\<lambda>_. False) (\<lambda>_. []) (\<lambda>_. [])) [Upstream_Ready (''i'', 1)] ses = (None, ses')
     \<and> sent_messages (lg_out (mq_client ses')) = [MResultRow row'] \<and> rr_values row' = [Some (bytes_of_str t)] \<and> \<not> ssn_shape t"
proof -
  let ?sc = "compile (\<lambda>_. False) (\<lambda>_. []) (\<lambda>_. [])"
  let ?row = "\<lparr>rr_sequence_id = 4, rr_values = [Some (bytes_of_str ''123-45-6789'')]\<rparr>"
  let ?ses = "demo_row_session ?row" and ?ts = "[Upstream_Ready (''i'', 1)]"
  obtain l where n: "leg_next my_decode (mq_upstream ?ses) = (Ok (Some (MResultRow ?row)), l)"
    using demo_row_next [of ?row] by (auto simp: row_ok_def fits_def bytes_of_str_def)
  obtain row' s' where r: "on_result_row test_crates ?sc (''i'', 1) (mq_interceptor ?ses) ?row (mq_state ?ses) = (row', s')" by fastforce
  let ?ses' = "?ses\<lparr>mq_upstream := l, mq_state := s', mq_client := my_send (MResultRow row') (mq_client ?ses)\<rparr>"
  have run: "my_run test_crates ?sc ?ts ?ses = (None, ?ses')"
    using n r by (simp add: my_turn_def my_upstream_msg_def Let_def)
  have sent: "sent_messages (lg_out (mq_client ?ses)) = []" "sent_messages (lg_out (mq_client ?ses')) = [MResultRow row']"
    by (simp_all add: demo_row_session_def demo_my_session_def demo_my_leg_def my_send_def write_sent_def split: prod.split)
  have reads: "run_reads test_crates ?sc ?ts ?ses = [(False, MResultRow ?row)]"
    using n r by (simp add: turn_read_def my_turn_def my_upstream_msg_def Let_def)
  have g: "guards (as_config (mq_state ?ses))" "ma_target_cols (mq_interceptor ?ses) = []"
    using guards_default by (simp_all add: demo_row_session_def demo_my_session_def my_anonymizer_new_def)
  from mysql_session_hides_ssn [OF run g(1) _ g(2), unfolded reads] sent
  have "my_hides (MResultRow ?row) (MResultRow row')" by (simp add: to_client_def del: my_hides.simps)
  then obtain v' where "rr_values row' = [v']" "hides (Some (bytes_of_str ''123-45-6789'')) v'"
    by (auto simp: list_all2_Cons1)
  with demo_shapes(1) run sent(2) show ?thesis unfolding Let_def hides_def by blast
qed

end
