(* ===== verification/Rules.thy ===== *)
theory Rules
  imports Interceptor
begin

text \<open>
  The rule list as the management API edits it, \<^verbatim>\<open>normalized_rule_key\<close> to \<^verbatim>\<open>normalize_rule\<close> and the
  edits of the handlers in \<^verbatim>\<open>src/src/api.rs\<close>. The list is a map from normalised (table, column)
  keys to strategies: the locale \<open>keyed_store\<close> states what an insertion promises, and the rule
  list is an instance. The interceptors see a rule only through its key, so the edits have the
  intended effect on what is masked.
\<close>

section \<open>Operations\<close>

datatype rule_mutation_outcome = Added | Updated | Unchanged

fun outcome_str :: "rule_mutation_outcome \<Rightarrow> string" where
  "outcome_str Added = ''added''"
| "outcome_str Updated = ''updated''"
| "outcome_str Unchanged = ''unchanged''"

type_synonym rule_key = "string option \<times> string"

definition normalized_rule_key :: "masking_rule \<Rightarrow> rule_key" where
  "normalized_rule_key r =
     (map_option (\<lambda>t. to_ascii_lowercase (trim t)) (mr_table r), to_ascii_lowercase (trim (mr_column r)))"

text \<open>\<open>retain\<close> with the set of keys seen so far; the number is how many were dropped.\<close>

fun retain_new :: "rule_key list \<Rightarrow> masking_rule list \<Rightarrow> masking_rule list" where
  "retain_new seen [] = []"
| "retain_new seen (r # rs) =
     (if normalized_rule_key r \<in> set seen then retain_new seen rs
      else r # retain_new (normalized_rule_key r # seen) rs)"

definition dedupe_rules :: "masking_rule list \<Rightarrow> masking_rule list \<times> nat" where
  "dedupe_rules rules = (let rs = retain_new [] rules in (rs, length rules - length rs))"

fun upsert_rule :: "masking_rule list \<Rightarrow> masking_rule \<Rightarrow> masking_rule list \<times> rule_mutation_outcome" where
  "upsert_rule [] incoming = ([incoming], Added)"
| "upsert_rule (r # rs) incoming =
     (if normalized_rule_key r = normalized_rule_key incoming then
        (if mr_strategy r = mr_strategy incoming then (r # rs, Unchanged)
         else (r\<lparr>mr_strategy := mr_strategy incoming\<rparr> # rs, Updated))
      else let (rs', out) = upsert_rule rs incoming in (r # rs', out))"

definition normalize_rule :: "masking_rule \<Rightarrow> masking_rule" where
  "normalize_rule r =
     r\<lparr>mr_column := to_ascii_lowercase (trim (mr_column r)),
       mr_table := opt_filter (\<lambda>t. t \<noteq> []) (map_option (\<lambda>t. to_ascii_lowercase (trim t)) (mr_table r))\<rparr>"

text \<open>The test of the deletion: the rules it keeps.\<close>

definition delete_keeps :: "string option \<Rightarrow> string \<Rightarrow> masking_rule \<Rightarrow> bool" where
  "delete_keeps table column r =
     (let (rule_table, rule_column) = normalized_rule_key r in
      if rule_column \<noteq> column then True
      else case table of Some t \<Rightarrow> rule_table \<noteq> Some t | None \<Rightarrow> False)"

text \<open>The loop of the import, with its three counters.\<close>

fun import_loop :: "masking_rule list \<Rightarrow> masking_rule list \<Rightarrow> nat \<times> nat \<times> nat
    \<Rightarrow> masking_rule list \<times> nat \<times> nat \<times> nat" where
  "import_loop [] rules counts = (rules, counts)"
| "import_loop (r # rs) rules (added, updated, unchanged) =
     (let (rules, out) = upsert_rule rules (normalize_rule r) in
      import_loop rs rules
        (case out of Added \<Rightarrow> (added + 1, updated, unchanged)
         | Updated \<Rightarrow> (added, updated + 1, unchanged)
         | Unchanged \<Rightarrow> (added, updated, unchanged + 1)))"

section \<open>Keyed stores\<close>

locale keyed_store =
  fixes look :: "'s \<Rightarrow> 'k \<Rightarrow> 'v option"
    and put :: "'e \<Rightarrow> 's \<Rightarrow> 's"
    and key :: "'e \<Rightarrow> 'k"
    and val :: "'e \<Rightarrow> 'v"
  assumes look_put: "look (put e s) k = (if k = key e then Some (val e) else look s k)"
begin

lemma look_put_same: "look (put e s) (key e) = Some (val e)"
  by (simp add: look_put)

lemma put_idem: "look (put e (put e s)) = look (put e s)"
  by (rule ext) (simp add: look_put)

lemma put_commute: "key e \<noteq> key f \<Longrightarrow> look (put e (put f s)) = look (put f (put e s))"
  by (rule ext) (auto simp: look_put)

text \<open>Storing several elements: the last one stored under a key counts.\<close>

lemma look_fold_put:
  "look (fold put es s) k =
     (case find (\<lambda>e. key e = k) (rev es) of Some e \<Rightarrow> Some (val e) | None \<Rightarrow> look s k)"
proof (induction es rule: rev_induct)
  case (snoc e es)
  then show ?case by (auto simp: look_put)
qed simp

end

section \<open>The rule list as a store\<close>

definition rule_lookup :: "masking_rule list \<Rightarrow> rule_key \<Rightarrow> string option" where
  "rule_lookup rules k = map_option mr_strategy (find (\<lambda>r. normalized_rule_key r = k) rules)"

lemma rule_lookup_simps [simp]:
  "rule_lookup [] k = None"
  "rule_lookup (r # rs) k = (if normalized_rule_key r = k then Some (mr_strategy r) else rule_lookup rs k)"
  by (auto simp: rule_lookup_def)

lemma key_strategy_update [simp]:
  "normalized_rule_key (r\<lparr>mr_strategy := s\<rparr>) = normalized_rule_key r"
  by (simp add: normalized_rule_key_def)

lemma rule_lookup_upsert:
  "rule_lookup (fst (upsert_rule rules r)) k =
     (if k = normalized_rule_key r then Some (mr_strategy r) else rule_lookup rules k)"
  by (induction rules r rule: upsert_rule.induct) (auto split: prod.split)

interpretation rules: keyed_store rule_lookup "\<lambda>r rs. fst (upsert_rule rs r)" normalized_rule_key mr_strategy
  by unfold_locales (rule rule_lookup_upsert)

lemma upsert_outcome:
  "snd (upsert_rule rules r) =
     (case rule_lookup rules (normalized_rule_key r) of
        None \<Rightarrow> Added | Some s \<Rightarrow> if s = mr_strategy r then Unchanged else Updated)"
  by (induction rules r rule: upsert_rule.induct) (auto split: prod.split)

lemma keys_upsert:
  "map normalized_rule_key (fst (upsert_rule rules r)) =
     map normalized_rule_key rules
     @ (if rule_lookup rules (normalized_rule_key r) = None then [normalized_rule_key r] else [])"
  by (induction rules r rule: upsert_rule.induct) (auto split: prod.split)

definition distinct_keys :: "masking_rule list \<Rightarrow> bool" where
  "distinct_keys rules \<longleftrightarrow> distinct (map normalized_rule_key rules)"

lemma rule_lookup_None_iff: "rule_lookup rules k = None \<longleftrightarrow> k \<notin> normalized_rule_key ` set rules"
  by (auto simp: rule_lookup_def find_None_iff)

lemma distinct_keys_upsert: "distinct_keys rules \<Longrightarrow> distinct_keys (fst (upsert_rule rules r))"
  by (auto simp: distinct_keys_def keys_upsert rule_lookup_None_iff)

lemma set_keys_retain: "normalized_rule_key ` set (retain_new seen rules) \<subseteq> normalized_rule_key ` set rules - set seen"
  by (induction seen rules rule: retain_new.induct) auto

lemma retain_new_props:
  "distinct (map normalized_rule_key (retain_new seen rules))
   \<and> (\<forall>k. k \<notin> set seen \<longrightarrow> rule_lookup (retain_new seen rules) k = rule_lookup rules k)
   \<and> length (retain_new seen rules) \<le> length rules"
proof (induction seen rules rule: retain_new.induct)
  case (2 seen r rs)
  then show ?case using set_keys_retain [of "normalized_rule_key r # seen" rs] by auto
qed simp

lemma distinct_keys_dedupe: "distinct_keys (fst (dedupe_rules rules))"
  using retain_new_props [of "[]" rules] by (simp add: dedupe_rules_def distinct_keys_def Let_def)

lemma rule_lookup_dedupe: "rule_lookup (fst (dedupe_rules rules)) = rule_lookup rules"
  using retain_new_props [of "[]" rules] by (auto simp: dedupe_rules_def Let_def)

lemma dedupe_count: "length (fst (dedupe_rules rules)) + snd (dedupe_rules rules) = length rules"
  using retain_new_props [of "[]" rules] by (simp add: dedupe_rules_def Let_def)

lemma import_loop_fold:
  "fst (import_loop rs rules counts) = fold (\<lambda>r rules. fst (upsert_rule rules r)) (map normalize_rule rs) rules"
  by (induction rs rules counts rule: import_loop.induct) (auto split: prod.split)

lemma import_loop_counts:
  "(case snd (import_loop rs rules (a, u, n)) of (a', u', n') \<Rightarrow>
      a' + u' + n' = a + u + n + length rs
      \<and> length (fst (import_loop rs rules (a, u, n))) + a = length rules + a')"
proof (induction rs arbitrary: rules a u n)
  case (Cons r rs)
  obtain rules' out where u: "upsert_rule rules (normalize_rule r) = (rules', out)" by fastforce
  have "length rules' = length rules + (if out = Added then 1 else 0)"
    using keys_upsert [of rules "normalize_rule r"] upsert_outcome [of rules "normalize_rule r"]
    by (simp add: u) (auto split: option.splits if_splits dest!: arg_cong [where f = length])
  then show ?case
    using Cons.IH [of "a + 1" u n rules'] Cons.IH [of a "u + 1" n rules'] Cons.IH [of a u "n + 1" rules']
    by (cases out) (auto simp: u split: prod.splits)
qed simp

lemma distinct_keys_fold:
  "distinct_keys rules \<Longrightarrow> distinct_keys (fold (\<lambda>r rules. fst (upsert_rule rules r)) rs rules)"
  by (induction rs arbitrary: rules) (auto intro: distinct_keys_upsert)

lemma distinct_keys_filter: "distinct_keys rules \<Longrightarrow> distinct_keys (filter P rules)"
  by (auto simp: distinct_keys_def distinct_map_filter)

lemma rule_lookup_delete:
  "rule_lookup (filter (delete_keeps table column) rules) k =
     (if snd k = column \<and> (table = None \<or> fst k = table) then None else rule_lookup rules k)"
  by (induction rules) (auto simp: delete_keeps_def Let_def split: prod.splits option.splits)

section \<open>Rules as the interceptors see them\<close>

lemma normalize_identifier_fold: "(\<lambda>t. to_ascii_lowercase (trim t)) = normalize_identifier"
  by (rule ext) (simp add: normalize_identifier_def)

lemma normalized_rule_key_alt:
  "normalized_rule_key r = (map_option normalize_identifier (mr_table r), normalize_identifier (mr_column r))"
  by (simp add: normalized_rule_key_def normalize_identifier_fold) (simp add: normalize_identifier_def)

lemma key_normalize_rule:
  "normalized_rule_key (normalize_rule r) = (opt_filter (\<lambda>t. t \<noteq> []) (fst (normalized_rule_key r)), snd (normalized_rule_key r))"
proof -
  have "normalize_rule r = r\<lparr>mr_column := normalize_identifier (mr_column r),
      mr_table := opt_filter (\<lambda>t. t \<noteq> []) (map_option normalize_identifier (mr_table r))\<rparr>"
    by (simp add: normalize_rule_def normalize_identifier_fold) (simp add: normalize_identifier_def)
  then show ?thesis
    by (auto simp: normalized_rule_key_alt normalize_identifier_idem opt_filter_def split: option.split)
qed

lemma strategy_normalize_rule [simp]: "mr_strategy (normalize_rule r) = mr_strategy r"
  by (simp add: normalize_rule_def)

text \<open>A predicate on rules that looks at the key only, as both interceptors' do.\<close>

definition key_only :: "(masking_rule \<Rightarrow> bool) \<Rightarrow> bool" where
  "key_only P \<longleftrightarrow> (\<exists>Q. \<forall>r. P r = Q (normalized_rule_key r))"

lemma key_onlyE: "key_only P \<Longrightarrow> (\<And>Q. P = (\<lambda>r. Q (normalized_rule_key r)) \<Longrightarrow> thesis) \<Longrightarrow> thesis"
  unfolding key_only_def by (metis ext)

lemma key_only_pg: "key_only (pg_rule_matches a f)"
  unfolding key_only_def
  by (intro exI [of _ "\<lambda>(t, c). (case t of None \<Rightarrow> True
        | Some t \<Rightarrow> fd_table_oid f \<noteq> 0 \<and> t \<in> set (an_table_names_by_oid a (fd_table_oid f)))
      \<and> (c = field_label f \<or> source_column a f = Some c)"] allI)
    (simp add: pg_rule_matches_def normalized_rule_key_alt postgres_rule_matches_table_def Let_def split: option.split)

lemma key_only_my: "key_only (my_rule_matches col)"
  unfolding key_only_def
  by (rule exI [of _ "\<lambda>(t, c). (case t of None \<Rightarrow> True
        | Some t \<Rightarrow> t = my_label (cd_table col) \<or> my_label (cd_org_table col) \<noteq> [] \<and> t = my_label (cd_org_table col))
      \<and> (c = my_label (cd_name col) \<or> my_label (cd_org_name col) \<noteq> [] \<and> c = my_label (cd_org_name col))"] allI)
    (simp add: my_rule_matches_def normalized_rule_key_alt Let_def split: option.split)

definition selected :: "(masking_rule \<Rightarrow> bool) \<Rightarrow> masking_rule list \<Rightarrow> string option" where
  "selected P rules = map_option mr_strategy (find P rules)"

lemma selected_simps [simp]:
  "selected P [] = None" "selected P (r # rs) = (if P r then Some (mr_strategy r) else selected P rs)"
  by (simp_all add: selected_def)

lemma selected_retain:
  "\<forall>k \<in> set seen. \<not> Q k \<Longrightarrow>
   selected (\<lambda>r. Q (normalized_rule_key r)) (retain_new seen rules) = selected (\<lambda>r. Q (normalized_rule_key r)) rules"
  by (induction seen rules rule: retain_new.induct) auto

lemma selected_dedupe: "key_only P \<Longrightarrow> selected P (fst (dedupe_rules rules)) = selected P rules"
  by (elim key_onlyE) (simp add: dedupe_rules_def Let_def selected_retain)

lemma selected_upsert_other:
  assumes "key_only P" "\<not> P r"
  shows "selected P (fst (upsert_rule rules r)) = selected P rules"
proof -
  obtain Q where P: "P = (\<lambda>r. Q (normalized_rule_key r))" using assms(1) by (rule key_onlyE)
  show ?thesis
    using assms(2) unfolding P by (induction rules r rule: upsert_rule.induct) (auto split: prod.split)
qed

lemma selected_upsert_same:
  assumes "key_only P" "P r" "\<forall>q \<in> set rules. P q \<longrightarrow> normalized_rule_key q = normalized_rule_key r"
  shows "selected P (fst (upsert_rule rules r)) = Some (mr_strategy r)"
proof -
  obtain Q where P: "P = (\<lambda>r. Q (normalized_rule_key r))" using assms(1) by (rule key_onlyE)
  have "selected P (fst (upsert_rule rules r)) = Some (mr_strategy r)"
    if "\<forall>q \<in> set rules. normalized_rule_key q \<noteq> normalized_rule_key r \<longrightarrow> \<not> P q"
    using assms(2) that unfolding P by (induction rules r rule: upsert_rule.induct) (auto split: prod.split)
  with assms(3) show ?thesis by blast
qed

lemma set_retain_new: "set (retain_new seen rules) \<subseteq> set rules"
  by (induction seen rules rule: retain_new.induct) auto

section \<open>Properties\<close>

text \<open>C32: the API's edits of the rule list implement a map from normalised (table, column) keys to
  strategies: deduplication changes nothing, adding or updating a rule stores one binding, an
  import stores its rules in order with the last one for a key winning, a deletion removes the
  bindings of the column (in the given table, when one is given); after the deduplication that
  precedes an edit no key occurs twice, and no edit introduces a duplicate.\<close>
theorem rules_refine_map:
  "rule_lookup (fst (dedupe_rules rules)) = rule_lookup rules \<and> distinct_keys (fst (dedupe_rules rules))
   \<and> rule_lookup (fst (upsert_rule rules r)) = (rule_lookup rules)(normalized_rule_key r \<mapsto> mr_strategy r)
   \<and> rule_lookup (fst (import_loop rs rules counts)) k =
       (case find (\<lambda>r. normalized_rule_key r = k) (rev (map normalize_rule rs)) of
          Some r \<Rightarrow> Some (mr_strategy r) | None \<Rightarrow> rule_lookup rules k)
   \<and> rule_lookup (filter (delete_keeps table column) rules) k =
       (if snd k = column \<and> (table = None \<or> fst k = table) then None else rule_lookup rules k)
   \<and> (distinct_keys rules \<longrightarrow> distinct_keys (fst (upsert_rule rules r))
       \<and> distinct_keys (fst (import_loop rs rules counts)) \<and> distinct_keys (filter (delete_keeps table column) rules))"
  by (auto simp: rule_lookup_dedupe distinct_keys_dedupe rules.look_put import_loop_fold rules.look_fold_put
      rule_lookup_delete distinct_keys_upsert distinct_keys_fold distinct_keys_filter)

definition rule_of :: "string option \<Rightarrow> string \<Rightarrow> string \<Rightarrow> masking_rule" where
  "rule_of t c s = \<lparr>mr_table = t, mr_column = c, mr_strategy = s\<rparr>"

theorem rules_refine_map_witness:
  "distinct_keys (fst (upsert_rule [rule_of None ''email'' ''hash''] (rule_of None '' EMAIL '' ''email'')))"
proof -
  have "distinct_keys [rule_of None ''email'' ''hash'']" by (simp add: distinct_keys_def)
  with rules_refine_map show ?thesis by blast
qed

text \<open>Adding a rule has exactly the intended effect on what is masked, in both protocols. A column
  that the (normalised) rule does not match keeps the strategy it had, whatever duplicates the
  edit dropped on the way; a column that the rule matches, and no rule with another key, gets
  the new strategy.\<close>
theorem rule_edit_takes_effect:
  assumes "rules' = fst (upsert_rule (fst (dedupe_rules rules)) (normalize_rule r))"
    and "P = pg_rule_matches a f \<or> P = my_rule_matches col"
  shows "(\<not> P (normalize_rule r) \<longrightarrow> map_option mr_strategy (find P rules') = map_option mr_strategy (find P rules))
    \<and> (P (normalize_rule r) \<longrightarrow>
       (\<forall>q \<in> set rules. P q \<longrightarrow> normalized_rule_key q = normalized_rule_key (normalize_rule r)) \<longrightarrow>
       map_option mr_strategy (find P rules') = Some (mr_strategy r))"
proof -
  have "key_only P" using assms(2) key_only_pg key_only_my by auto
  moreover have "set (fst (dedupe_rules rules)) \<subseteq> set rules"
    using set_retain_new by (auto simp: dedupe_rules_def Let_def)
  ultimately show ?thesis
    using selected_upsert_other [of P "normalize_rule r" "fst (dedupe_rules rules)"] selected_dedupe [of P rules]
      selected_upsert_same [of P "normalize_rule r" "fst (dedupe_rules rules)"]
    unfolding assms(1) selected_def [symmetric] by auto
qed

theorem rule_edit_takes_effect_witness:
  "let new = rule_of (Some '''') '' SSN '' ''hash''; old = [test_rule, test_rule];
       rules' = fst (upsert_rule (fst (dedupe_rules old)) (normalize_rule new))
   in map_option mr_strategy (find (my_rule_matches test_column) rules') = Some ''hash''"
proof -
  let ?new = "rule_of (Some '''') '' SSN '' ''hash''"
  have "my_rule_matches test_column (normalize_rule ?new)"
    "normalized_rule_key test_rule = normalized_rule_key (normalize_rule ?new)" "mr_strategy ?new = ''hash''"
    by code_simp+
  with rule_edit_takes_effect [OF refl disjI2 [OF refl], of test_column ?new "[test_rule, test_rule]"]
  show ?thesis by (simp add: Let_def)
qed

end
