(* ===== verification/Api.thy ===== *)
theory Api
  imports Rules Db_Scanner
begin

text \<open>
  The management API, \<^verbatim>\<open>src/src/api.rs\<close>: request authentication, the guard of the bind address, the
  routes and their handlers. A handler maps the shared state and the world of files to a response
  and the two after it. What the handlers ask of crates and of the operating system is the
  record \<open>api_env\<close>; the bodies that serde derives from a data type stay that data type.
\<close>

section \<open>Requests, responses, world\<close>

type_synonym world = "app_state \<times> audit_world"

record claims =
  jw_sub :: string
  jw_exp :: nat
  jw_iat :: nat

text \<open>The algorithm and the check of the expiry that the code asks \<^verbatim>\<open>jsonwebtoken\<close> for.\<close>

record jwt_validation =
  jv_algorithm :: string
  jv_validate_exp :: bool

record api_env =
  en_stamp :: stamp
  en_sha256 :: "byte list \<Rightarrow> byte list"
  en_to_yaml :: "app_config \<Rightarrow> string result"
  en_write_file :: "string \<Rightarrow> string \<Rightarrow> audit_world file_op"
  en_rename :: "string \<Rightarrow> string \<Rightarrow> audit_world file_op"
  en_load_file :: "string \<Rightarrow> app_config result"
  en_entry_json :: "audit_entry \<Rightarrow> string"
  en_show_error :: "error \<Rightarrow> string"
  en_jwt_decode :: "string \<Rightarrow> byte list \<Rightarrow> jwt_validation \<Rightarrow> string + claims"
  en_rules_pretty :: "masking_rule list \<Rightarrow> string result"
  en_db :: db_client
  en_timed_out :: bool
  en_table_order :: "string list \<Rightarrow> string list"
  en_type_order :: "pii_type list"
  en_pii_scanner :: pii_scanner
  en_duration :: nat
  en_metrics :: "string option"
  en_version :: string

record request =
  rq_path :: string
  rq_method :: string
  rq_client_ip :: string
  rq_x_api_key :: "string option"
  rq_authorization :: "string option"

datatype body =
    JsonBody json
  | TextBody string
  | RulesBody "masking_rule list"
  | Attachment string string
  | ScanBody scan_result
  | SchemaBody schema_info
  | LogsBody "log_entry list"
  | AuditBody nat "audit_entry list"

type_synonym response = "nat \<times> body"

definition log_audit :: "api_env \<Rightarrow> audit_entry \<Rightarrow> world \<Rightarrow> world" where
  "log_audit env entry w =
     (case w of (s, out) \<Rightarrow>
        (let (l, out) = audit_log (en_entry_json env) entry (as_audit_logger s, out)
         in (s\<lparr>as_audit_logger := l\<rparr>, out)))"

definition error_body :: "string \<Rightarrow> body" where
  "error_body e = JsonBody (JObject [(''status'', JString ''error''), (''error'', JString e)])"

definition coded_error_body :: "string \<Rightarrow> string \<Rightarrow> body" where
  "coded_error_body e code =
     JsonBody (JObject [(''status'', JString ''error''), (''error'', JString e), (''code'', JString code)])"

section \<open>Authentication\<close>

definition digest_eq :: "(byte list \<Rightarrow> byte list) \<Rightarrow> string \<Rightarrow> string \<Rightarrow> bool" where
  "digest_eq digest a b \<longleftrightarrow> digest (bytes_of_str a) = digest (bytes_of_str b)"

definition strip_prefix :: "string \<Rightarrow> string \<Rightarrow> string option" where
  "strip_prefix p s = (if take (length p) s = p then Some (drop (length p) s) else None)"

definition opt_bind :: "'a option \<Rightarrow> ('a \<Rightarrow> 'b option) \<Rightarrow> 'b option" where
  "opt_bind x f = (case x of Some v \<Rightarrow> f v | None \<Rightarrow> None)"

definition with_request :: "request \<Rightarrow> audit_entry \<Rightarrow> audit_entry" where
  "with_request rq e = with_method (rq_method rq) (with_endpoint (rq_path rq) (with_client_ip (rq_client_ip rq) e))"

definition api_key_of :: "app_config \<Rightarrow> string option" where
  "api_key_of c = opt_bind (cf_api c) ac_api_key"

definition jwt_secret_of :: "app_config \<Rightarrow> string option" where
  "jwt_secret_of c = opt_bind (cf_api c) ac_jwt_secret"

text \<open>The bearer token, which counts only when a secret is configured.\<close>

definition bearer_token :: "request \<Rightarrow> string option" where
  "bearer_token rq = opt_bind (rq_authorization rq) (strip_prefix ''Bearer '')"

definition validate_jwt :: "api_env \<Rightarrow> string \<Rightarrow> string \<Rightarrow> string + claims" where
  "validate_jwt env token secret =
     en_jwt_decode env token (bytes_of_str secret) \<lparr>jv_algorithm = ''HS256'', jv_validate_exp = True\<rparr>"

definition try_jwt :: "api_env \<Rightarrow> request \<Rightarrow> (world \<Rightarrow> response \<times> world) \<Rightarrow> world \<Rightarrow> response \<times> world" where
  "try_jwt env rq run_next w =
     (case (jwt_secret_of (as_config (fst w)), bearer_token rq) of
        (Some secret, Some token) \<Rightarrow>
          (case validate_jwt env token secret of
             Inr claims \<Rightarrow> run_next (log_audit env (with_request rq (auth_success (en_stamp env) Jwt (Some (jw_sub claims)))) w)
           | Inl e \<Rightarrow>
               ((401, JsonBody (JObject [(''error'', JString ''Invalid or expired JWT token'')])),
                log_audit env (with_request rq (auth_failure (en_stamp env) Jwt (''JWT validation failed: '' @ e))) w))
      | _ \<Rightarrow>
          (let methods = (case api_key_of (as_config (fst w)) of Some _ \<Rightarrow> [JString ''X-API-Key header''] | None \<Rightarrow> [])
             @ (case jwt_secret_of (as_config (fst w)) of
                  Some _ \<Rightarrow> [JString ''Authorization: Bearer <token>''] | None \<Rightarrow> [])
           in ((401, JsonBody (JObject [(''error'', JString ''Authentication required''), (''methods'', JArray methods)])),
               log_audit env (with_request rq (auth_denied (en_stamp env))) w)))"

definition api_auth :: "api_env \<Rightarrow> request \<Rightarrow> (world \<Rightarrow> response \<times> world) \<Rightarrow> world \<Rightarrow> response \<times> world" where
  "api_auth env rq run_next w =
     (let api_key = api_key_of (as_config (fst w)); jwt_secret = jwt_secret_of (as_config (fst w)) in
      if api_key = None \<and> jwt_secret = None then run_next w
      else case (api_key, rq_x_api_key rq) of
        (Some expected_key, Some provided_key) \<Rightarrow>
          (if digest_eq (en_sha256 env) provided_key expected_key
           then run_next (log_audit env (with_request rq (auth_success (en_stamp env) ApiKey None)) w)
           else ((401, JsonBody (JObject [(''error'', JString ''Invalid API key'')])),
                 log_audit env (with_request rq (auth_failure (en_stamp env) ApiKey ''Invalid API key'')) w))
      | _ \<Rightarrow> try_jwt env rq run_next w)"

text \<open>The guard at the start of the server: what it refuses to bind.\<close>

definition has_credentials :: "app_config \<Rightarrow> bool" where
  "has_credentials c =
     (case cf_api c of Some a \<Rightarrow> ac_api_key a \<noteq> None \<or> ac_jwt_secret a \<noteq> None | None \<Rightarrow> False)"

definition start_api_guard :: "bool \<Rightarrow> app_config \<Rightarrow> unit result" where
  "start_api_guard bind_is_loopback c =
     (if \<not> bind_is_loopback \<and> \<not> has_credentials c
      then bail ''refusing to bind the management API to non-loopback address without api.api_key or api.jwt_secret configured''
      else Ok ())"

text \<open>The origins a browser may call the API from, and what it may send; \<open>header_value\<close> is the parser of
  the HTTP library, and an origin it rejects is left out.\<close>

record cors_layer =
  co_origins :: "string list"
  co_methods :: "string list"
  co_headers :: "string list"

definition cors_origins :: "app_config \<Rightarrow> string list" where
  "cors_origins c =
     (case opt_bind (cf_api c) ac_cors_origins of
        Some origins \<Rightarrow> origins
      | None \<Rightarrow> [''http://localhost:3000'', ''http://127.0.0.1:3000''])"

definition cors_of :: "(string \<Rightarrow> string option) \<Rightarrow> app_config \<Rightarrow> cors_layer" where
  "cors_of header_value c =
     \<lparr>co_origins = List.map_filter header_value (cors_origins c), co_methods = [''GET'', ''POST''],
      co_headers = [''content-type'', ''authorization'', ''x-api-key'']\<rparr>"

section \<open>Handlers that change the configuration\<close>

text \<open>Persist and swap in; the continuation runs only on success. A panic ends the request without a
  response, which status 0 stands for.\<close>

definition commit_then :: "api_env \<Rightarrow> string \<Rightarrow> app_config \<Rightarrow> (world \<Rightarrow> response \<times> world) \<Rightarrow> world \<Rightarrow> response \<times> world" where
  "commit_then env what new_config done_with w =
     (case commit_config (en_to_yaml env) (en_write_file env) (en_rename env) new_config w of
        (Ok _, w) \<Rightarrow> done_with w
      | (Err e, w) \<Rightarrow> ((500, error_body (what @ en_show_error env e)), w)
      | (Panic, w) \<Rightarrow> ((0, TextBody []), w))"

definition invalid_strategy_response :: "string \<Rightarrow> response" where
  "invalid_strategy_response strategy =
     (400, error_body (''unknown masking strategy '' @ [CHR 0x27] @ strategy @ [CHR 0x27] @ '' (known: ''
        @ concat (map (\<lambda>k. (if k = hd KNOWN_STRATEGIES then [] else '', '') @ k) KNOWN_STRATEGIES) @ '')''))"

definition json_of_rule :: "masking_rule \<Rightarrow> json" where
  "json_of_rule r = JObject [(''table'', jopt (mr_table r)), (''column'', JString (mr_column r)),
     (''strategy'', JString (mr_strategy r))]"

definition add_rule :: "api_env \<Rightarrow> masking_rule \<Rightarrow> world \<Rightarrow> response \<times> world" where
  "add_rule env rule w =
     (if mr_strategy rule \<notin> set KNOWN_STRATEGIES then (invalid_strategy_response (mr_strategy rule), w)
      else
        let rule = normalize_rule rule;
            config = as_config (fst w);
            (rules, deduplicated) = dedupe_rules (cf_rules config);
            (rules, result) = upsert_rule rules rule
        in commit_then env ''Failed to persist rule: '' (config\<lparr>cf_rules := rules\<rparr>)
             (\<lambda>w. ((200, JsonBody (JObject [(''status'', JString ''success''), (''result'', JString (outcome_str result)),
                      (''rules_count'', jnat (length rules)), (''deduplicated_existing'', jnat deduplicated)])),
                    log_audit env (rule_added (en_stamp env) (JObject [(''rule'', json_of_rule rule),
                      (''result'', JString (outcome_str result)), (''deduplicated_existing'', jnat deduplicated)])) w)) w)"

record delete_rule_request =
  dr_column :: string
  dr_table :: "string option"

definition delete_rule :: "api_env \<Rightarrow> delete_rule_request \<Rightarrow> world \<Rightarrow> response \<times> world" where
  "delete_rule env req w =
     (let column = to_ascii_lowercase (trim (dr_column req));
          table = map_option (\<lambda>t. to_ascii_lowercase (trim t)) (dr_table req);
          config = as_config (fst w);
          rules = filter (delete_keeps table column) (cf_rules config);
          deleted_count = length (cf_rules config) - length rules
      in if deleted_count = 0 then ((404, error_body ''No rule matched the given table/column''), w)
         else commit_then env ''Failed to persist changes: '' (config\<lparr>cf_rules := rules\<rparr>)
           (\<lambda>w. ((200, JsonBody (JObject [(''status'', JString ''success''), (''deleted'', jnat deleted_count),
                    (''rules_count'', jnat (length rules))])),
                  log_audit env (rule_deleted (en_stamp env) (JObject [(''request'', JObject [(''column'', JString (dr_column req)),
                    (''table'', jopt (dr_table req))]), (''deleted_count'', jnat deleted_count)])) w)) w)"

definition import_rules :: "api_env \<Rightarrow> masking_rule list \<Rightarrow> world \<Rightarrow> response \<times> world" where
  "import_rules env rules w =
     (case find (\<lambda>r. mr_strategy r \<notin> set KNOWN_STRATEGIES) rules of
        Some bad \<Rightarrow> (invalid_strategy_response (mr_strategy bad), w)
      | None \<Rightarrow>
          (let config = as_config (fst w);
               (existing, deduplicated) = dedupe_rules (cf_rules config);
               (merged, added, updated, unchanged) = import_loop rules existing (0, 0, 0)
           in commit_then env ''Failed to persist imported rules: '' (config\<lparr>cf_rules := merged\<rparr>)
                (\<lambda>w. ((200, JsonBody (JObject [(''status'', JString ''success''), (''imported'', jnat (length rules)),
                         (''rules_count'', jnat (length merged)), (''added'', jnat added), (''updated'', jnat updated),
                         (''unchanged'', jnat unchanged), (''deduplicated_existing'', jnat deduplicated)])),
                       log_audit env (rules_imported (en_stamp env) (length rules)) w)) w))"

definition json_get :: "string \<Rightarrow> json \<Rightarrow> json option" where
  "json_get k j = (case j of JObject kvs \<Rightarrow> map_of kvs k | _ \<Rightarrow> None)"

definition as_bool :: "json \<Rightarrow> bool option" where
  "as_bool j = (case j of JBool b \<Rightarrow> Some b | _ \<Rightarrow> None)"

definition update_config :: "api_env \<Rightarrow> json \<Rightarrow> world \<Rightarrow> response \<times> world" where
  "update_config env payload w =
     (let done_with = (\<lambda>w. ((200, JsonBody (JObject [(''status'', JString ''success''),
            (''masking_enabled'', JBool (cf_masking_enabled (as_config (fst w))))])), w)) in
      case opt_bind (json_get ''masking_enabled'' payload) as_bool of
        None \<Rightarrow> done_with w
      | Some enabled \<Rightarrow>
          (let config = as_config (fst w) in
           commit_then env ''Failed to persist config: '' (config\<lparr>cf_masking_enabled := enabled\<rparr>)
             (\<lambda>w. done_with (log_audit env (config_change (en_stamp env) (JObject [(''masking_enabled'',
                  JObject [(''old'', JBool (cf_masking_enabled config)), (''new'', JBool enabled)])])) w)) w))"

definition api_reload_config :: "api_env \<Rightarrow> world \<Rightarrow> response \<times> world" where
  "api_reload_config env w =
     (case w of (s, out) \<Rightarrow>
        (case reload_config (en_sha256 env) (en_load_file env) s of
           (Ok rules_count, s) \<Rightarrow>
             ((200, JsonBody (JObject [(''status'', JString ''success''),
                (''message'', JString ''Configuration reloaded successfully''), (''rules_count'', jnat rules_count)])),
              log_audit env (config_reload (en_stamp env) rules_count) (s, out))
         | (Err e, s) \<Rightarrow> ((500, error_body (en_show_error env e)), (s, out))
         | (Panic, s) \<Rightarrow> ((0, TextBody []), (s, out))))"

section \<open>Handlers that read\<close>

fun jopt_nat :: "nat option \<Rightarrow> json" where
  "jopt_nat None = JNull"
| "jopt_nat (Some n) = jnat n"

definition health_check :: "api_env \<Rightarrow> world \<Rightarrow> response \<times> world" where
  "health_check env w =
     (let s = fst w; st = as_health_status s;
          checks_enabled = (case cf_health_check (as_config s) of Some h \<Rightarrow> hk_enabled h | None \<Rightarrow> True);
          (status, code) =
            (if \<not> checks_enabled then (''unknown'', 200)
             else if he_last_check st = None then (''starting'', 503)
             else if he_healthy st then (''ok'', 200) else (''degraded'', 503))
      in ((code, JsonBody (JObject
            [(''status'', JString status), (''service'', JString ''ironveil''),
             (''version'', JString (en_version env)),
             (''upstream'', JObject
               [(''protocol'', JString (case as_db_protocol s of Postgres \<Rightarrow> ''postgres'' | MySql \<Rightarrow> ''mysql'')),
                (''healthy'', JBool (he_healthy st)), (''last_check'', jopt_nat (he_last_check st)),
                (''latency_ms'', jopt_nat (map_option unat (he_latency_ms st))),
                (''consecutive_failures'', jnat (unat (he_consecutive_failures st))),
                (''consecutive_successes'', jnat (unat (he_consecutive_successes st)))]),
             (''connections'', JObject [(''active'', jnat (as_active_connections s))])])), w))"

definition get_rules :: "world \<Rightarrow> response \<times> world" where
  "get_rules w = ((200, RulesBody (cf_rules (as_config (fst w)))), w)"

text \<open>The download: its file name and text; the pretty printer is that of \<^verbatim>\<open>serde_json\<close>.\<close>

definition export_rules :: "api_env \<Rightarrow> world \<Rightarrow> response \<times> world" where
  "export_rules env w =
     ((200, Attachment ''ironveil-rules.json''
        (case en_rules_pretty env (cf_rules (as_config (fst w))) of Ok t \<Rightarrow> t | _ \<Rightarrow> ''[]'')), w)"

definition get_logs :: "world \<Rightarrow> response \<times> world" where
  "get_logs w = ((200, LogsBody (as_logs (fst w))), w)"

definition get_config :: "world \<Rightarrow> response \<times> world" where
  "get_config w =
     ((200, JsonBody (JObject [(''masking_enabled'', JBool (cf_masking_enabled (as_config (fst w)))),
        (''rules_count'', jnat (length (cf_rules (as_config (fst w)))))])), w)"

definition get_connections :: "world \<Rightarrow> response \<times> world" where
  "get_connections w = ((200, JsonBody (JObject [(''active_connections'', jnat (as_active_connections (fst w)))])), w)"

definition json_of_masking_stats :: "masking_stats \<Rightarrow> json" where
  "json_of_masking_stats m = JObject
     [(''email'', jnat (unat (ms_email m))), (''phone'', jnat (unat (ms_phone m))), (''address'', jnat (unat (ms_address m))),
      (''credit_card'', jnat (unat (ms_credit_card m))), (''ssn'', jnat (unat (ms_ssn m))), (''ip'', jnat (unat (ms_ip m))),
      (''dob'', jnat (unat (ms_dob m))), (''passport'', jnat (unat (ms_passport m))), (''hash'', jnat (unat (ms_hash m))),
      (''json'', jnat (unat (ms_json m))), (''other'', jnat (unat (ms_other m))), (''total'', jnat (unat (masking_total m)))]"

definition get_stats :: "world \<Rightarrow> response \<times> world" where
  "get_stats w =
     (let s = fst w; q = ap_queries (as_stats s) in
      ((200, JsonBody (JObject
        [(''active_connections'', jnat (as_active_connections s)),
         (''total_connections'', jnat (unat (ap_total_connections (as_stats s)))),
         (''masking'', json_of_masking_stats (ap_masking (as_stats s))),
         (''queries'', JObject
           [(''total'', jnat (unat (qs_total_queries q))), (''select'', jnat (unat (qs_select_count q))),
            (''insert'', jnat (unat (qs_insert_count q))), (''update'', jnat (unat (qs_update_count q))),
            (''delete'', jnat (unat (qs_delete_count q))), (''other'', jnat (unat (qs_other_count q)))]),
         (''history'', JArray (map (\<lambda>p. JObject
           [(''timestamp'', jnat (cp_timestamp p)), (''active_connections'', jnat (cp_active_connections p)),
            (''total_queries'', jnat (unat (cp_total_queries p))), (''total_masked'', jnat (unat (cp_total_masked p)))])
           (as_connection_history s)))])), w))"

definition scan_error_response :: "scan_error \<Rightarrow> response" where
  "scan_error_response e =
     (case e of
        UnsupportedProtocol protocol \<Rightarrow>
          (501, coded_error_body (''Unsupported database protocol: ''
             @ (case protocol of Postgres \<Rightarrow> ''Postgres'' | MySql \<Rightarrow> ''MySql'')) ''unsupported_protocol'')
      | AuthRequired \<Rightarrow>
          (401, coded_error_body ''Authentication required: please provide database credentials'' ''auth_required'')
      | ConnectionFailed message \<Rightarrow>
          (502, coded_error_body ''could not connect to the upstream database (see server logs)'' ''connection_failed'')
      | QueryFailed message \<Rightarrow>
          (500, coded_error_body ''scan query failed (see server logs)'' ''query_failed''))"

definition scanner_of :: "api_env \<Rightarrow> world \<Rightarrow> db_scanner" where
  "scanner_of env w =
     \<lparr>ds_host = as_upstream_host (fst w), ds_port = as_upstream_port (fst w),
      ds_protocol = as_db_protocol (fst w), ds_pii_scanner = en_pii_scanner env\<rparr>"

definition api_scan :: "api_env \<Rightarrow> scan_config \<Rightarrow> world \<Rightarrow> response \<times> world" where
  "api_scan env config w =
     (if en_timed_out env then ((504, coded_error_body ''scan timed out'' ''scan_timeout''), w)
      else case scan_database (en_db env) (en_table_order env) (en_type_order env) (en_duration env) (scanner_of env w) config of
        Inr r \<Rightarrow> ((200, ScanBody r),
                  log_audit env (database_scan (en_stamp env) (sn_database config) (length (sr_findings r))) w)
      | Inl e \<Rightarrow> (scan_error_response e, w))"

definition api_schema :: "api_env \<Rightarrow> scan_config \<Rightarrow> world \<Rightarrow> response \<times> world" where
  "api_schema env config w =
     (if en_timed_out env then ((504, coded_error_body ''schema query timed out'' ''scan_timeout''), w)
      else case get_schema (en_db env) (en_table_order env) (scanner_of env w) config of
        Inr r \<Rightarrow> ((200, SchemaBody r),
                  log_audit env (schema_query (en_stamp env) (sn_database config) (length (si_tables r))) w)
      | Inl e \<Rightarrow> (scan_error_response e, w))"

record audit_query =
  aq_limit :: "nat option"
  aq_event_type :: "string option"
  aq_outcome :: "string option"

definition event_type_of :: "string \<Rightarrow> audit_event_type option" where
  "event_type_of s = map_of
     [(''auth_attempt'', AuthAttempt), (''config_change'', ConfigChange), (''rule_added'', RuleAdded),
      (''rule_deleted'', RuleDeleted), (''rules_imported'', RulesImported), (''config_reload'', ConfigReload),
      (''database_scan'', DatabaseScan), (''schema_query'', SchemaQuery)] s"

definition audit_outcome_of :: "string \<Rightarrow> audit_outcome option" where
  "audit_outcome_of s = map_of [(''success'', Success), (''failure'', Failure), (''denied'', Denied)] s"

definition get_audit_logs :: "audit_query \<Rightarrow> world \<Rightarrow> response \<times> world" where
  "get_audit_logs query w =
     (let limit = (case aq_limit query of Some n \<Rightarrow> n | None \<Rightarrow> 100); l = as_audit_logger (fst w);
          entries =
            (case aq_event_type query of
               Some event_type \<Rightarrow>
                 (case event_type_of event_type of
                    Some e \<Rightarrow> get_entries_by_type e (Some limit) l
                  | None \<Rightarrow> get_entries (Some limit) l)
             | None \<Rightarrow>
                 (case aq_outcome query of
                    Some oc \<Rightarrow>
                      (case audit_outcome_of oc of
                         Some p \<Rightarrow> get_entries_by_outcome p (Some limit) l
                       | None \<Rightarrow> get_entries (Some limit) l)
                  | None \<Rightarrow> get_entries (Some limit) l))
      in ((200, AuditBody (length entries) entries), w))"

definition get_metrics :: "api_env \<Rightarrow> world \<Rightarrow> response \<times> world" where
  "get_metrics env w =
     (case en_metrics env of
        Some metrics \<Rightarrow> ((200, TextBody metrics), w)
      | None \<Rightarrow> ((503, TextBody ''Metrics not enabled''), w))"

section \<open>Routes\<close>

datatype endpoint =
    Health | Metrics
  | GetRules | AddRule masking_rule | DeleteRule delete_rule_request | ExportRules
  | ImportRules "masking_rule list"
  | GetConfig | UpdateConfig json | ReloadConfig
  | Scan scan_config | Connections | Stats | Schema scan_config | Logs | Audit audit_query

fun handle :: "api_env \<Rightarrow> endpoint \<Rightarrow> world \<Rightarrow> response \<times> world" where
  "handle env Health w = health_check env w"
| "handle env Metrics w = get_metrics env w"
| "handle env GetRules w = get_rules w"
| "handle env (AddRule rule) w = add_rule env rule w"
| "handle env (DeleteRule req) w = delete_rule env req w"
| "handle env ExportRules w = export_rules env w"
| "handle env (ImportRules rules) w = import_rules env rules w"
| "handle env GetConfig w = get_config w"
| "handle env (UpdateConfig payload) w = update_config env payload w"
| "handle env ReloadConfig w = api_reload_config env w"
| "handle env (Scan config) w = api_scan env config w"
| "handle env Connections w = get_connections w"
| "handle env Stats w = get_stats w"
| "handle env (Schema config) w = api_schema env config w"
| "handle env Logs w = get_logs w"
| "handle env (Audit query) w = get_audit_logs query w"

text \<open>The public routes, and the protected ones behind the authentication layer.\<close>

definition serve :: "api_env \<Rightarrow> request \<Rightarrow> endpoint \<Rightarrow> world \<Rightarrow> response \<times> world" where
  "serve env rq ep w =
     (if ep = Health \<or> ep = Metrics then handle env ep w
      else api_auth env rq (handle env ep) w)"

section \<open>Lemmas\<close>

lemma log_audit_frame [simp]:
  "as_config (fst (log_audit env e w)) = as_config (fst w)"
  "as_config_path (fst (log_audit env e w)) = as_config_path (fst w)"
  by (cases w; simp add: log_audit_def split: prod.split)+

lemma log_audit_logger_only:
  "fst (log_audit env e w) = (fst w)\<lparr>as_audit_logger := as_audit_logger (fst (log_audit env e w))\<rparr>"
  by (cases w) (simp add: log_audit_def split: prod.split)

lemma with_request_outcome [simp]: "ae_outcome (with_request rq e) = ae_outcome e"
  by (simp add: with_request_def audit_builders)

lemma auth_entry_outcomes [simp]:
  "ae_outcome (auth_success st m u) = Success" "ae_outcome (auth_failure st m err) = Failure"
  "ae_outcome (auth_denied st) = Denied"
  by (simp_all add: auth_success_def auth_failure_def auth_denied_def audit_entry_new_def audit_builders Let_def split: option.split)

lemma granted: "ae_outcome e0 = Success \<Longrightarrow>
    \<exists>e. ae_outcome e = Success \<and> nxt (log_audit env e0 w) = nxt (log_audit env e w)"
  by blast

lemma refused: "ae_outcome e0 \<noteq> Success \<Longrightarrow> \<exists>e. ae_outcome e \<noteq> Success \<and> log_audit env e0 w = log_audit env e w"
  by blast

text \<open>Who is let in, as a condition on the request and the configuration alone.\<close>

definition authorised :: "api_env \<Rightarrow> request \<Rightarrow> app_config \<Rightarrow> bool" where
  "authorised env rq c =
     (case (api_key_of c, rq_x_api_key rq) of
        (Some k, Some p) \<Rightarrow> digest_eq (en_sha256 env) p k
      | _ \<Rightarrow> (case (jwt_secret_of c, bearer_token rq) of
               (Some secret, Some token) \<Rightarrow> (case validate_jwt env token secret of Inr _ \<Rightarrow> True | Inl _ \<Rightarrow> False)
             | _ \<Rightarrow> False))"

lemma try_jwt_cases:
  "(case (jwt_secret_of (as_config (fst w)), bearer_token rq) of
      (Some secret, Some token) \<Rightarrow> (case validate_jwt env token secret of Inr _ \<Rightarrow> True | Inl _ \<Rightarrow> False) | _ \<Rightarrow> False) \<Longrightarrow>
   \<exists>e. ae_outcome e = Success \<and> try_jwt env rq nxt w = nxt (log_audit env e w)"
  "\<not> (case (jwt_secret_of (as_config (fst w)), bearer_token rq) of
      (Some secret, Some token) \<Rightarrow> (case validate_jwt env token secret of Inr _ \<Rightarrow> True | Inl _ \<Rightarrow> False) | _ \<Rightarrow> False) \<Longrightarrow>
   \<exists>e b. ae_outcome e \<noteq> Success \<and> try_jwt env rq nxt w = ((401, b), log_audit env e w)"
  by (auto simp: try_jwt_def Let_def split: option.splits sum.splits intro!: granted refused)

lemma api_auth_cases:
  assumes "has_credentials (as_config (fst w))"
  shows "authorised env rq (as_config (fst w)) \<Longrightarrow>
      \<exists>e. ae_outcome e = Success \<and> api_auth env rq nxt w = nxt (log_audit env e w)"
    and "\<not> authorised env rq (as_config (fst w)) \<Longrightarrow>
      \<exists>e b. ae_outcome e \<noteq> Success \<and> api_auth env rq nxt w = ((401, b), log_audit env e w)"
proof -
  have c: "\<not> (api_key_of (as_config (fst w)) = None \<and> jwt_secret_of (as_config (fst w)) = None)"
    using assms by (auto simp: has_credentials_def api_key_of_def jwt_secret_of_def opt_bind_def split: option.splits)
  show "authorised env rq (as_config (fst w)) \<Longrightarrow>
      \<exists>e. ae_outcome e = Success \<and> api_auth env rq nxt w = nxt (log_audit env e w)"
    using c try_jwt_cases(1) [where w = w and rq = rq and env = env and nxt = nxt]
    by (auto simp: api_auth_def authorised_def Let_def split: option.splits intro!: granted refused)
  show "\<not> authorised env rq (as_config (fst w)) \<Longrightarrow>
      \<exists>e b. ae_outcome e \<noteq> Success \<and> api_auth env rq nxt w = ((401, b), log_audit env e w)"
    using c try_jwt_cases(2) [where w = w and rq = rq and env = env and nxt = nxt]
    by (auto simp: api_auth_def authorised_def Let_def split: option.splits intro!: granted refused)
qed

lemma api_auth_open:
  "\<not> has_credentials (as_config (fst w)) \<Longrightarrow> api_auth env rq nxt w = nxt w"
  by (auto simp: api_auth_def has_credentials_def api_key_of_def jwt_secret_of_def opt_bind_def Let_def split: option.splits)

text \<open>What an edit of the configuration does to the world: nothing to the shared state, or a commit, an
  audit entry and success.\<close>

definition edits :: "api_env \<Rightarrow> app_config \<Rightarrow> world \<Rightarrow> response \<times> world \<Rightarrow> bool" where
  "edits env c w r \<longleftrightarrow>
     fst (snd r) = fst w \<and> fst (fst r) \<noteq> 200
     \<or> fst (fst r) = 200 \<and> (\<exists>w1 e. commit_config (en_to_yaml env) (en_write_file env) (en_rename env) c w = (Ok (), w1)
          \<and> fst w1 = (fst w)\<lparr>as_config := c\<rparr> \<and> snd r = log_audit env e w1)"

lemma commit_then_edits:
  assumes "\<And>w1. \<exists>b e. done_with w1 = ((200, b), log_audit env e w1)"
  shows "edits env c w (commit_then env what c done_with w)"
proof -
  obtain s fs where w: "w = (s, fs)" by fastforce
  obtain r s' fs' where k: "commit_config (en_to_yaml env) (en_write_file env) (en_rename env) c w = (r, s', fs')"
    by (metis prod_cases3)
  note cc = commit_config_cases [where to_yaml = "en_to_yaml env" and write_file = "en_write_file env" and rename = "en_rename env"
      and new_config = c and s = s and fs = fs, folded w, unfolded k]
  show ?thesis
  proof (cases r)
    case (Ok u)
    obtain b e where d: "done_with (s', fs') = ((200, b), log_audit env e (s', fs'))" using assms by blast
    have "commit_then env what c done_with w = done_with (s', fs')" unfolding commit_then_def k Ok by simp
    moreover have "s' = s\<lparr>as_config := c\<rparr>" using cc Ok by simp
    ultimately show ?thesis unfolding edits_def d using k Ok by (auto simp: w d)
  next
    case (Err e)
    then show ?thesis using cc unfolding edits_def commit_then_def k by (simp add: w)
  next
    case Panic
    then show ?thesis using cc unfolding edits_def commit_then_def k by (simp add: w)
  qed
qed


text \<open>The configuration a request asks for.\<close>

definition edited :: "endpoint \<Rightarrow> app_config \<Rightarrow> app_config" where
  "edited ep c =
     (case ep of
        AddRule r \<Rightarrow> c\<lparr>cf_rules := fst (upsert_rule (fst (dedupe_rules (cf_rules c))) (normalize_rule r))\<rparr>
      | DeleteRule req \<Rightarrow> c\<lparr>cf_rules := filter (delete_keeps (map_option normalize_identifier (dr_table req))
            (normalize_identifier (dr_column req))) (cf_rules c)\<rparr>
      | ImportRules rs \<Rightarrow> c\<lparr>cf_rules := fst (import_loop rs (fst (dedupe_rules (cf_rules c))) (0, 0, 0))\<rparr>
      | UpdateConfig payload \<Rightarrow>
          (case opt_bind (json_get ''masking_enabled'' payload) as_bool of
             Some b \<Rightarrow> c\<lparr>cf_masking_enabled := b\<rparr> | None \<Rightarrow> c)
      | _ \<Rightarrow> c)"

definition is_edit :: "endpoint \<Rightarrow> bool" where
  "is_edit ep \<longleftrightarrow> (case ep of
       AddRule _ \<Rightarrow> True | DeleteRule _ \<Rightarrow> True | ImportRules _ \<Rightarrow> True
     | UpdateConfig payload \<Rightarrow> opt_bind (json_get ''masking_enabled'' payload) as_bool \<noteq> None
     | _ \<Rightarrow> False)"

lemma add_rule_edits: "edits env (edited (AddRule r) (as_config (fst w))) w (add_rule env r w)"
proof (cases "mr_strategy r \<in> set KNOWN_STRATEGIES")
  case True
  then show ?thesis
    unfolding add_rule_def edited_def Let_def by (auto simp: split_beta intro!: commit_then_edits)
next
  case False
  then show ?thesis by (simp add: add_rule_def edits_def invalid_strategy_response_def)
qed

lemma delete_rule_edits: "edits env (edited (DeleteRule req) (as_config (fst w))) w (delete_rule env req w)"
proof -
  have n: "edits env c w ((404, b), w)" for c b by (simp add: edits_def)
  show ?thesis
    unfolding delete_rule_def edited_def Let_def normalize_identifier_fold
    by (auto simp: normalize_identifier_def [symmetric] intro!: n commit_then_edits)
qed

lemma import_rules_edits: "edits env (edited (ImportRules rs) (as_config (fst w))) w (import_rules env rs w)"
proof (cases "find (\<lambda>r. mr_strategy r \<notin> set KNOWN_STRATEGIES) rs")
  case None
  then show ?thesis
    unfolding import_rules_def edited_def Let_def by (auto simp: split_beta intro!: commit_then_edits)
next
  case (Some r)
  then show ?thesis by (simp add: import_rules_def edits_def invalid_strategy_response_def)
qed

lemma update_config_edits:
  assumes "opt_bind (json_get ''masking_enabled'' payload) as_bool = Some b"
  shows "edits env (edited (UpdateConfig payload) (as_config (fst w))) w (update_config env payload w)"
  unfolding update_config_def edited_def Let_def by (auto simp: assms intro!: commit_then_edits)

lemma handle_edits: "is_edit ep \<Longrightarrow> edits env (edited ep (as_config (fst w))) w (handle env ep w)"
  by (cases ep) (auto simp: is_edit_def add_rule_edits delete_rule_edits import_rules_edits update_config_edits
      simp del: not_None_eq dest!: not_None_eq [THEN iffD1])

lemma handle_reads:
  "\<not> is_edit ep \<Longrightarrow> ep \<noteq> ReloadConfig \<Longrightarrow> as_config (fst (snd (handle env ep w))) = as_config (fst w)"
  by (cases ep) (auto simp: is_edit_def health_check_def get_metrics_def get_config_def api_scan_def get_connections_def
      get_stats_def get_rules_def export_rules_def get_logs_def api_schema_def get_audit_logs_def update_config_def Let_def split: option.splits sum.splits)

text \<open>Rules name strategies that exist, whatever sequence of requests edits them.\<close>

definition rules_known :: "app_config \<Rightarrow> bool" where
  "rules_known c \<longleftrightarrow> (\<forall>r \<in> set (cf_rules c). mr_strategy r \<in> set KNOWN_STRATEGIES)"

lemma rules_known_validate: "validate c = Ok () \<Longrightarrow> rules_known c"
  by (auto simp: validate_def rules_known_def find_None_iff split: if_splits option.splits)

lemma load_validates: "load read_file parse vars path = Ok c \<Longrightarrow> validate c = Ok ()"
  by (auto simp: load_def rbind_eq_Ok_iff Let_def)

lemma strategies_upsert:
  "q \<in> set (fst (upsert_rule rules r)) \<Longrightarrow> mr_strategy q = mr_strategy r \<or> (\<exists>p \<in> set rules. mr_strategy q = mr_strategy p)"
  by (induction rules r rule: upsert_rule.induct) (auto split: prod.splits if_splits)

lemma strategies_dedupe: "set (fst (dedupe_rules rules)) \<subseteq> set rules"
  using set_retain_new by (auto simp: dedupe_rules_def Let_def)

lemma strategies_fold_upsert:
  "\<forall>p \<in> set rs. mr_strategy p \<in> S \<Longrightarrow> \<forall>p \<in> set rules. mr_strategy p \<in> S \<Longrightarrow>
   \<forall>q \<in> set (fold (\<lambda>r rules. fst (upsert_rule rules r)) rs rules). mr_strategy q \<in> S"
proof (induction rs arbitrary: rules)
  case (Cons r rs)
  have "\<forall>q \<in> set (fst (upsert_rule rules r)). mr_strategy q \<in> S" using strategies_upsert Cons.prems by fastforce
  with Cons.prems(1) Cons.IH [of "fst (upsert_rule rules r)"] show ?case by simp
qed simp

lemma edits_config:
  "edits env c w r \<Longrightarrow> as_config (fst (snd r)) = as_config (fst w) \<or> as_config (fst (snd r)) = c"
  by (auto simp: edits_def)

lemma add_rule_known:
  assumes "rules_known (as_config (fst w))"
  shows "rules_known (as_config (fst (snd (add_rule env r w))))"
proof (cases "mr_strategy r \<in> set KNOWN_STRATEGIES")
  case True
  then have "rules_known (edited (AddRule r) (as_config (fst w)))"
    using assms strategies_dedupe [of "cf_rules (as_config (fst w))"]
    by (auto simp: rules_known_def edited_def dest!: strategies_upsert)
  with edits_config [OF add_rule_edits] assms show ?thesis by metis
next
  case False
  with assms show ?thesis by (simp add: add_rule_def)
qed

lemma import_rules_known:
  assumes "rules_known (as_config (fst w))"
  shows "rules_known (as_config (fst (snd (import_rules env rs w))))"
proof (cases "find (\<lambda>r. mr_strategy r \<notin> set KNOWN_STRATEGIES) rs")
  case None
  then have d: "\<forall>p \<in> set (map normalize_rule rs). mr_strategy p \<in> set KNOWN_STRATEGIES"
    by (simp add: find_None_iff)
  have e: "\<forall>p \<in> set (fst (dedupe_rules (cf_rules (as_config (fst w))))). mr_strategy p \<in> set KNOWN_STRATEGIES"
    using assms strategies_dedupe unfolding rules_known_def by blast
  have "rules_known (edited (ImportRules rs) (as_config (fst w)))"
    using strategies_fold_upsert [OF d e] unfolding rules_known_def edited_def endpoint.case import_loop_fold
    by simp
  with edits_config [OF import_rules_edits] assms show ?thesis by metis
next
  case (Some r)
  with assms show ?thesis by (simp add: import_rules_def)
qed

lemma delete_rule_known:
  "rules_known (as_config (fst w)) \<Longrightarrow> rules_known (as_config (fst (snd (delete_rule env req w))))"
  using edits_config [OF delete_rule_edits [of env req w]] by (auto simp: rules_known_def edited_def)

lemma update_config_known:
  "rules_known (as_config (fst w)) \<Longrightarrow> rules_known (as_config (fst (snd (update_config env payload w))))"
proof (cases "opt_bind (json_get ''masking_enabled'' payload) as_bool")
  case (Some b)
  moreover assume "rules_known (as_config (fst w))"
  ultimately show ?thesis
    using edits_config [OF update_config_edits [OF Some, of env w]] by (auto simp: rules_known_def edited_def)
qed (simp add: update_config_def Let_def)

lemma reload_known:
  assumes "en_load_file env = load read_file parse vars" "rules_known (as_config (fst w))"
  shows "rules_known (as_config (fst (snd (api_reload_config env w))))"
proof -
  obtain s out where w: "w = (s, out)" by fastforce
  show ?thesis
  proof (cases "load read_file parse vars (as_config_path s)")
    case (Ok c)
    have "as_config (snd (reload_config (en_sha256 env) (load read_file parse vars) s)) = c"
      by (simp add: reload_config_def Ok Let_def)
    moreover have "rules_known c" using Ok load_validates rules_known_validate by blast
    ultimately show ?thesis
      using Ok by (auto simp: api_reload_config_def w assms(1) split: prod.split result.split)
  qed (use assms in \<open>simp_all add: api_reload_config_def reload_config_def w\<close>)
qed

lemma handle_known:
  assumes "en_load_file env = load read_file parse vars" "rules_known (as_config (fst w))"
  shows "rules_known (as_config (fst (snd (handle env ep w))))"
proof (cases "is_edit ep \<or> ep = ReloadConfig")
  case True
  with assms show ?thesis
    by (cases ep) (simp_all add: is_edit_def add_rule_known import_rules_known delete_rule_known update_config_known
        reload_known)
qed (use assms handle_reads in auto)

lemma serve_known:
  assumes "en_load_file env = load read_file parse vars" "rules_known (as_config (fst w))"
  shows "rules_known (as_config (fst (snd (serve env rq ep w))))"
proof (cases "has_credentials (as_config (fst w)) \<and> ep \<noteq> Health \<and> ep \<noteq> Metrics")
  case True
  then have s: "serve env rq ep w = api_auth env rq (handle env ep) w" by (simp add: serve_def)
  show ?thesis
  proof (cases "authorised env rq (as_config (fst w))")
    case a: True
    then obtain e where "serve env rq ep w = handle env ep (log_audit env e w)"
      unfolding s using api_auth_cases(1) True by blast
    then show ?thesis using handle_known [OF assms(1), of "log_audit env e w" ep] assms(2) by simp
  next
    case False
    then obtain e b where "serve env rq ep w = ((401, b), log_audit env e w)"
      unfolding s using api_auth_cases(2) True by blast
    then show ?thesis using assms(2) by simp
  qed
next
  case False
  then have "serve env rq ep w = handle env ep w" by (auto simp: serve_def api_auth_open)
  then show ?thesis using handle_known [OF assms, of ep] by simp
qed

text \<open>A history of requests, each with its own environment.\<close>

fun serve_all :: "(api_env \<times> request \<times> endpoint) list \<Rightarrow> world \<Rightarrow> world" where
  "serve_all [] w = w"
| "serve_all ((env, rq, ep) # rs) w = serve_all rs (snd (serve env rq ep w))"

section \<open>Properties\<close>

text \<open>C12: with a credential configured every protected route is closed. A request without the API key
  (by digest) or, when it sends no key, a bearer token that the JWT library accepts, is answered
  401 and changes nothing but the audit log, which gets a failure; an authorised one is handled
  after its success was logged.\<close>
theorem api_auth_enforced:
  assumes "has_credentials (as_config (fst w))" "ep \<noteq> Health" "ep \<noteq> Metrics"
  shows "(authorised env rq (as_config (fst w)) \<longrightarrow>
      (\<exists>e. ae_outcome e = Success \<and> serve env rq ep w = handle env ep (log_audit env e w)))
    \<and> (\<not> authorised env rq (as_config (fst w)) \<longrightarrow>
      (\<exists>e b. ae_outcome e \<noteq> Success \<and> serve env rq ep w = ((401, b), log_audit env e w)
         \<and> fst (log_audit env e w) = (fst w)\<lparr>as_audit_logger := as_audit_logger (fst (log_audit env e w))\<rparr>))"
proof -
  have "serve env rq ep w = api_auth env rq (handle env ep) w" using assms(2,3) by (simp add: serve_def)
  then show ?thesis
    using api_auth_cases [OF assms(1), of env rq "handle env ep"] log_audit_logger_only by metis
qed

definition test_env :: api_env where
  "test_env = \<lparr>en_stamp = (''id'', 1), en_sha256 = (\<lambda>b. b), en_to_yaml = (\<lambda>_. Ok ''yaml''),
     en_write_file = (\<lambda>p t w. (Ok (), w)), en_rename = (\<lambda>p q w. (Ok (), w)), en_load_file = (\<lambda>_. Ok default_app_config),
     en_entry_json = (\<lambda>_. []), en_show_error = (\<lambda>_. []), en_jwt_decode = (\<lambda>t s v. Inl ''bad''), en_rules_pretty = (\<lambda>_. Ok []), en_db = test_db,
     en_timed_out = False, en_table_order = (\<lambda>x. x), en_type_order = [], en_pii_scanner = test_scanner,
     en_duration = 0, en_metrics = None, en_version = ''0''\<rparr>"

definition test_request :: "string option \<Rightarrow> request" where
  "test_request key = \<lparr>rq_path = ''/config'', rq_method = ''POST'', rq_client_ip = ''127.0.0.1'', rq_x_api_key = key,
     rq_authorization = Some ''Bearer x''\<rparr>"

definition test_world :: "string option \<Rightarrow> world" where
  "test_world key = (app_state_new (\<lambda>b. b) [] (default_app_config\<lparr>cf_api := Some (default_api_config\<lparr>ac_api_key := key\<rparr>)\<rparr>)
     ''proxy.yaml'' ''db'' 5432 Postgres, \<lparr>aw_stdout = [], aw_fs = Map.empty, aw_io = (\<lambda>_ _. None), aw_writes = 0\<rparr>)"

theorem api_auth_enforced_witness:
  "fst (fst (serve test_env (test_request (Some ''guess'')) (UpdateConfig (JObject [(''masking_enabled'', JBool False)]))
     (test_world (Some ''key'')))) = 401"
proof -
  have "has_credentials (as_config (fst (test_world (Some ''key''))))" by code_simp
  moreover have "\<not> authorised test_env (test_request (Some ''guess'')) (as_config (fst (test_world (Some ''key''))))"
    by code_simp
  ultimately obtain e b where "serve test_env (test_request (Some ''guess''))
      (UpdateConfig (JObject [(''masking_enabled'', JBool False)])) (test_world (Some ''key''))
      = ((401, b), log_audit test_env e (test_world (Some ''key'')))"
    using api_auth_enforced [of "test_world (Some ''key'')" "UpdateConfig (JObject [(''masking_enabled'', JBool False)])"
        test_env "test_request (Some ''guess'')"] by blast
  then show ?thesis by simp
qed

text \<open>C31: an edit through the API is all or nothing. Either the shared state is as before and the answer is
  not 200; or the answer is 200, the edited configuration was written and renamed into place, it
  is the live one, and one audit entry records it. No other request but a reload changes the
  configuration.\<close>
theorem api_edits_are_atomic:
  "(is_edit ep \<longrightarrow> (let (r, w') = handle env ep w; c = edited ep (as_config (fst w)) in
      fst w' = fst w \<and> fst r \<noteq> 200
      \<or> fst r = 200 \<and> as_config (fst w') = c
        \<and> (\<exists>w1 e. commit_config (en_to_yaml env) (en_write_file env) (en_rename env) c w = (Ok (), w1)
             \<and> fst w1 = (fst w)\<lparr>as_config := c\<rparr> \<and> w' = log_audit env e w1)))
   \<and> (\<not> is_edit ep \<and> ep \<noteq> ReloadConfig \<longrightarrow> as_config (fst (snd (handle env ep w))) = as_config (fst w))"
  using handle_edits [of ep env w] handle_reads [of ep env w] by (auto simp: edits_def Let_def split_beta)

theorem api_edits_are_atomic_witness:
  "let env = test_env\<lparr>en_rename := (\<lambda>p q w. (bail ''denied'', w))\<rparr>; ep = AddRule (rule_of None ''SSN'' ''ssn'') in
   as_config (fst (snd (handle env ep (test_world None)))) = as_config (fst (test_world None))"
proof -
  let ?env = "test_env\<lparr>en_rename := (\<lambda>p q w. (bail ''denied'', w))\<rparr>" and ?ep = "AddRule (rule_of None ''SSN'' ''ssn'')"
  have "fst (fst (handle ?env ?ep (test_world None))) = 500" by code_simp
  moreover have "is_edit ?ep" by (simp add: is_edit_def)
  ultimately show ?thesis
    using api_edits_are_atomic [of ?ep ?env "test_world None"] by (auto simp: Let_def split_beta)
qed

text \<open>Rules only ever name strategies that exist. This holds of every configuration that loads, and
  through any history of requests, reloads included: no column under a rule falls through to the
  generator's default.\<close>
theorem rules_stay_known:
  assumes "\<forall>(env, rq, ep) \<in> set requests. \<exists>read_file parse vars. en_load_file env = load read_file parse vars"
    and "rules_known (as_config (fst w))"
  shows "rules_known (as_config (fst (serve_all requests w)))"
  using assms
proof (induction requests w rule: serve_all.induct)
  case (2 env rq ep rs w)
  then obtain read_file parse vars where "en_load_file env = load read_file parse vars" by auto
  from serve_known [OF this 2(3)] 2(1,2) show ?case by simp
qed simp

theorem rules_stay_known_witness:
  "rules_known (as_config (fst (serve_all
     [(test_env\<lparr>en_load_file := load (\<lambda>p. Ok []) (\<lambda>t. Ok default_app_config) (\<lambda>_. None)\<rparr>, test_request None, ReloadConfig)] (test_world None))))"
proof (rule rules_stay_known)
  show "rules_known (as_config (fst (test_world None)))"
    by (simp add: rules_known_def test_world_def app_state_new_def default_app_config_def)
qed auto

text \<open>The guard that keeps an API without credentials off the network looks at the configuration of
  the start only. A reload of a file without credentials opens every route, on whatever address
  the server was started, although the same guard would refuse to start it.\<close>
theorem reload_opens_api:
  assumes "en_load_file env (as_config_path (fst w)) = Ok c" "\<not> has_credentials c"
  shows "(\<forall>rq ep. let w' = snd (handle env ReloadConfig w) in serve env rq ep w' = handle env ep w')
    \<and> start_api_guard False c \<noteq> Ok ()"
proof -
  have "as_config (fst (snd (api_reload_config env w))) = c"
    using assms(1) by (cases w) (simp add: api_reload_config_def reload_config_def Let_def split_def)
  with assms(2) show ?thesis by (simp add: serve_def api_auth_open start_api_guard_def Let_def)
qed

theorem reload_opens_api_witness:
  "start_api_guard False (as_config (fst (test_world (Some ''key'')))) = Ok ()
   \<and> serve test_env (test_request None) GetConfig (snd (handle test_env ReloadConfig (test_world (Some ''key''))))
       = handle test_env GetConfig (snd (handle test_env ReloadConfig (test_world (Some ''key''))))"
proof -
  have "en_load_file test_env (as_config_path (fst (test_world (Some ''key'')))) = Ok default_app_config"
    "\<not> has_credentials default_app_config"
    by (simp_all add: test_env_def has_credentials_def default_app_config_def)
  moreover have "start_api_guard False (as_config (fst (test_world (Some ''key'')))) = Ok ()" by code_simp
  ultimately show ?thesis using reload_opens_api [of test_env "test_world (Some ''key'')"] by (simp only: Let_def, blast)
qed

end
