(* ===== verification/Telemetry.thy ===== *)
theory Telemetry
  imports Config
begin

text \<open>
  \<^verbatim>\<open>src/src/telemetry.rs\<close>: what the start of the proxy asks of the tracing libraries. The exporter and the
  subscriber registry are arguments; the sampling ratio is worked out here, on the bits of the \<^verbatim>\<open>f64\<close>.
  The guard that flushes the tracer at the end of the process only reports the provider's answer.
\<close>

unbundle bit_operations_syntax

section \<open>The sampling ratio\<close>

definition ONE_F64 :: u64 where "ONE_F64 = 0x3FF0000000000000"

definition default_ratio :: u64 where "default_ratio = 0x3FA999999999999A"

text \<open>The magnitude is the word without its sign bit; an exponent of ones with a fraction is not a number.\<close>

definition magnitude :: "u64 \<Rightarrow> u64" where "magnitude x = x AND 0x7FFFFFFFFFFFFFFF"

definition is_nan :: "u64 \<Rightarrow> bool" where "is_nan x \<longleftrightarrow> 0x7FF0000000000000 < magnitude x"

definition below_zero :: "u64 \<Rightarrow> bool" where "below_zero x \<longleftrightarrow> \<not> is_nan x \<and> bit x 63 \<and> magnitude x \<noteq> 0"

definition above_one :: "u64 \<Rightarrow> bool" where "above_one x \<longleftrightarrow> \<not> is_nan x \<and> \<not> bit x 63 \<and> ONE_F64 < x"

definition clamp_unit :: "u64 \<Rightarrow> u64" where
  "clamp_unit x = (if below_zero x then 0 else if above_one x then ONE_F64 else x)"

definition sample_ratio :: "telemetry_config \<Rightarrow> u64" where
  "sample_ratio cfg = clamp_unit (case te_sample_ratio cfg of Some r \<Rightarrow> r | None \<Rightarrow> default_ratio)"

section \<open>The tracing libraries\<close>

text \<open>A layer of the subscriber: the filter with its directives, the console with the settings that are
  written out, and the layer that hands spans to a tracer.\<close>

datatype layer =
    Env_Filter string
  | Console "(string \<times> bool) list"
  | Otel_Layer string

text \<open>The provider as it is built: where its exporter sends, the ratio of its parent-based sampler and the
  attributes of its resource.\<close>

record tracer_provider =
  tp_endpoint :: string
  tp_ratio :: u64
  tp_resource :: "(string \<times> string) list"

record otel =
  ot_default_env :: "string option"
  ot_build_exporter :: "string \<Rightarrow> unit result"
  ot_init :: "layer list \<Rightarrow> unit result"

definition PKG_VERSION :: string where "PKG_VERSION = ''0.4.0''"

definition telemetry_filter :: "otel \<Rightarrow> string" where
  "telemetry_filter ot = (case ot_default_env ot of Some f \<Rightarrow> f | None \<Rightarrow> ''info,iron_veil=debug'')"

definition init_telemetry :: "otel \<Rightarrow> telemetry_config option \<Rightarrow> tracer_provider option result" where
  "init_telemetry ot config =
     (let filter_layer = Env_Filter (telemetry_filter ot);
          console = (\<lambda>_. rbind (ot_init ot [filter_layer, Console [(''target'', True), (''level'', True)]]) (\<lambda>_. Ok None))
      in case config of
           None \<Rightarrow> console ()
         | Some cfg \<Rightarrow>
             if te_enabled cfg then
               rbind (ot_build_exporter ot (te_otlp_endpoint cfg)) (\<lambda>_.
               let provider = \<lparr>tp_endpoint = te_otlp_endpoint cfg, tp_ratio = sample_ratio cfg,
                     tp_resource = [(''service.name'', te_service_name cfg), (''service.version'', PKG_VERSION)]\<rparr>
               in rbind (ot_init ot [filter_layer, Console [(''target'', True)], Otel_Layer ''iron-veil'']) (\<lambda>_.
                  Ok (Some provider)))
             else console ())"

section \<open>The ratio is one\<close>

lemma sign_bit: "bit (x :: u64) 63 \<longleftrightarrow> 0x8000000000000000 \<le> x"
proof -
  have "bit x 63 \<longleftrightarrow> bit (uint x) 63" by (simp add: bit_uint_iff)
  also have "\<dots> \<longleftrightarrow> odd (uint x div 2 ^ 63)" by (simp add: bit_iff_odd)
  also have "\<dots> \<longleftrightarrow> 2 ^ 63 \<le> uint x"
  proof
    assume "odd (uint x div 2 ^ 63)"
    then have "uint x div 2 ^ 63 \<noteq> 0" by auto
    then show "2 ^ 63 \<le> uint x" by (meson div_pos_pos_trivial linorder_not_le uint_ge_0)
  next
    assume le: "2 ^ 63 \<le> uint x"
    have "uint x < 2 ^ 64" using uint_lt2p [of x] by simp
    with le have "uint x div 2 ^ 63 = 1" by (intro div_pos_geq [THEN trans]) (auto simp: div_pos_pos_trivial)
    then show "odd (uint x div 2 ^ 63)" by simp
  qed
  finally show ?thesis by (simp add: word_le_def)
qed

lemma clamp_unit_id: "x \<le> ONE_F64 \<Longrightarrow> clamp_unit x = x"
proof -
  assume x: "x \<le> ONE_F64"
  have "\<not> bit x 63"
  proof
    assume "bit x 63"
    from order_trans [OF this [unfolded sign_bit] x] show False by (simp add: ONE_F64_def)
  qed
  with x leD [OF x] show ?thesis by (simp add: clamp_unit_def below_zero_def above_one_def)
qed

text \<open>The sampler gets a ratio between zero and one, or what is not a number.\<close>

lemma clamp_unit_bounds: "is_nan (clamp_unit x) \<or> magnitude (clamp_unit x) = 0 \<or> clamp_unit x \<le> ONE_F64"
proof (cases "is_nan x")
  case True
  then show ?thesis by (simp add: clamp_unit_def below_zero_def above_one_def)
next
  case False
  then show ?thesis
    by (auto simp: clamp_unit_def below_zero_def above_one_def ONE_F64_def magnitude_def linorder_not_less)
qed

lemma telemetry_off: "te_enabled cfg = False \<Longrightarrow> init_telemetry ot (Some cfg) = init_telemetry ot None"
  by (simp add: init_telemetry_def)

lemma telemetry_samples:
  assumes "init_telemetry ot config = Ok (Some p)"
  obtains cfg where "config = Some cfg" "te_enabled cfg" "tp_endpoint p = te_otlp_endpoint cfg" "tp_ratio p = sample_ratio cfg"
  using assms by (auto simp: init_telemetry_def rbind_eq_Ok_iff Let_def split: option.splits if_splits)

end
