(* ===== verification/Startup.thy ===== *)
theory Startup
  imports MySql_Login Api Metric_Calls Telemetry
begin

text \<open>
  The start of the proxy, the first half of \<^verbatim>\<open>main\<close> in \<^verbatim>\<open>src/src/main.rs\<close>: the command line and the
  configuration file are turned into what the process runs with, or the process refuses to start.
  Certificates and keys are read and checked by rustls; its operations are arguments.
\<close>

section \<open>The command line and the environment\<close>

record 'a args =
  ar_port :: "u16 option"
  ar_upstream_host :: string
  ar_upstream_port :: u16
  ar_config :: string
  ar_bind :: "'a option"
  ar_api_port :: "u16 option"
  ar_api_bind :: "'a option"
  ar_no_api :: bool
  ar_protocol :: db_protocol
  ar_shutdown_timeout :: u64

text \<open>The process environment, the file system, the address type and the TLS library.\<close>

record ('a, 'cert, 'key, 'b, 'h) process =
  pc_var :: "string \<Rightarrow> string option"
  pc_read_file :: "string \<Rightarrow> string result"
  pc_from_yaml :: "string \<Rightarrow> app_config result"
  pc_sha256 :: "byte list \<Rightarrow> byte list"
  pc_random_key :: "byte list"
  pc_parse_addr :: "string \<Rightarrow> 'a option"
  pc_unspecified :: 'a
  pc_localhost :: 'a
  pc_is_loopback :: "'a \<Rightarrow> bool"
  pc_open :: "string \<Rightarrow> unit result"
  pc_pem_certs :: "string \<Rightarrow> 'cert result list"
  pc_pem_key :: "string \<Rightarrow> 'key option result"
  pc_add_root :: "'cert \<Rightarrow> unit result"
  pc_build_verifier :: "bool \<Rightarrow> 'cert list \<Rightarrow> unit result"
  pc_single_cert :: "'cert list \<Rightarrow> 'key \<Rightarrow> unit result"
  pc_rsa :: rsa_lib
  pc_platform_verifier :: "unit result"
  pc_otel :: otel
  pc_prometheus :: "('b, 'h) prometheus"
  pc_bind :: "'a \<Rightarrow> u16 \<Rightarrow> unit result"

definition env_var :: "('a, 'cert, 'key, 'b, 'h) process \<Rightarrow> string \<Rightarrow> string option" where
  "env_var pc name = opt_filter (\<lambda>v. trim v \<noteq> []) (pc_var pc name)"

section \<open>TLS towards the clients\<close>

text \<open>What the PEM reader yields of a file that could be opened, the first error ending the collection.\<close>

fun collect_results :: "'c result list \<Rightarrow> 'c list result" where
  "collect_results [] = Ok []"
| "collect_results (r # rs) = rbind r (\<lambda>x. rbind (collect_results rs) (\<lambda>xs. Ok (x # xs)))"

definition load_certs :: "('a, 'cert, 'key, 'b, 'h) process \<Rightarrow> string \<Rightarrow> 'cert list result" where
  "load_certs pc path = rbind (pc_open pc path) (\<lambda>_. collect_results (pc_pem_certs pc path))"

definition load_keys :: "('a, 'cert, 'key, 'b, 'h) process \<Rightarrow> string \<Rightarrow> 'key result" where
  "load_keys pc path =
     rbind (pc_open pc path) (\<lambda>_. rbind (pc_pem_key pc path) (\<lambda>k. ok_or k ''No private key found''))"

datatype 'cert client_auth = No_Client_Auth | Optional_Cert "'cert list" | Required_Cert "'cert list"

record ('cert, 'key) server_tls =
  st_client_auth :: "'cert client_auth"
  st_certs :: "'cert list"
  st_key :: 'key

text \<open>The loop that adds the CA certificates to the root store; the first bad one is the error.\<close>

fun add_roots :: "('cert \<Rightarrow> unit result) \<Rightarrow> 'cert list \<Rightarrow> unit result" where
  "add_roots add [] = Ok ()"
| "add_roots add (c # cs) = rbind (add c) (\<lambda>_. add_roots add cs)"

definition build_client_tls_config :: "('a, 'cert, 'key, 'b, 'h) process \<Rightarrow> tls_config \<Rightarrow> 'cert list \<Rightarrow> 'key
    \<Rightarrow> ('cert, 'key) server_tls result" where
  "build_client_tls_config pc tls certs key =
     (case tl_client_ca_path tls of
        None \<Rightarrow> rbind (pc_single_cert pc certs key) (\<lambda>_.
          Ok \<lparr>st_client_auth = No_Client_Auth, st_certs = certs, st_key = key\<rparr>)
      | Some ca_path \<Rightarrow>
          rbind (load_certs pc ca_path) (\<lambda>ca_certs.
          if ca_certs = [] then bail (''tls.client_ca_path '' @ ca_path @ '' contains no certificates'') else
          rbind (add_roots (pc_add_root pc) ca_certs) (\<lambda>_.
          rbind (pc_build_verifier pc (tl_require_client_cert tls) ca_certs) (\<lambda>_.
          rbind (pc_single_cert pc certs key) (\<lambda>_.
          Ok \<lparr>st_client_auth = (if tl_require_client_cert tls then Required_Cert ca_certs else Optional_Cert ca_certs),
              st_certs = certs, st_key = key\<rparr>)))))"

definition client_tls :: "('a, 'cert, 'key, 'b, 'h) process \<Rightarrow> app_config \<Rightarrow> ('cert, 'key) server_tls option result" where
  "client_tls pc config =
     (case cf_tls config of
        Some tls \<Rightarrow>
          if tl_enabled tls then
            rbind (load_certs pc (tl_cert_path tls)) (\<lambda>certs.
            rbind (load_keys pc (tl_key_path tls)) (\<lambda>key.
            rbind (build_client_tls_config pc tls certs key) (\<lambda>server_config. Ok (Some server_config))))
          else Ok None
      | None \<Rightarrow> Ok None)"

section \<open>Credentials of the terminating mode\<close>

definition startup_auth :: "('a, 'cert, 'key, 'b, 'h) process \<Rightarrow> db_protocol \<Rightarrow> app_config \<Rightarrow> terminating_auth option result" where
  "startup_auth pc protocol config =
     (case cf_auth config of
        None \<Rightarrow> Ok None
      | Some a \<Rightarrow>
          rbind (resolve_with (pc_read_file pc) (\<lambda>n. opt_filter (\<lambda>v. v \<noteq> []) (pc_var pc n)) a) (\<lambda>r.
          case r of
            None \<Rightarrow> Ok None
          | Some resolved \<Rightarrow>
              if protocol \<noteq> MySql then bail ''auth.mode 'terminate' is MySQL-only''
              else rbind (from_resolved (pc_rsa pc) resolved) (\<lambda>ta. Ok (Some ta))))"

section \<open>Startup\<close>

text \<open>What the process runs with. \<open>su_api\<close> is where the management API is to be served, \<open>None\<close> when it is
  disabled.\<close>

record ('a, 'cert, 'key) proxy_setup =
  su_state :: app_state
  su_tls_acceptor :: "('cert, 'key) server_tls option"
  su_proxy_bind :: 'a
  su_proxy_port :: u16
  su_api :: "('a \<times> u16) option"
  su_health_check :: bool
  su_terminating_auth :: "terminating_auth option"
  su_max_connections :: "nat option"
  su_upstream_pool_size :: "nat option"
  su_rate_limit :: "u32 option"

definition startup :: "('a, 'cert, 'key, 'b, 'h) process \<Rightarrow> 'a args \<Rightarrow> ('a, 'cert, 'key) proxy_setup result" where
  "startup pc args =
     rbind (load (pc_read_file pc) (pc_from_yaml pc) (pc_var pc) (ar_config args)) (\<lambda>config.
     rbind (init_telemetry (pc_otel pc) (cf_telemetry config)) (\<lambda>_.
     rbind (fst (init_metrics (pc_prometheus pc) None)) (\<lambda>_.
     rbind (client_tls pc config) (\<lambda>tls_acceptor.
     let state = app_state_new (pc_sha256 pc) (pc_random_key pc) config (ar_config args)
           (ar_upstream_host args) (ar_upstream_port args) (ar_protocol args);
         listen_cfg = cf_listen config; api_cfg = cf_api config in
     rbind (resolve_listen_addr (pc_parse_addr pc) (ar_bind args) (env_var pc ''IRONVEIL_BIND'')
       (Option.bind listen_cfg ln_bind) (pc_unspecified pc)) (\<lambda>proxy_bind.
     rbind (resolve_listen_port (ar_port args) (env_var pc ''IRONVEIL_PORT'')
       (Option.bind listen_cfg ln_port) 6543) (\<lambda>proxy_port.
     rbind (resolve_flag (if ar_no_api args then Some False else None) (env_var pc ''IRONVEIL_API_ENABLED'')
       (map_option ac_enabled api_cfg) True) (\<lambda>api_enabled.
     rbind (resolve_listen_addr (pc_parse_addr pc) (ar_api_bind args) (env_var pc ''IRONVEIL_API_BIND'')
       (Option.bind api_cfg ac_bind) (pc_localhost pc)) (\<lambda>api_bind.
     rbind (resolve_listen_port (ar_api_port args) (env_var pc ''IRONVEIL_API_PORT'')
       (Option.bind api_cfg ac_port) 3001) (\<lambda>api_port.
     rbind (startup_auth pc (ar_protocol args) config) (\<lambda>terminating_auth.
     rbind (if cf_upstream_tls config then pc_platform_verifier pc else Ok ()) (\<lambda>_.
     rbind (pc_bind pc proxy_bind proxy_port) (\<lambda>_.
     Ok \<lparr>su_state = state, su_tls_acceptor = tls_acceptor, su_proxy_bind = proxy_bind,
         su_proxy_port = proxy_port, su_api = (if api_enabled then Some (api_bind, api_port) else None),
         su_health_check = (case cf_health_check config of Some h \<Rightarrow> hk_enabled h | None \<Rightarrow> True),
         su_terminating_auth = terminating_auth,
         su_max_connections = Option.bind (cf_limits config) lc_max_connections,
         su_upstream_pool_size = Option.bind (cf_limits config) lc_upstream_pool_size,
         su_rate_limit = Option.bind (cf_limits config) lc_connections_per_second\<rparr>))))))))))))"

text \<open>The task of the management API, which \<^verbatim>\<open>main\<close> spawns when the API is enabled: it reads the
  configuration that is live in the state \<open>s\<close> when it first runs. \<open>None\<close>: there is no such task;
  \<open>Some (Ok ())\<close>: it serves; an error ends the process with status 1.\<close>

definition api_task :: "('a, 'cert, 'key, 'b, 'h) process \<Rightarrow> ('a, 'cert, 'key) proxy_setup \<Rightarrow> app_state \<Rightarrow> unit result option" where
  "api_task pc su s =
     map_option (\<lambda>(bind, port). start_api_guard (pc_is_loopback pc bind) (as_config s)) (su_api su)"

section \<open>Lemmas\<close>

lemma ok_or_eq_Ok: "ok_or x m = Ok v \<longleftrightarrow> x = Some v"
  by (cases x) simp_all

lemma load_valid: "load rd yaml env path = Ok c \<Longrightarrow> validate c = Ok ()"
  by (auto simp: load_def rbind_eq_Ok_iff Let_def)

lemma client_tls_policy:
  assumes "client_tls pc c = Ok acceptor" "cf_tls c = Some t" "tl_enabled t"
  shows "\<exists>srv. acceptor = Some srv \<and>
     (case tl_client_ca_path t of
        None \<Rightarrow> st_client_auth srv = No_Client_Auth
      | Some ca \<Rightarrow> \<exists>roots. roots \<noteq> [] \<and> load_certs pc ca = Ok roots
          \<and> st_client_auth srv = (if tl_require_client_cert t then Required_Cert roots else Optional_Cert roots))"
  using assms
  by (auto simp: client_tls_def build_client_tls_config_def rbind_eq_Ok_iff split: option.splits if_splits)

lemma resolved_credentials:
  assumes "resolve_with rd env a = Ok r" "au_mode a = Terminate"
  shows "\<exists>ra. r = Some ra \<and> ra_client_username ra \<noteq> [] \<and> ra_client_password ra \<noteq> []"
  using assms by (auto simp: resolve_with_def rbind_eq_Ok_iff Let_def ok_or_eq_Ok opt_filter_def split: if_splits option.splits)

lemma startup_auth_terminates:
  assumes "startup_auth pc proto c = Ok ta" "cf_auth c = Some a" "au_mode a = Terminate"
  shows "\<exists>t. ta = Some t \<and> proto = MySql \<and> ta_client_username t \<noteq> [] \<and> ta_client_password t \<noteq> []"
proof -
  obtain r where r: "resolve_with (pc_read_file pc) (\<lambda>n. opt_filter (\<lambda>v. v \<noteq> []) (pc_var pc n)) a = Ok r"
    using assms by (auto simp: startup_auth_def rbind_eq_Ok_iff)
  from resolved_credentials [OF this assms(3)] assms r show ?thesis
    by (auto simp: startup_auth_def from_resolved_def rbind_eq_Ok_iff split: if_splits)
qed

lemma as_config_new [simp]: "as_config (app_state_new h k c path host port proto) = c"
  by (simp add: app_state_new_def)

section \<open>Properties\<close>


text \<open>A proxy that terminates authentication behind a TLS listener that requires certificates.\<close>

definition demo_startup_config :: app_config where
  "demo_startup_config = default_app_config
     \<lparr>cf_tls := Some \<lparr>tl_enabled = True, tl_cert_path = ''c'', tl_key_path = ''k'',
        tl_client_ca_path = Some ''ca'', tl_require_client_cert = True\<rparr>,
      cf_auth := Some \<lparr>au_mode = Terminate, au_client_username = Some ''app'', au_client_password = Some ''pw'',
        au_client_password_file = None, au_client_auth_plugin = None, au_upstream_username = Some ''db'',
        au_upstream_password = Some ''up'', au_upstream_password_file = None, au_upstream_database = None,
        au_upstream_rsa_public_key = None, au_upstream_rsa_public_key_file = None\<rparr>\<rparr>"

definition demo_process :: "(nat, nat, nat, nat, nat) process" where
  "demo_process =
     \<lparr>pc_var = (\<lambda>_. None), pc_read_file = Ok, pc_from_yaml = (\<lambda>_. Ok demo_startup_config),
      pc_sha256 = (\<lambda>b. b), pc_random_key = [], pc_parse_addr = (\<lambda>_. None), pc_unspecified = 0,
      pc_localhost = 127, pc_is_loopback = (\<lambda>a. a = 127), pc_open = (\<lambda>_. Ok ()),
      pc_pem_certs = (\<lambda>p. [Ok (length p)]), pc_pem_key = (\<lambda>_. Ok (Some 7)), pc_add_root = (\<lambda>_. Ok ()), pc_build_verifier = (\<lambda>_ _. Ok ()),
      pc_single_cert = (\<lambda>_ _. Ok ()), pc_rsa = \<lparr>rs_public_keys = (\<lambda>_. None), rs_from_der = (\<lambda>_. bail ''der'')\<rparr>,
      pc_platform_verifier = Ok (), pc_otel = \<lparr>ot_default_env = None, ot_build_exporter = (\<lambda>_. Ok ()), ot_init = (\<lambda>_. Ok ())\<rparr>,
      pc_prometheus = \<lparr>pr_builder = 0, pr_set_buckets = (\<lambda>_. Ok), pr_set_buckets_for_metric = (\<lambda>_ _. Ok),
        pr_install_recorder = Ok\<rparr>, pc_bind = (\<lambda>_ _. Ok ())\<rparr>"

definition demo_args :: "nat args" where
  "demo_args =
     \<lparr>ar_port = None, ar_upstream_host = ''db'', ar_upstream_port = 3306, ar_config = ''proxy.yaml'',
      ar_bind = None, ar_api_port = None, ar_api_bind = None, ar_no_api = False, ar_protocol = MySql,
      ar_shutdown_timeout = 10\<rparr>"

lemma demo_startup: "\<exists>su. startup demo_process demo_args = Ok su \<and> su_api su = Some (127, 3001)
     \<and> as_config (su_state su) = demo_startup_config"
proof -
  have load: "load Ok (\<lambda>_. Ok demo_startup_config) (\<lambda>_. None) p = Ok demo_startup_config" for p
    by (simp add: load_def validate_def demo_startup_config_def default_app_config_def)
  have tls: "\<exists>t. client_tls demo_process demo_startup_config = Ok t"
    by (simp add: client_tls_def demo_startup_config_def build_client_tls_config_def demo_process_def
        load_certs_def load_keys_def default_app_config_def)
  have auth: "\<exists>ta. startup_auth demo_process MySql demo_startup_config = Ok ta"
    by (simp add: startup_auth_def demo_startup_config_def demo_process_def resolve_with_def resolve_secret_def
        opt_or_def opt_filter_def KNOWN_CLIENT_AUTH_PLUGINS_def from_resolved_def plugin_from_name_def)
  have env: "env_var demo_process n = None" for n by (simp add: env_var_def demo_process_def opt_filter_def)
  have pc: "pc_read_file demo_process = Ok" "pc_from_yaml demo_process = (\<lambda>_. Ok demo_startup_config)"
    "pc_var demo_process = (\<lambda>_. None)" "pc_localhost demo_process = 127" "pc_is_loopback demo_process 127"
    "init_telemetry (pc_otel demo_process) None = Ok None"
    "fst (init_metrics (pc_prometheus demo_process) None) = Ok 0" "pc_bind demo_process = (\<lambda>_ _. Ok ())"
    "pc_platform_verifier demo_process = Ok ()"
    by (simp_all add: demo_process_def init_telemetry_def init_metrics_def expect_def)
  have c: "cf_listen demo_startup_config = None" "cf_api demo_startup_config = None"
    "cf_telemetry demo_startup_config = None"
    by (simp_all add: demo_startup_config_def default_app_config_def)
  obtain t ta where "client_tls demo_process demo_startup_config = Ok t"
    "startup_auth demo_process MySql demo_startup_config = Ok ta" using tls auth by blast
  then show ?thesis
    by (simp add: startup_def load env pc c resolve_listen_addr_def resolve_listen_port_def resolve_flag_def
        opt_filter_def demo_args_def Let_def)
qed


text \<open>A masking secret given in the environment is part of the loaded configuration, and so of the file
  that the next edit of the rules writes.\<close>

lemma env_secret_is_persisted:
  assumes "load rd from_yaml env path = Ok c" "env ''IRONVEIL_MASKING_SECRET'' = Some secret" "secret \<noteq> []"
    and "commit_config to_yaml write_file rename (c\<lparr>cf_rules := rules\<rparr>) (s, fs) = (Ok u, s', fs')"
  shows "\<exists>yaml fs1. to_yaml (c\<lparr>cf_rules := rules\<rparr>) = Ok yaml \<and> cf_masking_secret (c\<lparr>cf_rules := rules\<rparr>) = Some secret
     \<and> write_file (as_config_path s @ ''.tmp'') yaml fs = (Ok (), fs1)"
proof -
  have "cf_masking_secret c = Some secret"
    using assms(1-3) by (auto simp: load_def rbind_eq_Ok_iff Let_def)
  with commit_config_cases [where to_yaml = to_yaml and new_config = "c\<lparr>cf_rules := rules\<rparr>" and s = s and fs = fs
      and write_file = write_file and rename = rename] assms(4) show ?thesis by auto
qed

end
