(* ===== verification/Supervisor.thy ===== *)
theory Supervisor
  imports Startup
begin

text \<open>
  The running process, the rest of \<^verbatim>\<open>main\<close> in \<^verbatim>\<open>src/src/main.rs\<close>: the accept loop with its rate and
  connection limits, the task of each connection up to and after its session, the shutdown, and
  the tasks that probe the upstream and watch the configuration file. Times are nanoseconds on the
  clock of \<^verbatim>\<open>Instant\<close>, whose differences saturate at 0. Whether a semaphore of tokio had a permit is
  part of an event. What a session does is the matter of \<open>Pg_Session\<close> and \<open>MySql_Session\<close>; here it
  ends by returning or, its task unwinding, by a panic.
\<close>

section \<open>The rate limit\<close>

definition SECOND :: nat where "SECOND = 1000000000"

record limiter =
  lm_tokens :: u32
  lm_last_refill :: nat

definition limiter_new :: "u32 option \<Rightarrow> nat \<Rightarrow> limiter" where
  "limiter_new rate_limit now =
     \<lparr>lm_tokens = (case rate_limit of Some r \<Rightarrow> r | None \<Rightarrow> 0), lm_last_refill = now\<rparr>"

definition saturating_pred :: "u32 \<Rightarrow> u32" where
  "saturating_pred n = (if n = 0 then 0 else n - 1)"

definition rate_gate :: "u32 option \<Rightarrow> nat \<Rightarrow> limiter \<Rightarrow> bool \<times> limiter" where
  "rate_gate rate_limit now l =
     (case rate_limit of
        None \<Rightarrow> (True, l)
      | Some max_rate \<Rightarrow>
          (let elapsed = now - lm_last_refill l;
               l = (if SECOND \<le> elapsed then \<lparr>lm_tokens = max_rate, lm_last_refill = now\<rparr> else l)
           in if lm_tokens l = 0 then (False, l)
              else (True, l\<lparr>lm_tokens := saturating_pred (lm_tokens l)\<rparr>)))"

section \<open>Connections\<close>

text \<open>A MySQL connection first waits for an upstream slot, when there is a pool; only then does it
  count as active. A PostgreSQL connection counts at once and waits inside its session.\<close>

record supervisor =
  sv_protocol :: db_protocol
  sv_rate_limit :: "u32 option"
  sv_pooled :: bool
  sv_accepting :: bool
  sv_limiter :: limiter
  sv_waiting :: "nat list"
  sv_active :: "nat list"
  sv_state :: app_state
  sv_refused :: "(nat \<times> byte list) list"

datatype event =
    Accept_Error
  | Accept nat nat bool
  | Slot nat "upstream_pool_acquire_error option"
  | Session_End nat
  | Session_Panic nat
  | Signal
  | Shared app_state

definition open_session :: "nat \<Rightarrow> supervisor \<Rightarrow> supervisor" where
  "open_session conn sv =
     (let s = sv_state sv;
          s = record_connection (s\<lparr>as_active_connections := as_active_connections s + 1\<rparr>)
      in sv\<lparr>sv_state := s, sv_active := conn # sv_active sv\<rparr>)"

text \<open>The accept arm. A connection that fails the limit on connections has spent its token.\<close>

definition accept_connection :: "nat \<Rightarrow> nat \<Rightarrow> bool \<Rightarrow> supervisor \<Rightarrow> supervisor" where
  "accept_connection now conn permit sv =
     (case rate_gate (sv_rate_limit sv) now (sv_limiter sv) of
        (admitted, l) \<Rightarrow>
          let sv = sv\<lparr>sv_limiter := l\<rparr> in
          if \<not> admitted \<or> \<not> permit then sv
          else if sv_protocol sv = MySql \<and> sv_pooled sv then sv\<lparr>sv_waiting := conn # sv_waiting sv\<rparr>
          else open_session conn sv)"

text \<open>What a waiting MySQL client is sent when it gets no slot.\<close>

definition slot_refusal :: "app_state \<Rightarrow> upstream_pool_acquire_error \<Rightarrow> byte list" where
  "slot_refusal s e =
     build_mysql_err_packet 1040 ''08004''
       (case e of
          Closed \<Rightarrow> ''upstream pool unavailable''
        | Timeout \<Rightarrow>
            (case resolve_timeout_limits (cf_limits (as_config s)) of
               (_, _, wait_timeout) \<Rightarrow> pool_timeout_message wait_timeout))"

definition slot_outcome :: "nat \<Rightarrow> upstream_pool_acquire_error option \<Rightarrow> supervisor \<Rightarrow> supervisor" where
  "slot_outcome conn res sv =
     (let sv = sv\<lparr>sv_waiting := remove1 conn (sv_waiting sv)\<rparr> in
      case res of
        None \<Rightarrow> open_session conn sv
      | Some e \<Rightarrow> sv\<lparr>sv_refused := (conn, slot_refusal (sv_state sv) e) # sv_refused sv\<rparr>)"

text \<open>A session that returns is taken off the count, with an error or without; one that panics
  unwinds past the line that does it.\<close>

definition end_session :: "nat \<Rightarrow> supervisor \<Rightarrow> supervisor" where
  "end_session conn sv =
     sv\<lparr>sv_active := remove1 conn (sv_active sv),
        sv_state := (sv_state sv)\<lparr>as_active_connections := as_active_connections (sv_state sv) - 1\<rparr>\<rparr>"

definition unwind_session :: "nat \<Rightarrow> supervisor \<Rightarrow> supervisor" where
  "unwind_session conn sv = sv\<lparr>sv_active := remove1 conn (sv_active sv)\<rparr>"

text \<open>The accept loop stops at the first signal; sessions go on. What other tasks and the sessions do to
  the shared state leaves the count alone.\<close>

inductive step :: "supervisor \<Rightarrow> event \<Rightarrow> supervisor \<Rightarrow> bool" where
  accept_error: "sv_accepting sv \<Longrightarrow> step sv Accept_Error sv"
| accept: "sv_accepting sv \<Longrightarrow> conn \<notin> set (sv_waiting sv @ sv_active sv) \<Longrightarrow>
    step sv (Accept now conn permit) (accept_connection now conn permit sv)"
| slot: "conn \<in> set (sv_waiting sv) \<Longrightarrow> step sv (Slot conn res) (slot_outcome conn res sv)"
| session_end: "conn \<in> set (sv_active sv) \<Longrightarrow> step sv (Session_End conn) (end_session conn sv)"
| session_panic: "conn \<in> set (sv_active sv) \<Longrightarrow> step sv (Session_Panic conn) (unwind_session conn sv)"
| shared: "as_active_connections s = as_active_connections (sv_state sv) \<Longrightarrow>
    step sv (Shared s) (sv\<lparr>sv_state := s\<rparr>)"
| signal: "sv_accepting sv \<Longrightarrow> step sv Signal (sv\<lparr>sv_accepting := False\<rparr>)"

inductive runs :: "supervisor \<Rightarrow> event list \<Rightarrow> supervisor \<Rightarrow> bool" where
  runs_none: "runs sv [] sv"
| runs_more: "runs sv es sv' \<Longrightarrow> step sv' e sv'' \<Longrightarrow> runs sv (es @ [e]) sv''"

inductive_cases stepE: "step sv e sv'"

definition supervisor_new :: "('a, 'cert, 'key) proxy_setup \<Rightarrow> nat \<Rightarrow> supervisor" where
  "supervisor_new su now =
     \<lparr>sv_protocol = as_db_protocol (su_state su), sv_rate_limit = su_rate_limit su,
      sv_pooled = (su_upstream_pool_size su \<noteq> None), sv_accepting = True,
      sv_limiter = limiter_new (su_rate_limit su) now, sv_waiting = [], sv_active = [],
      sv_state = su_state su, sv_refused = []\<rparr>"

section \<open>Shutdown\<close>

text \<open>The drain loop reads the count, gives up at the deadline and otherwise sleeps 25 ms, or what is
  left. \<open>late t\<close> is by how much a timer due at \<open>t\<close> fires late. Returns the time, too.\<close>

definition POLL :: nat where "POLL = 25000000"

function drain_loop :: "(nat \<Rightarrow> nat) \<Rightarrow> (nat \<Rightarrow> nat) \<Rightarrow> nat \<Rightarrow> nat \<Rightarrow> bool \<times> nat" where
  "drain_loop active late deadline now =
     (if active now = 0 then (True, now)
      else
        let remaining = deadline - now in
        if remaining = 0 then (False, now)
        else let due = now + min POLL remaining in drain_loop active late deadline (due + late due))"
  by pat_completeness auto
termination
  by (relation "measure (\<lambda>(_, _, deadline, now). deadline - now)") (auto simp: POLL_def min_def)

declare drain_loop.simps [simp del]

definition drain_connections :: "(nat \<Rightarrow> nat) \<Rightarrow> (nat \<Rightarrow> nat) \<Rightarrow> nat \<Rightarrow> nat \<Rightarrow> bool \<times> nat" where
  "drain_connections active late timeout now = drain_loop active late (now + timeout) now"

section \<open>Probing the upstream\<close>

text \<open>One round of the health check: \<open>shown\<close> is the text of a socket error.\<close>

definition health_check_round :: "health_check_config option \<Rightarrow> (error \<Rightarrow> string) \<Rightarrow> nat \<Rightarrow> u64 \<Rightarrow> 'c connect_end
    \<Rightarrow> app_state \<Rightarrow> app_state" where
  "health_check_round config shown now latency connect_result s =
     (let config = (case config of Some c \<Rightarrow> c | None \<Rightarrow> default_health_check_config) in
      case connect_result of
        Connected _ \<Rightarrow> metered (record_health_check True (Some (unat latency))) (update_health_status now True (Some latency) None s)
      | Refused e \<Rightarrow> metered (record_health_check False None)
          (update_health_status now False None (Some (''Connection failed: '' @ shown e)) s)
      | Timed_Out \<Rightarrow> metered (record_health_check False None @ record_upstream_timeout)
          (update_health_status now False None
            (Some (''Connection timeout after '' @ show_nat (unat (hk_timeout_secs config)) @ ''s'')) s))"

section \<open>Watching the configuration file\<close>

text \<open>\<^verbatim>\<open>Path::file_name\<close>: the last component, unless it is \<open>..\<close>; empty and \<open>.\<close> components do not count.\<close>

fun split_path :: "string \<Rightarrow> string list" where
  "split_path [] = [[]]"
| "split_path (c # cs) =
     (case split_path cs of
        seg # rest \<Rightarrow> if c = CHR ''/'' then [] # seg # rest else (c # seg) # rest
      | [] \<Rightarrow> [[c]])"

definition path_file_name :: "string \<Rightarrow> string option" where
  "path_file_name path =
     (let comps = filter (\<lambda>c. c \<noteq> [] \<and> c \<noteq> ''.'') (split_path path) in
      if comps = [] \<or> last comps = ''..'' then None else Some (last comps))"

record watcher =
  wt_state :: app_state
  wt_last_reload :: nat

definition DEBOUNCE :: nat where "DEBOUNCE = SECOND"

text \<open>An event of the watched directory: when it is taken from the channel, and its paths. \<open>load_at\<close> is
  what loading the file gives at a time; a failed reload is logged and changes nothing.\<close>

definition watch_event :: "(byte list \<Rightarrow> byte list) \<Rightarrow> (nat \<Rightarrow> string \<Rightarrow> app_config result) \<Rightarrow> nat \<times> string list
    \<Rightarrow> watcher \<Rightarrow> watcher" where
  "watch_event hash load_at ev w =
     (case ev of (now, paths) \<Rightarrow>
      let filename = (case path_file_name (as_config_path (wt_state w)) of Some f \<Rightarrow> f | None \<Rightarrow> ''proxy.yaml'');
          is_config_file = (\<exists>p \<in> set paths. path_file_name p = Some filename)
      in if is_config_file \<and> DEBOUNCE < now - wt_last_reload w
         then \<lparr>wt_state = snd (reload_config hash (load_at now) (wt_state w)), wt_last_reload = now\<rparr>
         else w)"

definition run_config_watcher :: "(byte list \<Rightarrow> byte list) \<Rightarrow> (nat \<Rightarrow> string \<Rightarrow> app_config result)
    \<Rightarrow> (nat \<times> string list) list \<Rightarrow> watcher \<Rightarrow> watcher" where
  "run_config_watcher hash load_at evs w = fold (watch_event hash load_at) evs w"

section \<open>The rate of accepted connections\<close>

text \<open>How many of the arrivals at these times pass the gate.\<close>

fun admissions :: "u32 \<Rightarrow> nat list \<Rightarrow> limiter \<Rightarrow> nat" where
  "admissions r [] l = 0"
| "admissions r (t # ts) l =
     (case rate_gate (Some r) t l of (ok, l') \<Rightarrow> (if ok then 1 else 0) + admissions r ts l')"

lemma rate_gate_cases:
  obtains (refilled) "SECOND \<le> t - lm_last_refill l" "r \<noteq> 0"
      "rate_gate (Some r) t l = (True, \<lparr>lm_tokens = r - 1, lm_last_refill = t\<rparr>)"
  | (closed) "SECOND \<le> t - lm_last_refill l" "r = 0"
      "rate_gate (Some r) t l = (False, \<lparr>lm_tokens = 0, lm_last_refill = t\<rparr>)"
  | (admitted) "t - lm_last_refill l < SECOND" "lm_tokens l \<noteq> 0"
      "rate_gate (Some r) t l = (True, l\<lparr>lm_tokens := lm_tokens l - 1\<rparr>)"
  | (refused) "t - lm_last_refill l < SECOND" "lm_tokens l = 0" "rate_gate (Some r) t l = (False, l)"
  by (cases "SECOND \<le> t - lm_last_refill l"; cases "r = 0"; cases "lm_tokens l = 0")
     (auto simp: rate_gate_def saturating_pred_def Let_def)

lemma unat_pred: "n \<noteq> 0 \<Longrightarrow> unat (n - 1) + 1 = unat (n :: u32)"
  using unat_minus_one [of n] unat_eq_zero [of n] by simp

lemma SECOND_pos [simp]: "0 < SECOND"
  by (simp add: SECOND_def)

lemma refills_fit:
  assumes "lr + SECOND \<le> t" "t \<le> fin"
  shows "1 + (fin - t) div SECOND \<le> (fin - lr) div SECOND"
proof -
  have "(fin - t) + SECOND \<le> fin - lr" using assms by simp
  from div_le_mono [OF this, of SECOND] show ?thesis by simp
qed

lemma admissions_bound:
  assumes "sorted (lm_last_refill l # ts)"
  shows "admissions r ts l \<le> unat (lm_tokens l)
     + unat r * ((last (lm_last_refill l # ts) - lm_last_refill l) div SECOND)"
  using assms
proof (induction ts arbitrary: l)
  case (Cons t ts)
  let ?fin = "last (t # ts)"
  have later: "t \<le> ?fin" "lm_last_refill l \<le> t" using Cons.prems by (auto simp: last_in_set)
  show ?case
  proof (cases rule: rate_gate_cases [of t l r])
    case refilled
    have "admissions r ts \<lparr>lm_tokens = r - 1, lm_last_refill = t\<rparr> \<le> unat (r - 1) + unat r * ((?fin - t) div SECOND)"
      using Cons.IH [of "\<lparr>lm_tokens = r - 1, lm_last_refill = t\<rparr>"] Cons.prems by simp
    then have "admissions r (t # ts) l \<le> unat r * (1 + (?fin - t) div SECOND)"
      using refilled unat_pred [of r] by (simp del: add_mult_distrib2)
    also have "\<dots> \<le> unat r * ((?fin - lm_last_refill l) div SECOND)"
      using refills_fit [of "lm_last_refill l" t ?fin] refilled(1) later by (intro mult_le_mono2) simp
    finally show ?thesis by simp
  next
    case closed
    then show ?thesis using Cons.IH [of "\<lparr>lm_tokens = 0, lm_last_refill = t\<rparr>"] Cons.prems by simp
  next
    case admitted
    then show ?thesis using Cons.IH [of "l\<lparr>lm_tokens := lm_tokens l - 1\<rparr>"] Cons.prems unat_pred [of "lm_tokens l"]
      by (cases ts) auto
  next
    case refused
    then show ?thesis using Cons.IH [of l] Cons.prems by (cases ts) auto
  qed
qed simp

lemma admissions_window:
  assumes "sorted (lm_last_refill l # ts)" "ts \<noteq> []" "last ts - hd ts < SECOND"
  shows "admissions r ts l \<le> unat (lm_tokens l) + unat r"
  using assms
proof (induction ts arbitrary: l)
  case (Cons t ts)
  have window: "(last (t # ts) - t) div SECOND = 0" using Cons.prems(3) by simp
  have rest: "ts \<noteq> [] \<Longrightarrow> last ts - hd ts < SECOND" using Cons.prems by (cases ts) auto
  show ?case
  proof (cases rule: rate_gate_cases [of t l r])
    case refilled
    from admissions_bound [of "\<lparr>lm_tokens = r - 1, lm_last_refill = t\<rparr>" ts r] Cons.prems(1) window refilled unat_pred [of r]
    show ?thesis by simp
  next
    case closed
    from admissions_bound [of "\<lparr>lm_tokens = 0, lm_last_refill = t\<rparr>" ts r] Cons.prems(1) window closed
    show ?thesis by simp
  next
    case admitted
    then show ?thesis
      using Cons.IH [of "l\<lparr>lm_tokens := lm_tokens l - 1\<rparr>"] Cons.prems(1) rest unat_pred [of "lm_tokens l"]
      by (cases ts) auto
  next
    case refused
    then show ?thesis using Cons.IH [of l] Cons.prems(1) rest by (cases ts) auto
  qed
qed simp

text \<open>C40: The rate limit holds. From the start of the proxy on, with a limit of \<open>r\<close> connections per second,
  at most \<open>r\<close> are let in per second begun, whenever they arrive; no window shorter than a second
  sees more than twice that many, whatever happened before; and an arrival a second after the last
  refill is let in, unless the limit is 0, which lets nobody in.\<close>

theorem accept_rate_bounded:
  assumes "sorted (now # ts)" "ts \<noteq> []"
  shows "admissions r ts (limiter_new (Some r) now) \<le> unat r * (1 + (last ts - now) div SECOND)
     \<and> (lm_tokens l \<le> r \<and> lm_last_refill l \<le> hd ts \<and> last ts - hd ts < SECOND \<longrightarrow>
         admissions r ts l \<le> 2 * unat r)
     \<and> (SECOND \<le> t - lm_last_refill l \<longrightarrow> fst (rate_gate (Some r) t l) = (r \<noteq> 0))"
proof (intro conjI impI)
  show "admissions r ts (limiter_new (Some r) now) \<le> unat r * (1 + (last ts - now) div SECOND)"
    using admissions_bound [of "limiter_new (Some r) now" ts r] assms by (simp add: limiter_new_def)
next
  assume l: "lm_tokens l \<le> r \<and> lm_last_refill l \<le> hd ts \<and> last ts - hd ts < SECOND"
  then have "sorted (lm_last_refill l # ts)" using assms by (cases ts) auto
  from admissions_window [OF this assms(2), of r] l have "admissions r ts l \<le> unat (lm_tokens l) + unat r" by blast
  then show "admissions r ts l \<le> 2 * unat r" using l word_le_nat_alt [of "lm_tokens l" r] by linarith
next
  assume "SECOND \<le> t - lm_last_refill l"
  then show "fst (rate_gate (Some r) t l) = (r \<noteq> 0)" by (cases rule: rate_gate_cases [of t l r]) auto
qed

text \<open>Two per second: of four arrivals at once and one a second later, three get in.\<close>

theorem accept_rate_bounded_witness:
  "admissions 2 [5, 5, 5, 5, 5 + SECOND] (limiter_new (Some 2) 5) = 3 \<and> (3 :: nat) \<le> 2 * (1 + 1)"
proof -
  have "admissions 2 [5, 5, 5, 5, 5 + SECOND] (limiter_new (Some 2) 5) = 3"
    by (simp add: limiter_new_def rate_gate_def saturating_pred_def Let_def)
  with accept_rate_bounded [of 5 "[5, 5, 5, 5, 5 + SECOND]" 2] show ?thesis by simp
qed

section \<open>The count of active connections\<close>

fun is_panic :: "event \<Rightarrow> bool" where
  "is_panic (Session_Panic _) = True"
| "is_panic _ = False"

definition counted :: "nat \<Rightarrow> supervisor \<Rightarrow> bool" where
  "counted panics sv \<longleftrightarrow> as_active_connections (sv_state sv) = length (sv_active sv) + panics
     \<and> distinct (sv_waiting sv @ sv_active sv)"

lemma counted_open: "counted n sv \<Longrightarrow> conn \<notin> set (sv_waiting sv @ sv_active sv) \<Longrightarrow> counted n (open_session conn sv)"
  by (auto simp: counted_def open_session_def record_connection_def Let_def)

lemma counted_frame [simp]:
  "counted n (sv\<lparr>sv_limiter := l\<rparr>) = counted n sv" "counted n (sv\<lparr>sv_refused := x\<rparr>) = counted n sv"
  by (simp_all add: counted_def)

lemma counted_waiting:
  "counted n sv \<Longrightarrow> conn \<notin> set (sv_waiting sv @ sv_active sv) \<Longrightarrow>
   counted n (sv\<lparr>sv_waiting := conn # sv_waiting sv\<rparr>)"
  "counted n sv \<Longrightarrow> counted n (sv\<lparr>sv_waiting := remove1 conn (sv_waiting sv)\<rparr>)"
  by (auto simp: counted_def dest: notin_set_remove1)

lemma counted_accept:
  assumes "counted n sv" "conn \<notin> set (sv_waiting sv @ sv_active sv)"
  shows "counted n (accept_connection now conn permit sv)"
proof -
  obtain admitted l where g: "rate_gate (sv_rate_limit sv) now (sv_limiter sv) = (admitted, l)" by fastforce
  from assms counted_open [of n "sv\<lparr>sv_limiter := l\<rparr>" conn] counted_waiting(1) [of n "sv\<lparr>sv_limiter := l\<rparr>" conn]
  show ?thesis by (simp add: accept_connection_def g Let_def)
qed

lemma counted_slot:
  assumes "counted n sv" "conn \<in> set (sv_waiting sv)"
  shows "counted n (slot_outcome conn res sv)"
proof -
  let ?sv = "sv\<lparr>sv_waiting := remove1 conn (sv_waiting sv)\<rparr>"
  have "counted n ?sv" "conn \<notin> set (sv_waiting ?sv @ sv_active ?sv)"
    using assms counted_waiting(2) by (auto simp: counted_def set_remove1_eq)
  then show ?thesis using counted_open by (simp add: slot_outcome_def Let_def split: option.split)
qed

lemma counted_step:
  "step sv e sv' \<Longrightarrow> counted n sv \<Longrightarrow> counted (if is_panic e then n + 1 else n) sv'"
proof (induction rule: step.induct)
  case (session_end conn sv)
  then have "length (sv_active sv) + n - Suc 0 = length (sv_active sv) - Suc 0 + n" by (cases "sv_active sv") auto
  with session_end show ?case by (auto simp: counted_def end_session_def length_remove1 set_remove1_eq)
next
  case (session_panic conn sv)
  then have "length (sv_active sv) = length (sv_active sv) - Suc 0 + 1" by (cases "sv_active sv") auto
  with session_panic show ?case by (auto simp: counted_def unwind_session_def length_remove1 set_remove1_eq)
qed (simp_all add: counted_accept counted_slot, simp_all add: counted_def)

lemma counted_runs: "runs sv es sv' \<Longrightarrow> counted n sv \<Longrightarrow> counted (n + length (filter is_panic es)) sv'"
proof (induction rule: runs.induct)
  case (runs_more sv es sv' e sv'')
  then show ?case using counted_step [of sv' e sv'' "n + length (filter is_panic es)"]
    by (simp split: if_splits)
qed simp

lemma drain_loop_result:
  "drain_loop active late deadline now = (ok, t) \<Longrightarrow> (ok \<longleftrightarrow> active t = 0) \<and> now \<le> t \<and> (ok \<or> deadline \<le> t)"
proof (induction active late deadline now rule: drain_loop.induct)
  case (1 active late deadline now)
  let ?due = "now + min POLL (deadline - now)"
  show ?case
  proof (cases "active now = 0 \<or> deadline \<le> now")
    case False
    then have "drain_loop active late deadline (?due + late ?due) = (ok, t)"
      using 1(2) by (simp add: drain_loop.simps [of _ _ _ now] Let_def)
    with 1(1) False show ?thesis by (fastforce simp: Let_def)
  qed (use 1(2) in \<open>auto simp: drain_loop.simps [of _ _ _ now] Let_def split: if_splits\<close>)
qed

lemma drain_in_time:
  assumes "\<forall>u. late u \<le> slack" "now \<le> deadline + slack"
  shows "snd (drain_loop active late deadline now) \<le> deadline + slack"
  using assms
proof (induction active late deadline now rule: drain_loop.induct)
  case (1 active late deadline now)
  let ?due = "now + min POLL (deadline - now)"
  show ?case
  proof (cases "active now = 0 \<or> deadline \<le> now")
    case False
    then have "?due + late ?due \<le> deadline + slack" using 1(2) by (intro add_mono) auto
    with 1 False show ?thesis by (simp add: drain_loop.simps [of _ _ _ now] Let_def)
  qed (use 1(3) in \<open>auto simp: drain_loop.simps [of _ _ _ now] Let_def\<close>)
qed

lemma drain_constant: "fst (drain_connections (\<lambda>_. n) late timeout now) \<longleftrightarrow> n = 0"
  using drain_loop_result [of "\<lambda>_. n" late "now + timeout" now] by (cases "drain_loop (\<lambda>_. n) late (now + timeout) now")
    (simp add: drain_connections_def)

text \<open>The count that the shutdown waits for. After any history of arrivals, slots, ends and signals it is
  the number of sessions that run plus the number that ended in a panic, which nothing takes off
  again; and a connection is in one place only. So a shutdown finds the proxy drained exactly when no
  session runs and none has ever panicked: MySQL clients waiting for an upstream slot are not
  waited for, and after a panic every shutdown runs into its timeout.\<close>

theorem active_connections_counted:
  assumes "startup pc args = Ok su" "runs (supervisor_new su now) es sv"
  shows "as_active_connections (sv_state sv) = length (sv_active sv) + length (filter is_panic es)
     \<and> distinct (sv_waiting sv @ sv_active sv)
     \<and> (fst (drain_connections (\<lambda>_. as_active_connections (sv_state sv)) late timeout t)
          \<longleftrightarrow> sv_active sv = [] \<and> (\<forall>e \<in> set es. \<not> is_panic e))"
proof -
  have "as_active_connections (su_state su) = 0"
    using assms(1) by (auto simp: startup_def rbind_eq_Ok_iff Let_def app_state_new_def)
  then have "counted 0 (supervisor_new su now)" by (simp add: counted_def supervisor_new_def)
  from counted_runs [OF assms(2) this] show ?thesis
    by (auto simp: counted_def drain_constant filter_empty_conv)
qed

lemma demo_limits:
  "startup demo_process demo_args = Ok su \<Longrightarrow> su_upstream_pool_size su = None \<and> su_rate_limit su = None"
  by (auto simp: startup_def rbind_eq_Ok_iff Let_def load_def demo_process_def demo_startup_config_def default_app_config_def)

text \<open>A client of the demo proxy, without a pool, is accepted and its session panics: the count stays 1.\<close>

theorem active_connections_counted_witness:
  "\<exists>su sv. startup demo_process demo_args = Ok su
     \<and> runs (supervisor_new su 0) [Accept 3 8 True, Signal, Session_Panic 8] sv
     \<and> as_active_connections (sv_state sv) = 1 \<and> sv_active sv = []
     \<and> \<not> fst (drain_connections (\<lambda>_. as_active_connections (sv_state sv)) (\<lambda>_. 0) 10 5)"
proof -
  from demo_startup obtain su where su: "startup demo_process demo_args = Ok su" by blast
  then have l: "su_upstream_pool_size su = None" "su_rate_limit su = None"
    using demo_limits by blast+
  let ?a = "supervisor_new su 0"
  let ?b = "open_session 8 ?a"
  have "step ?a (Accept 3 8 True) (accept_connection 3 8 True ?a)"
    by (rule accept) (simp_all add: supervisor_new_def)
  moreover have "accept_connection 3 8 True ?a = ?b"
    by (simp add: accept_connection_def supervisor_new_def l rate_gate_def open_session_def)
  ultimately have 1: "runs ?a [Accept 3 8 True] ?b" using runs_more [OF runs_none] by force
  have "step ?b Signal (?b\<lparr>sv_accepting := False\<rparr>)" by (rule signal) (simp add: supervisor_new_def open_session_def Let_def)
  from runs_more [OF 1 this] have 2: "runs ?a [Accept 3 8 True, Signal] (?b\<lparr>sv_accepting := False\<rparr>)" by simp
  let ?c = "unwind_session 8 (?b\<lparr>sv_accepting := False\<rparr>)"
  have "step (?b\<lparr>sv_accepting := False\<rparr>) (Session_Panic 8) ?c" by (rule session_panic) (simp add: open_session_def Let_def)
  from runs_more [OF 2 this] have 3: "runs ?a [Accept 3 8 True, Signal, Session_Panic 8] ?c" by simp
  have "sv_active ?c = []" by (simp add: unwind_session_def open_session_def supervisor_new_def Let_def)
  with su 3 active_connections_counted [OF su 3, of "\<lambda>_. 0" 10 5] show ?thesis by auto
qed

section \<open>Hot reload\<close>

text \<open>A change of the file is taken up when no reload came within the last second, the start of the
  proxy counting as one. But what is written within a second after a reload is never read: the
  events that announce it are discarded, not postponed. An editor that truncates the file and
  writes it again leaves the proxy with whatever loading the truncated file gave, and no later
  event comes.\<close>

theorem hot_reload_misses_last_write:
  assumes "wt_last_reload w + DEBOUNCE < now" "path_file_name path = path_file_name (as_config_path (wt_state w))"
    and "path_file_name path \<noteq> None" "\<forall>(t, ps) \<in> set later. now \<le> t \<and> t \<le> now + DEBOUNCE"
  shows "run_config_watcher hash load_at ((now, [path]) # later) w
     = \<lparr>wt_state = snd (reload_config hash (load_at now) (wt_state w)), wt_last_reload = now\<rparr>"
proof -
  have first: "watch_event hash load_at (now, [path]) w
      = \<lparr>wt_state = snd (reload_config hash (load_at now) (wt_state w)), wt_last_reload = now\<rparr>"
    using assms(1-3) by (auto simp: watch_event_def Let_def)
  have "fold (watch_event hash load_at) later v = v" if "wt_last_reload v = now" for v
    using assms(4) that by (induction later) (auto simp: watch_event_def Let_def)
  with first show ?thesis by (simp add: run_config_watcher_def)
qed

text \<open>The file is truncated at 2 s, which does not load, and complete a millisecond later: the old
  configuration stays.\<close>

theorem hot_reload_misses_last_write_witness:
  "let w = \<lparr>wt_state = app_state_new (\<lambda>b. b) [] default_app_config ''conf/proxy.yaml'' ''db'' 5432 Postgres,
            wt_last_reload = 0\<rparr>;
       load_at = (\<lambda>t p. if t \<le> 2 * SECOND then bail ''empty'' else Ok (default_app_config\<lparr>cf_masking_enabled := False\<rparr>))
   in run_config_watcher (\<lambda>b. b) load_at
        [(2 * SECOND, [''./conf/proxy.yaml'']), (2 * SECOND + 1000000, [''./conf/proxy.yaml''])] w
      = w\<lparr>wt_last_reload := 2 * SECOND\<rparr>"
proof -
  let ?s = "app_state_new (\<lambda>b. b) [] default_app_config ''conf/proxy.yaml'' ''db'' 5432 Postgres"
  have p: "as_config_path ?s = ''conf/proxy.yaml''" by (simp add: app_state_new_def)
  have f: "path_file_name ''./conf/proxy.yaml'' = Some ''proxy.yaml''" "path_file_name ''conf/proxy.yaml'' = Some ''proxy.yaml''"
    by (simp_all add: path_file_name_def)
  show ?thesis
    unfolding Let_def
    by (subst hot_reload_misses_last_write)
       (simp_all add: p f DEBOUNCE_def SECOND_def reload_config_def)
qed

end
