(* ===== verification/Slots.thy ===== *)
theory Slots
  imports Supervisor Metric_Calls
begin

text \<open>
  The limits of the running process (\<^verbatim>\<open>src/src/main.rs\<close>): the semaphore that bounds connections, the
  \<^verbatim>\<open>UpstreamSlotManager\<close> with its leases, and what the accept loop and the tasks tell the metrics.
  \<open>Supervisor\<close> takes the answers of the semaphores from an event; here they are computed, and the
  supervisor is what this model refines.
\<close>

section \<open>Semaphores\<close>

text \<open>The operations of a tokio semaphore that the code uses, and what is documented of them: a new one
  has the permits it was asked for (or the request was too large, a panic), a permit is given out
  while there is one, and dropping it puts it back. A permit that is dropped while tasks wait for
  one goes to a waiter without becoming available in between; that is \<open>handover\<close> below.\<close>

record 'm semaphore_lib =
  sem_new :: "nat \<Rightarrow> 'm result"
  sem_available_permits :: "'m \<Rightarrow> nat"
  sem_try_acquire :: "'m \<Rightarrow> 'm option"
  sem_release :: "'m \<Rightarrow> 'm"

definition semaphore_ok :: "'m semaphore_lib \<Rightarrow> bool" where
  "semaphore_ok lib \<longleftrightarrow>
     (\<forall>n m. sem_new lib n = Ok m \<longrightarrow> sem_available_permits lib m = n)
     \<and> (\<forall>m. sem_try_acquire lib m = None \<longleftrightarrow> sem_available_permits lib m = 0)
     \<and> (\<forall>m m'. sem_try_acquire lib m = Some m' \<longrightarrow> sem_available_permits lib m = Suc (sem_available_permits lib m'))
     \<and> (\<forall>m. sem_available_permits lib (sem_release lib m) = Suc (sem_available_permits lib m))"

section \<open>Upstream slots\<close>

record 'm slot_manager =
  sm_pool :: 'm
  sm_size :: nat

definition update_upstream_pool_metrics :: "'m semaphore_lib \<Rightarrow> 'm \<Rightarrow> nat \<Rightarrow> metric_call list" where
  "update_upstream_pool_metrics lib pool max_size =
     set_upstream_pool_state (max_size - sem_available_permits lib pool) max_size"

definition slot_manager_new :: "'m semaphore_lib \<Rightarrow> nat \<Rightarrow> ('m slot_manager \<times> metric_call list) result" where
  "slot_manager_new lib slots =
     rbind (sem_new lib slots) (\<lambda>pool. Ok (\<lparr>sm_pool = pool, sm_size = slots\<rparr>, update_upstream_pool_metrics lib pool slots))"

text \<open>\<^verbatim>\<open>acquire\<close>, when it succeeds: \<open>assigned\<close> says that the permit had been handed over already.\<close>

definition slot_acquire :: "'m semaphore_lib \<Rightarrow> bool \<Rightarrow> 'm slot_manager \<Rightarrow> ('m slot_manager \<times> metric_call list) option" where
  "slot_acquire lib assigned m =
     map_option (\<lambda>pool. (m\<lparr>sm_pool := pool\<rparr>, update_upstream_pool_metrics lib pool (sm_size m)))
       (if assigned then Some (sm_pool m) else sem_try_acquire lib (sm_pool m))"

text \<open>The drop of a lease; \<open>handover\<close> says that a waiting task gets the permit.\<close>

definition slot_release :: "'m semaphore_lib \<Rightarrow> bool \<Rightarrow> 'm slot_manager \<Rightarrow> 'm slot_manager \<times> metric_call list" where
  "slot_release lib handover m =
     (let pool = (if handover then sm_pool m else sem_release lib (sm_pool m))
      in (m\<lparr>sm_pool := pool\<rparr>, update_upstream_pool_metrics lib pool (sm_size m)))"

section \<open>The process\<close>

text \<open>\<open>px_leases\<close> are the connections whose task holds a lease, \<open>px_assigned\<close> those that wait for a slot
  and have been handed one without having run since.\<close>

record 'm proxy =
  px_supervisor :: supervisor
  px_connections :: "'m option"
  px_slots :: "'m slot_manager option"
  px_leases :: "nat list"
  px_assigned :: "nat list"
  px_calls :: "metric_call list"

definition emit :: "metric_call list \<Rightarrow> 'm proxy \<Rightarrow> 'm proxy" where
  "emit calls p = p\<lparr>px_calls := px_calls p @ calls\<rparr>"

definition proxy_new :: "'m semaphore_lib \<Rightarrow> ('a, 'cert, 'key) proxy_setup \<Rightarrow> nat \<Rightarrow> 'm proxy result" where
  "proxy_new lib su now =
     rbind (case su_max_connections su of
              None \<Rightarrow> Ok None
            | Some n \<Rightarrow> rbind (sem_new lib n) (\<lambda>m. Ok (Some m))) (\<lambda>connections.
     rbind (case su_upstream_pool_size su of
              None \<Rightarrow> Ok (None, [])
            | Some n \<Rightarrow> rbind (slot_manager_new lib n) (\<lambda>(m, calls). Ok (Some m, calls))) (\<lambda>(slots, calls).
     Ok \<lparr>px_supervisor = supervisor_new su now, px_connections = connections, px_slots = slots,
         px_leases = [], px_assigned = [], px_calls = calls\<rparr>))"

text \<open>Whether a new connection gets a permit, and the semaphore after it.\<close>

definition connection_permit :: "'m semaphore_lib \<Rightarrow> 'm option \<Rightarrow> 'm option option" where
  "connection_permit lib sem =
     (case sem of None \<Rightarrow> Some None | Some m \<Rightarrow> map_option Some (sem_try_acquire lib m))"

definition arrive :: "'m semaphore_lib \<Rightarrow> nat \<Rightarrow> nat \<Rightarrow> 'm proxy \<Rightarrow> 'm proxy" where
  "arrive lib now conn p =
     (let sv = px_supervisor p in
      case rate_gate (sv_rate_limit sv) now (sv_limiter sv) of
        (False, l) \<Rightarrow> emit (record_connection_rejected ''rate_limit'') (p\<lparr>px_supervisor := sv\<lparr>sv_limiter := l\<rparr>\<rparr>)
      | (True, l) \<Rightarrow>
          let sv = sv\<lparr>sv_limiter := l\<rparr> in
          case connection_permit lib (px_connections p) of
            None \<Rightarrow> emit (record_connection_rejected ''max_connections'') (p\<lparr>px_supervisor := sv\<rparr>)
          | Some sem \<Rightarrow>
              let p = p\<lparr>px_connections := sem\<rparr> in
              if sv_protocol sv = MySql \<and> sv_pooled sv
              then p\<lparr>px_supervisor := sv\<lparr>sv_waiting := conn # sv_waiting sv\<rparr>\<rparr>
              else emit record_connection_opened (p\<lparr>px_supervisor := open_session conn sv\<rparr>))"

text \<open>A slot is granted to a waiting MySQL connection, or to a PostgreSQL session that has none yet.\<close>

definition waits_for_slot :: "nat \<Rightarrow> 'm proxy \<Rightarrow> bool" where
  "waits_for_slot conn p \<longleftrightarrow> px_slots p \<noteq> None \<and>
     (if sv_protocol (px_supervisor p) = MySql then conn \<in> set (sv_waiting (px_supervisor p))
      else conn \<in> set (sv_active (px_supervisor p)) \<and> conn \<notin> set (px_leases p))"

definition slot_granted :: "'m semaphore_lib \<Rightarrow> nat \<Rightarrow> nat \<Rightarrow> 'm proxy \<Rightarrow> 'm proxy option" where
  "slot_granted lib conn waited p =
     (case px_slots p of
        None \<Rightarrow> None
      | Some m \<Rightarrow>
          map_option (\<lambda>(m, calls).
            let p = emit (calls @ record_upstream_pool_wait (Duration waited)) (p\<lparr>px_slots := Some m,
                      px_leases := conn # px_leases p, px_assigned := removeAll conn (px_assigned p)\<rparr>)
            in if sv_protocol (px_supervisor p) = MySql
               then emit record_connection_opened (p\<lparr>px_supervisor := slot_outcome conn None (px_supervisor p)\<rparr>)
               else p)
            (slot_acquire lib (conn \<in> set (px_assigned p)) m))"

text \<open>The drop of the lease, if the task has one; \<open>nxt\<close> is the waiter that gets the permit. The release of
  the permit and the update of the gauge, two statements of \<^verbatim>\<open>Drop\<close>, are one step here: what another task
  sees between the two is not modelled.\<close>

definition drop_lease :: "'m semaphore_lib \<Rightarrow> nat option \<Rightarrow> nat \<Rightarrow> 'm proxy \<Rightarrow> 'm proxy" where
  "drop_lease lib nxt conn p =
     (case px_slots p of
        Some m \<Rightarrow>
          if conn \<in> set (px_leases p) then
            (case slot_release lib (nxt \<noteq> None) m of
               (m, calls) \<Rightarrow> emit calls (p\<lparr>px_slots := Some m, px_leases := removeAll conn (px_leases p),
                  px_assigned := (case nxt of Some w \<Rightarrow> [w] | None \<Rightarrow> []) @ px_assigned p\<rparr>))
          else p
      | None \<Rightarrow> p)"

definition drop_permit :: "'m semaphore_lib \<Rightarrow> 'm proxy \<Rightarrow> 'm proxy" where
  "drop_permit lib p = p\<lparr>px_connections := map_option (sem_release lib) (px_connections p)\<rparr>"

text \<open>The task of a PostgreSQL connection drops the lease inside the session, that of a MySQL one after
  the session has been taken off the count. Unwinding drops both lease and permit.\<close>

definition task_ends :: "'m semaphore_lib \<Rightarrow> nat option \<Rightarrow> nat \<Rightarrow> 'm proxy \<Rightarrow> 'm proxy" where
  "task_ends lib nxt conn p =
     (let closed = (\<lambda>p. emit record_connection_closed (p\<lparr>px_supervisor := end_session conn (px_supervisor p)\<rparr>))
      in drop_permit lib
           (if sv_protocol (px_supervisor p) = MySql then drop_lease lib nxt conn (closed p)
            else closed (drop_lease lib nxt conn p)))"

definition task_panics :: "'m semaphore_lib \<Rightarrow> nat option \<Rightarrow> nat \<Rightarrow> 'm proxy \<Rightarrow> 'm proxy" where
  "task_panics lib nxt conn p =
     drop_permit lib (drop_lease lib nxt conn (p\<lparr>px_supervisor := unwind_session conn (px_supervisor p)\<rparr>))"

text \<open>No slot in time: a MySQL task returns, a PostgreSQL session ends without an error.\<close>

definition slot_refused :: "'m semaphore_lib \<Rightarrow> nat \<Rightarrow> upstream_pool_acquire_error \<Rightarrow> 'm proxy \<Rightarrow> 'm proxy" where
  "slot_refused lib conn e p =
     (let p = emit (case e of
                Closed \<Rightarrow> record_connection_rejected ''upstream_pool_closed''
              | Timeout \<Rightarrow> record_upstream_pool_acquire_timeout
                           @ record_connection_rejected ''upstream_pool_wait_timeout'') p
      in if sv_protocol (px_supervisor p) = MySql
         then drop_permit lib (p\<lparr>px_supervisor := slot_outcome conn (Some e) (px_supervisor p)\<rparr>)
         else task_ends lib None conn p)"

datatype happening =
    Arrives nat nat
  | Accept_Fails
  | Slot_Granted nat nat
  | Slot_Refused nat upstream_pool_acquire_error
  | Task_Ends nat "nat option"
  | Task_Panics nat "nat option"
  | Signalled
  | State_Shared app_state

text \<open>The task that gets a dropped permit is one that waits and has not been given one yet.\<close>

definition next_waiter :: "nat \<Rightarrow> nat option \<Rightarrow> 'm proxy \<Rightarrow> bool" where
  "next_waiter conn nxt p \<longleftrightarrow>
     (case nxt of
        None \<Rightarrow> True
      | Some w \<Rightarrow> w \<noteq> conn \<and> conn \<in> set (px_leases p) \<and> waits_for_slot w p \<and> w \<notin> set (px_assigned p))"

text \<open>A session that holds a handed-over slot has run before it ends.\<close>

inductive happens :: "'m semaphore_lib \<Rightarrow> 'm proxy \<Rightarrow> happening \<Rightarrow> 'm proxy \<Rightarrow> bool" for lib where
  arrives: "sv_accepting (px_supervisor p) \<Longrightarrow>
    conn \<notin> set (sv_waiting (px_supervisor p) @ sv_active (px_supervisor p)) \<Longrightarrow>
    happens lib p (Arrives now conn) (arrive lib now conn p)"
| accept_fails: "sv_accepting (px_supervisor p) \<Longrightarrow>
    happens lib p Accept_Fails (emit (record_connection_rejected ''accept_error'') p)"
| granted: "waits_for_slot conn p \<Longrightarrow> slot_granted lib conn waited p = Some p' \<Longrightarrow>
    happens lib p (Slot_Granted conn waited) p'"
| slot_refused: "waits_for_slot conn p \<Longrightarrow> conn \<notin> set (px_assigned p) \<Longrightarrow>
    happens lib p (Slot_Refused conn e) (slot_refused lib conn e p)"
| task_ends: "conn \<in> set (sv_active (px_supervisor p)) \<Longrightarrow> conn \<notin> set (px_assigned p) \<Longrightarrow> next_waiter conn nxt p \<Longrightarrow>
    happens lib p (Task_Ends conn nxt) (task_ends lib nxt conn p)"
| task_panics: "conn \<in> set (sv_active (px_supervisor p)) \<Longrightarrow> conn \<notin> set (px_assigned p) \<Longrightarrow> next_waiter conn nxt p \<Longrightarrow>
    happens lib p (Task_Panics conn nxt) (task_panics lib nxt conn p)"
| signalled: "sv_accepting (px_supervisor p) \<Longrightarrow>
    happens lib p Signalled (p\<lparr>px_supervisor := (px_supervisor p)\<lparr>sv_accepting := False\<rparr>\<rparr>)"
| state_shared: "as_active_connections s = as_active_connections (sv_state (px_supervisor p)) \<Longrightarrow>
    happens lib p (State_Shared s) (p\<lparr>px_supervisor := (px_supervisor p)\<lparr>sv_state := s\<rparr>\<rparr>)"

inductive proxy_runs :: "'m semaphore_lib \<Rightarrow> 'm proxy \<Rightarrow> happening list \<Rightarrow> 'm proxy \<Rightarrow> bool" for lib where
  proxy_none: "proxy_runs lib p [] p"
| proxy_more: "proxy_runs lib p hs p' \<Longrightarrow> happens lib p' h p'' \<Longrightarrow> proxy_runs lib p (hs @ [h]) p''"

inductive_cases happensE: "happens lib p h p'"

section \<open>The supervisor is refined\<close>

lemma emit_frame [simp]:
  "px_supervisor (emit cs p) = px_supervisor p" "px_connections (emit cs p) = px_connections p"
  "px_slots (emit cs p) = px_slots p" "px_leases (emit cs p) = px_leases p" "px_assigned (emit cs p) = px_assigned p"
  "px_calls (emit cs p) = px_calls p @ cs"
  by (simp_all add: emit_def)

lemma drop_lease_frame [simp]:
  "px_supervisor (drop_lease lib nxt conn p) = px_supervisor p"
  "px_connections (drop_lease lib nxt conn p) = px_connections p"
  by (simp_all add: drop_lease_def split: option.split prod.split)

lemma drop_permit_frame [simp]:
  "px_supervisor (drop_permit lib p) = px_supervisor p" "px_slots (drop_permit lib p) = px_slots p"
  "px_leases (drop_permit lib p) = px_leases p" "px_assigned (drop_permit lib p) = px_assigned p"
  "px_calls (drop_permit lib p) = px_calls p"
  by (simp_all add: drop_permit_def)

lemma arrive_supervisor:
  "px_supervisor (arrive lib now conn p)
   = accept_connection now conn (connection_permit lib (px_connections p) \<noteq> None) (px_supervisor p)"
  by (simp add: arrive_def accept_connection_def Let_def split: prod.split option.split bool.split)

lemma slot_granted_supervisor:
  "slot_granted lib conn waited p = Some p' \<Longrightarrow> px_supervisor p' =
     (if sv_protocol (px_supervisor p) = MySql then slot_outcome conn None (px_supervisor p) else px_supervisor p)"
  by (cases "sv_protocol (px_supervisor p) = MySql") (auto simp: slot_granted_def Let_def split: option.splits)

lemma task_ends_supervisor [simp]: "px_supervisor (task_ends lib nxt conn p) = end_session conn (px_supervisor p)"
  by (simp add: task_ends_def Let_def)

lemma task_panics_supervisor [simp]: "px_supervisor (task_panics lib nxt conn p) = unwind_session conn (px_supervisor p)"
  by (simp add: task_panics_def)

lemma slot_refused_supervisor:
  "px_supervisor (slot_refused lib conn e p) =
     (if sv_protocol (px_supervisor p) = MySql then slot_outcome conn (Some e) (px_supervisor p)
      else end_session conn (px_supervisor p))"
  by (simp add: slot_refused_def Let_def)

text \<open>The events of the supervisor that a happening is; a slot granted to a PostgreSQL session is none.\<close>

fun events_of :: "'m semaphore_lib \<Rightarrow> 'm proxy \<Rightarrow> happening \<Rightarrow> event list" where
  "events_of lib p (Arrives now conn) = [Accept now conn (connection_permit lib (px_connections p) \<noteq> None)]"
| "events_of lib p Accept_Fails = [Accept_Error]"
| "events_of lib p (Slot_Granted conn _) = (if sv_protocol (px_supervisor p) = MySql then [Slot conn None] else [])"
| "events_of lib p (Slot_Refused conn e) =
     (if sv_protocol (px_supervisor p) = MySql then [Slot conn (Some e)] else [Session_End conn])"
| "events_of lib p (Task_Ends conn _) = [Session_End conn]"
| "events_of lib p (Task_Panics conn _) = [Session_Panic conn]"
| "events_of lib p Signalled = [Signal]"
| "events_of lib p (State_Shared s) = [Shared s]"

fun is_task_panic :: "happening \<Rightarrow> bool" where
  "is_task_panic (Task_Panics _ _) = True"
| "is_task_panic _ = False"

lemma runs_one: "step sv e sv' \<Longrightarrow> runs sv [e] sv'"
  using runs_more [OF runs_none] by force

lemma runs_trans: "runs b ys c \<Longrightarrow> runs a xs b \<Longrightarrow> runs a (xs @ ys) c"
  by (induction rule: runs.induct) (auto intro: runs.intros simp flip: append_assoc)

lemma happens_refines:
  "happens lib p h p' \<Longrightarrow> runs (px_supervisor p) (events_of lib p h) (px_supervisor p')"
proof (induction rule: happens.induct)
  case (granted conn p waited p')
  from this(1) show ?case
    by (cases "sv_protocol (px_supervisor p) = MySql")
       (auto simp: slot_granted_supervisor [OF granted(2)] waits_for_slot_def intro: runs_one step.slot runs_none)
next
  case (slot_refused conn p e)
  from this(1) show ?case
    by (cases "sv_protocol (px_supervisor p) = MySql")
       (auto simp: slot_refused_supervisor waits_for_slot_def intro: runs_one [OF step.slot] runs_one [OF step.session_end])
next
  case (arrives p conn now)
  then show ?case unfolding arrive_supervisor events_of.simps by (rule runs_one [OF step.accept])
qed (auto intro: runs_one step.intros)

lemma events_of_panics: "length (filter is_panic (events_of lib p h)) = (if is_task_panic h then 1 else 0)"
  by (cases h) simp_all

text \<open>Who arrived when.\<close>

fun arrival_seen :: "event \<Rightarrow> (nat \<times> nat) option" where
  "arrival_seen (Accept now conn _) = Some (now, conn)"
| "arrival_seen _ = None"

fun arrival :: "happening \<Rightarrow> (nat \<times> nat) option" where
  "arrival (Arrives now conn) = Some (now, conn)"
| "arrival _ = None"

lemma events_of_arrivals: "List.map_filter arrival_seen (events_of lib p h) = List.map_filter arrival [h]"
  by (cases h) (simp_all add: List.map_filter_def)

lemma map_filter_append [simp]: "List.map_filter f (xs @ ys) = List.map_filter f xs @ List.map_filter f ys"
  by (simp add: List.map_filter_def)

lemma proxy_runs_refine:
  assumes "proxy_runs lib p hs p'"
  obtains es where "runs (px_supervisor p) es (px_supervisor p')"
    and "length (filter is_panic es) = length (filter is_task_panic hs)"
    and "List.map_filter arrival_seen es = List.map_filter arrival hs"
  using assms
proof (induction arbitrary: thesis rule: proxy_runs.induct)
  case (proxy_none p)
  then show ?case using runs_none [of "px_supervisor p"] by (fastforce simp: List.map_filter_def)
next
  case (proxy_more p hs p' h p'')
  obtain es where es: "runs (px_supervisor p) es (px_supervisor p')" "length (filter is_panic es) = length (filter is_task_panic hs)"
    "List.map_filter arrival_seen es = List.map_filter arrival hs"
    by (rule proxy_more.IH)
  show ?case
    by (rule proxy_more.prems [OF runs_trans [OF happens_refines [OF proxy_more.hyps(2)] es(1)]])
       (simp_all add: es(2,3) events_of_panics events_of_arrivals)
qed

section \<open>No slot is lost\<close>

abbreviation pool_gauge :: string where
  "pool_gauge \<equiv> ''ironveil_upstream_pool_active_connections''"

definition pool_ok :: "'m semaphore_lib \<Rightarrow> nat option \<Rightarrow> 'm proxy \<Rightarrow> bool" where
  "pool_ok lib k p \<longleftrightarrow> distinct (px_leases p @ px_assigned p) \<and>
     (case px_slots p of
        None \<Rightarrow> k = None \<and> px_leases p = [] \<and> px_assigned p = []
      | Some m \<Rightarrow> k = Some (sm_size m)
          \<and> sem_available_permits lib (sm_pool m) + length (px_leases p) + length (px_assigned p) = sm_size m
          \<and> last_set pool_gauge (px_calls p) = Some (Of_Nat (length (px_leases p) + length (px_assigned p))))"

definition places_ok :: "'m proxy \<Rightarrow> bool" where
  "places_ok p \<longleftrightarrow> (let sv = px_supervisor p in
     set (px_leases p) \<subseteq> set (sv_active sv)
     \<and> set (px_assigned p) \<subseteq> set (if sv_protocol sv = MySql then sv_waiting sv else sv_active sv)
     \<and> sv_pooled sv = (px_slots p \<noteq> None)
     \<and> (if sv_protocol sv = MySql then sv_pooled sv \<longrightarrow> set (sv_active sv) \<subseteq> set (px_leases p) else sv_waiting sv = []))"

definition permits_ok :: "'m semaphore_lib \<Rightarrow> nat option \<Rightarrow> 'm proxy \<Rightarrow> bool" where
  "permits_ok lib c p \<longleftrightarrow>
     (case px_connections p of
        None \<Rightarrow> c = None
      | Some m \<Rightarrow> c = Some (sem_available_permits lib m
          + length (sv_waiting (px_supervisor p)) + length (sv_active (px_supervisor p))))"

definition proxy_ok :: "'m semaphore_lib \<Rightarrow> nat option \<Rightarrow> nat option \<Rightarrow> nat \<Rightarrow> 'm proxy \<Rightarrow> bool" where
  "proxy_ok lib c k n p \<longleftrightarrow> counted n (px_supervisor p) \<and> pool_ok lib k p \<and> places_ok p \<and> permits_ok lib c p"

lemma gauge_untouched [simp]:
  "last_set pool_gauge record_connection_opened = None" "last_set pool_gauge record_connection_closed = None"
  "last_set pool_gauge (record_connection_rejected r) = None" "last_set pool_gauge (record_upstream_pool_wait d) = None"
  "last_set pool_gauge record_upstream_pool_acquire_timeout = None"
  by (simp_all add: metric_calls_defs)

lemma pool_gauge_set [simp]:
  "last_set pool_gauge (update_upstream_pool_metrics lib pool k) = Some (Of_Nat (k - sem_available_permits lib pool))"
  by (simp add: update_upstream_pool_metrics_def set_upstream_pool_state_def)

lemma pool_ok_emit [simp]:
  "last_set pool_gauge cs = None \<Longrightarrow> pool_ok lib k (emit cs p) = pool_ok lib k p"
  by (simp add: pool_ok_def split: option.split)

lemma pool_ok_frame [simp]:
  "pool_ok lib k (p\<lparr>px_supervisor := sv\<rparr>) = pool_ok lib k p"
  "pool_ok lib k (p\<lparr>px_connections := c\<rparr>) = pool_ok lib k p"
  "pool_ok lib k (drop_permit lib' p) = pool_ok lib k p"
  by (simp_all add: pool_ok_def drop_permit_def cong: option.case_cong)

lemma places_ok_frame [simp]:
  "places_ok (emit cs p) = places_ok p" "places_ok (p\<lparr>px_connections := c\<rparr>) = places_ok p"
  "places_ok (drop_permit lib' p) = places_ok p"
  by (simp_all add: places_ok_def)

lemma permits_ok_frame [simp]:
  "permits_ok lib c (emit cs p) = permits_ok lib c p" "permits_ok lib c (drop_lease lib nxt conn p) = permits_ok lib c p"
  by (simp_all add: permits_ok_def split: option.split)

lemma length_removeAll: "distinct xs \<Longrightarrow> x \<in> set xs \<Longrightarrow> length xs = Suc (length (removeAll x xs))"
  by (induction xs) auto

lemma pool_ok_acquire:
  assumes "semaphore_ok lib" "pool_ok lib k p" "px_slots p = Some m"
    and "slot_acquire lib (conn \<in> set (px_assigned p)) m = Some (m', calls)" "conn \<notin> set (px_leases p)"
  shows "pool_ok lib k (emit (calls @ record_upstream_pool_wait d) (p\<lparr>px_slots := Some m',
           px_leases := conn # px_leases p, px_assigned := removeAll conn (px_assigned p)\<rparr>))"
proof (cases "conn \<in> set (px_assigned p)")
  case True
  with assms(2) have "length (px_assigned p) = Suc (length (removeAll conn (px_assigned p)))"
    by (simp add: pool_ok_def length_removeAll)
  with True assms show ?thesis
    by (auto simp: pool_ok_def slot_acquire_def distinct_removeAll)
next
  case False
  with assms show ?thesis
    by (auto simp: pool_ok_def slot_acquire_def semaphore_ok_def)
qed

lemma pool_ok_release:
  assumes "semaphore_ok lib" "pool_ok lib k p" "\<And>w. nxt = Some w \<Longrightarrow> w \<notin> set (px_leases p @ px_assigned p)"
  shows "pool_ok lib k (drop_lease lib nxt conn p)"
proof (cases "conn \<in> set (px_leases p)")
  case True
  let ?rest = "removeAll conn (px_leases p)"
  have len: "length (px_leases p) = Suc (length ?rest)"
    using True assms(2) by (simp add: pool_ok_def length_removeAll)
  have rel: "sem_available_permits lib (sem_release lib m) = Suc (sem_available_permits lib m)" for m
    using assms(1) by (simp add: semaphore_ok_def)
  obtain m where m: "px_slots p = Some m"
    using True assms(2) by (cases "px_slots p") (simp_all add: pool_ok_def)
  with assms(2) have ok: "distinct (px_leases p)" "distinct (px_assigned p)" "set (px_leases p) \<inter> set (px_assigned p) = {}"
    "k = Some (sm_size m)"
    "sem_available_permits lib (sm_pool m) + length (px_leases p) + length (px_assigned p) = sm_size m"
    by (simp_all add: pool_ok_def)
  show ?thesis
  proof (cases nxt)
    case None
    with ok len show ?thesis
      by (auto simp: drop_lease_def m True slot_release_def Let_def rel pool_ok_def distinct_removeAll)
  next
    case (Some w)
    with assms(3) ok len show ?thesis
      by (auto simp: drop_lease_def m True slot_release_def Let_def pool_ok_def distinct_removeAll)
  qed
qed (use assms in \<open>simp add: drop_lease_def split: option.split\<close>)

lemma supervisor_moves [simp]:
  "sv_active (open_session conn sv) = conn # sv_active sv" "sv_waiting (open_session conn sv) = sv_waiting sv"
  "sv_protocol (open_session conn sv) = sv_protocol sv" "sv_pooled (open_session conn sv) = sv_pooled sv"
  "sv_active (end_session conn sv) = remove1 conn (sv_active sv)" "sv_waiting (end_session conn sv) = sv_waiting sv"
  "sv_protocol (end_session conn sv) = sv_protocol sv" "sv_pooled (end_session conn sv) = sv_pooled sv"
  "sv_active (unwind_session conn sv) = remove1 conn (sv_active sv)" "sv_waiting (unwind_session conn sv) = sv_waiting sv"
  "sv_protocol (unwind_session conn sv) = sv_protocol sv" "sv_pooled (unwind_session conn sv) = sv_pooled sv"
  by (simp_all add: open_session_def end_session_def unwind_session_def Let_def)

lemma slot_outcome_moves [simp]:
  "sv_active (slot_outcome conn r sv) = (if r = None then conn # sv_active sv else sv_active sv)"
  "sv_waiting (slot_outcome conn r sv) = remove1 conn (sv_waiting sv)"
  "sv_protocol (slot_outcome conn r sv) = sv_protocol sv" "sv_pooled (slot_outcome conn r sv) = sv_pooled sv"
  by (simp_all add: slot_outcome_def Let_def split: option.split)

lemma drop_lease_slots [simp]:
  "px_leases p = [] \<or> px_slots p \<noteq> None \<Longrightarrow> px_leases (drop_lease lib nxt conn p) = removeAll conn (px_leases p)"
  "(px_slots (drop_lease lib nxt conn p) = None) = (px_slots p = None)"
  "px_assigned (drop_lease lib nxt conn p) =
     (if px_slots p \<noteq> None \<and> conn \<in> set (px_leases p) then case nxt of Some w \<Rightarrow> w # px_assigned p | None \<Rightarrow> px_assigned p
      else px_assigned p)"
  by (auto simp: drop_lease_def split: option.split prod.split)

lemma pool_ok_leases: "pool_ok lib k p \<Longrightarrow> px_leases p = [] \<or> px_slots p \<noteq> None"
  by (auto simp: pool_ok_def split: option.splits)

lemma arrive_ok:
  assumes "semaphore_ok lib" "pool_ok lib k p" "places_ok p" "permits_ok lib c p"
  shows "pool_ok lib k (arrive lib now conn p)" "places_ok (arrive lib now conn p)" "permits_ok lib c (arrive lib now conn p)"
proof -
  show "pool_ok lib k (arrive lib now conn p)"
    using assms(2) by (simp add: arrive_def Let_def split: prod.split bool.split option.split)
  show "places_ok (arrive lib now conn p)"
    using assms(3) by (auto simp: places_ok_def arrive_def Let_def split: prod.split bool.split option.split)
  show "permits_ok lib c (arrive lib now conn p)"
    using assms(1,4)
    by (auto simp: permits_ok_def arrive_def Let_def connection_permit_def semaphore_ok_def
        split: prod.splits bool.splits option.splits if_splits)
qed

lemma slot_granted_ok:
  assumes "semaphore_ok lib" "counted n (px_supervisor p)" "pool_ok lib k p" "places_ok p" "permits_ok lib c p"
    and "waits_for_slot conn p" "slot_granted lib conn waited p = Some p'"
  shows "pool_ok lib k p'" "places_ok p'" "permits_ok lib c p'"
proof -
  from assms(7) obtain m m' calls where m: "px_slots p = Some m"
      "slot_acquire lib (conn \<in> set (px_assigned p)) m = Some (m', calls)"
    by (auto simp: slot_granted_def split: option.splits)
  let ?q = "emit (calls @ record_upstream_pool_wait (Duration waited)) (p\<lparr>px_slots := Some m',
           px_leases := conn # px_leases p, px_assigned := removeAll conn (px_assigned p)\<rparr>)"
  have p': "p' = (if sv_protocol (px_supervisor p) = MySql
      then emit record_connection_opened (?q\<lparr>px_supervisor := slot_outcome conn None (px_supervisor p)\<rparr>) else ?q)"
    using assms(7) m by (cases "sv_protocol (px_supervisor p) = MySql") (auto simp: slot_granted_def Let_def)
  have new: "conn \<notin> set (px_leases p)"
    using assms(2,4,6) by (auto simp: waits_for_slot_def places_ok_def counted_def Let_def split: if_splits)
  from pool_ok_acquire [OF assms(1,3) m new] show "pool_ok lib k p'" by (simp add: p')
  have w: "distinct (sv_waiting (px_supervisor p))" using assms(2) by (simp add: counted_def)
  show "places_ok p'"
    using assms(4,6) w m(1) by (auto simp: p' places_ok_def Let_def waits_for_slot_def set_remove1_eq split: if_splits)
  show "permits_ok lib c p'"
    using assms(5,6) length_pos_if_in_set [of conn "sv_waiting (px_supervisor p)"]
    by (auto simp: p' permits_ok_def waits_for_slot_def length_remove1 split: if_splits option.splits)
qed

text \<open>The end of a task, by a return or a panic: \<open>q\<close> is the process just before lease and permit are dropped.\<close>

lemma permit_returned:
  assumes "semaphore_ok lib" "permits_ok lib c p" "sv = px_supervisor p"
    and "px_connections q = px_connections p"
    and "Suc (length (sv_waiting (px_supervisor q)) + length (sv_active (px_supervisor q)))
       = length (sv_waiting sv) + length (sv_active sv)"
  shows "permits_ok lib c (drop_permit lib q)"
  using assms
  by (auto simp: permits_ok_def drop_permit_def semaphore_ok_def split: option.splits)

lemma length_remove1_Suc: "x \<in> set xs \<Longrightarrow> Suc (length (remove1 x xs)) = length xs"
  by (induction xs) auto

lemma places_ok_end:
  assumes "places_ok p" "distinct (sv_active (px_supervisor p))" "conn \<in> set (sv_active (px_supervisor p))"
    and "conn \<notin> set (px_assigned p)" "next_waiter conn nxt p" "px_leases p = [] \<or> px_slots p \<noteq> None"
    and "sv_active sv = remove1 conn (sv_active (px_supervisor p))" "sv_waiting sv = sv_waiting (px_supervisor p)"
    and "sv_protocol sv = sv_protocol (px_supervisor p)" "sv_pooled sv = sv_pooled (px_supervisor p)"
    and "px_supervisor q = sv" "px_leases q = removeAll conn (px_leases p)" "(px_slots q = None) = (px_slots p = None)"
    and "px_assigned q = px_assigned (drop_lease lib nxt conn p)"
  shows "places_ok q"
  using assms
  by (cases nxt) (auto simp: places_ok_def Let_def set_remove1_eq next_waiter_def waits_for_slot_def split: if_splits)

lemma next_waiter_free:
  "counted n (px_supervisor p) \<Longrightarrow> places_ok p \<Longrightarrow> next_waiter conn nxt p \<Longrightarrow> nxt = Some w \<Longrightarrow>
   w \<notin> set (px_leases p @ px_assigned p)"
  by (auto simp: next_waiter_def waits_for_slot_def places_ok_def counted_def Let_def split: if_splits)

lemma task_ok:
  assumes "semaphore_ok lib" "proxy_ok lib c k n p" "conn \<in> set (sv_active (px_supervisor p))"
    and "conn \<notin> set (px_assigned p)" "next_waiter conn nxt p"
  shows "pool_ok lib k (task_ends lib nxt conn p)" "places_ok (task_ends lib nxt conn p)"
    "permits_ok lib c (task_ends lib nxt conn p)" "pool_ok lib k (task_panics lib nxt conn p)"
    "places_ok (task_panics lib nxt conn p)" "permits_ok lib c (task_panics lib nxt conn p)"
proof -
  from assms(2) have ok: "counted n (px_supervisor p)" "pool_ok lib k p" "places_ok p" "permits_ok lib c p"
    by (simp_all add: proxy_ok_def)
  from ok(1) have d: "distinct (sv_active (px_supervisor p))" by (simp add: counted_def)
  note free = next_waiter_free [OF ok(1,3) assms(5)]
  note l = pool_ok_leases [OF ok(2)]
  show "pool_ok lib k (task_ends lib nxt conn p)"
    using pool_ok_release [OF assms(1)] ok(2) free by (simp add: task_ends_def Let_def)
  show "pool_ok lib k (task_panics lib nxt conn p)"
    using pool_ok_release [OF assms(1)] ok(2) free by (simp add: task_panics_def)
  show "places_ok (task_ends lib nxt conn p)"
    by (rule places_ok_end [OF ok(3) d assms(3-5) l, where lib = lib and sv = "end_session conn (px_supervisor p)"])
       (use l in \<open>simp_all add: task_ends_def Let_def split: option.split\<close>)
  show "places_ok (task_panics lib nxt conn p)"
    by (rule places_ok_end [OF ok(3) d assms(3-5) l, where lib = lib and sv = "unwind_session conn (px_supervisor p)"])
       (use l in \<open>simp_all add: task_panics_def split: option.split\<close>)
  note len = length_remove1_Suc [OF assms(3)]
  show "permits_ok lib c (task_ends lib nxt conn p)"
    unfolding task_ends_def Let_def
    by (rule permit_returned [OF assms(1) ok(4) refl]) (use len in simp_all)
  show "permits_ok lib c (task_panics lib nxt conn p)"
    unfolding task_panics_def by (rule permit_returned [OF assms(1) ok(4) refl]) (use len in simp_all)
qed

lemma slot_refused_ok:
  assumes "semaphore_ok lib" "proxy_ok lib c k n p" "waits_for_slot conn p" "conn \<notin> set (px_assigned p)"
  shows "pool_ok lib k (slot_refused lib conn e p)" "places_ok (slot_refused lib conn e p)"
    "permits_ok lib c (slot_refused lib conn e p)"
proof -
  let ?calls = "case e of Closed \<Rightarrow> record_connection_rejected ''upstream_pool_closed''
    | Timeout \<Rightarrow> record_upstream_pool_acquire_timeout @ record_connection_rejected ''upstream_pool_wait_timeout''"
  let ?p = "emit ?calls p"
  have calls: "last_set pool_gauge ?calls = None" by (cases e) simp_all
  from assms(2) have ok: "counted n (px_supervisor p)" "pool_ok lib k p" "places_ok p" "permits_ok lib c p"
    by (simp_all add: proxy_ok_def)
  have "pool_ok lib k (slot_refused lib conn e p) \<and> places_ok (slot_refused lib conn e p)
      \<and> permits_ok lib c (slot_refused lib conn e p)"
  proof (cases "sv_protocol (px_supervisor p) = MySql")
    case True
    let ?q = "?p\<lparr>px_supervisor := slot_outcome conn (Some e) (px_supervisor p)\<rparr>"
    from True have q: "slot_refused lib conn e p = drop_permit lib ?q" by (simp add: slot_refused_def Let_def)
    have w: "conn \<in> set (sv_waiting (px_supervisor p))" "distinct (sv_waiting (px_supervisor p))"
      using True assms(3) ok(1) by (simp_all add: waits_for_slot_def counted_def)
    have "pool_ok lib k ?q" using ok(2) calls by simp
    moreover have "places_ok ?q"
      using ok(3) True w assms(4) by (auto simp: places_ok_def Let_def set_remove1_eq)
    moreover have "permits_ok lib c (drop_permit lib ?q)"
      by (rule permit_returned [OF assms(1) ok(4) refl])
         (use w length_remove1_Suc [OF w(1)] in simp_all)
    ultimately show ?thesis by (simp add: q)
  next
    case False
    have "proxy_ok lib c k n ?p" using assms(2) calls by (simp add: proxy_ok_def)
    from task_ok [OF assms(1) this, of conn None] False assms(3,4) show ?thesis
      by (simp add: slot_refused_def Let_def waits_for_slot_def next_waiter_def)
  qed
  then show "pool_ok lib k (slot_refused lib conn e p)" "places_ok (slot_refused lib conn e p)"
    "permits_ok lib c (slot_refused lib conn e p)" by blast+
qed

lemma happens_ok:
  assumes "semaphore_ok lib" "happens lib p h p'" "proxy_ok lib c k n p"
  shows "proxy_ok lib c k (if is_task_panic h then n + 1 else n) p'"
proof -
  from assms(3) have ok: "counted n (px_supervisor p)" "pool_ok lib k p" "places_ok p" "permits_ok lib c p"
    by (simp_all add: proxy_ok_def)
  from counted_runs [OF happens_refines [OF assms(2)] ok(1)]
  have "counted (if is_task_panic h then n + 1 else n) (px_supervisor p')"
    by (simp add: events_of_panics split: if_splits)
  moreover have "pool_ok lib k p' \<and> places_ok p' \<and> permits_ok lib c p'"
    using assms(2)
  proof cases
    case (granted conn waited)
    from slot_granted_ok [OF assms(1) ok granted(2,3)] show ?thesis by blast
  next
    case (slot_refused conn e)
    with slot_refused_ok [OF assms(1,3)] show ?thesis by blast
  next
    case (task_ends conn nxt)
    with task_ok [OF assms(1,3)] show ?thesis by blast
  next
    case (task_panics conn nxt)
    with task_ok [OF assms(1,3)] show ?thesis by blast
  next
    case (arrives conn now)
    with arrive_ok [OF assms(1) ok(2-4)] show ?thesis by blast
  next
    case accept_fails
    with ok show ?thesis by simp
  next
    case signalled
    with ok show ?thesis by (auto simp: places_ok_def permits_ok_def Let_def split: if_splits option.splits)
  next
    case (state_shared s)
    with ok show ?thesis by (auto simp: places_ok_def permits_ok_def Let_def split: if_splits option.splits)
  qed
  ultimately show ?thesis by (simp add: proxy_ok_def)
qed

lemma proxy_runs_ok:
  assumes "proxy_runs lib p hs p'" "semaphore_ok lib" "proxy_ok lib c k n p"
  shows "proxy_ok lib c k (n + length (filter is_task_panic hs)) p'"
  using assms
proof (induction rule: proxy_runs.induct)
  case (proxy_more p hs p' h p'')
  from happens_ok [OF proxy_more.prems(1) proxy_more.hyps(2) proxy_more.IH [OF proxy_more.prems]]
  show ?case by (auto split: if_splits)
qed simp

lemma proxy_new_ok:
  assumes "semaphore_ok lib" "startup pc args = Ok su" "proxy_new lib su now = Ok p"
  shows "proxy_ok lib (su_max_connections su) (su_upstream_pool_size su) 0 p"
proof -
  have "as_active_connections (su_state su) = 0"
    using assms(2) by (auto simp: startup_def rbind_eq_Ok_iff Let_def app_state_new_def)
  with assms(1,3) show ?thesis
    by (auto simp: proxy_new_def rbind_eq_Ok_iff proxy_ok_def pool_ok_def places_ok_def permits_ok_def counted_def
        slot_manager_new_def supervisor_new_def semaphore_ok_def Let_def split: option.splits)
qed

section \<open>Every arrival is accounted for\<close>

definition rejections :: "string \<Rightarrow> 'm proxy \<Rightarrow> nat" where
  "rejections reason p = counted_by ''ironveil_connections_rejected_total'' [(''reason'', reason)] (px_calls p)"

definition opened_total :: "'m proxy \<Rightarrow> nat" where
  "opened_total p = counted_by ''ironveil_connections_total'' [] (px_calls p)"

definition active_gauge :: "'m proxy \<Rightarrow> int" where
  "active_gauge p = gauge_balance ''ironveil_connections_active'' (px_calls p)"

definition turned_away :: "'m proxy \<Rightarrow> nat" where
  "turned_away p = rejections ''rate_limit'' p + rejections ''max_connections'' p
     + (if sv_protocol (px_supervisor p) = MySql
        then rejections ''upstream_pool_closed'' p + rejections ''upstream_pool_wait_timeout'' p else 0)"

definition accounted :: "nat \<Rightarrow> 'm proxy \<Rightarrow> bool" where
  "accounted arrivals p \<longleftrightarrow>
     active_gauge p = int (as_active_connections (sv_state (px_supervisor p)))
     \<and> opened_total p + turned_away p + length (sv_waiting (px_supervisor p)) = arrivals"

lemma pool_calls_neutral [simp]:
  "counted_by n l (update_upstream_pool_metrics lib pool k) = 0"
  "gauge_balance n (update_upstream_pool_metrics lib pool k) = 0"
  by (simp_all add: update_upstream_pool_metrics_def set_upstream_pool_state_def)

lemma slot_calls:
  "slot_acquire lib a m = Some (m', calls) \<Longrightarrow> counted_by n l calls = 0 \<and> gauge_balance n calls = 0"
  by (auto simp: slot_acquire_def)

lemma drop_lease_calls [simp]:
  "counted_by n l (px_calls (drop_lease lib nxt conn p)) = counted_by n l (px_calls p)"
  "gauge_balance n (px_calls (drop_lease lib nxt conn p)) = gauge_balance n (px_calls p)"
  by (simp_all add: drop_lease_def slot_release_def Let_def split: option.split)

lemma accounted_frame [simp]:
  "accounted a (drop_permit lib p) = accounted a p" "accounted a (drop_lease lib nxt conn p) = accounted a p"
  "accounted a (p\<lparr>px_connections := c\<rparr>) = accounted a p"
  by (simp_all add: accounted_def active_gauge_def opened_total_def turned_away_def rejections_def)

lemma active_count [simp]:
  "as_active_connections (sv_state (open_session conn sv)) = as_active_connections (sv_state sv) + 1"
  "as_active_connections (sv_state (end_session conn sv)) = as_active_connections (sv_state sv) - 1"
  "as_active_connections (sv_state (unwind_session conn sv)) = as_active_connections (sv_state sv)"
  "as_active_connections (sv_state (slot_outcome conn r sv)) =
     (if r = None then as_active_connections (sv_state sv) + 1 else as_active_connections (sv_state sv))"
  by (simp_all add: open_session_def end_session_def unwind_session_def slot_outcome_def record_connection_def Let_def
      split: option.split)

lemmas account_defs = accounted_def active_gauge_def opened_total_def turned_away_def rejections_def

lemma accounted_arrive: "accounted a p \<Longrightarrow> accounted (Suc a) (arrive lib now conn p)"
  by (auto simp: arrive_def account_defs metric_calls_defs Let_def split: prod.split bool.split option.split)

lemma accounted_granted:
  assumes "accounted a p" "waits_for_slot conn p" "slot_granted lib conn waited p = Some p'"
  shows "accounted a p'"
proof -
  from assms(3) obtain m m' calls where m: "px_slots p = Some m"
      "slot_acquire lib (conn \<in> set (px_assigned p)) m = Some (m', calls)"
    by (auto simp: slot_granted_def split: option.splits)
  note n = slot_calls [OF m(2)]
  show ?thesis
  proof (cases "sv_protocol (px_supervisor p) = MySql")
    case True
    with assms(2) have "conn \<in> set (sv_waiting (px_supervisor p))" by (simp add: waits_for_slot_def)
    from length_remove1_Suc [OF this] True assms(1,3) m n show ?thesis
      by (auto simp: slot_granted_def account_defs metric_calls_defs Let_def)
  next
    case False
    with assms(1,3) m n show ?thesis
      by (auto simp: slot_granted_def account_defs metric_calls_defs Let_def)
  qed
qed

lemma accounted_ends:
  assumes "accounted a p" "counted n (px_supervisor p)" "conn \<in> set (sv_active (px_supervisor p))"
  shows "accounted a (task_ends lib nxt conn p)"
proof -
  have "1 \<le> as_active_connections (sv_state (px_supervisor p))"
    using assms(2) length_pos_if_in_set [OF assms(3)] unfolding counted_def by linarith
  with assms(1) show ?thesis
    by (auto simp: task_ends_def account_defs metric_calls_defs Let_def of_nat_diff)
qed

lemma accounted_panics: "accounted a p \<Longrightarrow> accounted a (task_panics lib nxt conn p)"
  by (auto simp: task_panics_def account_defs split: if_splits)

lemma accounted_refused:
  assumes "accounted a p" "counted n (px_supervisor p)" "waits_for_slot conn p"
  shows "accounted a (slot_refused lib conn e p)"
proof (cases "sv_protocol (px_supervisor p) = MySql")
  case True
  with assms(3) have "conn \<in> set (sv_waiting (px_supervisor p))" by (simp add: waits_for_slot_def)
  from length_remove1_Suc [OF this] True assms(1) show ?thesis
    by (cases e) (auto simp: slot_refused_def account_defs metric_calls_defs Let_def)
next
  case False
  define q where "q = emit (case e of Closed \<Rightarrow> record_connection_rejected ''upstream_pool_closed''
    | Timeout \<Rightarrow> record_upstream_pool_acquire_timeout @ record_connection_rejected ''upstream_pool_wait_timeout'') p"
  have "accounted a q"
    using False assms(1) by (cases e) (simp_all add: q_def account_defs metric_calls_defs)
  from accounted_ends [OF this, of n conn] False assms(2,3) show ?thesis
    by (simp add: slot_refused_def waits_for_slot_def Let_def q_def)
qed

fun is_arrival :: "happening \<Rightarrow> bool" where
  "is_arrival (Arrives _ _) = True"
| "is_arrival _ = False"

lemma accounted_happens:
  assumes "happens lib p h p'" "accounted a p" "counted n (px_supervisor p)"
  shows "accounted (if is_arrival h then Suc a else a) p'"
  using assms(1)
proof cases
  case (granted conn waited)
  with accounted_granted [OF assms(2)] show ?thesis by simp
next
  case (slot_refused conn e)
  with accounted_refused [OF assms(2,3)] show ?thesis by simp
next
  case (task_ends conn nxt)
  with accounted_ends [OF assms(2,3)] show ?thesis by simp
qed (use assms(2) in \<open>auto simp: accounted_arrive accounted_panics, auto simp: account_defs metric_calls_defs\<close>)

lemma proxy_runs_accounted:
  assumes "proxy_runs lib p hs p'" "semaphore_ok lib" "proxy_ok lib c k n p" "accounted a p"
  shows "accounted (a + length (filter is_arrival hs)) p'"
  using assms
proof (induction rule: proxy_runs.induct)
  case (proxy_more p hs p' h p'')
  have "counted (n + length (filter is_task_panic hs)) (px_supervisor p')"
    using proxy_runs_ok [OF proxy_more.hyps(1) proxy_more.prems(1,2)] by (simp add: proxy_ok_def)
  from accounted_happens [OF proxy_more.hyps(2) proxy_more.IH [OF proxy_more.prems] this]
  show ?case by (auto split: if_splits)
qed simp

lemma proxy_new_accounted:
  assumes "startup pc args = Ok su" "proxy_new lib su now = Ok p"
  shows "accounted 0 p"
proof -
  have "as_active_connections (su_state su) = 0"
    using assms(1) by (auto simp: startup_def rbind_eq_Ok_iff Let_def app_state_new_def)
  with assms(2) show ?thesis
    by (auto simp: proxy_new_def rbind_eq_Ok_iff account_defs slot_manager_new_def supervisor_new_def Let_def
        split: option.splits)
qed

section \<open>Properties\<close>

text \<open>C18: The limits hold, and no slot is ever lost. After any history of arrivals, grants, refusals, ends, panics
  and signals: with a limit of \<open>n\<close> connections at most \<open>n\<close> tasks live, and while fewer do an
  arrival gets its permit. With \<open>k\<close> upstream slots at most \<open>k\<close> connections hold one, each of them
  once and only while its session runs; every running MySQL session holds one; the gauge of
  the metrics shows the slots that are held or handed over; and while that is fewer than \<open>k\<close>, whoever
  waits can be granted one. A session that panics gives its slot and its permit back.\<close>

theorem limits_hold:
  assumes "semaphore_ok lib" "startup pc args = Ok su" "proxy_new lib su now = Ok p0" "proxy_runs lib p0 hs p"
  shows "(\<forall>n. su_max_connections su = Some n \<longrightarrow>
       length (sv_waiting (px_supervisor p)) + length (sv_active (px_supervisor p)) \<le> n
       \<and> (length (sv_waiting (px_supervisor p)) + length (sv_active (px_supervisor p)) < n \<longrightarrow>
            connection_permit lib (px_connections p) \<noteq> None))
     \<and> (\<forall>k. su_upstream_pool_size su = Some k \<longrightarrow>
       distinct (px_leases p) \<and> set (px_leases p) \<subseteq> set (sv_active (px_supervisor p)) \<and> length (px_leases p) \<le> k
       \<and> (sv_protocol (px_supervisor p) = MySql \<longrightarrow> set (px_leases p) = set (sv_active (px_supervisor p)))
       \<and> last_set ''ironveil_upstream_pool_active_connections'' (px_calls p)
           = Some (Of_Nat (length (px_leases p) + length (px_assigned p)))
       \<and> (\<forall>conn. waits_for_slot conn p \<and> length (px_leases p) + length (px_assigned p) < k \<longrightarrow>
            (\<exists>p'. happens lib p (Slot_Granted conn waited) p' \<and> conn \<in> set (px_leases p'))))"
proof -
  from proxy_runs_ok [OF assms(4,1) proxy_new_ok [OF assms(1-3)]]
  have ok: "pool_ok lib (su_upstream_pool_size su) p" "places_ok p" "permits_ok lib (su_max_connections su) p"
    by (simp_all add: proxy_ok_def)
  have free: "sem_try_acquire lib m \<noteq> None \<longleftrightarrow> sem_available_permits lib m \<noteq> 0" for m
    using assms(1) by (simp add: semaphore_ok_def)
  have grant: "\<exists>p'. happens lib p (Slot_Granted conn waited) p' \<and> conn \<in> set (px_leases p')"
    if w: "waits_for_slot conn p" and m: "px_slots p = Some m" "sem_available_permits lib (sm_pool m) \<noteq> 0" for conn m
  proof -
    from m free have "slot_acquire lib (conn \<in> set (px_assigned p)) m \<noteq> None" by (simp add: slot_acquire_def)
    then obtain p' where "slot_granted lib conn waited p = Some p'" "conn \<in> set (px_leases p')"
      using m(1) by (fastforce simp: slot_granted_def Let_def)
    with happens.granted [OF w] show ?thesis by blast
  qed
  show ?thesis
    using ok grant free
    by (auto simp: pool_ok_def places_ok_def permits_ok_def connection_permit_def Let_def split: option.splits if_splits)
qed

text \<open>A MySQL proxy with room for two connections and one upstream slot.\<close>

definition counting :: "nat semaphore_lib" where
  "counting = \<lparr>sem_new = Ok, sem_available_permits = (\<lambda>m. m),
     sem_try_acquire = (\<lambda>m. if m = 0 then None else Some (m - 1)), sem_release = Suc\<rparr>"

definition limited_config :: app_config where
  "limited_config = default_app_config\<lparr>cf_limits := Some \<lparr>lc_max_connections = Some 2, lc_connections_per_second = None,
     lc_connect_timeout_secs = 30, lc_idle_timeout_secs = 300, lc_upstream_pool_size = Some 1,
     lc_upstream_pool_wait_timeout_secs = 5\<rparr>\<rparr>"

definition limited_process :: "(nat, nat, nat, nat, nat) process" where
  "limited_process = demo_process\<lparr>pc_from_yaml := (\<lambda>_. Ok limited_config)\<rparr>"

lemma counting_ok: "semaphore_ok counting"
  by (auto simp: semaphore_ok_def counting_def split: if_splits)

lemma limited_startup:
  obtains su where "startup limited_process demo_args = Ok su" "su_max_connections su = Some 2"
    "su_upstream_pool_size su = Some 1" "su_rate_limit su = None" "as_db_protocol (su_state su) = MySql"
proof -
  have c: "cf_listen limited_config = None" "cf_api limited_config = None" "cf_tls limited_config = None"
    "cf_auth limited_config = None" "cf_upstream_tls limited_config = False" "cf_telemetry limited_config = None"
    by (simp_all add: limited_config_def default_app_config_def)
  have load: "load Ok (\<lambda>_. Ok limited_config) (\<lambda>_. None) f = Ok limited_config" for f
    by (simp add: load_def validate_def limited_config_def default_app_config_def)
  have env: "env_var limited_process n = None" for n
    by (simp add: env_var_def limited_process_def demo_process_def opt_filter_def)
  have pc: "pc_read_file limited_process = Ok" "pc_from_yaml limited_process = (\<lambda>_. Ok limited_config)"
    "pc_var limited_process = (\<lambda>_. None)" "pc_localhost limited_process = 127" "pc_is_loopback limited_process 127"
    "init_telemetry (pc_otel limited_process) None = Ok None"
    "fst (init_metrics (pc_prometheus limited_process) None) = Ok 0" "pc_bind limited_process = (\<lambda>_ _. Ok ())"
    by (simp_all add: limited_process_def demo_process_def init_telemetry_def init_metrics_def expect_def)
  have "client_tls limited_process limited_config = Ok None" by (simp add: client_tls_def c)
  moreover have "startup_auth limited_process MySql limited_config = Ok None"
    by (simp add: startup_auth_def c)
  ultimately obtain su where su: "startup limited_process demo_args = Ok su"
      "su_max_connections su = Option.bind (cf_limits limited_config) lc_max_connections"
      "su_upstream_pool_size su = Option.bind (cf_limits limited_config) lc_upstream_pool_size"
      "su_rate_limit su = Option.bind (cf_limits limited_config) lc_connections_per_second"
      "as_db_protocol (su_state su) = MySql"
    by (simp add: startup_def load env pc c resolve_listen_addr_def resolve_listen_port_def resolve_flag_def
        opt_filter_def demo_args_def app_state_new_def Let_def)
  then show ?thesis by (intro that) (simp_all add: limited_config_def)
qed

text \<open>Its first client gets the slot and its session panics; the second client gets the slot after it.\<close>

definition demo_history :: "happening list" where
  "demo_history = [Arrives 0 1, Slot_Granted 1 5, Task_Panics 1 None, Arrives 0 2, Slot_Granted 2 0]"

definition demo_at :: "nat proxy \<Rightarrow> nat list \<Rightarrow> nat list \<Rightarrow> nat \<Rightarrow> nat \<Rightarrow> nat list \<Rightarrow> nat \<Rightarrow> bool" where
  "demo_at p waiting active permits slots leases opened \<longleftrightarrow>
     (let sv = px_supervisor p in
      sv_accepting sv \<and> sv_protocol sv = MySql \<and> sv_pooled sv \<and> sv_rate_limit sv = None
      \<and> sv_waiting sv = waiting \<and> sv_active sv = active)
     \<and> px_connections p = Some permits \<and> px_slots p = Some \<lparr>sm_pool = slots, sm_size = 1\<rparr>
     \<and> px_leases p = leases \<and> px_assigned p = [] \<and> opened_total p = opened"

lemma slot_outcome_accepting [simp]:
  "sv_accepting (slot_outcome conn r sv) = sv_accepting sv" "sv_rate_limit (slot_outcome conn r sv) = sv_rate_limit sv"
  "sv_accepting (unwind_session conn sv) = sv_accepting sv" "sv_rate_limit (unwind_session conn sv) = sv_rate_limit sv"
  by (simp_all add: slot_outcome_def open_session_def unwind_session_def Let_def split: option.split)

lemma demo_arrives:
  assumes "demo_at p [] [] 2 1 [] n"
  shows "\<exists>p'. happens counting p (Arrives 0 c) p' \<and> demo_at p' [c] [] 1 1 [] n"
proof -
  have "happens counting p (Arrives 0 c) (arrive counting 0 c p)"
    using assms by (intro happens.arrives) (simp_all add: demo_at_def Let_def)
  moreover have "demo_at (arrive counting 0 c p) [c] [] 1 1 [] n"
    using assms by (simp add: demo_at_def arrive_def rate_gate_def connection_permit_def counting_def opened_total_def Let_def)
  ultimately show ?thesis by blast
qed

lemma demo_granted:
  assumes "demo_at p [c] [] 1 1 [] n"
  shows "\<exists>p'. happens counting p (Slot_Granted c d) p' \<and> demo_at p' [] [c] 1 0 [c] (Suc n)"
proof -
  from assms obtain p' where "slot_granted counting c d p = Some p'" "demo_at p' [] [c] 1 0 [c] (Suc n)"
    by (simp add: demo_at_def slot_granted_def slot_acquire_def counting_def opened_total_def metric_calls_defs
        update_upstream_pool_metrics_def Let_def)
  moreover have "waits_for_slot c p" using assms by (simp add: demo_at_def waits_for_slot_def Let_def)
  ultimately show ?thesis using happens.granted by blast
qed

lemma demo_panics:
  assumes "demo_at p [] [c] 1 0 [c] n"
  shows "\<exists>p'. happens counting p (Task_Panics c None) p' \<and> demo_at p' [] [] 2 1 [] n"
proof -
  have "happens counting p (Task_Panics c None) (task_panics counting None c p)"
    using assms by (intro happens.task_panics) (simp_all add: demo_at_def Let_def next_waiter_def)
  moreover have "demo_at (task_panics counting None c p) [] [] 2 1 [] n"
    using assms by (simp add: demo_at_def task_panics_def drop_lease_def drop_permit_def slot_release_def counting_def
        opened_total_def Let_def)
  ultimately show ?thesis by blast
qed

lemma limited_run:
  obtains su p0 p where "startup limited_process demo_args = Ok su" "proxy_new counting su 0 = Ok p0"
    "su_upstream_pool_size su = Some 1" "proxy_runs counting p0 demo_history p" "demo_at p [] [2] 1 0 [2] 2"
proof -
  obtain su where su: "startup limited_process demo_args = Ok su" "su_max_connections su = Some 2"
    "su_upstream_pool_size su = Some 1" "su_rate_limit su = None" "as_db_protocol (su_state su) = MySql"
    by (rule limited_startup)
  obtain p0 where p0: "proxy_new counting su 0 = Ok p0" "demo_at p0 [] [] 2 1 [] 0"
    by (simp add: proxy_new_def su counting_def slot_manager_new_def opened_total_def update_upstream_pool_metrics_def
        set_upstream_pool_state_def demo_at_def supervisor_new_def)
  obtain p1 where 1: "happens counting p0 (Arrives 0 1) p1" "demo_at p1 [1] [] 1 1 [] 0" using demo_arrives [OF p0(2)] by blast
  obtain p2 where 2: "happens counting p1 (Slot_Granted 1 5) p2" "demo_at p2 [] [1] 1 0 [1] 1" using demo_granted [OF 1(2)] by auto
  obtain p3 where 3: "happens counting p2 (Task_Panics 1 None) p3" "demo_at p3 [] [] 2 1 [] 1" using demo_panics [OF 2(2)] by blast
  obtain p4 where 4: "happens counting p3 (Arrives 0 2) p4" "demo_at p4 [2] [] 1 1 [] 1" using demo_arrives [OF 3(2)] by blast
  obtain p5 where 5: "happens counting p4 (Slot_Granted 2 0) p5" "demo_at p5 [] [2] 1 0 [2] 2"
    using demo_granted [OF 4(2)] by (auto simp: eval_nat_numeral)
  have "proxy_runs counting p0 demo_history p5"
    using proxy_more [OF proxy_more [OF proxy_more [OF proxy_more [OF proxy_more [OF proxy_none 1(1)] 2(1)] 3(1)] 4(1)] 5(1)]
    by (simp add: demo_history_def)
  with that su p0(1) 5(2) show ?thesis by blast
qed

theorem limits_hold_witness:
  "\<exists>su p0 p. startup limited_process demo_args = Ok su \<and> proxy_new counting su 0 = Ok p0
     \<and> proxy_runs counting p0 demo_history p \<and> px_leases p = [2] \<and> length (px_leases p) \<le> 1
     \<and> last_set ''ironveil_upstream_pool_active_connections'' (px_calls p) = Some (Of_Nat 1)"
proof -
  obtain su p0 p where r: "startup limited_process demo_args = Ok su" "proxy_new counting su 0 = Ok p0"
    "su_upstream_pool_size su = Some 1" "proxy_runs counting p0 demo_history p" "demo_at p [] [2] 1 0 [2] 2"
    by (rule limited_run)
  from limits_hold [OF counting_ok r(1,2,4), of 0] r(3,5)
  have "last_set ''ironveil_upstream_pool_active_connections'' (px_calls p) = Some (Of_Nat 1)" "length (px_leases p) \<le> 1"
    by (simp_all add: demo_at_def)
  with r show ?thesis by (auto simp: demo_at_def)
qed

text \<open>C38: The metrics account for every connection. Every accepted connection is counted exactly once: as opened,
  as turned away (by the rate, by the limit on connections and, on MySQL, by the upstream pool) or it
  still waits for a slot. The gauge of active connections is the number of running sessions plus
  the number that ever panicked.\<close>

theorem arrivals_accounted:
  assumes "semaphore_ok lib" "startup pc args = Ok su" "proxy_new lib su now = Ok p0" "proxy_runs lib p0 hs p"
  shows "opened_total p + turned_away p + length (sv_waiting (px_supervisor p)) = length (filter is_arrival hs)
     \<and> active_gauge p = int (length (sv_active (px_supervisor p)) + length (filter is_task_panic hs))"
  using proxy_runs_accounted [OF assms(4,1) proxy_new_ok [OF assms(1-3)] proxy_new_accounted [OF assms(2,3)]]
    proxy_runs_ok [OF assms(4,1) proxy_new_ok [OF assms(1-3)]]
  by (simp add: accounted_def proxy_ok_def counted_def)

theorem arrivals_accounted_witness:
  "\<exists>su p0 p. startup limited_process demo_args = Ok su \<and> proxy_new counting su 0 = Ok p0
     \<and> proxy_runs counting p0 demo_history p \<and> opened_total p = 2 \<and> turned_away p = 0 \<and> active_gauge p = 2"
proof -
  obtain su p0 p where r: "startup limited_process demo_args = Ok su" "proxy_new counting su 0 = Ok p0"
    "su_upstream_pool_size su = Some 1" "proxy_runs counting p0 demo_history p" "demo_at p [] [2] 1 0 [2] 2"
    by (rule limited_run)
  from arrivals_accounted [OF counting_ok r(1,2,4)] r(5)
  have "opened_total p = 2 \<and> turned_away p = 0 \<and> active_gauge p = 2"
    by (auto simp: demo_history_def demo_at_def Let_def)
  with r show ?thesis by blast
qed

text \<open>The supervisor, in which the answers of the semaphores are given, is an abstraction of the process
  with its semaphores: whatever happens to the process happens to the supervisor, each arrival
  with the answer that the semaphore gave, and what the metrics and leases do cannot be seen there.\<close>

theorem limits_refine_supervisor:
  assumes "proxy_new lib su now = Ok p0" "proxy_runs lib p0 hs p"
  shows "\<exists>es. runs (supervisor_new su now) es (px_supervisor p)
     \<and> List.map_filter arrival_seen es = List.map_filter arrival hs
     \<and> length (filter is_panic es) = length (filter is_task_panic hs)"
proof -
  have "px_supervisor p0 = supervisor_new su now"
    using assms(1) by (auto simp: proxy_new_def rbind_eq_Ok_iff split: option.splits)
  with proxy_runs_refine [OF assms(2)] show ?thesis by metis
qed

text \<open>The two clients of the limited proxy arrive in the supervisor's history, too.\<close>

theorem limits_refine_supervisor_witness:
  "\<exists>su p es. startup limited_process demo_args = Ok su \<and> runs (supervisor_new su 0) es (px_supervisor (p :: nat proxy))
     \<and> List.map_filter arrival_seen es = [(0, 1), (0, 2)] \<and> length (filter is_panic es) = 1"
proof -
  obtain su p0 p where r: "startup limited_process demo_args = Ok su" "proxy_new counting su 0 = Ok p0"
    "su_upstream_pool_size su = Some 1" "proxy_runs counting p0 demo_history p" "demo_at p [] [2] 1 0 [2] 2"
    by (rule limited_run)
  from limits_refine_supervisor [OF r(2,4)] obtain es where "runs (supervisor_new su 0) es (px_supervisor p)"
    "List.map_filter arrival_seen es = [(0, 1), (0, 2)]" "length (filter is_panic es) = 1"
    by (auto simp: demo_history_def List.map_filter_def)
  with r(1) show ?thesis by blast
qed

end
