(* ===== verification/Spans.thy ===== *)
theory Spans
  imports Detectors
begin

text \<open>
  The two unanchored patterns of \<^verbatim>\<open>PiiScanner::compile\<close> (\<^verbatim>\<open>src/src/scanner.rs\<close>) and the search for them
  in free text. The engine's documented search is leftmost-first: it tries one position after the
  other, takes at each the match it prefers, and goes on behind it. Here it is shown what that finds
  and what it cannot find, and what \<^verbatim>\<open>mask_text_spans\<close> makes of it.
\<close>

section \<open>The search\<close>

text \<open>A match: what it takes in front of the part that is reported, that part, what it takes behind it, and
  the rest of the text. A finder looks for one at the head of the text; it is told whether that is the start
  of the whole text.\<close>

type_synonym found = "string list \<times> string list \<times> string list \<times> string list"

definition bytes :: "string list \<Rightarrow> nat" where
  "bytes w = length (concat w)"

lemma bytes_simps [simp]: "bytes [] = 0" "bytes (x # w) = length x + bytes w" "bytes (v @ w) = bytes v + bytes w"
  by (simp_all add: bytes_def)

text \<open>The iteration over the matches, with the offset of the head of the text; the offsets of the parts that
  are reported.\<close>

function spans_in :: "(bool \<Rightarrow> string list \<Rightarrow> found option) \<Rightarrow> bool \<Rightarrow> nat \<Rightarrow> string list \<Rightarrow> (nat \<times> nat) list" where
  "spans_in seek start k [] = []"
| "spans_in seek start k (x # w) =
     (case seek start (x # w) of
        None \<Rightarrow> spans_in seek False (k + length x) w
      | Some (b, m, a, r) \<Rightarrow>
          (k + bytes b, k + bytes b + bytes m) #
            (if length r \<le> length w then spans_in seek False (k + bytes b + bytes m + bytes a) r else []))"
  by pat_completeness auto
termination by (relation "measure (\<lambda>(_, _, _, w). length w)") auto

lemma spans_from_mono: "spans_from k' n spans \<Longrightarrow> k \<le> k' \<Longrightarrow> spans_from k n spans"
  by (cases spans) auto

text \<open>A finder that reports parts of the text and always something. Its matches never being empty, the search
  goes on.\<close>

locale finder =
  fixes seek :: "bool \<Rightarrow> string list \<Rightarrow> found option"
  assumes find_splits: "seek start w = Some (b, m, a, r) \<Longrightarrow> w = b @ m @ a @ r"
    and find_reports: "seek start w = Some (b, m, a, r) \<Longrightarrow> m \<noteq> []"
begin

lemma find_shrinks: "seek start (x # w) = Some (b, m, a, r) \<Longrightarrow> length r \<le> length w"
  using find_splits [of start "x # w" b m a r] find_reports [of start "x # w" b m a r]
  by (cases m; cases b; cases a) auto

lemma spans_in_order: "spans_from k (k + bytes w) (spans_in seek start k w)"
proof (induction "length w" arbitrary: w start k rule: less_induct)
  case less
  show ?case
  proof (cases w)
    case (Cons x v)
    show ?thesis
    proof (cases "seek start w")
      case None
      from less [of v "k + length x" False] Cons None show ?thesis
        by (auto dest: spans_from_mono [where k = k] simp: add.assoc)
    next
      case (Some f)
      then obtain b m a r where f: "seek start w = Some (b, m, a, r)" by (cases f) auto
      note s = find_splits [OF f]
      have l: "length r \<le> length v" using find_shrinks f Cons by blast
      have n: "k + bytes w = k + bytes b + bytes m + bytes a + bytes r" using arg_cong [OF s, of bytes] by simp
      have "length r < length w" using l Cons by simp
      from less [OF this, of "k + bytes b + bytes m + bytes a" False]
      have "spans_from (k + bytes b + bytes m + bytes a) (k + bytes w) (spans_in seek False (k + bytes b + bytes m + bytes a) r)"
        unfolding n .
      then have "spans_from (k + bytes b + bytes m) (k + bytes w) (spans_in seek False (k + bytes b + bytes m + bytes a) r)"
        by (rule spans_from_mono) simp
      with f l Cons show ?thesis by simp
    qed
  qed simp
qed

text \<open>A reported part is at the place it is said to be.\<close>

lemma spans_in_found:
  "(i, j) \<in> set (spans_in seek start k w) \<Longrightarrow>
   \<exists>v b m a r st. w = v @ b @ m @ a @ r \<and> seek st (b @ m @ a @ r) = Some (b, m, a, r) \<and> i = k + bytes (v @ b) \<and> j = i + bytes m"
proof (induction "length w" arbitrary: w start k rule: less_induct)
  case less
  from less.prems obtain x u where w: "w = x # u" by (cases w) auto
  show ?case
  proof (cases "seek start w")
    case None
    with less.prems w have "(i, j) \<in> set (spans_in seek False (k + length x) u)" by simp
    from less.hyps [OF _ this] obtain v b m a r st where
      "u = v @ b @ m @ a @ r" "seek st (b @ m @ a @ r) = Some (b, m, a, r)" "i = k + length x + bytes (v @ b)" "j = i + bytes m"
      by (auto simp: w)
    then show ?thesis by (intro exI [of _ "x # v"] exI) (auto simp: w)
  next
    case (Some f)
    then obtain b m a r where f: "seek start w = Some (b, m, a, r)" by (cases f) auto
    note s = find_splits [OF f]
    have l: "length r \<le> length u" using find_shrinks f w by blast
    show ?thesis
    proof (cases "(i, j) = (k + bytes b, k + bytes b + bytes m)")
      case True
      with s f show ?thesis by (intro exI [of _ "[]"] exI) auto
    next
      case False
      with less.prems f w l have "(i, j) \<in> set (spans_in seek False (k + bytes b + bytes m + bytes a) r)" by auto
      from less.hyps [OF _ this] l w obtain v b' m' a' r' st where
        "r = v @ b' @ m' @ a' @ r'" "seek st (b' @ m' @ a' @ r') = Some (b', m', a', r')"
        "i = k + bytes b + bytes m + bytes a + bytes (v @ b')" "j = i + bytes m'" by auto
      then show ?thesis by (intro exI [of _ "b @ m @ a @ v"] exI) (auto simp: s)
    qed
  qed
qed

end

section \<open>The patterns\<close>

definition email_span_pattern :: pattern where
  "email_span_pattern =
     (let letter = (\<lambda>c. char_range (CHR ''a'') (CHR ''z'') c \<or> char_range (CHR ''A'') (CHR ''Z'') c);
          local = ascii_class (\<lambda>c. letter c \<or> is_ascii_digit c \<or> c \<in> set ''._%+-'');
          domain = ascii_class (\<lambda>c. letter c \<or> is_ascii_digit c \<or> c \<in> set ''.-'')
      in Then (Class local) (Then (Many local) (Then (one_of ''@'') (Then (Class domain) (Then (Many domain)
           (Then (one_of ''.'') (Then (exactly 2 (Class (ascii_class letter))) (Many (ascii_class letter)))))))))"

text \<open>The preferred match is the first.\<close>

definition preferred :: "'a list \<Rightarrow> 'a option" where
  "preferred fs = (case fs of [] \<Rightarrow> None | f # _ \<Rightarrow> Some f)"

definition consumed :: "string list \<Rightarrow> string list \<Rightarrow> string list" where
  "consumed w r = take (length w - length r) w"

definition find_email :: "bool \<Rightarrow> string list \<Rightarrow> found option" where
  "find_email start w = preferred (map (\<lambda>r. ([], consumed w r, [], r)) (rests email_span_pattern w))"

text \<open>The boundary groups of the phone pattern, \<^verbatim>\<open>(^|[^0-9A-Za-z._%+-])\<close> and \<^verbatim>\<open>($|[^0-9])\<close>: without
  flags, \<^verbatim>\<open>^\<close> and \<^verbatim>\<open>$\<close> match at the ends of the whole text only.\<close>

definition phone_before :: "string \<Rightarrow> bool" where
  "phone_before x \<longleftrightarrow> \<not> ascii_class (\<lambda>c. is_ascii_digit c \<or> char_range (CHR ''A'') (CHR ''Z'') c
     \<or> char_range (CHR ''a'') (CHR ''z'') c \<or> c \<in> set ''._%+-'') x"

definition phone_starts :: "bool \<Rightarrow> string list \<Rightarrow> string list list" where
  "phone_starts start w = (if start then [w] else []) @ rests (Class phone_before) w"

definition phone_ends :: "string list \<Rightarrow> string list list" where
  "phone_ends w = (if w = [] then [w] else []) @ rests (Class (\<lambda>x. \<not> ascii_class is_ascii_digit x)) w"

definition find_phone :: "(string \<Rightarrow> bool) \<Rightarrow> bool \<Rightarrow> string list \<Rightarrow> found option" where
  "find_phone nd start w = preferred (concat (map (\<lambda>s.
     concat (map (\<lambda>e. map (\<lambda>r. (consumed w s, consumed s e, consumed e r, r)) (phone_ends e))
       (rests (phone_pattern nd) s))) (phone_starts start w)))"

definition find_emails :: "string \<Rightarrow> (nat \<times> nat) list" where
  "find_emails s = spans_in find_email True 0 (characters s)"

definition find_phones :: "(string \<Rightarrow> bool) \<Rightarrow> string \<Rightarrow> (nat \<times> nat) list" where
  "find_phones nd s = spans_in (find_phone nd) True 0 (characters s)"

definition scanner_new :: "(string \<Rightarrow> bool) \<Rightarrow> pii_scanner" where
  "scanner_new nd = compile nd find_emails (find_phones nd)"

section \<open>Both are finders\<close>

lemma preferred_in: "preferred fs = Some f \<Longrightarrow> f \<in> set fs"
  by (cases fs) (auto simp: preferred_def)

lemma preferred_None [simp]: "preferred fs = None \<longleftrightarrow> fs = []"
  by (cases fs) (auto simp: preferred_def)

lemma consumed_append [simp]: "consumed (u @ r) r = u" "consumed u [] = u" "consumed r r = []"
  by (simp_all add: consumed_def)

lemma find_email_words:
  assumes "find_email start w = Some (b, m, a, r)"
  shows "w = m @ r \<and> b = [] \<and> a = [] \<and> m \<in> words email_span_pattern"
proof -
  from preferred_in [OF assms [unfolded find_email_def]] obtain u where "w = u @ r" "u \<in> words email_span_pattern"
    "b = []" "a = []" "m = consumed w r" by (auto simp: rests_words)
  then show ?thesis by simp
qed

lemma phone_starts_iff:
  "s \<in> set (phone_starts start w) \<longleftrightarrow> start \<and> s = w \<or> (\<exists>x. w = x # s \<and> phone_before x)"
  by (auto simp: phone_starts_def split: list.split)

lemma phone_ends_iff:
  "r \<in> set (phone_ends w) \<longleftrightarrow> w = [] \<and> r = [] \<or> (\<exists>x. w = x # r \<and> \<not> ascii_class is_ascii_digit x)"
  by (auto simp: phone_ends_def split: list.split)

lemma find_phone_words:
  assumes "find_phone nd start w = Some (b, m, a, r)"
  shows "w = b @ m @ a @ r \<and> m \<in> words (phone_pattern nd) \<and> (start \<and> b = [] \<or> (\<exists>x. b = [x] \<and> phone_before x))
    \<and> (a = [] \<and> r = [] \<or> (\<exists>x. a = [x] \<and> \<not> ascii_class is_ascii_digit x))"
proof -
  from preferred_in [OF assms [unfolded find_phone_def]] obtain s e where f: "s \<in> set (phone_starts start w)"
    "e \<in> set (rests (phone_pattern nd) s)" "r \<in> set (phone_ends e)" "b = consumed w s" "m = consumed s e" "a = consumed e r"
    by auto
  from f(2) obtain u where u: "s = u @ e" "u \<in> words (phone_pattern nd)" unfolding rests_words by blast
  from f(1) have "start \<and> s = w \<or> (\<exists>x. w = [x] @ s \<and> phone_before x)" by (simp add: phone_starts_iff)
  moreover from f(3) have "e = [] \<and> r = [] \<or> (\<exists>x. e = [x] @ r \<and> \<not> ascii_class is_ascii_digit x)" by (simp add: phone_ends_iff)
  ultimately show ?thesis
    using u f(4-6) by (elim disjE conjE exE) (simp_all del: append_Cons)
qed

lemma words_nonempty: "[] \<notin> words email_span_pattern" "[] \<notin> words (phone_pattern nd)"
proof -
  show "[] \<notin> words email_span_pattern" by (simp add: email_span_pattern_def Let_def)
  have "words (exactly (Suc n) (Class f)) \<inter> {[]} = {}" for n f by auto
  then show "[] \<notin> words (phone_pattern nd)"
    by (auto simp: phone_pattern_def digit_class_def Let_def numeral_eq_Suc)
qed

interpretation email: finder find_email
  using find_email_words words_nonempty(1) by unfold_locales fastforce+

interpretation phone: finder "find_phone nd" for nd
  using find_phone_words words_nonempty(2) by unfold_locales fastforce+

section \<open>What is found\<close>

text \<open>An address anywhere in the text is reached: a span that is reported overlaps it.\<close>

definition overlaps :: "nat \<Rightarrow> nat \<Rightarrow> (nat \<times> nat) list \<Rightarrow> bool" where
  "overlaps i j spans \<longleftrightarrow> (\<exists>(a, b) \<in> set spans. a < j \<and> i < b)"

lemma overlaps_Cons: "overlaps i j ((a, b) # spans) \<longleftrightarrow> a < j \<and> i < b \<or> overlaps i j spans"
  by (auto simp: overlaps_def)

definition real_text :: "string list \<Rightarrow> bool" where
  "real_text w \<longleftrightarrow> [] \<notin> set w"

lemma bytes_pos: "real_text w \<Longrightarrow> w \<noteq> [] \<Longrightarrow> 0 < bytes w"
  by (cases w) (auto simp: real_text_def)

lemma email_reached:
  assumes "real_text (p @ m @ s)" "m \<in> words email_span_pattern"
  shows "overlaps (k + bytes p) (k + bytes (p @ m)) (spans_in find_email start k (p @ m @ s))"
  using assms(1)
proof (induction "length p" arbitrary: p start k rule: less_induct)
  case less
  let ?w = "p @ m @ s"
  have m: "m \<noteq> []" "0 < bytes m" using assms(2) words_nonempty(1) less.prems bytes_pos [of m] by (auto simp: real_text_def)
  then obtain x v where w: "?w = x # v" by (cases ?w) auto
  show ?case
  proof (cases "find_email start ?w")
    case None
    have "p \<noteq> []"
    proof
      assume "p = []"
      with assms(2) have "s \<in> set (rests email_span_pattern ?w)" by (auto simp: rests_words)
      with None show False by (auto simp: find_email_def)
    qed
    then obtain q where p: "p = x # q" using w by (cases p) auto
    with less.prems have "real_text (q @ m @ s)" by (simp add: real_text_def)
    from less.hyps [OF _ this, of "k + length x" False] None show ?thesis by (simp add: p add.assoc)
  next
    case (Some f)
    then obtain b u a r where f: "find_email start ?w = Some (b, u, a, r)" by (cases f) auto
    from find_email_words [OF f] have u: "?w = u @ r" "b = []" "a = []" "u \<in> words email_span_pattern" by auto
    have sp: "spans_in find_email start k ?w = (k, k + bytes u) # spans_in find_email False (k + bytes u) r"
      using f email.find_shrinks [of start x v] w u(2,3) by simp
    have "u \<noteq> []" using u(4) words_nonempty(1) by auto
    from u(1) consider q where "u = p @ q" "q \<noteq> []" | q where "p = u @ q" "r = q @ m @ s"
      unfolding append_eq_append_conv2 [of p "m @ s" u r] by (metis append_Nil append_Nil2)
    then show ?thesis
    proof cases
      case 1
      have "0 < bytes q" using 1 u(1) less.prems bytes_pos [of q] by (auto simp: real_text_def)
      with 1 m show ?thesis unfolding sp overlaps_Cons by simp
    next
      case 2
      with less.prems \<open>u \<noteq> []\<close> have "length q < length p" "real_text (q @ m @ s)" by (simp_all add: real_text_def)
      from less.hyps [OF this, of "k + bytes u" False] 2 show ?thesis unfolding sp overlaps_Cons by (simp add: add.assoc)
    qed
  qed
qed

text \<open>The first phone number is reached: nothing before it is taken for a part of one.\<close>

definition digit_of :: "(string \<Rightarrow> bool) \<Rightarrow> string \<Rightarrow> bool" where
  "digit_of nd x \<longleftrightarrow> (case x of [c] \<Rightarrow> is_ascii_digit c | _ \<Rightarrow> nd x)"

lemma words_later:
  "w \<in> words (Then p q) \<Longrightarrow> (\<And>v. v \<in> words q \<Longrightarrow> \<exists>a d. v = a @ d \<and> d \<in> D) \<Longrightarrow> \<exists>a d. w = a @ d \<and> d \<in> D"
  by (auto simp: append.assoc [symmetric] simp del: append.assoc) (metis append.assoc)

lemma phone_has_digits: "u \<in> words (phone_pattern nd) \<Longrightarrow> 2 \<le> length u \<and> (\<exists>x \<in> set u. digit_of nd x)"
proof -
  assume u: "u \<in> words (phone_pattern nd)"
  have "\<exists>a d. u = a @ d \<and> d \<in> words (exactly 4 (digit_class nd))"
    using u unfolding phone_pattern_def Let_def by (elim words_later) (rule exI [of _ "[]"], simp)
  then obtain v d where "u = v @ d" "length d = 4" "\<forall>x \<in> set d. digit_of nd x"
    by (auto simp: digit_class_def exactly_class digit_of_def [abs_def])
  moreover from this(2) have "hd d \<in> set d" by (cases d) auto
  ultimately show ?thesis by auto
qed

lemma phone_found:
  assumes "m \<in> words (phone_pattern nd)" "s = [] \<or> \<not> ascii_class is_ascii_digit (hd s)"
    and "v = [] \<and> start \<or> (\<exists>x. v = [x] \<and> phone_before x)"
  shows "find_phone nd start (v @ m @ s) \<noteq> None"
proof -
  have "m @ s \<in> set (phone_starts start (v @ m @ s))" using assms(3) by (auto simp: phone_starts_iff)
  moreover have "s \<in> set (rests (phone_pattern nd) (m @ s))" using assms(1) by (auto simp: rests_words)
  moreover have "tl s \<in> set (phone_ends s)" using assms(2) by (cases s) (auto simp: phone_ends_iff)
  ultimately show ?thesis unfolding find_phone_def preferred_None by fastforce
qed

lemma phone_reached:
  assumes "real_text (p @ m @ s)" "m \<in> words (phone_pattern nd)" "s = [] \<or> \<not> ascii_class is_ascii_digit (hd s)"
    and "p = [] \<and> start \<or> p \<noteq> [] \<and> phone_before (last p)" "\<forall>x \<in> set p. \<not> digit_of nd x"
  shows "overlaps (k + bytes p) (k + bytes (p @ m)) (spans_in (find_phone nd) start k (p @ m @ s))"
  using assms(1,4,5)
proof (induction p arbitrary: start k)
  case Nil
  have m: "2 \<le> length m" "real_text m" using phone_has_digits [OF assms(2)] Nil.prems by (simp_all add: real_text_def)
  then obtain x v where xv: "m @ s = x # v" by (cases m) auto
  from phone_found [OF assms(2,3), of "[]" start] Nil obtain b u a r where f: "find_phone nd start (m @ s) = Some (b, u, a, r)"
    by auto
  from find_phone_words [OF f] have u: "m @ s = b @ u @ a @ r" "u \<in> words (phone_pattern nd)" "length b \<le> 1" by auto
  then have "real_text u" "u \<noteq> []" using Nil.prems words_nonempty(2) [of nd] by (auto simp: real_text_def)
  then have "0 < bytes u" by (rule bytes_pos)
  moreover from u(1,3) m(1) obtain q where q: "m = b @ q" "q \<noteq> []"
    by (cases b; cases m) (auto simp: Suc_le_length_iff)
  with m(2) have "0 < bytes q" by (intro bytes_pos) (auto simp: real_text_def)
  ultimately show ?case using f xv q by (simp add: overlaps_Cons)
next
  case (Cons x p)
  let ?w = "(x # p) @ m @ s"
  show ?case
  proof (cases "find_phone nd start ?w")
    case None
    have "p \<noteq> []"
    proof
      assume "p = []"
      with phone_found [OF assms(2,3), of "[x]" start] None Cons.prems(2) show False by simp
    qed
    with Cons.prems have "real_text (p @ m @ s)" "p = [] \<and> False \<or> p \<noteq> [] \<and> phone_before (last p)" "\<forall>x \<in> set p. \<not> digit_of nd x"
      by (simp_all add: real_text_def)
    from Cons.IH [OF this, of "k + length x"] None show ?thesis by (simp add: add.assoc)
  next
    case (Some f)
    then obtain b u a r where f: "find_phone nd start ?w = Some (b, u, a, r)" by (cases f) auto
    from find_phone_words [OF f] have u: "?w = b @ u @ a @ r" "u \<in> words (phone_pattern nd)" "b = [] \<or> b = [x]" by auto
    have "real_text (b @ u @ a @ r)" using Cons.prems(1) unfolding u(1) .
    with Cons.prems(1) have rt: "real_text (x # p)" "real_text m" "real_text (b @ u)" by (simp_all add: real_text_def)
    obtain q where q: "b @ u = (x # p) @ q" "q \<noteq> []"
    proof -
      from u(1) have "(x # p) @ m @ s = (b @ u) @ a @ r" by simp
      then consider q where "b @ u = (x # p) @ q" | q where "x # p = (b @ u) @ q" "q \<noteq> []"
        unfolding append_eq_append_conv2 [of "x # p" "m @ s" "b @ u" "a @ r"] by (metis append_Nil2)
      then show thesis
      proof cases
        case 1
        from phone_has_digits [OF u(2)] Cons.prems(3) 1 have "q \<noteq> []"
          by (metis Un_iff append_Nil2 set_append)
        with 1 show ?thesis by (rule that)
      next
        case 2
        from phone_has_digits [OF u(2)] Cons.prems(3) 2 have False by (metis Un_iff set_append)
        then show ?thesis ..
      qed
    qed
    have "real_text q" using rt(3) unfolding q(1) by (simp add: real_text_def)
    then have "0 < bytes q" using q(2) by (rule bytes_pos)
    moreover have "bytes b + bytes u = bytes (x # p) + bytes q" using arg_cong [OF q(1), of bytes] by simp
    moreover have "bytes b \<le> length x" using u(3) by auto
    moreover have "0 < bytes m" using rt(2) words_nonempty(2) [of nd] assms(2) by (intro bytes_pos) auto
    ultimately show ?thesis using f by (simp add: overlaps_Cons)
  qed
qed

section \<open>What the search misses\<close>

text \<open>A number in its most common form, and two of them with one separator between them.\<close>

definition phone_shape :: "string \<Rightarrow> bool" where
  "phone_shape s \<longleftrightarrow> (\<exists>a b c. s = a @ ''-'' @ b @ ''-'' @ c \<and> digits 3 a \<and> digits 3 b \<and> digits 4 c)"

lemma digits_rests:
  "length t = n \<Longrightarrow> list_all is_ascii_digit t \<Longrightarrow> rests (exactly n (digit_class nd)) (singles t @ w) = [w]"
proof (induction t arbitrary: n)
  case (Cons c t)
  then show ?case by (cases n) (auto simp: digit_class_def)
qed simp

lemma not_digit_rests:
  "\<not> is_ascii_digit c \<Longrightarrow> 0 < n \<Longrightarrow> rests (exactly n (digit_class nd)) ([c] # w) = []"
  by (cases n) (simp_all add: digit_class_def)

lemma phone_shape_rests:
  assumes "phone_shape s"
  shows "rests (phone_pattern nd) (singles s @ w) = [w]"
proof -
  obtain a b c where s: "s = a @ ''-'' @ b @ ''-'' @ c" "digits 3 a" "digits 3 b" "digits 4 c"
    using assms by (auto simp: phone_shape_def)
  then obtain d e where d: "a = d # e" "is_ascii_digit d" by (cases a) (auto simp: digits_def)
  then have "d \<noteq> CHR ''+''" "d \<noteq> CHR ''(''" by (auto simp: is_ascii_digit_def char_code_def)
  then have n: "rests (one_of ''+'') (singles s @ w) = []" "rests (one_of ''('') (singles s @ w) = []"
    by (simp_all add: s d one_of_def ascii_class_def)
  have r: "rests (exactly 3 (digit_class nd)) (singles a @ v) = [v]" "rests (exactly 3 (digit_class nd)) (singles b @ v) = [v]"
    "rests (exactly 4 (digit_class nd)) (singles c @ v) = [v]" for v
    using s(2-4) by (auto simp: digits_def intro!: digits_rests)
  have m: "rests (exactly 4 (digit_class nd)) ([CHR ''-''] # v) = []" for v
    by (rule not_digit_rests) (simp_all add: is_ascii_digit_def char_code_def)
  show ?thesis
    using n by (simp add: phone_pattern_def optional_def Let_def del: exactly.simps)
      (simp add: s(1) r m)
qed

text \<open>Without a character that can stand before a number, and behind the start of the text, none is found.\<close>

lemma no_boundary_no_phone:
  "\<forall>x \<in> set w. \<not> phone_before x \<Longrightarrow> spans_in (find_phone nd) False k w = []"
proof (induction w arbitrary: k)
  case (Cons x w)
  then have "phone_starts False (x # w) = []" by (simp add: phone_starts_def)
  with Cons show ?case by (simp add: find_phone_def preferred_def)
qed simp

lemma phone_chars: "phone_shape s \<Longrightarrow> c \<in> set s \<Longrightarrow> is_ascii_digit c \<or> c = CHR ''-''"
  by (auto simp: phone_shape_def digits_def list_all_iff)

lemma phone_ends_digit: "phone_shape s \<Longrightarrow> s \<noteq> [] \<and> is_ascii_digit (hd s) \<and> is_ascii_digit (last s)"
proof -
  assume "phone_shape s"
  then obtain a b c where s: "s = a @ ''-'' @ b @ ''-'' @ c" "digits 3 a" "digits 4 c" by (auto simp: phone_shape_def)
  then have "a \<noteq> []" "c \<noteq> []" by (auto simp: digits_def)
  with s show ?thesis by (auto simp: digits_def list_all_iff hd_append last_append)
qed

lemma phone_ascii: "phone_shape s \<Longrightarrow> ascii_text s"
proof -
  have "is_ascii_digit c \<or> c = CHR ''-'' \<Longrightarrow> char_code c < 128" for c
    using digit_ascii [of c] by (auto simp: char_code_def)
  then show "phone_shape s \<Longrightarrow> ascii_text s" using phone_chars by (auto simp: ascii_text_def)
qed

lemma phone_shape_length: "phone_shape s \<Longrightarrow> length s = 12 \<and> length (filter is_ascii_digit s) = 10"
  by (auto simp: phone_shape_def dest!: digits_count)

lemma second_phone_missed:
  assumes "phone_shape s" "phone_shape t" "ascii_text [z]" "\<not> is_ascii_digit z"
  shows "find_phones nd (s @ [z] @ t) = [(0, 12)]"
proof -
  note a = phone_ascii [OF assms(1)] phone_ascii [OF assms(2)]
  let ?w = "singles (s @ [z] @ t)"
  have w: "characters (s @ [z] @ t) = ?w" by (rule characters_ascii) (use a assms(3) in \<open>auto simp: ascii_text_def\<close>)
  have b: "\<not> phone_before [c]" if "c \<in> set s \<union> set t" for c
    using that phone_chars [OF assms(1), of c] phone_chars [OF assms(2), of c]
    by (auto simp: phone_before_def ascii_class_def)
  obtain c u where s: "s = c # u" using phone_shape_length [OF assms(1)] by (cases s) auto
  have "phone_starts True ?w = [?w]" using b [of c] by (simp add: phone_starts_def s)
  moreover have "rests (phone_pattern nd) ?w = [[z] # singles t]"
    using phone_shape_rests [OF assms(1), of nd "[z] # singles t"] by simp
  moreover have "phone_ends ([z] # singles t) = [singles t]"
    using assms(4) by (simp add: phone_ends_def ascii_class_def)
  moreover have "consumed ?w ([z] # singles t) = singles s" by (simp add: consumed_def)
  ultimately have f: "find_phone nd True ?w = Some ([], singles s, consumed ([z] # singles t) (singles t), singles t)"
    by (simp add: find_phone_def preferred_def)
  have l: "bytes (singles s) = 12" using phone_shape_length [OF assms(1)] by (simp add: bytes_def)
  have "spans_in (find_phone nd) False k (singles t) = []" for k
    by (rule no_boundary_no_phone) (use b in auto)
  then show ?thesis unfolding find_phones_def w using f l by (simp add: s)
qed

text \<open>Nothing longer than nineteen characters is a phone number as a whole.\<close>

definition at_most :: "nat \<Rightarrow> pattern \<Rightarrow> bool" where
  "at_most n p \<longleftrightarrow> (\<forall>w \<in> words p. length w \<le> n)"

lemma at_mostI:
  "at_most m p \<Longrightarrow> at_most n q \<Longrightarrow> at_most (m + n) (Then p q)" "at_most m p \<Longrightarrow> at_most n q \<Longrightarrow> at_most (max m n) (Either p q)"
  "at_most 1 (Class f)" "at_most n p \<Longrightarrow> at_most n (optional p)" "at_most n (exactly n (Class f))" "at_most n (up_to n (Class f))"
proof -
  show "at_most n (up_to n (Class f))"
  proof (induction n)
    case (Suc n)
    then show ?case by (auto simp: at_most_def)
  qed (simp add: at_most_def)
qed (fastforce simp: at_most_def optional_def exactly_class)+

lemma phone_at_most: "at_most 19 (phone_pattern nd)"
proof -
  have "at_most (1 + ((1 + 2) + 1) + (max (1 + (3 + (1 + 1))) (3 + 1) + (3 + (1 + 4)))) (phone_pattern nd)"
    unfolding phone_pattern_def digit_class_def one_of_def between_def Let_def
    using at_mostI(5) [of 1] at_mostI(6) [of 2]
    by (intro at_mostI(1,2,3,4,5)) (simp_all add: numeral_eq_Suc)
  then show ?thesis by simp
qed

lemma two_phones_undetected:
  assumes "phone_shape s" "phone_shape t" "z \<in> set '' ,;/''"
  shows "scan_allowed (compile nd fe fp) (s @ [z] @ t) allowed = None"
proof -
  let ?p = "s @ [z] @ t"
  have z: "\<not> is_ascii_digit z" "char_code z < 65" "z \<noteq> CHR ''.''" "z \<noteq> CHR ''@''"
    using assms(3) by (auto simp: is_ascii_digit_def char_code_def)
  have n: "length (filter is_ascii_digit ?p) = 20" "length ?p = 25"
    using phone_shape_length [OF assms(1)] phone_shape_length [OF assms(2)] z(1) by simp_all
  have a: "ascii_text ?p" using phone_ascii [OF assms(1)] phone_ascii [OF assms(2)] z(2) by (auto simp: ascii_text_def)
  have chars: "is_ascii_digit c \<or> c = CHR ''-'' \<or> c = z" if "c \<in> set ?p" for c
    using phone_chars [OF assms(1)] phone_chars [OF assms(2)] that by auto
  have "CHR ''@'' \<notin> set ?p" using chars [of "CHR ''@''"] z(4) by (auto simp: is_ascii_digit_def char_code_def)
  moreover have "\<not> credit_card_candidate ?p" using n(1) by (simp add: credit_card_candidate_def Let_def)
  moreover have "\<not> ssn_shape ?p" using ssn_count [of ?p] n(1) by auto
  moreover have "\<not> ip_shape ?p" using ip_count [of ?p] n(1) by auto
  moreover have "?p \<notin> texts (dob_pattern nd)" using dob_digits [of ?p nd] n(1) by auto
  moreover have "?p \<notin> texts (phone_pattern nd)" using phone_at_most [of nd] n(2) by (auto simp: at_most_def texts_def)
  moreover have "?p \<notin> texts (passport_pattern nd)"
  proof
    assume "?p \<in> texts (passport_pattern nd)"
    then obtain c where "c \<in> set ?p" "65 \<le> char_code c" using passport_letter by blast
    with chars [of c] z(2) show False by (auto simp: is_ascii_digit_def char_code_def)
  qed
  ultimately show ?thesis
    using no_email [of ?p] ssn_regex_iff [OF a] ip_regex_iff [of nd fe fp ?p]
    by (simp add: scan_allowed_def compile_def is_match_ascii [OF a, simplified])
qed

lemma no_address_found: "CHR ''@'' \<notin> set (concat w) \<Longrightarrow> spans_in find_email start k w = []"
proof (induction w arbitrary: start k)
  case (Cons x w)
  have "find_email start (x # w) = None"
  proof (rule ccontr)
    assume "find_email start (x # w) \<noteq> None"
    then obtain b m a r where f: "find_email start (x # w) = Some (b, m, a, r)" by auto
    from find_email_words [OF f] have m: "x # w = m @ r" "m \<in> words email_span_pattern" by auto
    from m(2) have "[CHR ''@''] \<in> set m"
      by (auto simp: email_span_pattern_def Let_def one_of_def ascii_class_def split: list.splits)
    with m(1) Cons.prems show False by (metis UN_I Un_iff list.set_intros(1) set_append set_concat)
  qed
  with Cons show ?case by simp
qed simp

lemma utf8_chunks_nonempty: "c \<in> set (utf8_chunks bs) \<Longrightarrow> snd c \<noteq> []"
proof (induction bs rule: utf8_chunks.induct)
  case (1 bs)
  obtain ok n where c: "utf8_chunk bs = (ok, n)" by fastforce
  with utf8_chunk_pos [of bs] have "0 < n" by simp
  with 1 c show ?case by (cases "bs = []") (auto simp: utf8_chunks.simps [of bs])
qed

lemma real_characters [simp]: "real_text (characters s)"
  using utf8_chunks_nonempty by (force simp: real_text_def characters_def str_of_bytes_def)

lemma bytes_characters [simp]: "bytes (characters s) = length s"
  by (simp add: bytes_def)

lemma slice_found: "text = concat (v @ b @ m @ a @ r) \<Longrightarrow> slice text (bytes (v @ b)) (bytes (v @ b) + bytes m) = concat m"
  by (simp add: slice_def bytes_def)

text \<open>The first phone number in a text is reached, if its boundaries are ones.\<close>

lemma first_number_reached:
  assumes "characters s = p @ m @ q" "m \<in> words (phone_pattern nd)" "\<forall>x \<in> set p. \<not> digit_of nd x"
    and "p = [] \<or> phone_before (last p)" "q = [] \<or> \<not> ascii_class is_ascii_digit (hd q)"
  shows "overlaps (bytes p) (bytes (p @ m)) (find_phones nd s)"
  using phone_reached [of p m q nd True 0] assms real_characters [of s] by (auto simp: find_phones_def)

section \<open>Properties\<close>

text \<open>C21: Every e-mail address in a text is broken up. The spans that are replaced lie in the text in order and
  without overlap, each of them is an address, what is between them stays, and an address that is
  somewhere in the text, whatever it is part of, shares a byte with one of them, so that it does not come
  out whole.\<close>

theorem addresses_are_broken:
  "\<exists>spans. mask_text_spans (scanner_new nd) text {Email} repl
       = (let masked = assemble (repl Email) text 0 spans in if spans \<noteq> [] \<and> masked \<noteq> text then Some masked else None,
          replicate (length spans) Email)
     \<and> spans_from 0 (length text) spans
     \<and> (\<forall>i j. (i, j) \<in> set spans \<longrightarrow> (\<exists>m \<in> words email_span_pattern. slice text i j = concat m))
     \<and> (\<forall>p m s. characters text = p @ m @ s \<and> m \<in> words email_span_pattern \<longrightarrow> overlaps (bytes p) (bytes (p @ m)) spans)"
proof (intro exI conjI allI impI)
  let ?spans = "find_emails text"
  show "mask_text_spans (scanner_new nd) text {Email} repl
       = (let masked = assemble (repl Email) text 0 ?spans in if ?spans \<noteq> [] \<and> masked \<noteq> text then Some masked else None,
          replicate (length ?spans) Email)"
    by (simp add: mask_text_spans_def scanner_new_def compile_def Let_def)
  show "spans_from 0 (length text) ?spans"
    using email.spans_in_order [of 0 "characters text" True] by (simp add: find_emails_def)
  show "overlaps (bytes p) (bytes (p @ m)) ?spans" if "characters text = p @ m @ s \<and> m \<in> words email_span_pattern" for p m s
    using email_reached [of p m s 0 True] that real_characters [of "text"] by (simp add: find_emails_def)
  fix i j assume "(i, j) \<in> set ?spans"
  from email.spans_in_found [OF this [unfolded find_emails_def]] obtain v b m a r st where f: "characters text = v @ b @ m @ a @ r" "find_email st (b @ m @ a @ r) = Some (b, m, a, r)"
    "i = 0 + bytes (v @ b)" "j = i + bytes m"
    by blast
  have "text = concat (v @ b @ m @ a @ r)" by (metis concat_characters f(1))
  from slice_found [OF this] find_email_words [OF f(2)] f(3,4) show "\<exists>m \<in> words email_span_pattern. slice text i j = concat m"
    by (intro bexI [of _ m]) auto
qed

text \<open>One address in a sentence.\<close>

theorem addresses_are_broken_witness:
  "\<exists>spans. mask_text_spans (scanner_new (\<lambda>_. False)) ''to bob@x.org now'' {Email} (\<lambda>_ _. ''X'')
       = (let masked = assemble (\<lambda>_. ''X'') ''to bob@x.org now'' 0 spans in
          if spans \<noteq> [] \<and> masked \<noteq> ''to bob@x.org now'' then Some masked else None, replicate (length spans) Email)
     \<and> overlaps 3 12 spans"
proof -
  have m: "singles ''bob@x.org'' \<in> words email_span_pattern"
  proof -
    have "[] \<in> set (rests email_span_pattern (singles ''bob@x.org''))" by code_simp
    then show ?thesis by (simp add: rests_words)
  qed
  have c: "characters ''to bob@x.org now'' = singles ''to '' @ singles ''bob@x.org'' @ singles '' now''"
    by (subst characters_ascii) (simp_all add: ascii_text_def char_code_def)
  from addresses_are_broken [of "\<lambda>_. False" "''to bob@x.org now''" "\<lambda>_ _. ''X''"] obtain spans where
    "mask_text_spans (scanner_new (\<lambda>_. False)) ''to bob@x.org now'' {Email} (\<lambda>_ _. ''X'')
       = (let masked = assemble (\<lambda>_. ''X'') ''to bob@x.org now'' 0 spans in
          if spans \<noteq> [] \<and> masked \<noteq> ''to bob@x.org now'' then Some masked else None, replicate (length spans) Email)"
    "overlaps (bytes (singles ''to '')) (bytes (singles ''to '' @ singles ''bob@x.org'')) spans"
    using c m by blast
  then show ?thesis by (intro exI [of _ spans] conjI) (simp_all add: numeral_eq_Suc)
qed

text \<open>C22: The second of two phone numbers escapes. When one character, a blank or a comma say, separates
  two numbers in a cell, the match of the first takes it as its right boundary, and the second is
  left without a left one: the first number is replaced and the second is relayed in clear, whatever
  types are enabled besides phone numbers.\<close>

theorem second_phone_escapes:
  assumes "mx_scanner ctx = scanner_new nd" "he_enabled (mx_heuristics ctx)" "Phone \<in> he_allowed (mx_heuristics ctx)"
    and "phone_shape s" "phone_shape t" "z \<in> set '' ,;/''"
  shows "\<exists>change. mask_cell ctx (bytes_of_str (s @ [z] @ t)) idx name None
     = (bytes_of_str (pseudonym ctx Phone s @ [z] @ t), Some change) \<and> cc_strategies change = [''phone'']"
proof -
  let ?p = "s @ [z] @ t"
  have z: "\<not> is_ascii_digit z" "ascii_text [z]" "z \<noteq> CHR ''@''"
    using assms(6) by (auto simp: is_ascii_digit_def char_code_def ascii_text_def)
  have a: "ascii_text ?p" using phone_ascii [OF assms(4)] phone_ascii [OF assms(5)] z(2) by (auto simp: ascii_text_def)
  have e: "s \<noteq> [] \<and> is_ascii_digit (hd s)" "t \<noteq> [] \<and> is_ascii_digit (last t)"
    using phone_ends_digit assms(4,5) by blast+
  then have "trim ?p = ?p" by (intro trim_digits) auto
  with e have m: "mask_cell ctx (bytes_of_str ?p) idx name None = mask_cell_text ctx (bytes_of_str ?p) ?p idx name"
    by (intro mask_as_text [OF a assms(2), of ?p]) auto
  have d: "scan_allowed (mx_scanner ctx) ?p allowed = None" for allowed
    unfolding assms(1) scanner_new_def by (rule two_phones_undetected [OF assms(4-6)])
  have "CHR ''@'' \<notin> set ?p"
    using phone_chars [OF assms(4), of "CHR ''@''"] phone_chars [OF assms(5), of "CHR ''@''"] z(3)
    by (auto simp: is_ascii_digit_def char_code_def)
  then have n: "find_emails ?p = []" unfolding find_emails_def by (intro no_address_found) simp
  have l: "length s = 12" using phone_shape_length [OF assms(4)] by simp
  have "mask_text_spans (mx_scanner ctx) ?p allowed repl = (Some (repl Phone s @ [z] @ t), [Phone])" if "Phone \<in> allowed" for allowed repl
    using n that second_phone_missed [OF assms(4,5) z(2,1), of nd] l
    by (simp add: mask_text_spans_def assms(1) scanner_new_def compile_def slice_def Let_def)
  then show ?thesis using assms(3) unfolding m by (simp add: mask_cell_text_def d [simplified] Let_def)
qed

definition demo_phones :: "u64 mask_context" where
  "demo_phones = demo_detection\<lparr>mx_scanner := scanner_new (\<lambda>_. False)\<rparr>"

lemma demo_phones_facts:
  "mx_scanner demo_phones = scanner_new (\<lambda>_. False)" "he_enabled (mx_heuristics demo_phones)"
  "Phone \<in> he_allowed (mx_heuristics demo_phones)"
proof -
  have "from_config_name ''phone'' = Some Phone" "''phone'' \<in> set default_heuristic_types" by code_simp+
  then show "Phone \<in> he_allowed (mx_heuristics demo_phones)"
    by (auto simp: demo_phones_def demo_detection_def heuristic_settings_from_config_def default_heuristics_config_def
        map_filter_def intro!: image_eqI [where x = "''phone''"])
qed (use demo_detection_facts in \<open>simp_all add: demo_phones_def\<close>)

theorem second_phone_escapes_witness:
  "\<exists>change. mask_cell demo_phones (bytes_of_str ''555-123-4567,555-987-6543'') 0 None None
     = (bytes_of_str (pseudonym demo_phones Phone ''555-123-4567'' @ '',555-987-6543''), Some change)"
proof -
  have "phone_shape ''555-123-4567''" "phone_shape ''555-987-6543''"
    unfolding phone_shape_def
    by (intro exI [of _ "''555''"] exI [of _ "''123''"] exI [of _ "''4567''"], simp add: digits_def is_ascii_digit_def char_code_def)
       (intro exI [of _ "''555''"] exI [of _ "''987''"] exI [of _ "''6543''"], simp add: digits_def is_ascii_digit_def char_code_def)
  from second_phone_escapes [OF demo_phones_facts this, of "CHR '',''" 0 None] show ?thesis by auto
qed

end
