(* ===== verification/Open_Sessions.thy ===== *)
theory Open_Sessions
  imports Pg_Relay
begin

text \<open>
  What an edit of the rules does to a PostgreSQL session that is already open. The table map of a
  session is loaded when the first ReadyForQuery comes while there are rules; if there are none it is
  marked as loaded all the same.
\<close>

section \<open>Rules with and without a table\<close>

definition without_table_rules :: "app_state \<Rightarrow> app_state" where
  "without_table_rules s =
     s\<lparr>as_config := (as_config s)\<lparr>cf_rules := filter (\<lambda>r. mr_table r = None) (cf_rules (as_config s))\<rparr>\<rparr>"

definition no_tables :: "anonymizer \<Rightarrow> bool" where
  "no_tables a \<longleftrightarrow> (\<forall>oid. an_table_names_by_oid a oid = []) \<and> (\<forall>key. an_column_names_by_oid a key = None)"

lemma no_tables_matches: "no_tables a \<Longrightarrow> pg_rule_matches a f r \<Longrightarrow> mr_table r = None"
  by (auto simp: no_tables_def pg_rule_matches_def postgres_rule_matches_table_def Let_def split: option.splits if_splits)

lemma no_tables_source: "no_tables a \<Longrightarrow> source_column a f = None"
  by (simp add: no_tables_def source_column_def)

lemma find_filter: "(\<And>x. P x \<Longrightarrow> Q x) \<Longrightarrow> find P (filter Q xs) = find P xs"
  by (induction xs) auto

lemma describe_fields_no_tables:
  "no_tables a \<Longrightarrow> describe_fields (filter (\<lambda>r. mr_table r = None) rules) i fs a = describe_fields rules i fs a"
proof (induction fs arbitrary: i a)
  case (Cons f fs)
  have *: "find (pg_rule_matches b f) (filter (\<lambda>r. mr_table r = None) rules) = find (pg_rule_matches b f) rules"
    if "no_tables b" for b by (rule find_filter) (rule no_tables_matches [OF that])
  have n: "no_tables (a\<lparr>an_column_labels := ls\<rparr>)" "no_tables (a\<lparr>an_column_labels := ls, an_target_cols := ts\<rparr>)" for ls ts
    using Cons.prems by (simp_all add: no_tables_def)
  show ?case using n by (simp add: * [OF Cons.prems] Let_def Cons.IH split: option.split)
qed simp

lemma no_tables_describes:
  "no_tables a \<Longrightarrow> on_row_description s rd a = on_row_description (without_table_rules s) rd a"
proof -
  assume "no_tables a"
  then have "no_tables (reset_columns a)" by (simp add: no_tables_def reset_columns_def)
  then show ?thesis by (simp add: on_row_description_def without_table_rules_def describe_fields_no_tables)
qed

section \<open>An open session\<close>

text \<open>A session whose table map counts as loaded and is empty.\<close>

definition inert :: "pg_session \<Rightarrow> bool" where
  "inert ses \<longleftrightarrow> ps_oid_bootstrap_done ses \<and> no_tables (ps_interceptor ses)"

lemma describe_fields_maps [simp]:
  "an_table_names_by_oid (describe_fields rules i fs a) = an_table_names_by_oid a"
  "an_column_names_by_oid (describe_fields rules i fs a) = an_column_names_by_oid a"
  by (induction rules i fs a rule: describe_fields.induct) (simp_all add: Let_def split: option.split)

lemma column_maps [simp]:
  "no_tables (reset_columns a) = no_tables a" "no_tables (on_row_description s rd a) = no_tables a"
  by (simp_all add: no_tables_def reset_columns_def on_row_description_def)

lemma inert_frame [simp]:
  "inert (ses\<lparr>ps_client := l\<rparr>) = inert ses" "inert (ses\<lparr>ps_upstream := l\<rparr>) = inert ses" "inert (ses\<lparr>ps_state := s\<rparr>) = inert ses"
  by (simp_all add: inert_def)

lemma inert_client: "inert ses \<Longrightarrow> inert (pg_client_msg st m ses)"
  by (cases "(st, m, ses)" rule: pg_client_msg.cases) (simp_all add: inert_def)

lemma inert_upstream: "inert ses \<Longrightarrow> pg_upstream_msg cr sc st m ses = (r, ses') \<Longrightarrow> inert ses'"
  by (auto simp: pg_upstream_msg_def inert_def split: pg_msg.splits if_splits prod.splits)

lemma inert_turn: "pg_turn cr sc t ses = (r, ses') \<Longrightarrow> inert ses \<Longrightarrow> inert ses'"
  by (auto simp: pg_turn_def Let_def inert_client split: turn.splits prod.splits result.splits option.splits
      dest: inert_upstream [rotated])

lemma inert_run: "pg_run cr sc ts ses = (r, ses') \<Longrightarrow> inert ses \<Longrightarrow> inert ses'"
  by (rule pg_loop.run_preserves [where R = "\<lambda>a b. inert a \<longrightarrow> inert b", THEN mp]) (auto dest: inert_turn)

text \<open>C24: Rules with a table come too late for an open session. If there was no rule when the first
  ReadyForQuery of a session came, then for the rest of the session, whatever happens in it and whatever
  rules are added, a row description selects strategies as if the rules that name a table were not
  there, and no field is known by its source column.\<close>

theorem table_rules_come_too_late:
  assumes "leg_next pg_decode (ps_upstream ses) = (Ok (Some (PRegular z)), l)" "pr_message_type z = 0x5A"
    and "ps_interceptor ses = anonymizer_new conn" "\<not> ps_oid_bootstrap_done ses" "cf_rules (as_config (ps_state ses)) = []"
    and "pg_run cr sc (Upstream_Ready st # ts) ses = (r, ses')"
  shows "on_row_description s rd (ps_interceptor ses') = on_row_description (without_table_rules s) rd (ps_interceptor ses')
     \<and> source_column (ps_interceptor ses') f = None"
proof -
  obtain b where b: "pg_turn cr sc (Upstream_Ready st) ses = (None, b)" "inert b"
    using assms(1-5) by (simp add: pg_turn_def pg_upstream_msg_def pg_ready_for_query_def Let_def inert_def no_tables_def anonymizer_new_def)
  from inert_run [of cr sc ts b r ses'] b assms(6) have "no_tables (ps_interceptor ses')" by (simp add: inert_def)
  then show ?thesis by (simp add: no_tables_source no_tables_describes [of _ s])
qed

text \<open>A rule for the only column of a table that is added to an open session selects nothing.\<close>

theorem table_rules_come_too_late_witness:
  "let s = test_state [test_rule\<lparr>mr_table := Some ''t''\<rparr>] True; ses = demo_session (test_state [] True) [] [ready] False;
       ses' = snd (pg_run test_crates test_scanner [Upstream_Ready (''i'', 1), Elsewhere s] ses) in
   an_target_cols (on_row_description (ps_state ses') \<lparr>rd_fields = [test_field]\<rparr> (ps_interceptor ses')) = []
     \<and> ps_state ses' = s"
proof -
  define s where "s = test_state [test_rule\<lparr>mr_table := Some ''t''\<rparr>] True"
  define ses where "ses = demo_session (test_state [] True) [] [ready] False"
  obtain r ses' where run: "pg_run test_crates test_scanner [Upstream_Ready (''i'', 1), Elsewhere s] ses = (r, ses')" by fastforce
  have n: "leg_next pg_decode (ps_upstream ses) = (Ok (Some (PRegular \<lparr>pr_message_type = 0x5A, pr_payload = [0x49]\<rparr>)),
      (ps_upstream ses)\<lparr>lg_buf := []\<rparr>)"
    using pg_next_last [OF wf_ready] by (simp add: ses_def demo_session_def demo_leg_def ready_def del: pg_encode.simps)
  have f: "ps_interceptor ses = anonymizer_new 1" "\<not> ps_oid_bootstrap_done ses" "cf_rules (as_config (ps_state ses)) = []"
    by (simp_all add: ses_def demo_session_def test_state_def app_state_new_def)
  have "on_row_description s \<lparr>rd_fields = [test_field]\<rparr> (ps_interceptor ses')
      = on_row_description (without_table_rules s) \<lparr>rd_fields = [test_field]\<rparr> (ps_interceptor ses')"
    using table_rules_come_too_late [OF n _ f run, of s] by simp
  also have "an_target_cols \<dots> = []"
    by (simp add: on_row_description_def without_table_rules_def s_def test_state_def app_state_new_def reset_columns_def Let_def)
  finally have "an_target_cols (on_row_description s \<lparr>rd_fields = [test_field]\<rparr> (ps_interceptor ses')) = []" .
  moreover have "ps_state ses' = s"
    using run n f by (auto simp: pg_turn_def pg_upstream_msg_def pg_ready_for_query_def Let_def)
  ultimately show ?thesis using run unfolding Let_def s_def ses_def by simp
qed

end
