(* ===== verification/Session_Metrics.thy ===== *)
theory Session_Metrics
  imports Pg_Relay MySql_Relay
begin

text \<open>
  What sessions tell the metrics registry, against what they count in the shared state: the two
  agree, whatever happens in a session of either protocol. And what the query time of a MySQL
  session is the time of.
\<close>

section \<open>Two books\<close>

definition fields_counted :: "app_state \<Rightarrow> nat" where
  "fields_counted s = counted_by ''ironveil_fields_masked_total'' [] (as_metrics s)"

definition queries_counted :: "app_state \<Rightarrow> nat" where
  "queries_counted s = counted_by ''ironveil_queries_total'' [(''protocol'', metrics_label (as_db_protocol s))] (as_metrics s)"

definition books_agree :: "app_state \<Rightarrow> bool" where
  "books_agree s \<longleftrightarrow> of_nat (fields_counted s) = masking_total (ap_masking (as_stats s))
     \<and> of_nat (queries_counted s) = qs_total_queries (ap_queries (as_stats s))"

text \<open>Calls that count neither.\<close>

definition silent :: "metric_call list \<Rightarrow> bool" where
  "silent = list_all (\<lambda>c. case c of
       Increment_Counter n l k \<Rightarrow> n \<noteq> ''ironveil_fields_masked_total'' \<and> n \<noteq> ''ironveil_queries_total''
     | _ \<Rightarrow> True)"

lemma silent_counts:
  "silent calls \<Longrightarrow> n = ''ironveil_fields_masked_total'' \<or> n = ''ironveil_queries_total'' \<Longrightarrow> counted_by n l calls = 0"
  by (induction calls) (auto simp: silent_def split: metric_call.splits)

lemma silent_append [simp]: "silent [] = True" "silent (xs @ ys) \<longleftrightarrow> silent xs \<and> silent ys"
  by (simp_all add: silent_def)

lemma silent_calls [simp]:
  "silent record_masking_error" "silent record_binary_protocol_rejected" "silent (record_client_auth ok)"
  "silent record_copy_passthrough" "silent record_upstream_timeout" "silent record_idle_timeout"
  "silent (record_query_duration p d)"
  by (simp_all add: silent_def record_masking_error_def record_binary_protocol_rejected_def record_client_auth_def
      record_copy_passthrough_def record_upstream_timeout_def record_idle_timeout_def record_query_duration_def)

lemma silent_row_errors [simp]: "silent (row_errors ctx targets i vs)"
  by (induction ctx targets i vs rule: row_errors.induct) (simp_all add: masking_errors_def)

lemma metered_agree [simp]: "silent calls \<Longrightarrow> books_agree (metered calls s) = books_agree s"
  by (simp add: books_agree_def fields_counted_def queries_counted_def silent_counts)

lemma add_log_agree [simp]: "books_agree (add_log e s) = books_agree s"
  by (simp add: books_agree_def fields_counted_def queries_counted_def add_log_def)

lemma record_masking_batch_agree: "books_agree s \<Longrightarrow> books_agree (record_masking_batch strategies s)"
  by (auto simp: books_agree_def fields_counted_def queries_counted_def record_masking_batch_def fold_increment_total
      record_fields_masked_def)

lemma record_query_agree: "books_agree s \<Longrightarrow> books_agree (record_query t s)"
  using query_stats_sum [of t "ap_queries (as_stats s)"]
  by (auto simp: books_agree_def fields_counted_def queries_counted_def record_query_def record_query_processed_def)

lemma record_query_latency_agree [simp]: "books_agree (record_query_latency d s) = books_agree s"
  by (simp add: record_query_latency_def)

lemma log_statement_agree: "books_agree s \<Longrightarrow> books_agree (log_statement st c k q dq s)"
  by (simp add: log_statement_def Let_def record_query_agree)

lemma record_changes_agree: "books_agree s \<Longrightarrow> books_agree (record_changes st c k r chs s)"
  by (simp add: record_changes_def Let_def record_masking_batch_agree)

lemma rows_agree:
  "on_data_row cr sc st a dr s = (dr', s') \<Longrightarrow> books_agree s \<Longrightarrow> books_agree s'"
  "on_result_row cr sc st b rr s = (rr', s') \<Longrightarrow> books_agree s \<Longrightarrow> books_agree s'"
  by (auto simp: on_data_row_def on_result_row_def Let_def record_changes_agree split: if_splits prod.splits)

section \<open>Sessions\<close>

lemma pg_client_agree: "books_agree (ps_state ses) \<Longrightarrow> books_agree (ps_state (pg_client_msg st m ses))"
  by (cases "(st, m, ses)" rule: pg_client_msg.cases) (simp_all add: log_statement_agree)

lemma end_of_query_agree [simp]: "books_agree (ps_state (end_of_query st ses)) = books_agree (ps_state ses)"
  by (simp add: end_of_query_def split: option.split)

lemma pg_pass_agree [simp]: "books_agree (ps_state (pg_pass_regular st r ses)) = books_agree (ps_state ses)"
  by (simp add: pg_pass_regular_def Let_def)

lemma pg_upstream_agree:
  "pg_upstream_msg cr sc st m ses = (r, ses') \<Longrightarrow> books_agree (ps_state ses) \<Longrightarrow> books_agree (ps_state ses')"
  by (auto simp: pg_upstream_msg_def pg_ready_for_query_def Let_def dest: rows_agree
      split: pg_msg.splits if_splits prod.splits result.splits)

definition elsewhere_agrees :: "turn list \<Rightarrow> bool" where
  "elsewhere_agrees ts \<longleftrightarrow> (\<forall>e. Elsewhere e \<in> set ts \<longrightarrow> books_agree e)"

lemma elsewhere_agrees_Cons: "elsewhere_agrees (t # ts) \<Longrightarrow> elsewhere_agrees [t] \<and> elsewhere_agrees ts"
  by (simp add: elsewhere_agrees_def)

lemma pg_turn_agree:
  "pg_turn cr sc t ses = (r, ses') \<Longrightarrow> elsewhere_agrees [t] \<Longrightarrow> books_agree (ps_state ses) \<Longrightarrow> books_agree (ps_state ses')"
  by (auto simp: pg_turn_def elsewhere_agrees_def Let_def pg_client_agree dest: pg_upstream_agree
      split: turn.splits prod.splits result.splits option.splits)

lemma pg_run_agree:
  "pg_run cr sc ts ses = (r, ses') \<Longrightarrow> elsewhere_agrees ts \<Longrightarrow> books_agree (ps_state ses) \<Longrightarrow> books_agree (ps_state ses')"
proof (induction ts arbitrary: ses)
  case (Cons t ts)
  obtain q b where b: "pg_turn cr sc t ses = (q, b)" by fastforce
  note e = elsewhere_agrees_Cons [OF Cons.prems(2)]
  have "books_agree (ps_state b)" using pg_turn_agree [OF b] e Cons.prems(3) by blast
  with Cons b e show ?case by (cases q) auto
qed simp

lemma run_inner_agree:
  "run_inner cr sc n c u s ts = (r, c', u', s') \<Longrightarrow> elsewhere_agrees ts \<Longrightarrow> books_agree s \<Longrightarrow> books_agree s'"
  by (auto simp: run_inner_def handle_postgres_protocol_inner_def dest!: pg_run_agree split: prod.splits)

lemma upstream_leg_agree:
  "upstream_leg cr sc w host s c reads ts = (r, c', u', s') \<Longrightarrow> elsewhere_agrees ts \<Longrightarrow> books_agree s \<Longrightarrow> books_agree s'"
  by (auto simp: upstream_leg_def Let_def dest: run_inner_agree split: if_splits result.splits prod.splits)

lemma connect_silent: "connect_upstream_with_timeout t c = (r, calls) \<Longrightarrow> silent calls"
  by (auto simp: connect_upstream_with_timeout_def split: connect_end.splits)

lemma handle_postgres_agree:
  "handle_postgres_protocol cr sc w host s c ts = (r, c', u', s') \<Longrightarrow> elsewhere_agrees ts \<Longrightarrow> books_agree s \<Longrightarrow> books_agree s'"
  by (auto simp: handle_postgres_protocol_def Let_def dest!: connect_silent dest: upstream_leg_agree
      split: prod.splits option.splits upstream_pool_acquire_error.splits result.splits)

lemma process_postgres_agree:
  "process_postgres_connection cr sc w host s reads ts = (r, c', u', s') \<Longrightarrow> elsewhere_agrees ts \<Longrightarrow> books_agree s \<Longrightarrow>
   books_agree s'"
  by (auto simp: process_postgres_connection_def Let_def dest: handle_postgres_agree
      split: if_splits option.splits connect_end.splits)

text \<open>The same for MySQL, where a verified or rejected client is counted on the way.\<close>

lemma my_client_agree: "books_agree (mq_state ses) \<Longrightarrow> books_agree (mq_state (my_client_msg st m ses))"
  by (simp add: my_client_msg_def log_statement_agree split: my_msg.split)

lemma my_end_of_query_agree [simp]: "books_agree (mq_state (my_end_of_query st m ses)) = books_agree (mq_state ses)"
  by (simp add: my_end_of_query_def split: option.split)

lemma my_upstream_agree: "books_agree (mq_state ses) \<Longrightarrow> books_agree (mq_state (my_upstream_msg cr sc st m ses))"
  by (auto simp: my_upstream_msg_def Let_def dest: rows_agree split: my_msg.split prod.split)

lemma my_turn_agree:
  "my_turn cr sc t ses = (r, ses') \<Longrightarrow> elsewhere_agrees [t] \<Longrightarrow> books_agree (mq_state ses) \<Longrightarrow> books_agree (mq_state ses')"
  by (auto simp: my_turn_def elsewhere_agrees_def Let_def my_client_agree my_upstream_agree
      split: turn.splits prod.splits result.splits option.splits)

lemma my_run_agree:
  "my_run cr sc ts ses = (r, ses') \<Longrightarrow> elsewhere_agrees ts \<Longrightarrow> books_agree (mq_state ses) \<Longrightarrow> books_agree (mq_state ses')"
proof (induction ts arbitrary: ses)
  case (Cons t ts)
  obtain q b where b: "my_turn cr sc t ses = (q, b)" by fastforce
  note e = elsewhere_agrees_Cons [OF Cons.prems(2)]
  have "books_agree (mq_state b)" using my_turn_agree [OF b] e Cons.prems(3) by blast
  with Cons b e show ?case by (cases q) auto
qed simp

lemma login_and_commands_agree:
  "login_and_commands cr sc w host s h resp seq c u ts = (r, c', u', s') \<Longrightarrow> elsewhere_agrees ts \<Longrightarrow> books_agree s \<Longrightarrow>
   books_agree s'"
  by (auto simp: login_and_commands_def Let_def dest!: my_run_agree split: result.splits option.splits prod.splits)

lemma client_auth_silent: "phase_client_auth w resp nonce tls c = (r, c', calls) \<Longrightarrow> silent calls"
  by (auto simp: phase_client_auth_def authenticate_client_def Let_def
      split: option.splits result.splits prod.splits if_splits)

lemma handle_mysql_agree:
  "handle_mysql_protocol cr sc w host s cin uin ts = (r, c', u', s') \<Longrightarrow> elsewhere_agrees ts \<Longrightarrow> books_agree s \<Longrightarrow> books_agree s'"
  by (auto simp: handle_mysql_protocol_def Let_def dest!: client_auth_silent dest: login_and_commands_agree
      split: result.splits option.splits prod.splits)

lemma process_mysql_agree:
  "process_mysql_connection cr sc w host s connected cin ts = (r, legs, s') \<Longrightarrow> elsewhere_agrees ts \<Longrightarrow> books_agree s \<Longrightarrow>
   books_agree s'"
  by (auto simp: process_mysql_connection_def Let_def dest!: connect_silent dest: handle_mysql_agree
      split: result.splits prod.splits)

section \<open>The time of a query\<close>

definition query_times :: "metric_call list \<Rightarrow> float_value list" where
  "query_times calls = concat (map (\<lambda>c. case c of
     Record_Histogram n l v \<Rightarrow> if n = ''ironveil_query_duration_seconds'' then [v] else [] | _ \<Rightarrow> []) calls)"

lemma query_times_append [simp]: "query_times [] = []" "query_times (xs @ ys) = query_times xs @ query_times ys"
  by (simp_all add: query_times_def)

lemma query_times_calls [simp]:
  "query_times record_masking_error = []" "query_times (record_fields_masked n) = []"
  "query_times (record_query_duration p d) = [d]"
  by (simp_all add: query_times_def record_masking_error_def record_fields_masked_def record_query_duration_def)

lemma query_times_row_errors [simp]: "query_times (row_errors ctx targets i vs) = []"
  by (induction ctx targets i vs rule: row_errors.induct) (simp_all add: masking_errors_def)

lemma row_times:
  "on_result_row cr sc st b rr s = (rr', s') \<Longrightarrow> query_times (as_metrics s') = query_times (as_metrics s)"
  by (auto simp: on_result_row_def record_changes_def record_masking_batch_def add_log_def Let_def split: if_splits prod.splits)

lemma untimed_message:
  assumes "mq_query_started_at ses = None"
  shows "mq_query_started_at (my_upstream_msg cr sc st m ses) = None
    \<and> query_times (as_metrics (mq_state (my_upstream_msg cr sc st m ses))) = query_times (as_metrics (mq_state ses))"
  using assms by (auto simp: my_upstream_msg_def my_end_of_query_def Let_def dest: row_times split: my_msg.split prod.split)

lemma untimed_fold:
  "mq_query_started_at ses = None \<Longrightarrow>
   query_times (as_metrics (mq_state (upstream_fold cr sc sms ses))) = query_times (as_metrics (mq_state ses))"
proof (induction sms arbitrary: ses)
  case (Cons sm sms)
  obtain st m where sm: "sm = (st, m)" by fastforce
  from untimed_message [OF Cons.prems, of cr sc st m] Cons.IH [of "my_upstream_msg cr sc st m ses"] show ?case
    by (simp add: sm upstream_fold_def)
qed (simp add: upstream_fold_def)

section \<open>Properties\<close>

text \<open>C19: The metrics and the statistics of the management API agree. In a new state the counters of masked
  fields and of queries in the registry are the totals of the statistics (as 64-bit numbers), and no
  session of either protocol, from the accepted connection to its end, changes that, whatever the two
  sides send, however it ends, and whatever other tasks do that agree themselves.\<close>

theorem metrics_agree_with_statistics:
  assumes "books_agree s" "elsewhere_agrees ts"
  shows "books_agree (app_state_new hash_fn key config path host port protocol)
     \<and> books_agree (snd (snd (snd (process_postgres_connection cr sc pw host s reads ts))))
     \<and> books_agree (snd (snd (process_mysql_connection cr sc mw host s connected reads ts)))"
proof (intro conjI)
  show "books_agree (app_state_new hash_fn key config path host port protocol)"
    by (simp add: books_agree_def fields_counted_def queries_counted_def app_state_new_def default_app_stats_def
        default_masking_stats_def default_query_stats_def masking_total_def)
  show "books_agree (snd (snd (snd (process_postgres_connection cr sc pw host s reads ts))))"
    using process_postgres_agree [OF _ assms(2,1)]
    by (cases "process_postgres_connection cr sc pw host s reads ts") simp
  show "books_agree (snd (snd (process_mysql_connection cr sc mw host s connected reads ts)))"
    using process_mysql_agree [OF _ assms(2,1)]
    by (cases "process_mysql_connection cr sc mw host s connected reads ts") simp
qed

theorem metrics_agree_with_statistics_witness:
  "let s = record_query ''SELECT'' (record_masking_batch [''ip'', ''email''] (test_state [] True));
       w = \<lparr>pw_peek = Done, pw_tls_acceptor = None, pw_upstream_pool = None, pw_connect = Connected [],
            pw_tls_connect = (\<lambda>_ r. Ok r), pw_connection_id = 1\<rparr>;
       s' = snd (snd (snd (process_postgres_connection test_crates test_scanner w ''db'' (test_state [] True) []
              [Elsewhere s, Idle_Timeout]))) in
   books_agree s' \<and> fields_counted s' = 2 \<and> queries_counted s' = 1"
proof -
  define s where "s = record_query ''SELECT'' (record_masking_batch [''ip'', ''email''] (test_state [] True))"
  let ?w = "\<lparr>pw_peek = Done, pw_tls_acceptor = None, pw_upstream_pool = None, pw_connect = Connected [],
            pw_tls_connect = (\<lambda>_ r. Ok r), pw_connection_id = 1\<rparr>"
  let ?s' = "snd (snd (snd (process_postgres_connection test_crates test_scanner ?w ''db'' (test_state [] True) []
              [Elsewhere s, Idle_Timeout])))"
  have b: "books_agree (test_state [] True)"
    by (simp add: books_agree_def fields_counted_def queries_counted_def test_state_def app_state_new_def
        default_app_stats_def default_masking_stats_def default_query_stats_def masking_total_def)
  then have "books_agree s" by (simp add: s_def record_query_agree record_masking_batch_agree)
  then have e: "elsewhere_agrees [Elsewhere s, Idle_Timeout]" by (simp add: elsewhere_agrees_def)
  have t: "\<not> cf_upstream_tls (as_config (test_state [] True))" by (simp add: test_state_def app_state_new_def default_app_config_def)
  have "?s' = metered record_idle_timeout s"
    using t by (simp add: process_postgres_connection_def handle_postgres_protocol_def connect_upstream_with_timeout_def
        upstream_leg_def run_inner_def handle_postgres_protocol_inner_def pg_turn_def Let_def split_beta)
  moreover have "fields_counted (metered record_idle_timeout s) = 2 \<and> queries_counted (metered record_idle_timeout s) = 1"
    by (simp add: s_def fields_counted_def queries_counted_def record_query_def record_masking_batch_def test_state_def
        app_state_new_def record_idle_timeout_def record_fields_masked_def record_query_processed_def)
  moreover have "books_agree ?s'"
    using metrics_agree_with_statistics [OF b e, where cr = test_crates and sc = test_scanner and pw = ?w and host = "''db''" and reads = "[]"] by blast
  ultimately show ?thesis unfolding Let_def s_def [symmetric] by simp
qed

text \<open>C25: The query time of a MySQL session is the time until the column count. The result set that
  answers a query is timed once, at its first packet; neither the rows nor the terminator count,
  however much later they come.\<close>

theorem query_time_is_first_reply:
  assumes "mq_query_started_at ses = Some started"
    and "mc_state c = Command" "mc_is_client_side c" "mc_pending_large c = None" "c = lg_codec (mq_upstream ses)"
    and "0 < length cols" "length cols < 4096" "\<forall>d \<in> set cols. column_ok d" "eof_ok eof"
    and "\<forall>r \<in> set rows. row_ok (length cols) r" "terminator_ok t"
    and "leg_rest (mq_upstream ses) = result_set_bytes (uses_deprecate_eof c) seq cols eof rows t @ x"
    and "length sts = length (result_set_messages (uses_deprecate_eof c) seq cols eof rows t)"
  shows "\<exists>ses'. my_run cr sc (map Upstream_Ready sts) ses = (None, ses')
     \<and> query_times (as_metrics (mq_state ses')) = query_times (as_metrics (mq_state ses)) @ [Duration (snd (hd sts) - started)]"
proof -
  let ?msgs = "result_set_messages (uses_deprecate_eof c) seq cols eof rows t"
  from drain_result_set [OF assms(2-4,6-11)] assms(5,12)
  have l: "leg_messages my_decode (mq_upstream ses) = ?msgs
      @ fst (drain_all my_decode (c\<lparr>mc_column_count := length cols\<rparr>) x)"
    by (simp add: leg_messages_def prepend_def)
  obtain g ms where m: "?msgs = MGeneric g # ms" by (simp add: result_set_messages_def)
  with assms(13) obtain st sts' where sts: "sts = st # sts'" by (cases sts) auto
  let ?b = "my_upstream_msg cr sc st (MGeneric g) ses"
  have "mq_query_started_at ?b = None" "query_times (as_metrics (mq_state ?b))
      = query_times (as_metrics (mq_state ses)) @ [Duration (snd st - started)]"
    using assms(1) by (simp_all add: my_upstream_msg_def my_end_of_query_def ends_query_def record_query_latency_def Let_def)
  with untimed_fold [of ?b cr sc "zip sts' ms"] my_run_upstream [OF l assms(13), of cr sc]
  show ?thesis by (auto simp: m sts upstream_fold_def)
qed

theorem query_time_is_first_reply_witness:
  "let row = \<lparr>rr_sequence_id = 4, rr_values = [Some [0x6A]]\<rparr>; t = \<lparr>gp_sequence_id = 5, gp_payload = [0xfe, 0, 0, 2, 0]\<rparr>;
       ses = (demo_my_session (test_state [] True) [] (result_set_bytes False 1 [demo_column] example_eof [row] t))
               \<lparr>mq_query_started_at := Some 3\<rparr> in
   \<exists>ses'. my_run test_crates test_scanner (map Upstream_Ready ((''i'', 5) # replicate 4 (''j'', 900))) ses = (None, ses')
     \<and> query_times (as_metrics (mq_state ses')) = [Duration 2]"
proof -
  let ?row = "\<lparr>rr_sequence_id = 4, rr_values = [Some [0x6A]]\<rparr>" and ?t = "\<lparr>gp_sequence_id = 5, gp_payload = [0xfe, 0, 0, 2, 0]\<rparr>"
  let ?c = "set_command_state new_client" and ?sts = "(''i'', 5) # replicate 4 (''j'', 900 :: nat)"
  define ses where "ses = (demo_my_session (test_state [] True) [] (result_set_bytes False 1 [demo_column] example_eof [?row] ?t))
      \<lparr>mq_query_started_at := Some 3\<rparr>"
  have d: "uses_deprecate_eof ?c = False" by code_simp
  have f: "mq_query_started_at ses = Some 3" "as_metrics (mq_state ses) = []"
    "mc_state ?c = Command" "mc_is_client_side ?c" "mc_pending_large ?c = None" "lg_codec (mq_upstream ses) = ?c"
    "leg_rest (mq_upstream ses) = result_set_bytes False 1 [demo_column] example_eof [?row] ?t"
    by (simp_all add: ses_def demo_my_session_def demo_my_leg_def leg_rest_def set_command_state_def new_client_def
        test_state_def app_state_new_def)
  have c: "column_ok demo_column" by code_simp
  have "\<exists>ses'. my_run test_crates test_scanner (map Upstream_Ready ?sts) ses = (None, ses')
     \<and> query_times (as_metrics (mq_state ses')) = query_times (as_metrics (mq_state ses)) @ [Duration (snd (hd ?sts) - 3)]"
    by (rule query_time_is_first_reply [where x = "[]" and c = ?c and seq = 1 and cols = "[demo_column]" and eof = example_eof
          and rows = "[?row]" and t = ?t])
       (use f c example_packets in \<open>simp_all add: d row_ok_def terminator_ok_def fits_def result_set_messages_def\<close>)
  then show ?thesis unfolding Let_def ses_def [symmetric] by (simp add: f)
qed

end
