(* ===== verification/Spec2Isabelle.thy ===== *)
theory Spec2Isabelle
  imports No_Panic Confinement Slots Spans Open_Sessions Session_Metrics
begin

text \<open>
  IronVeil, a database proxy that sits between a client and a PostgreSQL or MySQL server and
  replaces personal data in the result rows by deterministic stand-ins.

  How the program is put together (sources under \<^verbatim>\<open>src/src/\<close>). A connection is a session of
  \<^verbatim>\<open>main.rs\<close>: it secures both legs, relays or terminates the login (\<^verbatim>\<open>auth.rs\<close>) and then passes
  messages in both directions. A leg is read by a codec (\<^verbatim>\<open>protocol/postgres.rs\<close>,
  \<^verbatim>\<open>protocol/mysql.rs\<close>), which cuts the byte stream into messages; column descriptions and rows
  go to the connection's interceptor (\<^verbatim>\<open>interceptor.rs\<close>), which selects the masking rules of the
  configuration (\<^verbatim>\<open>config.rs\<close>) and masks each cell, with the detectors of \<^verbatim>\<open>scanner.rs\<close> where no
  rule applies; the messages are encoded again for the other side. The configuration, the masking
  key, statistics, event log and upstream health are the shared \<^verbatim>\<open>AppState\<close> (\<^verbatim>\<open>state.rs\<close>). The
  management API (\<^verbatim>\<open>api.rs\<close>) edits the rules and the configuration, scans a database for
  personal data (\<^verbatim>\<open>db_scanner.rs\<close>) and writes the audit log (\<^verbatim>\<open>audit.rs\<close>).

  Theories, in the order they build on one another:
  \<^item> \<open>Prelude\<close>: results with errors and panics as values, byte order, and the reading operations of
    the byte buffers; \<open>Strings\<close>: UTF-8, trimming, case and number formatting, as the Rust standard
    library has them; \<open>Logs\<close>: the locale of a bounded log; \<open>Json\<close>: JSON values.
  \<^item> \<open>Framing\<close>: the locales \<open>stream_decoder\<close> (a decoder that a longer buffer does not change) and
    \<open>frame_codec\<close> (with an encoder), where reading until the buffer is exhausted is shown not to
    depend on how the stream was cut, once for all codecs.
  \<^item> \<open>MySql_Types\<close>, \<open>MySql_Packets\<close>, \<open>MySql_Codec\<close>: the message types, the packet parsers and encoders
    and the codec state machine of \<^verbatim>\<open>protocol/mysql.rs\<close>; \<open>MySql_Roundtrips\<close> and \<open>MySql_Stream\<close>
    show that encoders and parsers are inverse and that streams are decoded and forwarded.
  \<^item> \<open>Pg_Codec\<close>, \<open>Pg_Stream\<close>: the same for \<^verbatim>\<open>protocol/postgres.rs\<close>.
  \<^item> \<open>Config\<close>: the configuration records, their validation and resolution.
  \<^item> \<open>Scanner\<close>: detection order, Luhn check, replacement of spans, for any regular expressions;
    \<open>Detectors\<close>: the patterns the code compiles, a matcher for them that is shown to decide the
    language of a pattern, what each accepts and what that means for a cell; \<open>Spans\<close>: the two
    unanchored patterns and the search for them in free text, what it finds and what it misses.
  \<^item> \<open>Masking\<close>, \<open>Interceptor\<close>: masking a cell; selecting rules and masking rows. Functions ending in
    \<open>_run\<close> are the code with its slices, which can panic, and are what the sessions call; they are
    shown to return the value of the function without the ending, over which the properties speak.
  \<^item> \<open>State\<close>, \<open>Audit_Log\<close>: the shared state and the audit log, with a file system that may fail at
    any call, the tests \<^verbatim>\<open>exists\<close> and \<^verbatim>\<open>metadata\<close> included, and may leave part of a line behind.
  \<^item> \<open>Rules\<close>: the edits of the rule list as a map from normalised keys; \<open>Db_Scanner\<close>: the scan of a
    database; \<open>Api\<close>: request authentication, the bind guard, the routes and their handlers.
  \<^item> \<open>Auth\<close>: scrambles, their verification, nonces, authentication packets and the RSA reply.
  \<^item> \<open>Session_Util\<close>: a leg of a connection, the login deadline, log redaction, error packets;
    \<open>Pg_Session\<close>: \<^verbatim>\<open>process_postgres_connection\<close> to the relay loop; \<open>MySql_Login\<close>,
    \<open>MySql_Session\<close>: the same for MySQL. \<open>Pg_Relay\<close> and \<open>MySql_Relay\<close> compose all of the above: what
    reaches either side of a session, in which order, masked how and under which protection (for
    MySQL, in \<open>MySql_Tls\<close>, with the upstream password and the number of login packets). \<open>No_Panic\<close> shows that no session of either protocol panics;
    \<open>Confinement\<close>, with the detectors and the relays (whose locales \<open>pg_watch\<close> and \<open>my_watch\<close> carry over
    to a whole session what masking does to every row), that social security numbers in rows do not cross one;
    \<open>Open_Sessions\<close>, what an edit of the rules does to a PostgreSQL session that is already open; \<open>Session_Metrics\<close>, that
    what sessions tell the metrics agrees with the statistics, and what a query time is the time of.
  \<^item> \<open>Startup\<close>: the first half of \<^verbatim>\<open>main\<close>, from the command line, environment and file to what the
    process runs with, the TLS policy towards clients and the task of the management API included; \<open>Supervisor\<close>: the accept loop with
    its limits as a step relation, the drain at shutdown, the health probe and the configuration
    watcher.
  \<^item> \<open>Metric_Calls\<close>, \<open>Telemetry\<close>: \<^verbatim>\<open>metrics.rs\<close> and \<^verbatim>\<open>telemetry.rs\<close> as the calls they make of their
    libraries. \<open>Slots\<close>: the accept loop once more, with its two semaphores, the pool of upstream slots
    (\<^verbatim>\<open>UpstreamSlotManager\<close>) and the metrics it emits; it refines \<open>Supervisor\<close>, where what a
    semaphore answers is part of the event.

  Conventions. Bytes are 8-bit words, buffers and \<^verbatim>\<open>Bytes\<close> values lists of them, a Rust \<^verbatim>\<open>String\<close> is
  a list of characters holding its UTF-8 bytes, \<^verbatim>\<open>usize\<close> is \<open>nat\<close>, the other integers are words
  of their width. A decoder returns its result, its new state and what is left of the buffer.
  A panic is a value, \<open>Panic\<close>, so that its absence can be proved. Third-party code (regex,
  SHA-2, RSA, fake data, serde, SQL client, TLS, file system, YAML) is an argument of the
  definitions that use it; random bytes, identifiers and the clock are arguments, too. The text
  of some error messages is shortened. A \<^verbatim>\<open>select!\<close> over the two legs, the idle timer and the
  shutdown token is a list of turns, so a statement for every list holds for every schedule; a
  turn \<open>Elsewhere\<close> is whatever other tasks do to the shared state in between.

  Bounds. The only fuel is that of \<open>drain\<close>, which reads messages until the decoder waits; every
  message consumes input, and \<open>drain_all\<close> gives it the length of the buffer plus one. The login
  loops stop after \<open>MAX_AUTH_ROUNDS\<close> = 20 rounds, as the code does; the table-map loop ends because
  every message shortens what is left of the stream.

  Not modelled: sockets, timers and task scheduling (which interleaving happens, that writes
  complete), the locks of the shared state (each operation is one step, also where the code does part of
  it outside the lock, as \<open>commit_config\<close> its file writes and the drop of a lease its gauge), the offsets
  inside matches of the regex engine (taken as documented), the inside of TLS, the signature check of a token, which characters outside
  ASCII are digits (a parameter of the patterns), HTTP and serde, and tracing. The registry behind the metrics is a library:
  what is modelled is the list of calls to it, kept in the shared state for sessions, login and health
  check, and in \<open>Slots\<close> for the accept loop and the pool. The clock that stamps log entries also times
  queries. The semaphores are arguments with the laws \<open>semaphore_ok\<close>.
\<close>

end
